(* ===== verification/Prelude.thy ===== *)
theory Prelude
  imports Complex_Main "HOL-Library.List_Lexorder" "HOL-Library.Char_ord"
begin

text \<open>
  What every component theory shares: the development's collections of rewrite rules, the
  combinators for fallible results, and the operations of Rust's \<open>str\<close> and \<open>char\<close> that the
  sources under \<open>src/src/\<close> call. A Rust string is its UTF-8 byte sequence, so a value of type
  \<open>string\<close> is a list of bytes and \<open>length\<close> is \<open>str::len\<close>.
\<close>

section \<open>Collections\<close>

named_theorems str_simps \<open>rewrite rules for the string operations of the sources\<close>
named_theorems chain_simps \<open>rewrite rules for namespaces and ancestor chains\<close>
named_theorems result_simps \<open>rewrite rules for fallible results\<close>

section \<open>Fallible results\<close>

text \<open>
  \<open>Result<T, E>\<close> is \<open>'e + 'a\<close>, the error on the left. \<open>rbind r f\<close> is the \<open>?\<close> operator followed
  by the rest of the body.
\<close>

definition rbind :: "'e + 'a \<Rightarrow> ('a \<Rightarrow> 'e + 'b) \<Rightarrow> 'e + 'b" where
  "rbind r f = (case r of Inl e \<Rightarrow> Inl e | Inr a \<Rightarrow> f a)"

definition map_err :: "('e \<Rightarrow> 'f) \<Rightarrow> 'e + 'a \<Rightarrow> 'f + 'a" where
  "map_err g r = (case r of Inl e \<Rightarrow> Inl (g e) | Inr a \<Rightarrow> Inr a)"

lemma rbind_simps [simp, result_simps]:
  "rbind (Inl e) f = Inl e"
  "rbind (Inr a) f = f a"
  by (simp_all add: rbind_def)

lemma map_err_simps [simp, result_simps]:
  "map_err g (Inl e) = Inl (g e)"
  "map_err g (Inr a) = Inr a"
  by (simp_all add: map_err_def)

lemma rbind_Inr_iff [result_simps]:
  "rbind r f = Inr b \<longleftrightarrow> (\<exists>a. r = Inr a \<and> f a = Inr b)"
  by (cases r) auto

lemma rbind_Inl_iff [result_simps]:
  "rbind r f = Inl e \<longleftrightarrow> r = Inl e \<or> (\<exists>a. r = Inr a \<and> f a = Inl e)"
  by (cases r) auto

lemma map_err_Inr_iff [simp, result_simps]: "map_err g r = Inr a \<longleftrightarrow> r = Inr a"
  by (cases r) auto

lemma rbind_cong [fundef_cong]:
  "r = r' \<Longrightarrow> (\<And>a. r' = Inr a \<Longrightarrow> f a = f' a) \<Longrightarrow> rbind r f = rbind r' f'"
  by (cases r') auto

text \<open>The collecting \<open>iter().map(f).collect::<Result<Vec<_>, _>>()\<close>: the first error wins.\<close>

fun traverse :: "('a \<Rightarrow> 'e + 'b) \<Rightarrow> 'a list \<Rightarrow> 'e + 'b list" where
  "traverse f [] = Inr []"
| "traverse f (x # xs) = rbind (f x) (\<lambda>y. rbind (traverse f xs) (\<lambda>ys. Inr (y # ys)))"

lemma traverse_Inr_iff:
  "traverse f xs = Inr ys \<longleftrightarrow> list_all2 (\<lambda>x y. f x = Inr y) xs ys"
  by (induction xs arbitrary: ys) (auto simp: rbind_Inr_iff list_all2_Cons1)

lemma traverse_total:
  "(\<And>x. x \<in> set xs \<Longrightarrow> \<exists>y. f x = Inr y) \<Longrightarrow> \<exists>ys. traverse f xs = Inr ys"
proof (induction xs)
  case Nil
  show ?case by simp
next
  case (Cons x xs)
  from Cons.prems obtain y where "f x = Inr y" by auto
  moreover from Cons obtain ys where "traverse f xs = Inr ys" by auto
  ultimately show ?case by simp
qed

text \<open>A \<open>for\<close> loop over a list whose body may return early with an error.\<close>

fun rfold :: "('a \<Rightarrow> 's \<Rightarrow> 'e + 's) \<Rightarrow> 'a list \<Rightarrow> 's \<Rightarrow> 'e + 's" where
  "rfold f [] s = Inr s"
| "rfold f (x # xs) s = rbind (f x s) (\<lambda>s. rfold f xs s)"

lemma rfold_cong [fundef_cong]:
  "xs = ys \<Longrightarrow> s = t \<Longrightarrow> (\<And>x s. x \<in> set ys \<Longrightarrow> f x s = g x s) \<Longrightarrow> rfold f xs s = rfold g ys t"
  by (induction ys arbitrary: xs s t) (auto intro: rbind_cong)

text \<open>A loop that only collects: the result is what was there and what each turn adds.\<close>

lemma rfold_collects:
  assumes "\<And>x s s'. x \<in> set xs \<Longrightarrow> f x s = Inr s' \<Longrightarrow> set s' = set s \<union> A x"
  shows "rfold f xs s = Inr s' \<Longrightarrow> set s' = set s \<union> (\<Union>x \<in> set xs. A x)"
  using assms
proof (induction xs arbitrary: s)
  case (Cons x xs)
  from Cons.prems(1) obtain t where t: "f x s = Inr t" "rfold f xs t = Inr s'"
    by (auto simp: rbind_Inr_iff)
  have "set s' = set t \<union> (\<Union>x \<in> set xs. A x)"
    using Cons.prems(2) by (intro Cons.IH [OF t(2)]) auto
  moreover have "set t = set s \<union> A x" by (rule Cons.prems(2) [OF _ t(1)]) simp
  ultimately show ?case by auto
qed simp

lemma rfold_error: "rfold f xs s = Inl e \<Longrightarrow> \<exists>x \<in> set xs. \<exists>t. f x t = Inl e"
  by (induction xs arbitrary: s) (auto simp: rbind_Inl_iff)

text \<open>Whether a loop succeeds, when that does not depend on the state.\<close>

lemma rfold_succeeds:
  assumes "\<And>x s. x \<in> set xs \<Longrightarrow> (\<exists>s'. f x s = Inr s') \<longleftrightarrow> P x"
  shows "(\<exists>s'. rfold f xs s = Inr s') \<longleftrightarrow> (\<forall>x \<in> set xs. P x)"
  using assms
proof (induction xs arbitrary: s)
  case (Cons x xs)
  show ?case
  proof (cases "f x s")
    case (Inl e)
    moreover have "\<not> P x" using Cons.prems [of x s] Inl by auto
    ultimately show ?thesis by simp
  next
    case (Inr t)
    moreover have "P x" using Cons.prems [of x s] Inr by auto
    moreover have "(\<exists>s'. rfold f xs t = Inr s') \<longleftrightarrow> (\<forall>x \<in> set xs. P x)"
      by (rule Cons.IH) (rule Cons.prems, simp)
    ultimately show ?thesis by simp
  qed
qed simp

section \<open>Bytes and ASCII classes\<close>

definition byte :: "char \<Rightarrow> nat" where
  "byte c = of_char c"

definition is_ascii :: "char \<Rightarrow> bool" where
  "is_ascii c \<longleftrightarrow> byte c < 128"

definition is_digit :: "char \<Rightarrow> bool" where
  "is_digit c \<longleftrightarrow> 48 \<le> byte c \<and> byte c \<le> 57"

definition is_alpha :: "char \<Rightarrow> bool" where
  "is_alpha c \<longleftrightarrow> 65 \<le> byte c \<and> byte c \<le> 90 \<or> 97 \<le> byte c \<and> byte c \<le> 122"

definition is_alnum :: "char \<Rightarrow> bool" where
  "is_alnum c \<longleftrightarrow> is_alpha c \<or> is_digit c"

text \<open>The characters of the DSL's \<open>ident\<close> production and of the name grammar.\<close>

definition is_ident_start :: "char \<Rightarrow> bool" where
  "is_ident_start c \<longleftrightarrow> is_alpha c \<or> c = CHR ''_''"

definition is_ident_char :: "char \<Rightarrow> bool" where
  "is_ident_char c \<longleftrightarrow> is_alnum c \<or> c = CHR ''_'' \<or> c = CHR ''-''"

lemma is_ident_start_char: "is_ident_start c \<Longrightarrow> is_ident_char c"
  by (auto simp: is_ident_start_def is_ident_char_def is_alnum_def)

lemma byte_inject: "byte c = byte d \<longleftrightarrow> c = d"
  unfolding byte_def by (rule of_char_eq_iff)

lemma is_digit_ascii: "is_digit c \<Longrightarrow> is_ascii c"
  by (simp add: is_digit_def is_ascii_def)

lemma is_ident_char_ascii: "is_ident_char c \<Longrightarrow> is_ascii c"
  by (auto simp: is_ident_char_def is_alnum_def is_alpha_def is_digit_def is_ascii_def byte_def)

text \<open>\<open>to_ascii_lowercase\<close> on one byte, and \<open>eq_ignore_ascii_case\<close>.\<close>

definition ascii_lower_char :: "char \<Rightarrow> char" where
  "ascii_lower_char c = (if 65 \<le> byte c \<and> byte c \<le> 90 then char_of (byte c + 32) else c)"

definition ascii_lower :: "string \<Rightarrow> string" where
  "ascii_lower s = map ascii_lower_char s"

definition eq_ignore_ascii_case :: "string \<Rightarrow> string \<Rightarrow> bool" where
  "eq_ignore_ascii_case a b \<longleftrightarrow> ascii_lower a = ascii_lower b"

section \<open>Splitting and stripping\<close>

fun split_once :: "char \<Rightarrow> string \<Rightarrow> (string \<times> string) option" where
  "split_once c [] = None"
| "split_once c (x # xs) =
     (if x = c then Some ([], xs) else map_option (\<lambda>(a, b). (x # a, b)) (split_once c xs))"

definition rsplit_once :: "char \<Rightarrow> string \<Rightarrow> (string \<times> string) option" where
  "rsplit_once c s = map_option (\<lambda>(a, b). (rev b, rev a)) (split_once c (rev s))"

text \<open>\<open>splitn(2, c)\<close> with its two \<open>next().unwrap_or("")\<close>.\<close>

definition splitn2 :: "char \<Rightarrow> string \<Rightarrow> string \<times> string" where
  "splitn2 c s = (case split_once c s of None \<Rightarrow> (s, []) | Some p \<Rightarrow> p)"

fun split_on :: "char \<Rightarrow> string \<Rightarrow> string list" where
  "split_on c [] = [[]]"
| "split_on c (x # xs) =
     (if x = c then [] # split_on c xs
      else (case split_on c xs of [] \<Rightarrow> [[x]] | w # ws \<Rightarrow> (x # w) # ws))"

fun strip_prefix :: "string \<Rightarrow> string \<Rightarrow> string option" where
  "strip_prefix [] s = Some s"
| "strip_prefix (p # ps) [] = None"
| "strip_prefix (p # ps) (x # xs) = (if p = x then strip_prefix ps xs else None)"

definition strip_suffix :: "string \<Rightarrow> string \<Rightarrow> string option" where
  "strip_suffix p s = map_option rev (strip_prefix (rev p) (rev s))"

definition starts_with :: "string \<Rightarrow> string \<Rightarrow> bool" where
  "starts_with p s \<longleftrightarrow> strip_prefix p s \<noteq> None"

definition ends_with :: "string \<Rightarrow> string \<Rightarrow> bool" where
  "ends_with p s \<longleftrightarrow> strip_suffix p s \<noteq> None"

fun contains_str :: "string \<Rightarrow> string \<Rightarrow> bool" where
  "contains_str p [] = (p = [])"
| "contains_str p (x # xs) = (starts_with p (x # xs) \<or> contains_str p xs)"

lemma split_once_None [str_simps]: "split_once c s = None \<longleftrightarrow> c \<notin> set s"
  by (induction s) auto

lemma split_once_SomeD: "split_once c s = Some (a, b) \<Longrightarrow> s = a @ c # b \<and> c \<notin> set a"
  by (induction s arbitrary: a b) (auto split: if_splits)

lemma split_once_append [str_simps]: "c \<notin> set a \<Longrightarrow> split_once c (a @ c # b) = Some (a, b)"
  by (induction a) auto

lemma rsplit_once_None [str_simps]: "rsplit_once c s = None \<longleftrightarrow> c \<notin> set s"
  by (simp add: rsplit_once_def split_once_None)

lemma rsplit_once_SomeD:
  assumes "rsplit_once c s = Some (a, b)"
  shows "s = a @ c # b \<and> c \<notin> set b"
proof -
  from assms have "split_once c (rev s) = Some (rev b, rev a)"
    by (auto simp: rsplit_once_def)
  then have r: "rev s = rev b @ c # rev a" "c \<notin> set (rev b)"
    by (auto dest: split_once_SomeD)
  have "s = rev (rev b @ c # rev a)" using r(1) by (metis rev_rev_ident)
  with r(2) show ?thesis by simp
qed

lemma rsplit_once_append [str_simps]: "c \<notin> set b \<Longrightarrow> rsplit_once c (a @ c # b) = Some (a, b)"
  by (simp add: rsplit_once_def split_once_append)

lemma splitn2_append [str_simps]: "c \<notin> set a \<Longrightarrow> splitn2 c (a @ c # b) = (a, b)"
  by (simp add: splitn2_def split_once_append)

lemma splitn2_none [str_simps]: "c \<notin> set a \<Longrightarrow> splitn2 c a = (a, [])"
  by (simp add: splitn2_def split_once_None [THEN iffD2])

lemma strip_prefix_Some [str_simps]: "strip_prefix p s = Some r \<longleftrightarrow> s = p @ r"
  by (induction p s rule: strip_prefix.induct) auto

lemma strip_prefix_append [simp]: "strip_prefix p (p @ r) = Some r"
  by (simp add: strip_prefix_Some)

lemma strip_suffix_Some [str_simps]: "strip_suffix p s = Some r \<longleftrightarrow> s = r @ p"
proof -
  have "strip_suffix p s = Some r \<longleftrightarrow> strip_prefix (rev p) (rev s) = Some (rev r)"
    by (auto simp: strip_suffix_def)
  also have "\<dots> \<longleftrightarrow> s = r @ p"
    by (metis rev_append rev_rev_ident strip_prefix_Some)
  finally show ?thesis .
qed

lemma strip_suffix_append [simp]: "strip_suffix p (r @ p) = Some r"
  by (simp add: strip_suffix_Some)

lemma starts_with_iff [str_simps]: "starts_with p s \<longleftrightarrow> (\<exists>r. s = p @ r)"
  by (auto simp: starts_with_def strip_prefix_Some)

lemma ends_with_iff [str_simps]: "ends_with p s \<longleftrightarrow> (\<exists>r. s = r @ p)"
  by (auto simp: ends_with_def strip_suffix_Some)

lemma contains_str_iff: "contains_str p s \<longleftrightarrow> (\<exists>a b. s = a @ p @ b)"
proof (induction s)
  case Nil
  show ?case by auto
next
  case (Cons x xs)
  have "(\<exists>a b. x # xs = a @ p @ b) \<longleftrightarrow> (\<exists>b. x # xs = p @ b) \<or> (\<exists>a b. xs = a @ p @ b)"
    by (metis append_Cons append_Nil neq_Nil_conv list.inject)
  with Cons.IH show ?case by (simp add: starts_with_iff)
qed

lemma split_on_nonempty [simp]: "split_on c s \<noteq> []"
  by (induction s) (auto split: list.splits)

lemma split_on_no_sep: "w \<in> set (split_on c s) \<Longrightarrow> c \<notin> set w"
  by (induction s arbitrary: w) (auto split: list.splits if_splits)

lemma split_on_atom: "c \<notin> set s \<Longrightarrow> split_on c s = [s]"
  by (induction s) auto

lemma split_on_append: "c \<notin> set a \<Longrightarrow> split_on c (a @ c # b) = a # split_on c b"
  by (induction a) auto

section \<open>White space\<close>

text \<open>
  \<open>str::trim\<close> removes characters with the Unicode property \<open>White_Space\<close>, listed here by their
  UTF-8 encodings. A well-formed UTF-8 string ends in one of these byte sequences exactly when
  its last character is white space.
\<close>

definition ws_codes :: "nat list list" where
  "ws_codes =
     [[9], [10], [11], [12], [13], [32], [194, 133], [194, 160], [225, 154, 128]]
     @ map (\<lambda>k. [226, 128, k]) [128, 129, 130, 131, 132, 133, 134, 135, 136, 137, 138, 168, 169, 175]
     @ [[226, 129, 159], [227, 128, 128]]"

definition ws_encodings :: "string list" where
  "ws_encodings = map (map char_of) ws_codes"

fun strip_first :: "string list \<Rightarrow> string \<Rightarrow> string option" where
  "strip_first [] s = None"
| "strip_first (p # ps) s =
     (case strip_prefix p s of Some r \<Rightarrow> Some r | None \<Rightarrow> strip_first ps s)"

lemma strip_first_SomeD: "strip_first ps s = Some r \<Longrightarrow> \<exists>p \<in> set ps. s = p @ r"
  by (induction ps) (auto simp: strip_prefix_Some split: option.splits)

lemma ws_encodings_nonempty: "p \<in> set ws_encodings \<Longrightarrow> p \<noteq> []"
  by (auto simp: ws_encodings_def ws_codes_def)

function trim_with :: "string list \<Rightarrow> string \<Rightarrow> string" where
  "trim_with ps s =
     (case strip_first (filter (\<lambda>p. p \<noteq> []) ps) s of None \<Rightarrow> s | Some r \<Rightarrow> trim_with ps r)"
  by pat_completeness auto
termination
proof (relation "measure (\<lambda>(ps, s). length s)", goal_cases)
  case 1
  show ?case by simp
next
  case (2 ps s r)
  then obtain p where "p \<noteq> []" "s = p @ r"
    by (auto dest!: strip_first_SomeD)
  then show ?case by simp
qed

declare trim_with.simps [simp del]

definition trim_start :: "string \<Rightarrow> string" where
  "trim_start s = trim_with ws_encodings s"

definition trim_end :: "string \<Rightarrow> string" where
  "trim_end s = rev (trim_with (map rev ws_encodings) (rev s))"

definition trim :: "string \<Rightarrow> string" where
  "trim s = trim_end (trim_start s)"

text \<open>A string whose first and last bytes are neither ASCII white space nor non-ASCII is left alone.\<close>

definition solid :: "char \<Rightarrow> bool" where
  "solid c \<longleftrightarrow> 32 < byte c \<and> byte c < 128"

lemma byte_char_of_small: "n < 256 \<Longrightarrow> byte (char_of n) = n"
  by (simp add: byte_def of_char_of)

lemma ws_first_not_solid: "p \<in> set ws_encodings \<Longrightarrow> p = c # r \<Longrightarrow> \<not> solid c"
  by (auto simp: ws_encodings_def ws_codes_def solid_def byte_char_of_small)

lemma ws_last_not_solid: "p \<in> set ws_encodings \<Longrightarrow> p = r @ [c] \<Longrightarrow> \<not> solid c"
proof -
  assume "p \<in> set ws_encodings" "p = r @ [c]"
  then have "c = last p" by simp
  moreover have "\<forall>p \<in> set ws_encodings. \<not> solid (last p)"
    by (simp add: ws_encodings_def ws_codes_def solid_def byte_char_of_small)
  ultimately show ?thesis using \<open>p \<in> set ws_encodings\<close> by blast
qed

lemma trim_with_stop:
  "(\<And>p. p \<in> set ps \<Longrightarrow> p \<noteq> [] \<Longrightarrow> strip_prefix p s = None) \<Longrightarrow> trim_with ps s = s"
proof -
  assume a: "\<And>p. p \<in> set ps \<Longrightarrow> p \<noteq> [] \<Longrightarrow> strip_prefix p s = None"
  have "strip_first (filter (\<lambda>p. p \<noteq> []) ps) s = None"
  proof (rule ccontr)
    assume "strip_first (filter (\<lambda>p. p \<noteq> []) ps) s \<noteq> None"
    then obtain r where "strip_first (filter (\<lambda>p. p \<noteq> []) ps) s = Some r" by auto
    from strip_first_SomeD [OF this] obtain p where "p \<in> set ps" "p \<noteq> []" "s = p @ r" by auto
    with a [of p] show False by simp
  qed
  then show ?thesis by (subst trim_with.simps) simp
qed

lemma trim_start_solid: "solid c \<Longrightarrow> trim_start (c # s) = c # s"
  unfolding trim_start_def
proof (rule trim_with_stop)
  fix p
  assume "solid c" "p \<in> set ws_encodings" "p \<noteq> []"
  then show "strip_prefix p (c # s) = None"
    by (cases p) (auto dest: ws_first_not_solid)
qed

lemma trim_end_solid:
  assumes c: "solid c"
  shows "trim_end (s @ [c]) = s @ [c]"
proof -
  have "trim_with (map rev ws_encodings) (c # rev s) = c # rev s"
  proof (rule trim_with_stop)
    fix p
    assume "p \<in> set (map rev ws_encodings)" "p \<noteq> []"
    then obtain q where q: "q \<in> set ws_encodings" "p = rev q" by auto
    with \<open>p \<noteq> []\<close> obtain r d where "q = r @ [d]" by (cases q rule: rev_cases) auto
    with q c show "strip_prefix p (c # rev s) = None"
      by (auto dest: ws_last_not_solid)
  qed
  then show ?thesis by (simp add: trim_end_def)
qed

lemma trim_solid:
  assumes "s = [] \<or> solid (hd s) \<and> solid (last s)"
  shows "trim s = s"
proof (cases s)
  case Nil
  then show ?thesis
    by (simp add: trim_def trim_start_def trim_end_def trim_with.simps ws_encodings_def ws_codes_def)
next
  case (Cons c r)
  with assms have "solid c" "solid (last s)" by auto
  have "trim_start s = s" using Cons \<open>solid c\<close> by (simp add: trim_start_solid)
  moreover have "trim_end (butlast s @ [last s]) = butlast s @ [last s]"
    using \<open>solid (last s)\<close> by (rule trim_end_solid)
  then have "trim_end s = s" using Cons by (metis append_butlast_last_id list.distinct(1))
  ultimately show ?thesis by (simp add: trim_def)
qed

section \<open>Lists\<close>

lemma takeWhile_stop: "(\<forall>x \<in> set xs. P x) \<Longrightarrow> ys = [] \<or> \<not> P (hd ys) \<Longrightarrow>
  takeWhile P (xs @ ys) = xs \<and> dropWhile P (xs @ ys) = ys"
  by (induction xs) (cases ys, auto)+

lemma distinct_filter_append: "distinct (xs @ ys) \<longleftrightarrow> distinct xs \<and> distinct ys \<and> set xs \<inter> set ys = {}"
  by (rule distinct_append)

text \<open>Finding in association lists and filtered maps.\<close>

lemma map_filter_set: "set (List.map_filter f xs) = {y. \<exists>x\<in>set xs. f x = Some y}"
  by (force simp: List.map_filter_def image_iff)

lemma map_of_found: "map_of m k \<noteq> None \<longleftrightarrow> (\<exists>v. (k, v) \<in> set m)"
  by (force simp: map_of_eq_None_iff)

lemma snd_found: "map_option snd found = Some d \<longleftrightarrow> (\<exists>key. found = Some (key, d))"
  by auto

end
