(* ===== verification/F64.thy ===== *)
theory F64
  imports Prelude
begin

text \<open>
  Rust's \<open>f64\<close> as far as the sources use it: the values, the rounding of an exact value to the
  nearest representable one (ties to even), \<open>str::parse\<close> on the decimal literals the lexer cuts,
  \<open>fract\<close>, \<open>is_finite\<close>, comparison, and the saturating casts to \<open>usize\<close> and \<open>i64\<close>. A finite value
  is its exact rational; the two zeros are one value, which no operation used here tells apart.
\<close>

section \<open>Values\<close>

datatype f64 = Fin rat | Inf bool | NaN

definition f64_eq :: "f64 \<Rightarrow> f64 \<Rightarrow> bool" where
  "f64_eq a b \<longleftrightarrow> a \<noteq> NaN \<and> a = b"

fun f64_lt :: "f64 \<Rightarrow> f64 \<Rightarrow> bool" where
  "f64_lt NaN b = False"
| "f64_lt a NaN = False"
| "f64_lt (Fin x) (Fin y) = (x < y)"
| "f64_lt (Fin x) (Inf neg) = (\<not> neg)"
| "f64_lt (Inf neg) (Fin y) = neg"
| "f64_lt (Inf m) (Inf n) = (m \<and> \<not> n)"

definition f64_le :: "f64 \<Rightarrow> f64 \<Rightarrow> bool" where
  "f64_le a b \<longleftrightarrow> f64_lt a b \<or> f64_eq a b"

definition f64_is_finite :: "f64 \<Rightarrow> bool" where
  "f64_is_finite a = (case a of Fin x \<Rightarrow> True | _ \<Rightarrow> False)"

text \<open>\<open>fract() != 0.0\<close>: an infinity's fraction is NaN, which differs from zero.\<close>

definition f64_has_fract :: "f64 \<Rightarrow> bool" where
  "f64_has_fract a = (case a of Fin x \<Rightarrow> x \<noteq> of_int \<lfloor>x\<rfloor> | _ \<Rightarrow> True)"

section \<open>Rounding\<close>

definition round_half_even :: "rat \<Rightarrow> int" where
  "round_half_even q =
     (let f = \<lfloor>q\<rfloor>; d = q - of_int f
      in if d < 1 / 2 then f else if 1 / 2 < d then f + 1 else if even f then f else f + 1)"

fun bit_len :: "nat \<Rightarrow> nat" where
  "bit_len n = (if n = 0 then 0 else Suc (bit_len (n div 2)))"

declare bit_len.simps [simp del]

text \<open>The exponent \<open>e\<close> with \<open>2^e \<le> x < 2^(e+1)\<close> of a positive rational.\<close>

definition floor_log2 :: "rat \<Rightarrow> int" where
  "floor_log2 x =
     (let (p, q) = quotient_of x; e = int (bit_len (nat p)) - int (bit_len (nat q))
      in if (2::rat) powi e \<le> x then e else e - 1)"

text \<open>Nearest representable value: 53 bits of significand, least exponent -1022, overflow to infinity.\<close>

definition f64_round :: "rat \<Rightarrow> f64" where
  "f64_round x =
     (if x = 0 then Fin 0
      else
        (let e = max (floor_log2 \<bar>x\<bar>) (- 1022);
             ulp = (2::rat) powi (e - 52);
             y = of_int (round_half_even (\<bar>x\<bar> / ulp)) * ulp
         in if 2 ^ 1024 \<le> y then Inf (x < 0) else Fin (sgn x * y)))"

section \<open>Decimal literals\<close>

fun digits_val :: "nat \<Rightarrow> string \<Rightarrow> nat" where
  "digits_val acc [] = acc"
| "digits_val acc (c # cs) = digits_val (10 * acc + (byte c - 48)) cs"

definition all_digits :: "string \<Rightarrow> bool" where
  "all_digits s \<longleftrightarrow> s \<noteq> [] \<and> list_all is_digit s"

text \<open>\<open>str::parse::<f64>\<close> on \<open>[-] digits [. digits]\<close>, the only shape the lexer passes to it.\<close>

definition parse_unsigned :: "string \<Rightarrow> rat option" where
  "parse_unsigned s =
     (case split_once (CHR ''.'') s of
        None \<Rightarrow> if all_digits s then Some (of_nat (digits_val 0 s)) else None
      | Some (a, b) \<Rightarrow>
          if all_digits a \<and> all_digits b
          then Some (of_nat (digits_val 0 (a @ b)) / 10 ^ length b) else None)"

definition parse_f64 :: "string \<Rightarrow> f64 option" where
  "parse_f64 s =
     (case s of
        [] \<Rightarrow> None
      | c # r \<Rightarrow>
          if c = CHR ''-'' then map_option (\<lambda>x. f64_round (- x)) (parse_unsigned r)
          else map_option f64_round (parse_unsigned s))"

section \<open>Casts\<close>

definition usize_max :: nat where "usize_max = 2 ^ 64 - 1"

text \<open>\<open>n as usize\<close> and \<open>n as i64\<close> truncate toward zero and saturate; NaN becomes zero.\<close>

definition trunc_rat :: "rat \<Rightarrow> int" where
  "trunc_rat x = (if x < 0 then - \<lfloor>- x\<rfloor> else \<lfloor>x\<rfloor>)"

definition f64_as_usize :: "f64 \<Rightarrow> nat" where
  "f64_as_usize a =
     (case a of
        Fin x \<Rightarrow> min (nat (trunc_rat x)) usize_max
      | Inf neg \<Rightarrow> if neg then 0 else usize_max
      | NaN \<Rightarrow> 0)"

definition i64_min :: int where "i64_min = - (2 ^ 63)"

definition i64_max :: int where "i64_max = 2 ^ 63 - 1"

definition f64_as_i64 :: "f64 \<Rightarrow> int" where
  "f64_as_i64 a =
     (case a of
        Fin x \<Rightarrow> max i64_min (min i64_max (trunc_rat x))
      | Inf neg \<Rightarrow> if neg then i64_min else i64_max
      | NaN \<Rightarrow> 0)"

section \<open>Facts\<close>

lemma f64_eq_refl: "f64_is_finite a \<Longrightarrow> f64_eq a a"
  by (cases a) (auto simp: f64_eq_def f64_is_finite_def)

lemma f64_eq_sym: "f64_eq a b \<Longrightarrow> f64_eq b a"
  by (auto simp: f64_eq_def)

lemma f64_lt_irrefl: "\<not> f64_lt a a"
  by (cases a) auto

lemma f64_lt_trans: "f64_lt a b \<Longrightarrow> f64_lt b c \<Longrightarrow> f64_lt a c"
  by (cases a; cases b; cases c) auto

lemma f64_trichotomy:
  "a \<noteq> NaN \<Longrightarrow> b \<noteq> NaN \<Longrightarrow> f64_lt a b \<or> f64_eq a b \<or> f64_lt b a"
  by (cases a; cases b) (auto simp: f64_eq_def)

lemma round_half_even_int: "round_half_even (of_int n) = n"
  by (simp add: round_half_even_def)

lemma bit_len_upper: "n < 2 ^ bit_len n"
proof (induction n rule: bit_len.induct)
  case (1 n)
  show ?case
  proof (cases "n = 0")
    case True
    then show ?thesis by (simp add: bit_len.simps)
  next
    case False
    with 1 have "n div 2 < 2 ^ bit_len (n div 2)" by simp
    then have "n < 2 * 2 ^ bit_len (n div 2)" by arith
    with False show ?thesis by (subst bit_len.simps) simp
  qed
qed

lemma bit_len_lower: "0 < n \<Longrightarrow> 2 ^ (bit_len n - 1) \<le> n"
proof (induction n rule: bit_len.induct)
  case (1 n)
  show ?case
  proof (cases "n div 2 = 0")
    case True
    with 1 show ?thesis by (simp add: bit_len.simps [of n] bit_len.simps [of 0])
  next
    case False
    then have "0 < n div 2" by simp
    with 1 have ih: "2 ^ (bit_len (n div 2) - 1) \<le> n div 2" by simp
    from False have "0 < bit_len (n div 2)" by (subst bit_len.simps) simp
    then obtain k where k: "bit_len (n div 2) = Suc k" using gr0_implies_Suc by blast
    from ih k have "2 * 2 ^ k \<le> n" by simp
    with 1 k show ?thesis by (subst bit_len.simps) simp
  qed
qed

lemma bit_len_1: "bit_len (Suc 0) = Suc 0"
  by (simp add: bit_len.simps)

lemma bit_len_le: "n < 2 ^ k \<Longrightarrow> bit_len n \<le> k"
proof (rule ccontr)
  assume n: "n < 2 ^ k" and "\<not> bit_len n \<le> k"
  then have k: "k \<le> bit_len n - 1" and "bit_len n \<noteq> 0" by auto
  have "n \<noteq> 0"
    using \<open>bit_len n \<noteq> 0\<close> by (cases "n = 0") (simp_all add: bit_len.simps [of 0])
  then have "2 ^ (bit_len n - 1) \<le> n" using bit_len_lower by blast
  moreover have "(2::nat) ^ k \<le> 2 ^ (bit_len n - 1)" using k by simp
  ultimately show False using n by linarith
qed

lemma floor_log2_of_nat:
  assumes n: "0 < n" and b: "n < 2 ^ 53"
  shows "floor_log2 (of_nat n) \<le> 52"
proof -
  have q: "quotient_of (of_nat n) = (int n, 1)"
    by (simp add: of_nat_rat quotient_of_Fract normalize_def)
  have "bit_len n \<le> 53" using b by (rule bit_len_le)
  then show ?thesis by (simp add: floor_log2_def q bit_len_1 Let_def)
qed

text \<open>Integers of at most 53 bits are represented exactly.\<close>

lemma f64_round_nat_exact:
  assumes b: "n < 2 ^ 53"
  shows "f64_round (of_nat n) = Fin (of_nat n)"
proof (cases "n = 0")
  case True
  then show ?thesis by (simp add: f64_round_def)
next
  case False
  define e where "e = max (floor_log2 (of_nat n)) (- 1022)"
  have e: "e \<le> 52" using floor_log2_of_nat [of n] False b by (simp add: e_def)
  define k where "k = nat (52 - e)"
  have ulp: "(2::rat) powi (e - 52) = 1 / 2 ^ k"
    using e by (simp add: k_def power_int_def field_simps)
  have "of_nat n / ((2::rat) powi (e - 52)) = of_int (int n * 2 ^ k)"
    by (simp add: ulp)
  then have "round_half_even (of_nat n / ((2::rat) powi (e - 52))) = int n * 2 ^ k"
    by (simp only: round_half_even_int)
  then have y: "of_int (round_half_even (of_nat n / ((2::rat) powi (e - 52))))
      * ((2::rat) powi (e - 52)) = of_nat n"
    by (simp add: ulp)
  have "(of_nat n :: rat) < of_nat (2 ^ 53)" using b by (simp only: of_nat_less_iff)
  then have "\<not> (2::rat) ^ 1024 \<le> of_nat n"
    using power_increasing [of 53 1024 "2::rat"] by simp
  with False y show ?thesis
    by (simp add: f64_round_def Let_def e_def [symmetric])
qed

lemma digits_val_mono: "acc \<le> digits_val acc s"
  by (induction acc s rule: digits_val.induct) auto

lemma parse_unsigned_digits:
  assumes "all_digits s"
  shows "parse_unsigned s = Some (of_nat (digits_val 0 s))"
proof -
  have "CHR ''.'' \<notin> set s"
    using assms by (auto simp: all_digits_def list_all_iff is_digit_def byte_def)
  then show ?thesis using assms
    by (simp add: parse_unsigned_def split_once_None [THEN iffD2])
qed

lemma parse_unsigned_frac:
  assumes "all_digits a" "all_digits b"
  shows "parse_unsigned (a @ CHR ''.'' # b)
    = Some (of_nat (digits_val 0 (a @ b)) / 10 ^ length b)"
proof -
  have "CHR ''.'' \<notin> set a"
    using assms by (auto simp: all_digits_def list_all_iff is_digit_def byte_def)
  then show ?thesis using assms by (simp add: parse_unsigned_def split_once_append)
qed

lemma f64_round_not_NaN [simp]: "f64_round x \<noteq> NaN" "NaN \<noteq> f64_round x"
  by (auto simp: f64_round_def Let_def)

lemma parse_f64_not_NaN: "parse_f64 s \<noteq> Some NaN"
  by (auto simp: parse_f64_def split: list.splits)

text \<open>The two ends of \<open>i64\<close> as doubles: the upper one rounds up to \<open>2 ^ 63\<close>.\<close>

lemma bit_len_Suc: "n \<noteq> 0 \<Longrightarrow> bit_len n = Suc (bit_len (n div 2))"
  by (simp add: bit_len.simps)

lemma bit_len_0: "bit_len 0 = 0"
  by (simp add: bit_len.simps)

lemma f64_round_i64_min: "f64_round (of_int i64_min) = Fin (- (2 ^ 63))"
proof -
  have "floor_log2 9223372036854775808 = 63"
    by (simp add: floor_log2_def bit_len_Suc bit_len_0 quotient_of_number)
  then show ?thesis
    by (simp add: f64_round_def i64_min_def power_int_def round_half_even_def)
qed

lemma f64_round_i64_max: "f64_round (of_int i64_max) = Fin (2 ^ 63)"
proof -
  have fl: "floor_log2 9223372036854775807 = 62"
    by (simp add: floor_log2_def bit_len_Suc bit_len_0 quotient_of_number)
  have "\<lfloor>9223372036854775807 / 1024 :: rat\<rfloor> = 9007199254740991" by (simp add: floor_eq_iff)
  then have "round_half_even (9223372036854775807 / 1024) = 9007199254740992"
    by (simp add: round_half_even_def Let_def)
  then show ?thesis by (simp add: f64_round_def i64_max_def fl power_int_def)
qed

end
