(* ===== verification/Ast.thy ===== *)
theory Ast
  imports F64
begin

text \<open>
  The data of the reference DSL: the AST of \<open>src/dsl/ast.rs\<close> and the tokens and lexical errors of
  \<open>src/dsl/lexer.rs\<close>, constructor by constructor. An error's message text is kept as a
  constructor with the values the text is formatted from.
\<close>

section \<open>Abstract syntax\<close>

datatype root =
    RInput
  | RSteps string
  | RConfig
  | RSecrets
  | RTrigger
  | RVars
  | RItem
  | RImplicit

datatype path_segment =
    Field string
  | Index nat
  | Wildcard
  | FilterEq string string

record reference =
  ref_root :: root
  ref_path :: "path_segment list"

datatype literal = LString string | LNumber f64 | LBool bool | LNull

datatype unary_op = Not

datatype binary_op = OpEq | OpNotEq | OpLt | OpLe | OpGt | OpGe | OpAnd | OpOr | OpCoalesce

datatype expression =
    Literal literal
  | Ref reference
  | Unary unary_op expression
  | Binary binary_op expression expression

section \<open>Tokens\<close>

datatype token_kind =
    TDollar | TDot | TLBracket | TRBracket | TLParen | TRParen | TQuestion | TAt | TStar
  | TEq | TNotEq | TLt | TLe | TGt | TGe | TNot | TAnd | TOr | TCoalesce
  | TIdent string | TString string | TNumber f64 | TTrue | TFalse | TNull | TEof

record token =
  tk_kind :: token_kind
  tk_start :: nat

datatype lex_message =
    UnexpectedByte char
  | UnterminatedString
  | InvalidUtf8String
  | InvalidUtf8Number
  | InvalidUtf8Ident
  | InvalidNumber string

record lex_error =
  le_message :: lex_message
  le_position :: nat

section \<open>Size measures of expressions\<close>

text \<open>Nesting depth and number of binary operators, the quantities the parser's two caps bound.\<close>

fun expr_depth :: "expression \<Rightarrow> nat" where
  "expr_depth (Literal l) = 1"
| "expr_depth (Ref r) = 1"
| "expr_depth (Unary op e) = Suc (expr_depth e)"
| "expr_depth (Binary op l r) = Suc (max (expr_depth l) (expr_depth r))"

fun expr_ops :: "expression \<Rightarrow> nat" where
  "expr_ops (Literal l) = 0"
| "expr_ops (Ref r) = 0"
| "expr_ops (Unary op e) = expr_ops e"
| "expr_ops (Binary op l r) = Suc (expr_ops l + expr_ops r)"

fun expr_nots :: "expression \<Rightarrow> nat" where
  "expr_nots (Literal l) = 0"
| "expr_nots (Ref r) = 0"
| "expr_nots (Unary op e) = Suc (expr_nots e)"
| "expr_nots (Binary op l r) = max (expr_nots l) (expr_nots r)"

text \<open>
  \<open>expr_nots\<close> is the longest chain of negations on a path; every node of a path but the leaf is a
  negation or one of the binary operators, so the depth is bounded by both counts.
\<close>

lemma expr_depth_bound: "expr_depth e \<le> Suc (expr_nots e + expr_ops e)"
  by (induction e) auto

end
