(* ===== verification/Lexer.thy ===== *)
theory Lexer
  imports Ast
begin

text \<open>
  The lexer of \<open>src/dsl/lexer.rs\<close>. The lexer state is the unread suffix of the source and its byte
  offset; every token carries the offset it starts at. \<open>tokenize\<close> is the loop over \<open>next_token\<close>,
  shown to terminate because each token but the last consumes input.
\<close>

section \<open>UTF-8 validity\<close>

text \<open>\<open>std::str::from_utf8\<close> succeeds exactly on the byte sequences of the Unicode standard's table 3-7.\<close>

definition utf8_cont :: "char \<Rightarrow> bool" where
  "utf8_cont c \<longleftrightarrow> 128 \<le> byte c \<and> byte c \<le> 191"

definition utf8_second3 :: "nat \<Rightarrow> char \<Rightarrow> bool" where
  "utf8_second3 lead c \<longleftrightarrow>
     utf8_cont c \<and> (lead = 224 \<longrightarrow> 160 \<le> byte c) \<and> (lead = 237 \<longrightarrow> byte c \<le> 159)"

definition utf8_second4 :: "nat \<Rightarrow> char \<Rightarrow> bool" where
  "utf8_second4 lead c \<longleftrightarrow>
     utf8_cont c \<and> (lead = 240 \<longrightarrow> 144 \<le> byte c) \<and> (lead = 244 \<longrightarrow> byte c \<le> 143)"

fun utf8_valid :: "string \<Rightarrow> bool" where
  "utf8_valid [] = True"
| "utf8_valid (c # r) =
     (if byte c < 128 then utf8_valid r
      else if 194 \<le> byte c \<and> byte c \<le> 223 then
        (case r of c1 # r1 \<Rightarrow> utf8_cont c1 \<and> utf8_valid r1 | _ \<Rightarrow> False)
      else if 224 \<le> byte c \<and> byte c \<le> 239 then
        (case r of c1 # c2 # r2 \<Rightarrow> utf8_second3 (byte c) c1 \<and> utf8_cont c2 \<and> utf8_valid r2
         | _ \<Rightarrow> False)
      else if 240 \<le> byte c \<and> byte c \<le> 244 then
        (case r of c1 # c2 # c3 # r3 \<Rightarrow>
            utf8_second4 (byte c) c1 \<and> utf8_cont c2 \<and> utf8_cont c3 \<and> utf8_valid r3
         | _ \<Rightarrow> False)
      else False)"

lemmas utf8_valid_Cons = utf8_valid.simps(2)

declare utf8_valid.simps(2) [simp del]

lemma utf8_valid_ascii [simp]: "is_ascii c \<Longrightarrow> utf8_valid (c # r) = utf8_valid r"
  by (simp add: utf8_valid_Cons is_ascii_def)

lemma utf8_valid_two:
  "194 \<le> byte c \<Longrightarrow> byte c \<le> 223 \<Longrightarrow>
    utf8_valid (c # r) = (case r of c1 # r1 \<Rightarrow> utf8_cont c1 \<and> utf8_valid r1 | _ \<Rightarrow> False)"
  by (simp add: utf8_valid_Cons)

lemma utf8_valid_three:
  "224 \<le> byte c \<Longrightarrow> byte c \<le> 239 \<Longrightarrow>
    utf8_valid (c # r) =
      (case r of c1 # c2 # r2 \<Rightarrow> utf8_second3 (byte c) c1 \<and> utf8_cont c2 \<and> utf8_valid r2 | _ \<Rightarrow> False)"
  by (simp add: utf8_valid_Cons)

lemma utf8_valid_four:
  "240 \<le> byte c \<Longrightarrow> byte c \<le> 244 \<Longrightarrow>
    utf8_valid (c # r) =
      (case r of c1 # c2 # c3 # r3 \<Rightarrow>
         utf8_second4 (byte c) c1 \<and> utf8_cont c2 \<and> utf8_cont c3 \<and> utf8_valid r3 | _ \<Rightarrow> False)"
  by (simp add: utf8_valid_Cons)

lemma utf8_valid_bad:
  "128 \<le> byte c \<Longrightarrow> byte c < 194 \<or> 244 < byte c \<Longrightarrow> \<not> utf8_valid (c # r)"
  by (auto simp: utf8_valid_Cons)

section \<open>Lexer state\<close>

record lexer =
  lx_rest :: string
  lx_pos :: nat

definition lexer_new :: "string \<Rightarrow> lexer" where
  "lexer_new src = \<lparr>lx_rest = src, lx_pos = 0\<rparr>"

definition lx_peek :: "lexer \<Rightarrow> char option" where
  "lx_peek l = (case lx_rest l of [] \<Rightarrow> None | c # _ \<Rightarrow> Some c)"

definition lx_peek2 :: "lexer \<Rightarrow> char option" where
  "lx_peek2 l = (case lx_rest l of _ # c # _ \<Rightarrow> Some c | _ \<Rightarrow> None)"

definition advance :: "nat \<Rightarrow> lexer \<Rightarrow> lexer" where
  "advance n l = \<lparr>lx_rest = drop n (lx_rest l), lx_pos = lx_pos l + n\<rparr>"

text \<open>\<open>while let Some(b) = self.peek() { if p(b) { self.pos += 1 } else { break } }\<close>\<close>

definition advance_while :: "(char \<Rightarrow> bool) \<Rightarrow> lexer \<Rightarrow> lexer" where
  "advance_while p l = advance (length (takeWhile p (lx_rest l))) l"

text \<open>The slice between two positions of one source.\<close>

definition lx_slice :: "lexer \<Rightarrow> lexer \<Rightarrow> string" where
  "lx_slice l l' = take (lx_pos l' - lx_pos l) (lx_rest l)"

definition is_ws :: "char \<Rightarrow> bool" where
  "is_ws c \<longleftrightarrow> c = CHR '' '' \<or> byte c = 9 \<or> byte c = 10 \<or> byte c = 13"

definition skip_whitespace :: "lexer \<Rightarrow> lexer" where
  "skip_whitespace l = advance_while is_ws l"

section \<open>Tokens\<close>

definition single_token :: "char \<Rightarrow> token_kind option" where
  "single_token b =
     (if b = CHR ''$'' then Some TDollar
      else if b = CHR ''.'' then Some TDot
      else if b = CHR ''['' then Some TLBracket
      else if b = CHR '']'' then Some TRBracket
      else if b = CHR ''('' then Some TLParen
      else if b = CHR '')'' then Some TRParen
      else if b = CHR ''@'' then Some TAt
      else if b = CHR ''*'' then Some TStar
      else None)"

text \<open>The two-character operators, and the one-character ones they extend; with their lengths.\<close>

definition operator_token :: "char \<Rightarrow> char option \<Rightarrow> (token_kind \<times> nat) option" where
  "operator_token b b2 =
     (if b = CHR ''='' \<and> b2 = Some (CHR ''='') then Some (TEq, 2)
      else if b = CHR ''!'' \<and> b2 = Some (CHR ''='') then Some (TNotEq, 2)
      else if b = CHR ''&'' \<and> b2 = Some (CHR ''&'') then Some (TAnd, 2)
      else if b = CHR ''|'' \<and> b2 = Some (CHR ''|'') then Some (TOr, 2)
      else if b = CHR ''?'' \<and> b2 = Some (CHR ''?'') then Some (TCoalesce, 2)
      else if b = CHR ''<'' \<and> b2 = Some (CHR ''='') then Some (TLe, 2)
      else if b = CHR ''>'' \<and> b2 = Some (CHR ''='') then Some (TGe, 2)
      else if b = CHR ''<'' then Some (TLt, 1)
      else if b = CHR ''>'' then Some (TGt, 1)
      else if b = CHR ''!'' then Some (TNot, 1)
      else if b = CHR ''?'' then Some (TQuestion, 1)
      else None)"

definition lex_string :: "nat \<Rightarrow> lexer \<Rightarrow> lex_error + token \<times> lexer" where
  "lex_string start l =
     (let l0 = advance 1 l; l1 = advance_while (\<lambda>b. b \<noteq> CHR 0x27) l0
      in case lx_peek l1 of
           None \<Rightarrow> Inl \<lparr>le_message = UnterminatedString, le_position = start\<rparr>
         | Some _ \<Rightarrow>
             let s = lx_slice l0 l1
             in if utf8_valid s
                then Inr (\<lparr>tk_kind = TString s, tk_start = start\<rparr>, advance 1 l1)
                else Inl \<lparr>le_message = InvalidUtf8String, le_position = start\<rparr>)"

definition lex_number :: "nat \<Rightarrow> lexer \<Rightarrow> lex_error + token \<times> lexer" where
  "lex_number start l =
     (let l1 = (if lx_peek l = Some (CHR ''-'') then advance 1 l else l);
          l2 = advance_while is_digit l1;
          l3 = (if lx_peek l2 = Some (CHR ''.'')
                   \<and> (case lx_peek2 l2 of Some c \<Rightarrow> is_digit c | None \<Rightarrow> False)
                then advance_while is_digit (advance 1 l2) else l2);
          raw = lx_slice l l3
      in if \<not> utf8_valid raw then Inl \<lparr>le_message = InvalidUtf8Number, le_position = start\<rparr>
         else case parse_f64 raw of
                None \<Rightarrow> Inl \<lparr>le_message = InvalidNumber raw, le_position = start\<rparr>
              | Some n \<Rightarrow> Inr (\<lparr>tk_kind = TNumber n, tk_start = start\<rparr>, l3))"

definition keyword_token :: "string \<Rightarrow> token_kind" where
  "keyword_token raw =
     (if raw = ''true'' then TTrue
      else if raw = ''false'' then TFalse
      else if raw = ''null'' then TNull
      else TIdent raw)"

definition lex_ident :: "nat \<Rightarrow> lexer \<Rightarrow> lex_error + token \<times> lexer" where
  "lex_ident start l =
     (let l1 = advance_while is_ident_char l; raw = lx_slice l l1
      in if utf8_valid raw
         then Inr (\<lparr>tk_kind = keyword_token raw, tk_start = start\<rparr>, l1)
         else Inl \<lparr>le_message = InvalidUtf8Ident, le_position = start\<rparr>)"

definition starts_number :: "char \<Rightarrow> char option \<Rightarrow> bool" where
  "starts_number b b2 \<longleftrightarrow>
     is_digit b \<or> b = CHR ''-'' \<and> (case b2 of Some c \<Rightarrow> is_digit c | None \<Rightarrow> False)"

definition lex_token_at :: "nat \<Rightarrow> char \<Rightarrow> lexer \<Rightarrow> lex_error + token \<times> lexer" where
  "lex_token_at start b l =
     (case single_token b of
        Some kind \<Rightarrow> Inr (\<lparr>tk_kind = kind, tk_start = start\<rparr>, advance 1 l)
      | None \<Rightarrow>
          (case operator_token b (lx_peek2 l) of
             Some (kind, n) \<Rightarrow> Inr (\<lparr>tk_kind = kind, tk_start = start\<rparr>, advance n l)
           | None \<Rightarrow>
               if b = CHR 0x27 then lex_string start l
               else if starts_number b (lx_peek2 l) then lex_number start l
               else if is_ident_start b then lex_ident start l
               else Inl \<lparr>le_message = UnexpectedByte b, le_position = start\<rparr>))"

definition next_token :: "lexer \<Rightarrow> lex_error + token \<times> lexer" where
  "next_token l0 =
     (let l = skip_whitespace l0; start = lx_pos l
      in case lx_peek l of
           None \<Rightarrow> Inr (\<lparr>tk_kind = TEof, tk_start = start\<rparr>, l)
         | Some b \<Rightarrow> lex_token_at start b l)"

section \<open>Every token but the last consumes input\<close>

lemma advance_simps [simp]:
  "lx_rest (advance n l) = drop n (lx_rest l)"
  "lx_pos (advance n l) = lx_pos l + n"
  by (simp_all add: advance_def)

lemma advance_while_rest [simp]:
  "lx_rest (advance_while p l) = dropWhile p (lx_rest l)"
  "lx_pos (advance_while p l) = lx_pos l + length (takeWhile p (lx_rest l))"
  by (simp_all add: advance_while_def dropWhile_eq_drop)

lemma lx_peek_Some: "lx_peek l = Some b \<longleftrightarrow> (\<exists>r. lx_rest l = b # r)"
  by (auto simp: lx_peek_def split: list.splits)

lemma lx_peek_None: "lx_peek l = None \<longleftrightarrow> lx_rest l = []"
  by (auto simp: lx_peek_def split: list.splits)

lemma lx_peek2_Some: "lx_peek2 l = Some b \<longleftrightarrow> (\<exists>a r. lx_rest l = a # b # r)"
  by (auto simp: lx_peek2_def split: list.splits)

text \<open>
  A step of the lexer consumes a prefix of the suffix it was given and moves the offset by the
  length of that prefix.
\<close>

definition consumes :: "lexer \<Rightarrow> string \<Rightarrow> lexer \<Rightarrow> bool" where
  "consumes l w l' \<longleftrightarrow> lx_rest l = w @ lx_rest l' \<and> lx_pos l' = lx_pos l + length w"

lemma consumes_refl: "consumes l [] l"
  by (simp add: consumes_def)

lemma consumes_trans: "consumes l u l' \<Longrightarrow> consumes l' w l'' \<Longrightarrow> consumes l (u @ w) l''"
  by (simp add: consumes_def)

lemma consumes_advance_while: "consumes l (takeWhile p (lx_rest l)) (advance_while p l)"
  by (simp add: consumes_def)

lemma consumes_advance1: "lx_rest l = c # r \<Longrightarrow> consumes l [c] (advance 1 l)"
  by (simp add: consumes_def)

lemma consumes_slice: "consumes l w l' \<Longrightarrow> lx_slice l l' = w"
  by (simp add: consumes_def lx_slice_def)

lemma operator_token_consumes:
  assumes "operator_token b (lx_peek2 l) = Some (kind, n)" "lx_rest l = b # r"
  shows "n \<in> {1, 2} \<and> kind \<noteq> TEof \<and> (\<exists>w. length w = n \<and> list_all is_ascii w \<and> consumes l w (advance n l))"
proof -
  have a: "is_ascii (CHR ''='')" "is_ascii (CHR ''!'')" "is_ascii (CHR ''&'')"
    "is_ascii (CHR ''|'')" "is_ascii (CHR ''?'')" "is_ascii (CHR ''<'')" "is_ascii (CHR ''>'')"
    by (simp_all add: is_ascii_def byte_def)
  show ?thesis
  proof (cases "n = 2")
    case True
    with assms(1) obtain c where c: "lx_peek2 l = Some c" "is_ascii b" "is_ascii c" "kind \<noteq> TEof"
      using a by (auto simp: operator_token_def split: if_splits)
    with assms(2) obtain r' where "lx_rest l = [b, c] @ r'"
      by (auto simp: lx_peek2_Some)
    with c have "length [b, c] = 2 \<and> list_all is_ascii [b, c] \<and> consumes l [b, c] (advance 2 l)"
      by (simp add: consumes_def)
    with True c show ?thesis by blast
  next
    case False
    with assms(1) have n: "n = 1" "is_ascii b" "kind \<noteq> TEof"
      using a by (auto simp: operator_token_def split: if_splits)
    with assms(2) have "length [b] = 1 \<and> list_all is_ascii [b] \<and> consumes l [b] (advance 1 l)"
      by (simp add: consumes_def)
    with n show ?thesis by blast
  qed
qed

lemma single_token_ascii: "single_token b = Some k \<Longrightarrow> is_ascii b \<and> k \<noteq> TEof"
  by (auto simp: single_token_def is_ascii_def byte_def split: if_splits)

lemma lex_string_consumes:
  assumes "lex_string start l = Inr (t, l')" "lx_rest l = b # r"
  shows "tk_start t = start \<and> (\<exists>s. tk_kind t = TString s \<and> utf8_valid s \<and> CHR 0x27 \<notin> set s
    \<and> consumes l (b # s @ [CHR 0x27]) l')"
proof -
  define l0 where "l0 = advance 1 l"
  define l1 where "l1 = advance_while (\<lambda>b. b \<noteq> CHR 0x27) l0"
  from assms(1) obtain c where c: "lx_peek l1 = Some c"
    and v: "utf8_valid (lx_slice l0 l1)"
    and t: "t = \<lparr>tk_kind = TString (lx_slice l0 l1), tk_start = start\<rparr>"
    and l': "l' = advance 1 l1"
    unfolding l0_def l1_def
    by (auto simp: lex_string_def Let_def split: option.splits if_splits)
  from c obtain r1 where r1: "lx_rest l1 = c # r1" by (auto simp: lx_peek_Some)
  from r1 have "dropWhile (\<lambda>b. b \<noteq> CHR 0x27) (lx_rest l0) = c # r1"
    by (simp add: l1_def)
  then have "c = CHR 0x27" by (blast dest: dropWhile_eq_Cons_conv [THEN iffD1])
  define s where "s = takeWhile (\<lambda>b. b \<noteq> CHR 0x27) (lx_rest l0)"
  have s: "consumes l0 s l1" unfolding l1_def s_def by (rule consumes_advance_while)
  have "consumes l [b] l0" using assms(2) unfolding l0_def by (simp add: consumes_def)
  moreover have "consumes l1 [c] l'" using r1 unfolding l' by (simp add: consumes_def)
  ultimately have "consumes l ([b] @ s @ [c]) l'"
    using s by (blast intro: consumes_trans)
  moreover have "CHR 0x27 \<notin> set s" unfolding s_def by (auto dest: set_takeWhileD)
  ultimately show ?thesis
    using t v consumes_slice [OF s] \<open>c = CHR 0x27\<close> by simp
qed

lemma dropWhile_stop: "dropWhile p xs = [] \<or> \<not> p (hd (dropWhile p xs))"
  using hd_dropWhile by blast

text \<open>The text of a number: an optional sign, digits, and optionally a point and digits.\<close>

definition number_text :: "string \<Rightarrow> bool" where
  "number_text w \<longleftrightarrow>
     (\<exists>sg a b. w = sg @ a @ b \<and> (sg = [] \<or> sg = ''-'') \<and> all_digits a
       \<and> (b = [] \<or> (\<exists>d. b = CHR ''.'' # d \<and> all_digits d)))"

lemma parse_f64_number_text: "number_text w \<Longrightarrow> \<exists>n. parse_f64 w = Some n"
proof -
  assume "number_text w"
  then obtain sg a b where w: "w = sg @ a @ b" and sg: "sg = [] \<or> sg = ''-''"
    and a: "all_digits a" and b: "b = [] \<or> (\<exists>d. b = CHR ''.'' # d \<and> all_digits d)"
    by (auto simp: number_text_def)
  from a b have u: "\<exists>x. parse_unsigned (a @ b) = Some x"
    by (auto simp: parse_unsigned_digits parse_unsigned_frac)
  obtain c r where c: "a @ b = c # r" "is_digit c"
    using a by (cases a) (auto simp: all_digits_def)
  then have "c \<noteq> CHR ''-''" by (auto simp: is_digit_def byte_def)
  with sg u c w show ?thesis by (auto simp: parse_f64_def)
qed

lemma ascii_utf8_valid: "list_all is_ascii w \<Longrightarrow> utf8_valid w"
  by (induction w) auto

lemma number_text_ascii: "number_text w \<Longrightarrow> list_all is_ascii w"
proof -
  have d: "all_digits s \<Longrightarrow> list_all is_ascii s" for s
    by (auto simp: all_digits_def list_all_iff is_digit_ascii)
  have "is_ascii (CHR ''-'')" "is_ascii (CHR ''.'')" by (simp_all add: is_ascii_def byte_def)
  then show "number_text w \<Longrightarrow> list_all is_ascii w"
    by (auto simp: number_text_def d)
qed

lemma lex_number_total:
  assumes "lx_rest l = b # r" "starts_number b (lx_peek2 l)"
  shows "\<exists>w n l'. lex_number start l = Inr (\<lparr>tk_kind = TNumber n, tk_start = start\<rparr>, l')
    \<and> number_text w \<and> parse_f64 w = Some n \<and> consumes l w l'"
proof -
  define sg where "sg = (if b = CHR ''-'' then ''-'' else [])"
  define l1 where "l1 = (if lx_peek l = Some (CHR ''-'') then advance 1 l else l)"
  define a where "a = takeWhile is_digit (lx_rest l1)"
  define l2 where "l2 = advance_while is_digit l1"
  define dot where "dot = (lx_peek l2 = Some (CHR ''.'')
    \<and> (case lx_peek2 l2 of Some c \<Rightarrow> is_digit c | None \<Rightarrow> False))"
  define d where "d = takeWhile is_digit (lx_rest (advance 1 l2))"
  define f where "f = (if dot then CHR ''.'' # d else [])"
  define l3 where "l3 = (if dot then advance_while is_digit (advance 1 l2) else l2)"
  have nd: "\<not> is_digit (CHR ''-'')" by (simp add: is_digit_def byte_def)
  have c1: "consumes l sg l1"
    using assms(1) by (auto simp: sg_def l1_def lx_peek_Some consumes_def)
  have c2: "consumes l1 a l2" unfolding a_def l2_def by (rule consumes_advance_while)
  have a: "all_digits a"
    using assms nd by (auto simp: a_def l1_def all_digits_def starts_number_def lx_peek_Some
        list_all_iff lx_peek2_Some split: option.splits dest: set_takeWhileD)
  have c3: "consumes l2 f l3"
  proof (cases dot)
    case True
    then obtain r2 where "lx_rest l2 = CHR ''.'' # r2" by (auto simp: dot_def lx_peek_Some)
    with True have "consumes l2 ([CHR ''.''] @ d) l3"
      by (simp add: consumes_def d_def l3_def)
    with True show ?thesis by (simp add: f_def)
  next
    case False
    then show ?thesis by (simp add: f_def l3_def consumes_refl)
  qed
  have f: "f = [] \<or> (\<exists>d. f = CHR ''.'' # d \<and> all_digits d)"
    by (auto simp: f_def d_def dot_def all_digits_def list_all_iff lx_peek2_Some lx_peek_Some
        split: option.splits dest: set_takeWhileD)
  define w where "w = sg @ a @ f"
  have w: "number_text w" unfolding number_text_def w_def
    by (intro exI [of _ sg] exI [of _ a] exI [of _ f]) (use a f in \<open>simp add: sg_def\<close>)
  have cw: "consumes l w l3"
    unfolding w_def using c1 c2 c3 by (blast intro: consumes_trans)
  from parse_f64_number_text [OF w] obtain n where n: "parse_f64 w = Some n" by blast
  have raw: "lx_slice l l3 = w" using cw by (rule consumes_slice)
  have v: "utf8_valid w" using w by (blast intro: ascii_utf8_valid number_text_ascii)
  have "lex_number start l = Inr (\<lparr>tk_kind = TNumber n, tk_start = start\<rparr>, l3)"
    unfolding lex_number_def Let_def l1_def [symmetric] l2_def [symmetric] dot_def [symmetric]
      l3_def [symmetric] raw
    using v n by simp
  with w n cw show ?thesis by blast
qed

lemma lex_ident_total:
  assumes "lx_rest l = b # r" "is_ident_start b"
  shows "\<exists>w l'. lex_ident start l = Inr (\<lparr>tk_kind = keyword_token w, tk_start = start\<rparr>, l')
    \<and> w = takeWhile is_ident_char (b # r) \<and> w \<noteq> [] \<and> list_all is_ascii w \<and> consumes l w l'"
proof -
  define w where "w = takeWhile is_ident_char (b # r)"
  have c: "consumes l w (advance_while is_ident_char l)"
    using consumes_advance_while [of l is_ident_char] assms(1) by (simp add: w_def)
  have "w \<noteq> []" using assms(2) by (simp add: w_def is_ident_start_char)
  moreover have as: "list_all is_ascii w"
    by (auto simp: w_def list_all_iff dest!: set_takeWhileD is_ident_char_ascii)
  moreover have "lex_ident start l
      = Inr (\<lparr>tk_kind = keyword_token w, tk_start = start\<rparr>, advance_while is_ident_char l)"
    using ascii_utf8_valid [OF as] by (simp add: lex_ident_def Let_def consumes_slice [OF c])
  ultimately show ?thesis using c w_def by blast
qed

lemma keyword_token_not_Eof [simp]: "keyword_token w \<noteq> TEof"
  by (simp add: keyword_token_def)

lemma number_text_nonempty: "number_text w \<Longrightarrow> w \<noteq> []"
  by (auto simp: number_text_def all_digits_def)

lemma lex_token_at_consumes:
  assumes "lex_token_at start b l = Inr (t, l')" "lx_rest l = b # r"
  shows "tk_start t = start \<and> tk_kind t \<noteq> TEof \<and> (\<exists>w. w \<noteq> [] \<and> consumes l w l')"
proof -
  consider (single) k where "single_token b = Some k"
    | (op) k n where "single_token b = None" "operator_token b (lx_peek2 l) = Some (k, n)"
    | (str) "single_token b = None" "operator_token b (lx_peek2 l) = None" "b = CHR 0x27"
    | (num) "single_token b = None" "operator_token b (lx_peek2 l) = None" "b \<noteq> CHR 0x27"
        "starts_number b (lx_peek2 l)"
    | (id) "single_token b = None" "operator_token b (lx_peek2 l) = None" "b \<noteq> CHR 0x27"
        "\<not> starts_number b (lx_peek2 l)" "is_ident_start b"
    | (bad) "single_token b = None" "operator_token b (lx_peek2 l) = None" "b \<noteq> CHR 0x27"
        "\<not> starts_number b (lx_peek2 l)" "\<not> is_ident_start b"
    by fastforce
  then show ?thesis
  proof cases
    case single
    with assms show ?thesis
      by (auto simp: lex_token_at_def dest: single_token_ascii
          intro!: exI [of _ "[b]"] consumes_advance1 [simplified])
  next
    case op
    then have t: "t = \<lparr>tk_kind = k, tk_start = start\<rparr>" "l' = advance n l"
      using assms(1) by (simp_all add: lex_token_at_def)
    from operator_token_consumes [OF op(2) assms(2)] obtain w where
      "length w = n" "n \<noteq> 0" "k \<noteq> TEof" "consumes l w (advance n l)" by auto
    with t show ?thesis by auto
  next
    case str
    with assms show ?thesis
      by (auto simp: lex_token_at_def dest!: lex_string_consumes)
  next
    case num
    with assms lex_number_total [OF assms(2) num(4), of start] show ?thesis
      by (auto simp: lex_token_at_def dest: number_text_nonempty)
  next
    case id
    with assms lex_ident_total [OF assms(2) id(5), of start] show ?thesis
      by (auto simp: lex_token_at_def)
  next
    case bad
    with assms show ?thesis by (simp add: lex_token_at_def)
  qed
qed

lemma next_token_consumes:
  assumes "next_token l = Inr (t, l')"
  shows "\<exists>ws w. list_all is_ws ws \<and> consumes l (ws @ w) l' \<and> tk_start t = lx_pos l + length ws
    \<and> (tk_kind t = TEof \<longleftrightarrow> w = []) \<and> (w = [] \<longrightarrow> lx_rest l' = [])"
proof -
  define ws where "ws = takeWhile is_ws (lx_rest l)"
  define l1 where "l1 = skip_whitespace l"
  have c: "consumes l ws l1"
    unfolding ws_def l1_def skip_whitespace_def by (rule consumes_advance_while)
  have ws: "list_all is_ws ws" by (auto simp: ws_def list_all_iff dest: set_takeWhileD)
  show ?thesis
  proof (cases "lx_rest l1")
    case Nil
    then have "t = \<lparr>tk_kind = TEof, tk_start = lx_pos l1\<rparr>" "l' = l1"
      using assms by (auto simp: next_token_def l1_def Let_def lx_peek_def)
    with c ws Nil show ?thesis
      by (intro exI [of _ ws] exI [of _ "[]"]) (simp add: consumes_def)
  next
    case (Cons b r)
    then have "lex_token_at (lx_pos l1) b l1 = Inr (t, l')"
      using assms by (simp add: next_token_def l1_def Let_def lx_peek_def)
    from lex_token_at_consumes [OF this Cons] obtain w where
      "tk_start t = lx_pos l1" "tk_kind t \<noteq> TEof" "w \<noteq> []" "consumes l1 w l'" by blast
    with c ws show ?thesis
      by (intro exI [of _ ws] exI [of _ w]) (auto simp: consumes_def)
  qed
qed

lemma next_token_decreases:
  "next_token l = Inr (t, l') \<Longrightarrow> tk_kind t \<noteq> TEof \<Longrightarrow> length (lx_rest l') < length (lx_rest l)"
  by (drule next_token_consumes) (auto simp: consumes_def)

section \<open>The token loop\<close>

function tokenize_from :: "lexer \<Rightarrow> lex_error + token list" where
  "tokenize_from l =
     rbind (next_token l) (\<lambda>(tok, l').
       if tk_kind tok = TEof then Inr [tok]
       else rbind (tokenize_from l') (\<lambda>out. Inr (tok # out)))"
  by pat_completeness auto
termination
  by (relation "measure (\<lambda>l. length (lx_rest l))") (auto dest: next_token_decreases)

declare tokenize_from.simps [simp del]

definition tokenize :: "string \<Rightarrow> lex_error + token list" where
  "tokenize src = tokenize_from (lexer_new src)"

section \<open>Errors\<close>

lemma utf8_valid_ascii_prefix: "list_all is_ascii w \<Longrightarrow> utf8_valid (w @ r) = utf8_valid r"
  by (induction w) auto

lemma utf8_valid_split_ascii:
  "is_ascii c \<Longrightarrow> utf8_valid (a @ c # b) \<longleftrightarrow> utf8_valid a \<and> utf8_valid b"
proof (induction a rule: utf8_valid.induct)
  case 1
  then show ?case by (simp add: is_ascii_def)
next
  case (2 d r)
  then have c: "\<not> utf8_cont c" "\<not> utf8_second3 n c" "\<not> utf8_second4 n c" for n
    by (auto simp: is_ascii_def utf8_cont_def utf8_second3_def utf8_second4_def)
  consider (one) "is_ascii d" | (two) "194 \<le> byte d" "byte d \<le> 223"
    | (three) "224 \<le> byte d" "byte d \<le> 239" | (four) "240 \<le> byte d" "byte d \<le> 244"
    | (bad) "128 \<le> byte d" "byte d < 194 \<or> 244 < byte d"
    unfolding is_ascii_def by linarith
  then show ?case
  proof cases
    case one
    with 2 show ?thesis by (simp add: is_ascii_def)
  next
    case two
    with 2 c show ?thesis by (cases r) (simp_all add: utf8_valid_two)
  next
    case three
    then have ih: "r = c1 # c2 # r2 \<Longrightarrow> utf8_valid (r2 @ c # b) \<longleftrightarrow> utf8_valid r2 \<and> utf8_valid b"
      for c1 c2 r2 using "2.IH"(3) "2.prems" by simp
    from three c ih show ?thesis
      by (auto simp: utf8_valid_three split: list.splits dest!: append_eq_Cons_conv [THEN iffD1])
  next
    case four
    then have ih: "r = c1 # c2 # c3 # r3 \<Longrightarrow> utf8_valid (r3 @ c # b) \<longleftrightarrow> utf8_valid r3 \<and> utf8_valid b"
      for c1 c2 c3 r3 using "2.IH"(4) "2.prems" by simp
    from four c ih show ?thesis
      by (auto simp: utf8_valid_four split: list.splits dest!: append_eq_Cons_conv [THEN iffD1])
  next
    case bad
    then show ?thesis by (simp add: utf8_valid_bad)
  qed
qed

lemma quote_ascii: "is_ascii (CHR 0x27)"
  by (simp add: is_ascii_def byte_def)

lemma lex_token_at_utf8:
  assumes "lex_token_at start b l = Inr (t, l')" "lx_rest l = b # r" "utf8_valid (lx_rest l)"
  shows "utf8_valid (lx_rest l')"
proof -
  have pre: "utf8_valid (lx_rest l')" if "consumes l w l'" "list_all is_ascii w" for w
    using that assms(3) by (simp add: consumes_def utf8_valid_ascii_prefix)
  consider (single) k where "single_token b = Some k"
    | (op) k n where "single_token b = None" "operator_token b (lx_peek2 l) = Some (k, n)"
    | (str) "single_token b = None" "operator_token b (lx_peek2 l) = None" "b = CHR 0x27"
    | (num) "single_token b = None" "operator_token b (lx_peek2 l) = None" "b \<noteq> CHR 0x27"
        "starts_number b (lx_peek2 l)"
    | (id) "single_token b = None" "operator_token b (lx_peek2 l) = None" "b \<noteq> CHR 0x27"
        "\<not> starts_number b (lx_peek2 l)" "is_ident_start b"
    using assms(1) by (fastforce simp: lex_token_at_def split: option.splits if_splits)
  then show ?thesis
  proof cases
    case single
    then have "l' = advance 1 l" using assms(1) by (simp add: lex_token_at_def)
    with single assms(2) show ?thesis
      by (intro pre [of "[b]"]) (auto simp: consumes_def dest: single_token_ascii)
  next
    case op
    then have "l' = advance n l" using assms(1) by (simp add: lex_token_at_def)
    with operator_token_consumes [OF op(2) assms(2)] pre show ?thesis by blast
  next
    case str
    then have "lex_string start l = Inr (t, l')" using assms(1) by (simp add: lex_token_at_def)
    from lex_string_consumes [OF this assms(2)] obtain s where
      "utf8_valid s" "consumes l (b # s @ [CHR 0x27]) l'" by blast
    then have "utf8_valid (s @ CHR 0x27 # lx_rest l')"
      using assms(3) str(3) quote_ascii by (simp add: consumes_def)
    then show ?thesis using utf8_valid_split_ascii [OF quote_ascii] by blast
  next
    case num
    with lex_number_total [OF assms(2) num(4), of start] assms(1) pre show ?thesis
      by (fastforce simp: lex_token_at_def dest: number_text_ascii)
  next
    case id
    with lex_ident_total [OF assms(2) id(5), of start] assms(1) pre show ?thesis
      by (fastforce simp: lex_token_at_def)
  qed
qed

text \<open>What a lexical error says of the byte it points at.\<close>

definition lex_error_at :: "lex_error \<Rightarrow> char \<Rightarrow> bool" where
  "lex_error_at e b \<longleftrightarrow>
     le_message e = UnexpectedByte b \<or> le_message e = UnterminatedString \<and> b = CHR 0x27"

lemma lex_string_error:
  assumes "lex_string start l = Inl e" "lx_rest l = CHR 0x27 # r" "utf8_valid (lx_rest l)"
  shows "le_message e = UnterminatedString \<and> le_position e = start"
proof -
  define l0 where "l0 = advance 1 l"
  define s where "s = takeWhile (\<lambda>b. b \<noteq> CHR 0x27) r"
  define l1 where "l1 = advance_while (\<lambda>b. b \<noteq> CHR 0x27) l0"
  have sl: "lx_slice l0 l1 = s"
    using assms(2) by (simp add: lx_slice_def l0_def l1_def s_def takeWhile_eq_take [symmetric])
  show ?thesis
  proof (cases "lx_peek l1")
    case None
    with assms(1) show ?thesis by (auto simp: lex_string_def Let_def l0_def l1_def)
  next
    case (Some c)
    then obtain r1 where "dropWhile (\<lambda>b. b \<noteq> CHR 0x27) r = c # r1"
      using assms(2) by (auto simp: lx_peek_Some l0_def l1_def)
    then have "r = s @ CHR 0x27 # r1" unfolding s_def
      by (blast dest: dropWhile_eq_Cons_conv [THEN iffD1])
    moreover have "utf8_valid r" using assms(2,3) quote_ascii by simp
    ultimately have "utf8_valid s" using quote_ascii utf8_valid_split_ascii by blast
    with Some assms(1) sl show ?thesis
      by (auto simp: lex_string_def Let_def l0_def l1_def)
  qed
qed

lemma lex_token_at_error:
  assumes "lex_token_at start b l = Inl e" "lx_rest l = b # r" "utf8_valid (lx_rest l)"
  shows "le_position e = start \<and> lex_error_at e b"
proof -
  have n: "single_token b = None" "operator_token b (lx_peek2 l) = None"
    using assms(1) by (auto simp: lex_token_at_def split: option.splits)
  show ?thesis
  proof (cases "b = CHR 0x27")
    case True
    with n assms have "lex_string start l = Inl e" by (simp add: lex_token_at_def)
    from lex_string_error [OF this _ assms(3)] assms(2) True show ?thesis
      by (simp add: lex_error_at_def)
  next
    case False
    have "\<not> starts_number b (lx_peek2 l)"
    proof
      assume sn: "starts_number b (lx_peek2 l)"
      from lex_number_total [OF assms(2) sn, of start] show False
        using n False sn assms(1) by (auto simp: lex_token_at_def)
    qed
    moreover have "\<not> is_ident_start b"
    proof
      assume si: "is_ident_start b"
      from lex_ident_total [OF assms(2) si, of start] show False
        using n False si assms(1) calculation by (auto simp: lex_token_at_def)
    qed
    ultimately show ?thesis using n False assms(1) by (auto simp: lex_token_at_def lex_error_at_def)
  qed
qed

text \<open>The state of the loop: the offset is the length of what has been read.\<close>

definition lexing :: "string \<Rightarrow> lexer \<Rightarrow> bool" where
  "lexing src l \<longleftrightarrow> (\<exists>u. src = u @ lx_rest l \<and> lx_pos l = length u) \<and> utf8_valid (lx_rest l)"

lemma lexing_new: "utf8_valid src \<Longrightarrow> lexing src (lexer_new src)"
  by (simp add: lexing_def lexer_new_def)

lemma ws_ascii: "is_ws c \<Longrightarrow> is_ascii c"
  by (auto simp: is_ws_def is_ascii_def byte_def)

lemma lexing_skip: "lexing src l \<Longrightarrow> lexing src (skip_whitespace l)"
proof -
  assume l: "lexing src l"
  then obtain u where u: "src = u @ lx_rest l" "lx_pos l = length u" by (auto simp: lexing_def)
  define w where "w = takeWhile is_ws (lx_rest l)"
  have w: "lx_rest l = w @ lx_rest (skip_whitespace l)"
    by (simp add: w_def skip_whitespace_def)
  have "list_all is_ascii w" by (auto simp: w_def list_all_iff ws_ascii dest: set_takeWhileD)
  moreover have "utf8_valid (w @ lx_rest (skip_whitespace l))"
    using l w by (metis lexing_def)
  ultimately have "utf8_valid (lx_rest (skip_whitespace l))"
    by (simp add: utf8_valid_ascii_prefix)
  moreover have "src = (u @ w) @ lx_rest (skip_whitespace l)"
    using u(1) w by (metis append_assoc)
  moreover have "lx_pos (skip_whitespace l) = length (u @ w)"
    by (simp add: skip_whitespace_def w_def u(2))
  ultimately show ?thesis unfolding lexing_def by blast
qed

lemma lexing_next:
  assumes l: "lexing src l" and n: "next_token l = Inr (t, l')" and k: "tk_kind t \<noteq> TEof"
  shows "lexing src l'"
proof -
  define l1 where "l1 = skip_whitespace l"
  have l1: "lexing src l1" using l unfolding l1_def by (rule lexing_skip)
  obtain b r where b: "lx_rest l1 = b # r" "lex_token_at (lx_pos l1) b l1 = Inr (t, l')"
    using n k by (auto simp: next_token_def Let_def l1_def lx_peek_def split: list.splits)
  from lex_token_at_consumes [OF b(2,1)] obtain w where w: "consumes l1 w l'" by blast
  from l1 obtain u where "src = u @ lx_rest l1" "lx_pos l1 = length u" by (auto simp: lexing_def)
  with w have "src = (u @ w) @ lx_rest l'" "lx_pos l' = length (u @ w)"
    by (auto simp: consumes_def)
  moreover have "utf8_valid (lx_rest l')"
    using lex_token_at_utf8 [OF b(2,1)] l1 by (simp add: lexing_def)
  ultimately show ?thesis unfolding lexing_def by blast
qed

lemma lexing_error:
  assumes l: "lexing src l" and n: "next_token l = Inl e"
  shows "le_position e < length src \<and> lex_error_at e (src ! le_position e)"
proof -
  define l1 where "l1 = skip_whitespace l"
  have l1: "lexing src l1" using l unfolding l1_def by (rule lexing_skip)
  obtain b r where b: "lx_rest l1 = b # r" "lex_token_at (lx_pos l1) b l1 = Inl e"
    using n by (auto simp: next_token_def Let_def l1_def lx_peek_def split: list.splits)
  from lex_token_at_error [OF b(2,1)] l1 have e: "le_position e = lx_pos l1" "lex_error_at e b"
    by (auto simp: lexing_def)
  from l1 obtain u where "src = u @ b # r" "lx_pos l1 = length u"
    using b by (auto simp: lexing_def)
  with e show ?thesis by simp
qed

lemma tokenize_from_error:
  "lexing src l \<Longrightarrow> tokenize_from l = Inl e
    \<Longrightarrow> le_position e < length src \<and> lex_error_at e (src ! le_position e)"
proof (induction l rule: tokenize_from.induct)
  case (1 l)
  show ?case
  proof (cases "next_token l")
    case (Inl e')
    with 1 lexing_error [OF "1.prems"(1)] show ?thesis by (auto simp: tokenize_from.simps [of l])
  next
    case (Inr p)
    obtain t l' where p: "p = (t, l')" by (cases p)
    with Inr "1.prems"(2) have k: "tk_kind t \<noteq> TEof" and e: "tokenize_from l' = Inl e"
      by (auto simp: tokenize_from.simps [of l] rbind_Inl_iff split: if_splits)
    from "1.prems"(1) Inr p k have "lexing src l'" by (auto intro: lexing_next)
    with "1.IH" Inr p k e show ?thesis by auto
  qed
qed

end
