(* ===== verification/LexSpec.thy ===== *)
theory LexSpec
  imports Lexer
begin

text \<open>
  What the lexer of \<open>src/dsl/lexer.rs\<close> promises, stated without its code: a relation between the
  text of a token and its kind, and the maximal-munch condition on what follows it. The lexer is
  shown sound (a token list spells the source, offsets included) and complete (a spelling is lexed
  to the token list it spells).
\<close>

section \<open>Spelling of tokens\<close>

definition punct_table :: "(token_kind \<times> string) list" where
  "punct_table =
     [(TDollar, ''$''), (TDot, ''.''), (TLBracket, ''[''), (TRBracket, '']''), (TLParen, ''(''),
      (TRParen, '')''), (TQuestion, ''?''), (TAt, ''@''), (TStar, ''*''), (TEq, ''==''),
      (TNotEq, ''!=''), (TLt, ''<''), (TLe, ''<=''), (TGt, ''>''), (TGe, ''>=''), (TNot, ''!''),
      (TAnd, ''&&''), (TOr, ''||''), (TCoalesce, ''??'')]"

definition punct_text :: "token_kind \<Rightarrow> string option" where
  "punct_text k = map_of punct_table k"

definition ident_text :: "string \<Rightarrow> bool" where
  "ident_text w \<longleftrightarrow> w \<noteq> [] \<and> is_ident_start (hd w) \<and> list_all is_ident_char w"

definition string_text :: "string \<Rightarrow> bool" where
  "string_text s \<longleftrightarrow> CHR 0x27 \<notin> set s \<and> utf8_valid s"

inductive spells :: "string \<Rightarrow> token_kind \<Rightarrow> bool" where
  punct: "punct_text k = Some w \<Longrightarrow> spells w k"
| str: "string_text s \<Longrightarrow> spells (CHR 0x27 # s @ [CHR 0x27]) (TString s)"
| num: "number_text w \<Longrightarrow> parse_f64 w = Some n \<Longrightarrow> spells w (TNumber n)"
| word: "ident_text w \<Longrightarrow> spells w (keyword_token w)"

inductive_cases spells_EofE: "spells w TEof"
inductive_cases spells_identE: "spells w (TIdent s)"
inductive_cases spells_stringE: "spells w (TString s)"
inductive_cases spells_numberE: "spells w (TNumber n)"

text \<open>What may follow a token's text without extending the token.\<close>

definition next_not :: "(char \<Rightarrow> bool) \<Rightarrow> string \<Rightarrow> bool" where
  "next_not p r \<longleftrightarrow> r = [] \<or> \<not> p (hd r)"

definition follows :: "string \<Rightarrow> token_kind \<Rightarrow> string \<Rightarrow> bool" where
  "follows w k r \<longleftrightarrow>
     (case k of
        TLt \<Rightarrow> next_not (\<lambda>c. c = CHR ''='') r
      | TGt \<Rightarrow> next_not (\<lambda>c. c = CHR ''='') r
      | TNot \<Rightarrow> next_not (\<lambda>c. c = CHR ''='') r
      | TQuestion \<Rightarrow> next_not (\<lambda>c. c = CHR ''?'') r
      | TNumber n \<Rightarrow> next_not (\<lambda>c. is_digit c \<or> c = CHR ''.'') r
      | TIdent s \<Rightarrow> next_not is_ident_char r
      | TTrue \<Rightarrow> next_not is_ident_char r
      | TFalse \<Rightarrow> next_not is_ident_char r
      | TNull \<Rightarrow> next_not is_ident_char r
      | _ \<Rightarrow> True)"

section \<open>One token\<close>

lemma punct_text_simps [simp]:
  "punct_text (TString s) = None" "punct_text (TNumber n) = None" "punct_text (TIdent s) = None"
  "punct_text TTrue = None" "punct_text TFalse = None" "punct_text TNull = None"
  "punct_text TEof = None"
  by (simp_all add: punct_text_def punct_table_def)

lemma punct_all: "list_all P punct_table \<Longrightarrow> punct_text k = Some w \<Longrightarrow> P (k, w)"
  by (auto simp: punct_text_def list_all_iff dest: map_of_SomeD)

definition extends :: "token_kind \<Rightarrow> char option" where
  "extends k =
     (if k \<in> {TLt, TGt, TNot} then Some (CHR ''='')
      else if k = TQuestion then Some (CHR ''?'') else None)"

lemma follows_extends: "follows w k r \<Longrightarrow> extends k = Some c \<Longrightarrow> next_not (\<lambda>d. d = c) r"
  by (auto simp: extends_def follows_def split: if_splits)

lemma operator_token_unextended:
  assumes "extends k = Some c" "operator_token b None = Some (k, 1)" "p \<noteq> Some c"
  shows "operator_token b p = Some (k, 1)"
  using assms by (auto simp: extends_def operator_token_def split: if_splits)

lemma punct_single:
  assumes "punct_text k = Some w" "w = [b]"
  shows "\<not> is_ws b \<and> (single_token b = Some k
    \<or> single_token b = None \<and> extends k \<noteq> None \<and> operator_token b None = Some (k, 1))"
proof -
  have "list_all (\<lambda>(k, w). case w of [b] \<Rightarrow> \<not> is_ws b \<and> (single_token b = Some k
    \<or> single_token b = None \<and> extends k \<noteq> None \<and> operator_token b None = Some (k, 1)) | _ \<Rightarrow> True)
    punct_table"
    by (simp add: punct_table_def is_ws_def byte_def single_token_def operator_token_def extends_def)
  from punct_all [OF this assms(1)] assms(2) show ?thesis by simp
qed

lemma punct_double:
  assumes "punct_text k = Some w" "w = [b, c]"
  shows "\<not> is_ws b \<and> single_token b = None \<and> operator_token b (Some c) = Some (k, 2)"
proof -
  have "list_all (\<lambda>(k, w). case w of [b, c] \<Rightarrow>
      \<not> is_ws b \<and> single_token b = None \<and> operator_token b (Some c) = Some (k, 2) | _ \<Rightarrow> True)
    punct_table"
    by (simp add: punct_table_def is_ws_def byte_def single_token_def operator_token_def)
  from punct_all [OF this assms(1)] assms(2) show ?thesis by simp
qed

lemma punct_length: "punct_text k = Some w \<Longrightarrow> (\<exists>b. w = [b]) \<or> (\<exists>b c. w = [b, c])"
proof -
  have "list_all (\<lambda>(k, w). length w = 1 \<or> length w = 2) punct_table"
    by (simp add: punct_table_def)
  from punct_all [OF this] show "punct_text k = Some w \<Longrightarrow> ?thesis"
    by (fastforce simp: length_Suc_conv numeral_2_eq_2)
qed

lemma lex_punct:
  assumes k: "punct_text k = Some w" and l: "lx_rest l = w @ r" and f: "follows w k r"
  shows "\<exists>b s. w @ r = b # s \<and> \<not> is_ws b
    \<and> lex_token_at start b l = Inr (\<lparr>tk_kind = k, tk_start = start\<rparr>, advance (length w) l)"
proof -
  consider (one) b where "w = [b]" | (two) b c where "w = [b, c]"
    using punct_length [OF k] by blast
  then show ?thesis
  proof cases
    case one
    then have p2: "lx_peek2 l = (case r of [] \<Rightarrow> None | c # _ \<Rightarrow> Some c)"
      using l by (simp add: lx_peek2_def split: list.splits)
    show ?thesis
    proof (cases "single_token b")
      case (Some k')
      with one k punct_single [of k w b] show ?thesis by (simp add: lex_token_at_def)
    next
      case None
      with one k punct_single [of k w b] obtain c where
        c: "extends k = Some c" "operator_token b None = Some (k, 1)" "\<not> is_ws b" by auto
      have "lx_peek2 l \<noteq> Some c"
        using follows_extends [OF f c(1)] p2 by (auto simp: next_not_def split: list.splits)
      with c have "operator_token b (lx_peek2 l) = Some (k, 1)"
        by (blast intro: operator_token_unextended)
      with one None c show ?thesis by (simp add: lex_token_at_def)
    qed
  next
    case two
    with l have "lx_peek2 l = Some c" by (simp add: lx_peek2_def)
    with two k punct_double [of k w b c] show ?thesis
      by (auto simp: lex_token_at_def simp flip: numeral_2_eq_2)
  qed
qed

lemma ident_start_distinct: "is_ident_start b \<Longrightarrow> b \<notin> set ''$.[]()@*=!<>&|?-0123456789 ''"
proof
  assume b: "is_ident_start b" "b \<in> set ''$.[]()@*=!<>&|?-0123456789 ''"
  have "list_all (\<lambda>c. \<not> is_ident_start c) ''$.[]()@*=!<>&|?-0123456789 ''"
    by (simp add: is_ident_start_def is_alpha_def byte_def)
  with b show False by (auto simp: list_all_iff)
qed

lemma ident_start_tokens:
  assumes "is_ident_start b"
  shows "single_token b = None" "operator_token b b2 = None" "b \<noteq> CHR 0x27"
    "\<not> starts_number b b2" "\<not> is_ws b"
proof -
  note d = ident_start_distinct [OF assms]
  show "single_token b = None" using d by (auto simp: single_token_def)
  show "operator_token b b2 = None" using d by (auto simp: operator_token_def)
  have "\<not> is_ident_start (CHR 0x27)" by (simp add: is_ident_start_def is_alpha_def byte_def)
  with assms show "b \<noteq> CHR 0x27" by auto
  have "\<not> is_digit b"
    using assms by (auto simp: is_ident_start_def is_alpha_def is_digit_def byte_def)
  with d show "\<not> starts_number b b2" by (auto simp: starts_number_def)
  show "\<not> is_ws b"
    using assms by (auto simp: is_ident_start_def is_alpha_def is_ws_def byte_def)
qed

lemma lex_word:
  assumes "ident_text w" "lx_rest l = w @ r" "next_not is_ident_char r"
  shows "\<exists>b s. w @ r = b # s \<and> \<not> is_ws b
    \<and> lex_token_at start b l
      = Inr (\<lparr>tk_kind = keyword_token w, tk_start = start\<rparr>, advance (length w) l)"
proof -
  obtain b s where b: "w = b # s" "is_ident_start b"
    using assms(1) by (cases w) (auto simp: ident_text_def)
  have tw: "takeWhile is_ident_char (w @ r) = w"
    using assms(1,3) takeWhile_stop [of w is_ident_char r]
    by (auto simp: ident_text_def next_not_def list_all_iff)
  have "list_all is_ascii w"
    using assms(1) by (auto simp: ident_text_def list_all_iff is_ident_char_ascii)
  then have "utf8_valid w" by (rule ascii_utf8_valid)
  then have "lex_ident start l
      = Inr (\<lparr>tk_kind = keyword_token w, tk_start = start\<rparr>, advance (length w) l)"
    by (simp add: lex_ident_def Let_def lx_slice_def advance_while_def assms(2) tw)
  with b ident_start_tokens [OF b(2)] show ?thesis by (simp add: lex_token_at_def)
qed

lemma lex_quoted:
  assumes "string_text s" "lx_rest l = CHR 0x27 # s @ CHR 0x27 # r"
  shows "lex_token_at start (CHR 0x27) l
      = Inr (\<lparr>tk_kind = TString s, tk_start = start\<rparr>, advance (length s + 2) l)"
proof -
  define l0 where "l0 = advance 1 l"
  define l1 where "l1 = advance_while (\<lambda>b. b \<noteq> CHR 0x27) l0"
  have s: "CHR 0x27 \<notin> set s" "utf8_valid s" using assms(1) by (auto simp: string_text_def)
  have tw: "takeWhile (\<lambda>b. b \<noteq> CHR 0x27) (s @ CHR 0x27 # r) = s"
    "dropWhile (\<lambda>b. b \<noteq> CHR 0x27) (s @ CHR 0x27 # r) = CHR 0x27 # r"
    using s takeWhile_stop [of s "\<lambda>b. b \<noteq> CHR 0x27" "CHR 0x27 # r"] by (metis list.sel(1))+
  have f: "lx_peek l1 = Some (CHR 0x27)" "lx_slice l0 l1 = s" "advance 1 l1 = advance (length s + 2) l"
    using assms(2) tw
    by (simp_all add: l0_def l1_def lx_peek_def lx_slice_def advance_def advance_while_def)
  have "lex_string start l
      = Inr (\<lparr>tk_kind = TString s, tk_start = start\<rparr>, advance (length s + 2) l)"
    using f s unfolding l0_def l1_def by (simp add: lex_string_def Let_def)
  moreover have "single_token (CHR 0x27) = None" "operator_token (CHR 0x27) (lx_peek2 l) = None"
    by (simp_all add: single_token_def operator_token_def)
  ultimately show ?thesis by (simp add: lex_token_at_def)
qed

lemma digits_span:
  "list_all is_digit a \<Longrightarrow> next_not is_digit r \<Longrightarrow>
    takeWhile is_digit (a @ r) = a \<and> dropWhile is_digit (a @ r) = r"
  by (intro takeWhile_stop) (auto simp: list_all_iff next_not_def)

text \<open>The number branch on a text of the decimal grammar followed by neither a digit nor a point.\<close>

lemma lex_number_text:
  assumes w: "number_text w" "parse_f64 w = Some n" and l: "lx_rest l = w @ r"
    and r: "next_not (\<lambda>c. is_digit c \<or> c = CHR ''.'') r"
  shows "lex_number start l = Inr (\<lparr>tk_kind = TNumber n, tk_start = start\<rparr>, advance (length w) l)"
proof -
  obtain sg a f where wf: "w = sg @ a @ f" and sg: "sg = [] \<or> sg = ''-''" and a: "all_digits a"
    and f: "f = [] \<or> (\<exists>d. f = CHR ''.'' # d \<and> all_digits d)"
    using w(1) by (auto simp: number_text_def)
  have da: "list_all is_digit a" "a \<noteq> []" using a by (auto simp: all_digits_def)
  have nd: "\<not> is_digit (CHR ''.'')" "\<not> is_digit (CHR ''-'')" by (simp_all add: is_digit_def byte_def)
  have nf: "next_not is_digit (f @ r)" using f r nd by (auto simp: next_not_def)
  define l1 where "l1 = (if lx_peek l = Some (CHR ''-'') then advance 1 l else l)"
  have l1: "l1 = advance (length sg) l" "lx_rest l1 = a @ f @ r"
    using sg da nd l wf by (auto simp: l1_def lx_peek_def advance_def neq_Nil_conv)
  define l2 where "l2 = advance_while is_digit l1"
  have l2: "l2 = advance (length sg + length a) l" "lx_rest l2 = f @ r"
    using digits_span [OF da(1) nf] l1 l wf unfolding l2_def
    by (simp_all add: advance_while_def advance_def)
  define l3 where "l3 = (if lx_peek l2 = Some (CHR ''.'')
      \<and> (case lx_peek2 l2 of Some c \<Rightarrow> is_digit c | None \<Rightarrow> False)
    then advance_while is_digit (advance 1 l2) else l2)"
  have l3: "l3 = advance (length w) l"
  proof (cases "f = []")
    case True
    with r l2 have "lx_peek l2 \<noteq> Some (CHR ''.'')" by (auto simp: lx_peek_def next_not_def split: list.splits)
    with True l2 wf show ?thesis by (simp add: l3_def)
  next
    case False
    with f obtain d where d: "f = CHR ''.'' # d" "all_digits d" by blast
    then have dd: "list_all is_digit d" "d \<noteq> []" by (auto simp: all_digits_def)
    have "next_not is_digit r" using r by (auto simp: next_not_def)
    from digits_span [OF dd(1) this] have "takeWhile is_digit (d @ r) = d" by simp
    with d dd l2 wf l show ?thesis
      by (auto simp: l3_def lx_peek_def lx_peek2_def advance_while_def advance_def neq_Nil_conv)
  qed
  have raw: "lx_slice l l3 = w" using l by (simp add: lx_slice_def l3)
  have "utf8_valid w" using w(1) by (blast intro: ascii_utf8_valid number_text_ascii)
  with w(2) show ?thesis
    unfolding lex_number_def Let_def l1_def [symmetric] l2_def [symmetric] l3_def [symmetric] raw
    by (simp add: l3)
qed

lemma number_start:
  assumes "number_text w"
  obtains b s where "w = b # s" "starts_number b (case s of [] \<Rightarrow> None | c # _ \<Rightarrow> Some c)" "s \<noteq> [] \<or> is_digit b"
proof -
  obtain sg a f where w: "w = sg @ a @ f" and sg: "sg = [] \<or> sg = ''-''" and a: "all_digits a"
    using assms by (auto simp: number_text_def)
  obtain c r where "a = c # r" "is_digit c" using a by (cases a) (auto simp: all_digits_def)
  with w sg that show thesis by (auto simp: starts_number_def)
qed

lemma number_start_tokens:
  assumes "is_digit b \<or> b = CHR ''-''"
  shows "single_token b = None" "operator_token b b2 = None" "b \<noteq> CHR 0x27" "\<not> is_ws b"
proof -
  have "list_all (\<lambda>c. \<not> is_digit c \<and> c \<noteq> CHR ''-'') ''$.[]()@*=!<>&|? ''"
    by (simp add: is_digit_def byte_def)
  with assms have d: "b \<notin> set ''$.[]()@*=!<>&|? ''" by (auto simp: list_all_iff)
  show "single_token b = None" using d by (auto simp: single_token_def)
  show "operator_token b b2 = None" using d by (auto simp: operator_token_def)
  have "\<not> is_digit (CHR 0x27)" by (simp add: is_digit_def byte_def)
  with assms show "b \<noteq> CHR 0x27" by auto
  from assms show "\<not> is_ws b" by (auto simp: is_ws_def is_digit_def byte_def)
qed

lemma spells_lexed:
  assumes "spells w k" "follows w k r" "lx_rest l = w @ r"
  shows "\<exists>b s. w @ r = b # s \<and> \<not> is_ws b
    \<and> lex_token_at start b l = Inr (\<lparr>tk_kind = k, tk_start = start\<rparr>, advance (length w) l)"
  using assms
proof (induction rule: spells.induct)
  case (punct k w)
  then show ?case by (intro lex_punct)
next
  case (str s)
  then have "lx_rest l = CHR 0x27 # s @ CHR 0x27 # r" by simp
  with str(1) have "lex_token_at start (CHR 0x27) l
      = Inr (\<lparr>tk_kind = TString s, tk_start = start\<rparr>, advance (length s + 2) l)"
    by (rule lex_quoted)
  moreover have "\<not> is_ws (CHR 0x27)" by (simp add: is_ws_def byte_def)
  ultimately show ?case by (simp add: numeral_2_eq_2)
next
  case (num w n)
  from num(1) obtain b s where w: "w = b # s"
    "starts_number b (case s of [] \<Rightarrow> None | c # _ \<Rightarrow> Some c)" "s \<noteq> [] \<or> is_digit b"
    by (rule number_start)
  then have b: "is_digit b \<or> b = CHR ''-''" by (auto simp: starts_number_def)
  have "starts_number b (lx_peek2 l)"
    using w num(4) by (cases s) (auto simp: starts_number_def lx_peek2_def)
  moreover have "lex_number start l
      = Inr (\<lparr>tk_kind = TNumber n, tk_start = start\<rparr>, advance (length w) l)"
    using num by (intro lex_number_text) (auto simp: follows_def)
  ultimately show ?case
    using w(1) number_start_tokens [OF b] by (simp add: lex_token_at_def)
next
  case (word w)
  then have "next_not is_ident_char r"
    by (auto simp: follows_def keyword_token_def split: if_splits)
  with word show ?case by (intro lex_word)
qed

section \<open>Whole sources\<close>

text \<open>
  A spelling of a source: per token the white space before it, its text and its kind. \<open>spelled\<close>
  puts the texts together; \<open>spelling_ok\<close> asks each text to spell its kind and each token to be
  ended by what follows; \<open>spelled_tokens\<close> are the tokens with their offsets, the end last.
\<close>

type_synonym spelling = "(string \<times> string \<times> token_kind) list"

fun spelled :: "spelling \<Rightarrow> string \<Rightarrow> string" where
  "spelled [] end_ws = end_ws"
| "spelled ((ws, w, k) # xs) end_ws = ws @ w @ spelled xs end_ws"

fun spelling_ok :: "spelling \<Rightarrow> string \<Rightarrow> bool" where
  "spelling_ok [] end_ws \<longleftrightarrow> list_all is_ws end_ws"
| "spelling_ok ((ws, w, k) # xs) end_ws \<longleftrightarrow>
     list_all is_ws ws \<and> spells w k \<and> follows w k (spelled xs end_ws) \<and> spelling_ok xs end_ws"

fun spelled_tokens :: "nat \<Rightarrow> spelling \<Rightarrow> string \<Rightarrow> token list" where
  "spelled_tokens p [] end_ws = [\<lparr>tk_kind = TEof, tk_start = p + length end_ws\<rparr>]"
| "spelled_tokens p ((ws, w, k) # xs) end_ws =
     \<lparr>tk_kind = k, tk_start = p + length ws\<rparr> # spelled_tokens (p + length ws + length w) xs end_ws"

lemma skip_ws:
  assumes "list_all is_ws ws" "lx_rest l = ws @ r" "r = [] \<or> \<not> is_ws (hd r)"
  shows "skip_whitespace l = advance (length ws) l"
proof -
  have "takeWhile is_ws (ws @ r) = ws"
    using assms(1,3) takeWhile_stop [of ws is_ws r] by (auto simp: list_all_iff)
  then show ?thesis using assms(2) by (simp add: skip_whitespace_def advance_while_def)
qed

lemma spells_not_Eof: "\<not> spells w TEof"
  by (auto elim!: spells_EofE simp: keyword_token_def split: if_splits)

lemma next_token_spelled:
  assumes "list_all is_ws ws" "spells w k" "follows w k r" "lx_rest l = ws @ w @ r"
  shows "next_token l
    = Inr (\<lparr>tk_kind = k, tk_start = lx_pos l + length ws\<rparr>, advance (length ws + length w) l)"
proof -
  define l1 where "l1 = advance (length ws) l"
  have l1: "lx_rest l1 = w @ r" using assms(4) by (simp add: l1_def)
  from spells_lexed [OF assms(2,3) l1, of "lx_pos l1"] obtain b s where
    b: "w @ r = b # s" "\<not> is_ws b" and
    t: "lex_token_at (lx_pos l1) b l1 = Inr (\<lparr>tk_kind = k, tk_start = lx_pos l1\<rparr>, advance (length w) l1)"
    by blast
  have "skip_whitespace l = l1"
    unfolding l1_def using assms(1,4) b by (intro skip_ws) auto
  moreover have "lx_peek l1 = Some b" using b l1 by (simp add: lx_peek_def)
  moreover have "advance (length w) l1 = advance (length ws + length w) l"
    by (simp add: l1_def advance_def add.commute add.left_commute)
  ultimately show ?thesis using t by (simp add: next_token_def Let_def l1_def)
qed

lemma next_token_end:
  assumes "list_all is_ws end_ws" "lx_rest l = end_ws"
  shows "next_token l = Inr (\<lparr>tk_kind = TEof, tk_start = lx_pos l + length end_ws\<rparr>,
    advance (length end_ws) l)"
proof -
  have "skip_whitespace l = advance (length end_ws) l"
    using assms by (intro skip_ws [where r = "[]"]) auto
  then show ?thesis using assms by (simp add: next_token_def Let_def lx_peek_def)
qed

lemma tokenize_from_spelled:
  "spelling_ok xs end_ws \<Longrightarrow> lx_rest l = spelled xs end_ws \<Longrightarrow>
    tokenize_from l = Inr (spelled_tokens (lx_pos l) xs end_ws)"
proof (induction xs end_ws arbitrary: l rule: spelling_ok.induct)
  case (1 end_ws)
  then show ?case by (simp add: tokenize_from.simps next_token_end)
next
  case (2 ws w k xs end_ws)
  then have n: "next_token l
      = Inr (\<lparr>tk_kind = k, tk_start = lx_pos l + length ws\<rparr>, advance (length ws + length w) l)"
    by (intro next_token_spelled) auto
  have "k \<noteq> TEof" using 2 spells_not_Eof by auto
  moreover have "tokenize_from (advance (length ws + length w) l)
      = Inr (spelled_tokens (lx_pos l + (length ws + length w)) xs end_ws)"
    using 2 "2.IH" [of "advance (length ws + length w) l"] by simp
  ultimately show ?case by (simp add: tokenize_from.simps [of l] n add.assoc)
qed

lemma lex_token_at_sound:
  assumes "lex_token_at start b l = Inr (t, l')" "lx_rest l = b # r"
  shows "\<exists>w. spells w (tk_kind t) \<and> consumes l w l'"
proof -
  have punct: "spells w k" if "(k, w) \<in> set punct_table" for k w
  proof (rule spells.punct)
    have "distinct (map fst punct_table)" by (simp add: punct_table_def)
    with that show "punct_text k = Some w" by (simp add: punct_text_def)
  qed
  consider (single) k where "single_token b = Some k"
    | (op) k n where "single_token b = None" "operator_token b (lx_peek2 l) = Some (k, n)"
    | (str) "single_token b = None" "operator_token b (lx_peek2 l) = None" "b = CHR 0x27"
    | (num) "single_token b = None" "operator_token b (lx_peek2 l) = None" "b \<noteq> CHR 0x27"
        "starts_number b (lx_peek2 l)"
    | (id) "single_token b = None" "operator_token b (lx_peek2 l) = None" "b \<noteq> CHR 0x27"
        "\<not> starts_number b (lx_peek2 l)" "is_ident_start b"
    using assms(1) by (fastforce simp: lex_token_at_def split: option.splits if_splits)
  then show ?thesis
  proof cases
    case single
    then have t: "tk_kind t = k" "l' = advance 1 l" using assms(1) by (auto simp: lex_token_at_def)
    have "(k, [b]) \<in> set punct_table"
      using single by (auto simp: single_token_def punct_table_def split: if_splits)
    with t punct assms(2) show ?thesis by (auto simp: consumes_def intro!: exI [of _ "[b]"])
  next
    case op
    then have t: "tk_kind t = k" "l' = advance n l" using assms(1) by (auto simp: lex_token_at_def)
    show ?thesis
    proof (cases "n = 2")
      case True
      with op obtain c where c: "lx_peek2 l = Some c" "(k, [b, c]) \<in> set punct_table"
        by (auto simp: operator_token_def punct_table_def split: if_splits)
      with t True punct assms(2) show ?thesis
        by (auto simp: consumes_def lx_peek2_Some intro!: exI [of _ "[b, c]"])
    next
      case False
      with op have "n = 1" "(k, [b]) \<in> set punct_table"
        by (auto simp: operator_token_def punct_table_def split: if_splits)
      with t punct assms(2) show ?thesis by (auto simp: consumes_def intro!: exI [of _ "[b]"])
    qed
  next
    case str
    then have "lex_string start l = Inr (t, l')" using assms(1) by (simp add: lex_token_at_def)
    from lex_string_consumes [OF this assms(2)] obtain s where
      s: "tk_kind t = TString s" "utf8_valid s" "CHR 0x27 \<notin> set s"
      "consumes l (b # s @ [CHR 0x27]) l'" by auto
    have "spells (b # s @ [CHR 0x27]) (tk_kind t)"
      unfolding s(1) str(3) by (rule spells.str) (use s in \<open>auto simp: string_text_def\<close>)
    with s(4) show ?thesis by blast
  next
    case num
    from lex_number_total [OF assms(2) num(4), of start] obtain w n l'' where
      "lex_number start l = Inr (\<lparr>tk_kind = TNumber n, tk_start = start\<rparr>, l'')"
      "number_text w" "parse_f64 w = Some n" "consumes l w l''" by blast
    with num assms(1) show ?thesis
      by (intro exI [of _ w]) (auto simp: lex_token_at_def intro: spells.num)
  next
    case id
    from lex_ident_total [OF assms(2) id(5), of start] obtain w l'' where
      w: "lex_ident start l = Inr (\<lparr>tk_kind = keyword_token w, tk_start = start\<rparr>, l'')"
      "w = takeWhile is_ident_char (b # r)" "consumes l w l''" by blast
    have "ident_text w"
      using w(2) id(5) is_ident_start_char [of b]
      by (auto simp: ident_text_def list_all_iff dest: set_takeWhileD)
    with id assms(1) w(1,3) show ?thesis
      by (intro exI [of _ w]) (auto simp: lex_token_at_def intro: spells.word)
  qed
qed

lemma tokenize_from_sound:
  "tokenize_from l = Inr ts \<Longrightarrow>
    \<exists>xs end_ws. lx_rest l = spelled xs end_ws \<and> ts = spelled_tokens (lx_pos l) xs end_ws
      \<and> list_all is_ws end_ws \<and> list_all (\<lambda>(ws, w, k). list_all is_ws ws \<and> spells w k) xs"
proof (induction l arbitrary: ts rule: tokenize_from.induct)
  case (1 l)
  then obtain t l' where n: "next_token l = Inr (t, l')"
    by (auto simp: tokenize_from.simps [of l] rbind_Inr_iff)
  define l1 where "l1 = skip_whitespace l"
  define ws where "ws = takeWhile is_ws (lx_rest l)"
  have ws: "list_all is_ws ws" by (auto simp: ws_def list_all_iff dest: set_takeWhileD)
  have c1: "consumes l ws l1"
    unfolding ws_def l1_def skip_whitespace_def by (rule consumes_advance_while)
  show ?case
  proof (cases "lx_rest l1")
    case Nil
    then have "t = \<lparr>tk_kind = TEof, tk_start = lx_pos l1\<rparr>"
      using n by (auto simp: next_token_def l1_def Let_def lx_peek_def)
    with 1 n c1 ws Nil show ?thesis
      by (intro exI [of _ "[]"] exI [of _ ws])
        (auto simp: tokenize_from.simps [of l] consumes_def)
  next
    case (Cons b r)
    then have b: "lex_token_at (lx_pos l1) b l1 = Inr (t, l')"
      using n by (simp add: next_token_def l1_def Let_def lx_peek_def)
    from lex_token_at_sound [OF b Cons] obtain w where
      w: "spells w (tk_kind t)" "consumes l1 w l'" by blast
    from lex_token_at_consumes [OF b Cons] have t: "tk_start t = lx_pos l1" "tk_kind t \<noteq> TEof"
      by auto
    from "1.prems" n t obtain ts' where ts: "tokenize_from l' = Inr ts'" "ts = t # ts'"
      by (auto simp: tokenize_from.simps [of l] rbind_Inr_iff)
    from "1.IH" [OF n refl t(2) ts(1)] obtain xs end_ws where
      ih: "lx_rest l' = spelled xs end_ws" "ts' = spelled_tokens (lx_pos l') xs end_ws"
      "list_all is_ws end_ws" "list_all (\<lambda>(ws, w, k). list_all is_ws ws \<and> spells w k) xs"
      by blast
    with w ws c1 t ts show ?thesis
      by (intro exI [of _ "(ws, w, tk_kind t) # xs"] exI [of _ end_ws])
        (auto simp: consumes_def add.assoc)
  qed
qed


section \<open>Properties of the lexer\<close>

lemma spells_nonempty: "spells w k \<Longrightarrow> w \<noteq> []"
  by (induction rule: spells.induct)
    (auto simp: ident_text_def dest: punct_length number_text_nonempty)

lemma spelled_tokens_shape:
  assumes "list_all (\<lambda>(ws, w, k). list_all is_ws ws \<and> spells w k) xs"
  shows "\<exists>us. spelled_tokens p xs end_ws
      = us @ [\<lparr>tk_kind = TEof, tk_start = p + length (spelled xs end_ws)\<rparr>]
    \<and> TEof \<notin> set (map tk_kind us) \<and> sorted_wrt (<) (map tk_start us)
    \<and> list_all (\<lambda>t. p \<le> tk_start t \<and> tk_start t < p + length (spelled xs end_ws)) us"
  using assms
proof (induction p xs end_ws rule: spelled_tokens.induct)
  case (1 p end_ws)
  show ?case by simp
next
  case (2 p ws w k xs end_ws)
  let ?q = "p + length ws + length w"
  from 2 obtain us where us:
    "spelled_tokens ?q xs end_ws
      = us @ [\<lparr>tk_kind = TEof, tk_start = ?q + length (spelled xs end_ws)\<rparr>]"
    "TEof \<notin> set (map tk_kind us)" "sorted_wrt (<) (map tk_start us)"
    "list_all (\<lambda>t. ?q \<le> tk_start t \<and> tk_start t < ?q + length (spelled xs end_ws)) us"
    by auto
  have "spells w k" using 2 by simp
  then have w: "0 < length w" "k \<noteq> TEof" using spells_nonempty spells_not_Eof by auto
  have lo: "p + length ws < tk_start t" and hi: "tk_start t < ?q + length (spelled xs end_ws)"
    if "t \<in> set us" for t
  proof -
    from us(4) that have "?q \<le> tk_start t \<and> tk_start t < ?q + length (spelled xs end_ws)"
      by (simp add: list_all_iff)
    with w(1) show "p + length ws < tk_start t" "tk_start t < ?q + length (spelled xs end_ws)"
      by linarith+
  qed
  show ?case
  proof (intro exI conjI)
    let ?us = "\<lparr>tk_kind = k, tk_start = p + length ws\<rparr> # us"
    show "spelled_tokens p ((ws, w, k) # xs) end_ws
      = ?us @ [\<lparr>tk_kind = TEof, tk_start = p + length (spelled ((ws, w, k) # xs) end_ws)\<rparr>]"
      using us(1) by (simp add: add.assoc)
    show "TEof \<notin> set (map tk_kind ?us)" using us(2) w(2) by simp
    show "sorted_wrt (<) (map tk_start ?us)" using us(3) lo by auto
    show "list_all (\<lambda>t. p \<le> tk_start t
        \<and> tk_start t < p + length (spelled ((ws, w, k) # xs) end_ws)) ?us"
      using lo hi w(1) by (fastforce simp: list_all_iff)
  qed
qed

text \<open>
  C36. The lexer reads every spelling: white space, then a token's text, and so on, each text ended
  by what follows, gives exactly the tokens spelled, each with its byte offset, then the end token.
\<close>

theorem tokenize_complete:
  "spelling_ok xs end_ws \<Longrightarrow>
    tokenize (spelled xs end_ws) = Inr (spelled_tokens 0 xs end_ws)"
  using tokenize_from_spelled [of xs end_ws "lexer_new (spelled xs end_ws)"]
  by (simp add: tokenize_def lexer_new_def)

theorem tokenize_complete_witness:
  "tokenize '' $item''
    = Inr [\<lparr>tk_kind = TDollar, tk_start = 1\<rparr>, \<lparr>tk_kind = TIdent ''item'', tk_start = 2\<rparr>,
        \<lparr>tk_kind = TEof, tk_start = 6\<rparr>]"
proof -
  have "keyword_token ''item'' = TIdent ''item''" by (simp add: keyword_token_def)
  moreover have "ident_text ''item''"
    by (simp add: ident_text_def is_ident_start_def is_ident_char_def is_alnum_def is_alpha_def byte_def)
  ultimately have w: "spells ''item'' (TIdent ''item'')" using spells.word by metis
  have d: "spells ''$'' TDollar"
    by (rule spells.punct) (simp add: punct_text_def punct_table_def)
  show ?thesis
    using tokenize_complete [of "[('' '', ''$'', TDollar), ([], ''item'', TIdent ''item'')]" "[]"] w d
    by (simp add: follows_def next_not_def is_ws_def byte_def)
qed

text \<open>
  C37. What the lexer accepts is a spelling of the tokens it returns: the source is, token by token,
  white space and a text that spells the token's kind, at the offset the token carries.
\<close>

theorem tokenize_sound:
  "tokenize src = Inr ts \<Longrightarrow>
    \<exists>xs end_ws. src = spelled xs end_ws \<and> ts = spelled_tokens 0 xs end_ws \<and> list_all is_ws end_ws
      \<and> list_all (\<lambda>(ws, w, k). list_all is_ws ws \<and> spells w k) xs"
  using tokenize_from_sound [of "lexer_new src" ts] by (simp add: tokenize_def lexer_new_def)

theorem tokenize_sound_witness:
  "\<exists>xs end_ws. ''*'' = spelled xs end_ws \<and> tokenize ''*'' = Inr (spelled_tokens 0 xs end_ws)"
proof -
  have "tokenize ''*'' = Inr [\<lparr>tk_kind = TStar, tk_start = 0\<rparr>, \<lparr>tk_kind = TEof, tk_start = 1\<rparr>]"
    by code_simp
  with tokenize_sound [OF this] show ?thesis by auto
qed

text \<open>
  A token list ends in exactly one end token, which sits at the length of the source, and the
  other tokens start at strictly increasing offsets inside the source.
\<close>

theorem tokenize_shape:
  assumes "tokenize src = Inr ts"
  shows "\<exists>us. ts = us @ [\<lparr>tk_kind = TEof, tk_start = length src\<rparr>] \<and> TEof \<notin> set (map tk_kind us)
    \<and> sorted_wrt (<) (map tk_start us) \<and> (\<forall>t\<in>set us. tk_start t < length src)"
proof -
  from assms tokenize_from_sound [of "lexer_new src" ts] obtain xs end_ws where x:
    "src = spelled xs end_ws" "ts = spelled_tokens 0 xs end_ws"
    "list_all (\<lambda>(ws, w, k). list_all is_ws ws \<and> spells w k) xs"
    by (auto simp: tokenize_def lexer_new_def)
  from spelled_tokens_shape [OF x(3), of 0 end_ws] x(1,2) show ?thesis
    by (auto simp: list_all_iff)
qed

text \<open>
  On a source that is valid UTF-8, which every Rust string is, a lexical error points at a byte
  of the source and names it: an unexpected byte, or the quote of a string that is never closed.
  The lexer's own UTF-8 and number errors do not occur.
\<close>

theorem tokenize_error:
  "utf8_valid src \<Longrightarrow> tokenize src = Inl e \<Longrightarrow>
    le_position e < length src \<and> lex_error_at e (src ! le_position e)"
  using tokenize_from_error [OF lexing_new, of src e] by (simp add: tokenize_def)

theorem tokenize_error_witness:
  "\<exists>e. tokenize ''a % b'' = Inl e \<and> le_position e < 5 \<and> lex_error_at e (''a % b'' ! le_position e)"
proof -
  have u: "utf8_valid ''a % b''" by (simp add: is_ascii_def byte_def)
  have e: "tokenize ''a % b'' = Inl \<lparr>le_message = UnexpectedByte (CHR ''%''), le_position = 2\<rparr>"
    by code_simp
  from tokenize_error [OF u e] e show ?thesis by simp
qed

end
