(* ===== verification/Parser.thy ===== *)
theory Parser
  imports LexSpec
begin

text \<open>
  The recursive-descent parser of \<open>src/dsl/parser.rs\<close>: its state, the guards on nesting and on the
  number of operators, the reference productions and the precedence climb. A method of the source's
  \<open>Parser\<close> is a function on the record \<open>parser\<close> that returns the new state; its name here starts
  with \<open>p_\<close>. Indexing past the tokens is the value \<open>Panic\<close>, and the loops carry fuel, running out
  of which is the value \<open>Exhausted\<close>; neither value is ever returned (\<open>parse_expression_total\<close>).
\<close>

section \<open>State and errors\<close>

record parser =
  ps_tokens :: "token list"
  ps_pos :: nat
  ps_depth :: nat
  ps_ops :: nat

datatype parse_message =
    NestingTooDeep
  | TooManyOperators
  | ExpectedEof token_kind
  | ExpectedToken token_kind token_kind
  | ExpectedStepId
  | UnknownRoot string
  | ExpectedField
  | BadIndex f64
  | ExpectedFilterField
  | FilterNotString
  | UnexpectedInBrackets token_kind
  | ExpectedExpression token_kind

datatype parse_error = LexErr lex_error | Unexpected parse_message nat

datatype parse_fault = Fault parse_error | Panic | Exhausted

type_synonym 'a parsed = "parse_fault + 'a \<times> parser"

definition max_expr_depth :: nat where "max_expr_depth = 128"

definition max_expr_ops :: nat where "max_expr_ops = 256"

definition parser_new :: "token list \<Rightarrow> parser" where
  "parser_new ts = \<lparr>ps_tokens = ts, ps_pos = 0, ps_depth = 0, ps_ops = 0\<rparr>"

abbreviation unexpected :: "parse_message \<Rightarrow> nat \<Rightarrow> parse_fault + 'a" where
  "unexpected m pos \<equiv> Inl (Fault (Unexpected m pos))"

definition descend :: "nat \<Rightarrow> parser \<Rightarrow> parse_fault + parser" where
  "descend position p =
     (let p' = p\<lparr>ps_depth := ps_depth p + 1\<rparr> in
      if ps_depth p' > max_expr_depth then unexpected NestingTooDeep position else Inr p')"

definition ascend :: "parser \<Rightarrow> parser" where
  "ascend p = p\<lparr>ps_depth := ps_depth p - 1\<rparr>"

definition count_op :: "nat \<Rightarrow> parser \<Rightarrow> parse_fault + parser" where
  "count_op position p =
     (let p' = p\<lparr>ps_ops := ps_ops p + 1\<rparr> in
      if ps_ops p' > max_expr_ops then unexpected TooManyOperators position else Inr p')"

definition p_peek :: "parser \<Rightarrow> parse_fault + token" where
  "p_peek p = (if ps_pos p < length (ps_tokens p) then Inr (ps_tokens p ! ps_pos p) else Inl Panic)"

definition p_bump :: "parser \<Rightarrow> token parsed" where
  "p_bump p = rbind (p_peek p) (\<lambda>t.
     Inr (t, if tk_kind t = TEof then p else p\<lparr>ps_pos := ps_pos p + 1\<rparr>))"

definition expect_eof :: "parser \<Rightarrow> parse_fault + unit" where
  "expect_eof p = rbind (p_peek p) (\<lambda>t.
     if tk_kind t = TEof then Inr () else unexpected (ExpectedEof (tk_kind t)) (tk_start t))"

text \<open>\<open>std::mem::discriminant\<close> of two token kinds are equal: the constructor, not the payload.\<close>

definition same_discriminant :: "token_kind \<Rightarrow> token_kind \<Rightarrow> bool" where
  "same_discriminant a b =
     (case (a, b) of
        (TIdent _, TIdent _) \<Rightarrow> True
      | (TString _, TString _) \<Rightarrow> True
      | (TNumber _, TNumber _) \<Rightarrow> True
      | _ \<Rightarrow> a = b)"

definition expect :: "token_kind \<Rightarrow> parser \<Rightarrow> token parsed" where
  "expect want p = rbind (p_peek p) (\<lambda>t.
     if same_discriminant (tk_kind t) want then p_bump p
     else unexpected (ExpectedToken want (tk_kind t)) (tk_start t))"

text \<open>The irrefutable-pattern tests on a token's kind, e.g. \<open>let TokenKind::Ident(name) = kind else\<close>.\<close>

fun as_ident :: "token_kind \<Rightarrow> string option" where
  "as_ident (TIdent s) = Some s"
| "as_ident _ = None"

fun as_string :: "token_kind \<Rightarrow> string option" where
  "as_string (TString s) = Some s"
| "as_string _ = None"

fun as_number :: "token_kind \<Rightarrow> f64 option" where
  "as_number (TNumber n) = Some n"
| "as_number _ = None"

lemma token_pattern_simps [simp]:
  "as_ident k = Some s \<longleftrightarrow> k = TIdent s"
  "as_string k = Some s \<longleftrightarrow> k = TString s"
  "as_number k = Some n \<longleftrightarrow> k = TNumber n"
  by (cases k; auto)+

section \<open>References\<close>

text \<open>The root production: what follows the dollar sign.\<close>

definition p_steps_root :: "parser \<Rightarrow> root parsed" where
  "p_steps_root p =
     rbind (p_bump p) (\<lambda>(_, p).
     rbind (expect TDot p) (\<lambda>(_, p).
     rbind (p_bump p) (\<lambda>(id_tok, p).
       case as_ident (tk_kind id_tok) of
         Some i \<Rightarrow> Inr (RSteps i, p)
       | None \<Rightarrow> unexpected ExpectedStepId (tk_start id_tok))))"

definition p_named_root :: "root \<Rightarrow> parser \<Rightarrow> root parsed" where
  "p_named_root r p = rbind (p_bump p) (\<lambda>(_, p). Inr (r, p))"

definition plain_root :: "string \<Rightarrow> root option" where
  "plain_root name =
     (if name = ''input'' then Some RInput
      else if name = ''config'' then Some RConfig
      else if name = ''secrets'' then Some RSecrets
      else if name = ''trigger'' then Some RTrigger
      else if name = ''vars'' then Some RVars
      else if name = ''item'' then Some RItem
      else None)"

definition p_root :: "parser \<Rightarrow> root parsed" where
  "p_root p = rbind (p_peek p) (\<lambda>t.
     case as_ident (tk_kind t) of
       Some name \<Rightarrow>
         (case plain_root name of
            Some r \<Rightarrow> p_named_root r p
          | None \<Rightarrow>
              if name = ''steps'' then p_steps_root p
              else unexpected (UnknownRoot name) (tk_start t))
     | None \<Rightarrow> Inr (RImplicit, p))"

text \<open>The inside of a bracketed segment, the opening bracket already read.\<close>

definition p_filter :: "parser \<Rightarrow> path_segment parsed" where
  "p_filter p =
     rbind (expect TLParen p) (\<lambda>(_, p).
     rbind (expect TAt p) (\<lambda>(_, p).
     rbind (expect TDot p) (\<lambda>(_, p).
     rbind (p_bump p) (\<lambda>(field_tok, p).
       case as_ident (tk_kind field_tok) of
         Some field \<Rightarrow>
           rbind (expect TEq p) (\<lambda>(_, p).
           rbind (p_bump p) (\<lambda>(lit_tok, p).
             case as_string (tk_kind lit_tok) of
               Some v \<Rightarrow> rbind (expect TRParen p) (\<lambda>(_, p). Inr (FilterEq field v, p))
             | None \<Rightarrow> unexpected FilterNotString (tk_start lit_tok)))
       | None \<Rightarrow> unexpected ExpectedFilterField (tk_start field_tok)))))"

definition p_bracket_inner :: "token \<Rightarrow> parser \<Rightarrow> path_segment parsed" where
  "p_bracket_inner tok p =
     (if tk_kind tok = TStar then Inr (Wildcard, p)
      else case as_number (tk_kind tok) of
        Some n \<Rightarrow>
          (if f64_lt n (Fin 0) \<or> f64_has_fract n then unexpected (BadIndex n) (tk_start tok)
           else Inr (Index (f64_as_usize n), p))
      | None \<Rightarrow>
          if tk_kind tok = TQuestion then p_filter p
          else unexpected (UnexpectedInBrackets (tk_kind tok)) (tk_start tok))"

definition p_bracket_segment :: "parser \<Rightarrow> path_segment parsed" where
  "p_bracket_segment p =
     rbind (p_bump p) (\<lambda>(tok, p).
     rbind (p_bracket_inner tok p) (\<lambda>(seg, p).
     rbind (expect TRBracket p) (\<lambda>(_, p). Inr (seg, p))))"

text \<open>How much of the tokens is left; every method keeps the tokens and never moves back.\<close>

definition forward :: "parser \<Rightarrow> parser \<Rightarrow> bool" where
  "forward p p' \<longleftrightarrow> ps_tokens p' = ps_tokens p \<and> ps_pos p \<le> ps_pos p'"

definition remaining :: "parser \<Rightarrow> nat" where
  "remaining p = length (ps_tokens p) - ps_pos p"

lemma p_bump_forward: "p_bump p = Inr (t, p') \<Longrightarrow> forward p p'"
  by (auto simp: p_bump_def forward_def rbind_Inr_iff split: if_splits)

lemma expect_forward: "expect k p = Inr (t, p') \<Longrightarrow> forward p p'"
  by (auto simp: expect_def rbind_Inr_iff dest: p_bump_forward split: if_splits)

lemma forward_trans: "forward p q \<Longrightarrow> forward q r \<Longrightarrow> forward p r"
  by (simp add: forward_def)

lemma p_bracket_inner_forward: "p_bracket_inner t p = Inr (seg, p') \<Longrightarrow> forward p p'"
  unfolding p_bracket_inner_def p_filter_def
  by (auto simp: rbind_Inr_iff forward_def split: option.splits if_splits
      dest!: p_bump_forward expect_forward)

lemma p_bracket_segment_forward: "p_bracket_segment p = Inr (seg, p') \<Longrightarrow> forward p p'"
  unfolding p_bracket_segment_def
  by (auto simp: rbind_Inr_iff dest!: p_bump_forward expect_forward p_bracket_inner_forward
      intro: forward_trans)

lemma forward_remaining:
  "p_peek p = Inr t \<Longrightarrow> tk_kind t \<noteq> TEof \<Longrightarrow> p_bump p = Inr (t', p1) \<Longrightarrow> forward p1 p2 \<Longrightarrow>
    remaining p2 < remaining p"
  by (auto simp: p_bump_def forward_def remaining_def p_peek_def split: if_splits)

function p_path_segments :: "parser \<Rightarrow> path_segment list parsed" where
  "p_path_segments p = rbind (p_peek p) (\<lambda>t.
     if tk_kind t = TDot then
       rbind (p_bump p) (\<lambda>(_, p1).
       rbind (p_bump p1) (\<lambda>(tok, p2).
         case as_ident (tk_kind tok) of
           Some name \<Rightarrow> rbind (p_path_segments p2) (\<lambda>(segs, q). Inr (Field name # segs, q))
         | None \<Rightarrow> unexpected ExpectedField (tk_start tok)))
     else if tk_kind t = TLBracket then
       rbind (p_bump p) (\<lambda>(_, p1).
       rbind (p_bracket_segment p1) (\<lambda>(seg, p2).
         rbind (p_path_segments p2) (\<lambda>(segs, q). Inr (seg # segs, q))))
     else Inr ([], p))"
  by pat_completeness auto
termination
  by (relation "measure remaining")
    (auto intro: forward_remaining dest: p_bump_forward p_bracket_segment_forward)

declare p_path_segments.simps [simp del]

definition p_reference :: "parser \<Rightarrow> reference parsed" where
  "p_reference p =
     rbind (expect TDollar p) (\<lambda>(_, p).
     rbind (p_root p) (\<lambda>(root, p).
     rbind (p_path_segments p) (\<lambda>(path, p).
       Inr (\<lparr>ref_root = root, ref_path = path\<rparr>, p))))"

section \<open>Expressions\<close>

definition coalesce_op :: "token_kind \<Rightarrow> binary_op option" where
  "coalesce_op k =
     (if k = TCoalesce then Some OpCoalesce else None)"

definition or_op :: "token_kind \<Rightarrow> binary_op option" where
  "or_op k =
     (if k = TOr then Some OpOr else None)"

definition and_op :: "token_kind \<Rightarrow> binary_op option" where
  "and_op k =
     (if k = TAnd then Some OpAnd else None)"

definition equality_op :: "token_kind \<Rightarrow> binary_op option" where
  "equality_op k =
     (if k = TEq then Some OpEq else if k = TNotEq then Some OpNotEq else None)"

definition comparison_op :: "token_kind \<Rightarrow> binary_op option" where
  "comparison_op k =
     (if k = TLt then Some OpLt else if k = TLe then Some OpLe
      else if k = TGt then Some OpGt else if k = TGe then Some OpGe else None)"

text \<open>
  The loop the five levels of the climb share: while the next token is one of the level's operators,
  count it, read it, read the next operand and nest to the left. \<open>sub\<close> reads one operand.
\<close>

fun binary_loop :: "nat \<Rightarrow> (parser \<Rightarrow> expression parsed) \<Rightarrow> (token_kind \<Rightarrow> binary_op option) \<Rightarrow>
    expression \<Rightarrow> parser \<Rightarrow> expression parsed" where
  "binary_loop 0 sub ops left p = Inl Exhausted"
| "binary_loop (Suc n) sub ops left p = rbind (p_peek p) (\<lambda>t.
     case ops (tk_kind t) of
       None \<Rightarrow> Inr (left, p)
     | Some op \<Rightarrow>
         rbind (count_op (tk_start t) p) (\<lambda>p.
         rbind (p_bump p) (\<lambda>(_, p).
         rbind (sub p) (\<lambda>(right, p). binary_loop n sub ops (Binary op left right) p))))"

definition binary_level ::
    "(token_kind \<Rightarrow> binary_op option) \<Rightarrow> (parser \<Rightarrow> expression parsed) \<Rightarrow> parser \<Rightarrow> expression parsed" where
  "binary_level ops sub p =
     rbind (sub p) (\<lambda>(left, p). binary_loop (Suc (remaining p)) sub ops left p)"

definition p_comparison :: "(parser \<Rightarrow> expression parsed) \<Rightarrow> parser \<Rightarrow> expression parsed" where
  "p_comparison unary = binary_level comparison_op unary"

definition p_equality :: "(parser \<Rightarrow> expression parsed) \<Rightarrow> parser \<Rightarrow> expression parsed" where
  "p_equality unary = binary_level equality_op (p_comparison unary)"

definition p_and :: "(parser \<Rightarrow> expression parsed) \<Rightarrow> parser \<Rightarrow> expression parsed" where
  "p_and unary = binary_level and_op (p_equality unary)"

definition p_or :: "(parser \<Rightarrow> expression parsed) \<Rightarrow> parser \<Rightarrow> expression parsed" where
  "p_or unary = binary_level or_op (p_and unary)"

definition p_coalesce :: "(parser \<Rightarrow> expression parsed) \<Rightarrow> parser \<Rightarrow> expression parsed" where
  "p_coalesce unary = binary_level coalesce_op (p_or unary)"

text \<open>The literal arms of \<open>parse_primary\<close>: a literal's token and its value.\<close>

definition literal_of :: "token_kind \<Rightarrow> literal option" where
  "literal_of k =
     (case as_string k of
        Some s \<Rightarrow> Some (LString s)
      | None \<Rightarrow>
          (case as_number k of
             Some n \<Rightarrow> Some (LNumber n)
           | None \<Rightarrow>
               if k = TTrue then Some (LBool True)
               else if k = TFalse then Some (LBool False)
               else if k = TNull then Some LNull
               else None))"

definition p_primary :: "(parser \<Rightarrow> expression parsed) \<Rightarrow> parser \<Rightarrow> expression parsed" where
  "p_primary expr p = rbind (p_peek p) (\<lambda>t.
     if tk_kind t = TLParen then
       rbind (descend (tk_start t) p) (\<lambda>p.
       rbind (p_bump p) (\<lambda>(_, p).
       rbind (expr p) (\<lambda>(e, p).
       rbind (expect TRParen (ascend p)) (\<lambda>(_, p). Inr (e, p)))))
     else if tk_kind t = TDollar then rbind (p_reference p) (\<lambda>(r, p). Inr (Ref r, p))
     else case literal_of (tk_kind t) of
       Some l \<Rightarrow> rbind (p_bump p) (\<lambda>(_, p). Inr (Literal l, p))
     | None \<Rightarrow> unexpected (ExpectedExpression (tk_kind t)) (tk_start t))"

text \<open>The fuel is the number of \<open>descend\<close>s still possible, plus one.\<close>

fun p_unary :: "nat \<Rightarrow> parser \<Rightarrow> expression parsed" where
  "p_unary 0 p = Inl Exhausted"
| "p_unary (Suc d) p = rbind (p_peek p) (\<lambda>t.
     if tk_kind t = TNot then
       rbind (descend (tk_start t) p) (\<lambda>p.
       rbind (p_bump p) (\<lambda>(_, p).
       rbind (p_unary d p) (\<lambda>(inner, p). Inr (Unary Not inner, ascend p))))
     else p_primary (p_coalesce (p_unary d)) p)"

definition p_expression :: "parser \<Rightarrow> expression parsed" where
  "p_expression p = p_coalesce (p_unary (Suc max_expr_depth)) p"

section \<open>Entry points\<close>

definition parse_with :: "(parser \<Rightarrow> 'a parsed) \<Rightarrow> string \<Rightarrow> parse_fault + 'a" where
  "parse_with production src =
     rbind (map_err (\<lambda>e. Fault (LexErr e)) (tokenize src)) (\<lambda>tokens.
     rbind (production (parser_new tokens)) (\<lambda>(r, p).
     rbind (expect_eof p) (\<lambda>_. Inr r)))"

definition parse_reference :: "string \<Rightarrow> parse_fault + reference" where
  "parse_reference src = parse_with p_reference src"

definition parse_expression :: "string \<Rightarrow> parse_fault + expression" where
  "parse_expression src = parse_with p_expression src"

end
