(* ===== verification/ParserSpec.thy ===== *)
theory ParserSpec
  imports Parser
begin

text \<open>
  What the parser of \<open>src/dsl/parser.rs\<close> accepts. The grammar of \<open>src/dsl/README.md\<close> is stated over
  token kinds (\<open>reference_tokens\<close>, \<open>derives\<close>), and the parser is proved to accept exactly the
  token lists of the grammar whose nesting and operator count are within the two caps, to return the
  tree the grammar gives, and never to panic or to run out of fuel.
\<close>

section \<open>The tokens ahead\<close>

definition cur :: "parser \<Rightarrow> token" where
  "cur p = ps_tokens p ! ps_pos p"

definition ahead :: "parser \<Rightarrow> token_kind list" where
  "ahead p = map tk_kind (drop (ps_pos p) (ps_tokens p))"

definition steps :: "nat \<Rightarrow> parser \<Rightarrow> parser" where
  "steps n p = p\<lparr>ps_pos := ps_pos p + n\<rparr>"

text \<open>The parser stands before the one end token that closes the list.\<close>

fun closed :: "token_kind list \<Rightarrow> bool" where
  "closed [] \<longleftrightarrow> False"
| "closed (k # ks) \<longleftrightarrow> (if k = TEof then ks = [] else closed ks)"

definition ready :: "parser \<Rightarrow> bool" where
  "ready p \<longleftrightarrow> closed (ahead p)"

lemma closed_append: "TEof \<notin> set ks \<Longrightarrow> closed (ks @ r) = closed r"
  by (induction ks) auto

lemma steps_simps [simp]:
  "ps_tokens (steps n p) = ps_tokens p" "ps_pos (steps n p) = ps_pos p + n"
  "ps_depth (steps n p) = ps_depth p" "ps_ops (steps n p) = ps_ops p"
  "steps 0 p = p" "steps m (steps n p) = steps (n + m) p"
  by (simp_all add: steps_def)

lemma ahead_steps [simp]: "ahead (steps n p) = drop n (ahead p)"
  by (simp add: ahead_def drop_map add.commute)

lemma ahead_counters [simp]:
  "ahead (p\<lparr>ps_depth := d\<rparr>) = ahead p" "ahead (p\<lparr>ps_ops := c\<rparr>) = ahead p"
  "ready (p\<lparr>ps_depth := d\<rparr>) = ready p" "ready (p\<lparr>ps_ops := c\<rparr>) = ready p"
  by (simp_all add: ahead_def ready_def)

lemma ready_nonempty: "ready p \<Longrightarrow> ahead p \<noteq> []"
  by (auto simp: ready_def)

lemma ready_pos: "ready p \<Longrightarrow> ps_pos p < length (ps_tokens p)"
  using ready_nonempty by (fastforce simp: ahead_def)

lemma peek_eq [simp]: "ready p \<Longrightarrow> p_peek p = Inr (cur p)"
  by (simp add: p_peek_def cur_def ready_pos)

lemma cur_kind [simp]: "ready p \<Longrightarrow> tk_kind (cur p) = hd (ahead p)"
  using ready_pos [of p] by (simp add: cur_def ahead_def hd_map hd_drop_conv_nth)

lemma bump_eq [simp]:
  "ready p \<Longrightarrow> p_bump p = Inr (cur p, if hd (ahead p) = TEof then p else steps (Suc 0) p)"
  by (simp add: p_bump_def steps_def)

definition plain :: "token_kind \<Rightarrow> bool" where
  "plain k \<longleftrightarrow> k \<in> {TDollar, TDot, TLParen, TRParen, TAt, TEq, TRBracket}"

lemma plain_simps [simp]:
  "plain TDollar" "plain TDot" "plain TLParen" "plain TRParen" "plain TAt" "plain TEq"
  "plain TRBracket" "\<not> plain TEof"
  by (simp_all add: plain_def)

lemma expect_eq [simp]:
  assumes "ready p" "plain k"
  shows "expect k p = (if hd (ahead p) = k then Inr (cur p, steps (Suc 0) p)
      else unexpected (ExpectedToken k (hd (ahead p))) (tk_start (cur p)))"
proof -
  have "same_discriminant a k = (a = k)" for a
    using assms(2) by (cases a) (auto simp: same_discriminant_def plain_def)
  moreover have "k \<noteq> TEof" using assms(2) by auto
  ultimately show ?thesis using assms(1) by (auto simp: expect_def)
qed

lemma ready_step [simp]:
  assumes "ready p"
  shows "ready (steps (Suc 0) p) \<longleftrightarrow> hd (ahead p) \<noteq> TEof"
  using assms by (cases "ahead p") (auto simp: ready_def drop_Suc)

lemma ready_steps: "ready p \<Longrightarrow> ahead p = ks @ r \<Longrightarrow> TEof \<notin> set ks \<Longrightarrow> ready (steps (length ks) p)"
  by (simp add: ready_def closed_append)

section \<open>Results that are not faults of the model\<close>

definition ok :: "parse_fault + 'a \<Rightarrow> ('a \<Rightarrow> bool) \<Rightarrow> bool" where
  "ok r Q \<longleftrightarrow> (case r of Inl f \<Rightarrow> (\<exists>e. f = Fault e) | Inr a \<Rightarrow> Q a)"

lemma ok_simps [simp]:
  "ok (Inr a) Q \<longleftrightarrow> Q a" "ok (Inl (Fault e)) Q" "\<not> ok (Inl Panic) Q" "\<not> ok (Inl Exhausted) Q"
  by (simp_all add: ok_def)

lemma ok_bind [simp]: "ok (rbind r f) Q \<longleftrightarrow> ok r (\<lambda>a. ok (f a) Q)"
  by (cases r) (auto simp: ok_def)

lemma ok_mono: "ok r P \<Longrightarrow> (\<And>a. P a \<Longrightarrow> Q a) \<Longrightarrow> ok r Q"
  by (auto simp: ok_def split: sum.splits)

text \<open>The parser read the kinds \<open>ks\<close>.\<close>

definition reads :: "token_kind list \<Rightarrow> parser \<Rightarrow> parser \<Rightarrow> bool" where
  "reads ks p p' \<longleftrightarrow> p' = steps (length ks) p \<and> TEof \<notin> set ks \<and> ahead p = ks @ ahead (steps (length ks) p)"

lemma reads_nil [simp]: "reads [] p p' \<longleftrightarrow> p' = p"
  by (auto simp: reads_def)

lemma reads_step: "ready p \<Longrightarrow> hd (ahead p) = k \<Longrightarrow> k \<noteq> TEof \<Longrightarrow> reads [k] p (steps (Suc 0) p)"
  using ready_nonempty [of p] by (cases "ahead p") (auto simp: reads_def)

lemma reads_trans: "reads ks p q \<Longrightarrow> reads ks' q r \<Longrightarrow> reads (ks @ ks') p r"
  unfolding reads_def
  by (metis Un_iff add.commute append.assoc length_append set_append steps_simps(6))

lemma reads_Cons:
  "ready p \<Longrightarrow> hd (ahead p) = k \<Longrightarrow> k \<noteq> TEof \<Longrightarrow> reads ks (steps (Suc 0) p) q \<Longrightarrow> reads (k # ks) p q"
  using reads_trans [OF reads_step, of p k ks q] by simp

lemma reads_ready: "reads ks p p' \<Longrightarrow> ready p \<Longrightarrow> ready p'"
  unfolding reads_def using ready_steps by metis

section \<open>The reference grammar\<close>

fun root_tokens :: "root \<Rightarrow> token_kind list" where
  "root_tokens RInput = [TIdent ''input'']"
| "root_tokens (RSteps i) = [TIdent ''steps'', TDot, TIdent i]"
| "root_tokens RConfig = [TIdent ''config'']"
| "root_tokens RSecrets = [TIdent ''secrets'']"
| "root_tokens RTrigger = [TIdent ''trigger'']"
| "root_tokens RVars = [TIdent ''vars'']"
| "root_tokens RItem = [TIdent ''item'']"
| "root_tokens RImplicit = []"

inductive segment_tokens :: "token_kind list \<Rightarrow> path_segment \<Rightarrow> bool" where
  field: "segment_tokens [TDot, TIdent f] (Field f)"
| index: "\<not> f64_lt n (Fin 0) \<Longrightarrow> \<not> f64_has_fract n \<Longrightarrow>
    segment_tokens [TLBracket, TNumber n, TRBracket] (Index (f64_as_usize n))"
| wildcard: "segment_tokens [TLBracket, TStar, TRBracket] Wildcard"
| filter_eq: "segment_tokens
    [TLBracket, TQuestion, TLParen, TAt, TDot, TIdent f, TEq, TString v, TRParen, TRBracket] (FilterEq f v)"

inductive path_tokens :: "token_kind list \<Rightarrow> path_segment list \<Rightarrow> bool" where
  Nil: "path_tokens [] []"
| Cons: "segment_tokens ks seg \<Longrightarrow> path_tokens ks' segs \<Longrightarrow> path_tokens (ks @ ks') (seg # segs)"

definition reference_tokens :: "token_kind list \<Rightarrow> reference \<Rightarrow> bool" where
  "reference_tokens ks r \<longleftrightarrow>
     (\<exists>ps. ks = TDollar # root_tokens (ref_root r) @ ps \<and> path_tokens ps (ref_path r))"

definition path_end :: "token_kind \<Rightarrow> bool" where
  "path_end k \<longleftrightarrow> k \<noteq> TDot \<and> k \<noteq> TLBracket"

lemma segment_no_Eof: "segment_tokens ks seg \<Longrightarrow> TEof \<notin> set ks"
  by (induction rule: segment_tokens.induct) auto

lemma path_no_Eof: "path_tokens ks segs \<Longrightarrow> TEof \<notin> set ks"
  by (induction rule: path_tokens.induct) (auto dest: segment_no_Eof)

lemma root_no_Eof: "TEof \<notin> set (root_tokens r)"
  by (cases r) auto

lemma reference_no_Eof: "reference_tokens ks r \<Longrightarrow> TEof \<notin> set ks"
  by (auto simp: reference_tokens_def root_no_Eof dest: path_no_Eof)

lemma named_root_sound:
  "ready p \<Longrightarrow> hd (ahead p) = k \<Longrightarrow> root_tokens r = [k] \<Longrightarrow> k \<noteq> TEof \<Longrightarrow>
    ok (p_named_root r p) (\<lambda>(r, p'). reads (root_tokens r) p p')"
  by (simp add: p_named_root_def reads_step)

lemma steps_root_sound:
  assumes "ready p" "hd (ahead p) = TIdent ''steps''"
  shows "ok (p_steps_root p) (\<lambda>(r, p'). reads (root_tokens r) p p')"
proof -
  let ?p1 = "steps (Suc 0) p"
  let ?p2 = "steps (Suc 0) ?p1"
  have r1: "ready ?p1" using assms by simp
  show ?thesis
  proof (cases "hd (ahead ?p1) = TDot")
    case True
    have r2: "ready ?p2" using r1 True by (subst ready_step) auto
    show ?thesis
    proof (cases "as_ident (hd (ahead ?p2))")
      case None
      show ?thesis using r1 r2 assms True None by (simp add: p_steps_root_def del: ahead_steps steps_simps)
    next
      case (Some i)
      have "reads [TIdent ''steps'', TDot, TIdent i] p (steps (Suc 0) ?p2)"
        using r1 r2 assms True Some by (intro reads_Cons) (auto simp del: ahead_steps steps_simps)
      with r1 r2 assms True Some show ?thesis
        by (simp add: p_steps_root_def del: ahead_steps steps_simps)
    qed
  next
    case False
    with r1 assms show ?thesis by (simp add: p_steps_root_def del: ahead_steps)
  qed
qed

lemma plain_root_tokens: "plain_root name = Some r \<Longrightarrow> root_tokens r = [TIdent name]"
  by (auto simp: plain_root_def split: if_splits)

lemma root_sound:
  assumes "ready p"
  shows "ok (p_root p) (\<lambda>(r, p'). reads (root_tokens r) p p')"
proof (cases "as_ident (hd (ahead p))")
  case None
  then show ?thesis using assms by (simp add: p_root_def)
next
  case (Some name)
  then have k: "hd (ahead p) = TIdent name" by simp
  show ?thesis
  proof (cases "plain_root name")
    case None
    with assms Some k steps_root_sound [OF assms] show ?thesis by (simp add: p_root_def)
  next
    case (Some r)
    with assms k named_root_sound [OF assms k plain_root_tokens] show ?thesis
      by (simp add: p_root_def)
  qed
qed

text \<open>
  A production is sound for a relation \<open>G\<close> between the kinds read and the value: from a ready state
  it returns a fault of the source or reads kinds that \<open>G\<close> relates to the value.
\<close>

definition sound :: "(token_kind list \<Rightarrow> 'a \<Rightarrow> bool) \<Rightarrow> parser \<Rightarrow> 'a parsed \<Rightarrow> bool" where
  "sound G p r \<longleftrightarrow> ok r (\<lambda>(a, p'). \<exists>ks. G ks a \<and> reads ks p p')"

lemma sound_Inl [simp]: "sound G p (Inl (Fault e))"
  by (simp add: sound_def)

lemma step_shorter: "ready p \<Longrightarrow> length (ahead (steps (Suc 0) p)) < length (ahead p)"
  using ready_nonempty [of p] by simp

lemma sound_step:
  assumes p: "ready p" "hd (ahead p) = k" "k \<noteq> TEof"
    and f: "\<And>t q. ready q \<Longrightarrow> tk_kind t = k \<Longrightarrow> length (ahead q) < length (ahead p) \<Longrightarrow>
      sound (\<lambda>ks. G (k # ks)) q (f (t, q))"
  shows "sound G p (rbind (p_bump p) f)"
proof -
  let ?q = "steps (Suc 0) p"
  have "sound (\<lambda>ks. G (k # ks)) ?q (f (cur p, ?q))"
    by (rule f) (use p step_shorter [OF p(1)] in simp_all)
  moreover have "\<exists>ks'. G ks' a \<and> reads ks' p p'" if "G (k # ks) a" "reads ks ?q p'" for ks a p'
    using reads_Cons [OF p that(2)] that(1) by blast
  ultimately have "ok (f (cur p, ?q)) (\<lambda>(a, p'). \<exists>ks. G ks a \<and> reads ks p p')"
    unfolding sound_def by (elim ok_mono) (clarify, metis)
  moreover have "p_bump p = Inr (cur p, ?q)" using p by simp
  ultimately show ?thesis unfolding sound_def by (simp only: ok_bind ok_simps)
qed

lemma sound_expect:
  assumes p: "ready p" "plain k"
    and f: "\<And>t q. ready q \<Longrightarrow> tk_kind t = k \<Longrightarrow> length (ahead q) < length (ahead p) \<Longrightarrow>
      sound (\<lambda>ks. G (k # ks)) q (f (t, q))"
  shows "sound G p (rbind (expect k p) f)"
proof (cases "hd (ahead p) = k")
  case True
  with p(2) have k: "k \<noteq> TEof" by auto
  have e: "expect k p = p_bump p" using True k p by simp
  show ?thesis unfolding e by (rule sound_step [OF p(1) True k f])
next
  case False
  then have "\<exists>e. expect k p = Inl (Fault e)" using p by simp
  then show ?thesis by auto
qed

lemma sound_return: "G [] a \<Longrightarrow> sound G p (Inr (a, p))"
  by (auto simp: sound_def intro!: exI [of _ "[]"])

lemma sound_bump:
  assumes p: "ready p"
    and e: "\<And>t. tk_kind t = TEof \<Longrightarrow> \<exists>e. f (t, p) = Inl (Fault e)"
    and f: "\<And>t k q. tk_kind t = k \<Longrightarrow> k \<noteq> TEof \<Longrightarrow> ready q \<Longrightarrow> length (ahead q) < length (ahead p) \<Longrightarrow>
      sound (\<lambda>ks. G (k # ks)) q (f (t, q))"
  shows "sound G p (rbind (p_bump p) f)"
proof (cases "hd (ahead p) = TEof")
  case True
  with p e [of "cur p"] obtain e where "f (cur p, p) = Inl (Fault e)" by auto
  with True p show ?thesis by simp
next
  case False
  with p f show ?thesis by (intro sound_step) auto
qed

lemma sound_bind_shorter:
  assumes r: "sound H p r" and p: "ready p" "length (ahead p) < n"
    and f: "\<And>ks a q. H ks a \<Longrightarrow> ready q \<Longrightarrow> length (ahead q) < n \<Longrightarrow>
      sound (\<lambda>ks'. G (ks @ ks')) q (f (a, q))"
  shows "sound G p (rbind r f)"
  using r unfolding sound_def ok_bind
proof (rule ok_mono)
  fix x
  assume "case x of (a, p') \<Rightarrow> \<exists>ks. H ks a \<and> reads ks p p'"
  then obtain a q ks where x: "x = (a, q)" "H ks a" "reads ks p q" by (cases x) auto
  from x(3) p(2) have "length (ahead q) < n" by (auto simp: reads_def)
  then have "sound (\<lambda>ks'. G (ks @ ks')) q (f (a, q))"
    by (rule f [OF x(2) reads_ready [OF x(3) p(1)]])
  then show "ok (f x) (\<lambda>(a, p'). \<exists>ks. G ks a \<and> reads ks p p')"
    unfolding sound_def x(1) by (rule ok_mono) (use reads_trans [OF x(3)] in blast)
qed

lemma sound_bind:
  "sound H p r \<Longrightarrow> ready p \<Longrightarrow>
    (\<And>ks a q. H ks a \<Longrightarrow> ready q \<Longrightarrow> sound (\<lambda>ks'. G (ks @ ks')) q (f (a, q))) \<Longrightarrow>
    sound G p (rbind r f)"
  by (erule sound_bind_shorter [where n = "Suc (length (ahead p))"]) auto

declare bump_eq [simp del] expect_eq [simp del]

lemmas sound_intros = sound_bump sound_expect sound_return

lemma filter_sound:
  "ready p \<Longrightarrow> sound (\<lambda>ks seg. segment_tokens (TLBracket # TQuestion # ks @ [TRBracket]) seg) p (p_filter p)"
  unfolding p_filter_def
  by (auto intro!: sound_intros simp: segment_tokens.intros split: option.split)

lemma bracket_inner_sound:
  "ready p \<Longrightarrow> tk_kind tok \<noteq> TEof \<Longrightarrow>
    sound (\<lambda>ks seg. segment_tokens (TLBracket # tk_kind tok # ks @ [TRBracket]) seg) p
      (p_bracket_inner tok p)"
  unfolding p_bracket_inner_def
  by (auto intro!: sound_intros filter_sound simp: segment_tokens.intros split: option.split)

lemma bracket_inner_Eof: "tk_kind tok = TEof \<Longrightarrow> \<exists>e. p_bracket_inner tok p = Inl (Fault e)"
  by (simp add: p_bracket_inner_def)

lemma bracket_segment_sound:
  assumes "ready p"
  shows "sound (\<lambda>ks seg. segment_tokens (TLBracket # ks) seg) p (p_bracket_segment p)"
  unfolding p_bracket_segment_def
proof (rule sound_bump [OF assms], goal_cases)
  case (1 t)
  then show ?case using bracket_inner_Eof [of t p] by auto
next
  case (2 t k q)
  then show ?case
    using bracket_inner_sound [of q t]
    by (auto elim!: sound_bind intro!: sound_intros)
qed

lemma path_segments_sound: "ready p \<Longrightarrow> sound path_tokens p (p_path_segments p)"
proof (induction "length (ahead p)" arbitrary: p rule: less_induct)
  case less
  note r = less.prems
  have ih: "sound path_tokens q (p_path_segments q)"
    if "ready q" "length (ahead q) < length (ahead p)" for q
    by (rule less.hyps [OF that(2,1)])
  consider (dot) "hd (ahead p) = TDot" | (bracket) "hd (ahead p) = TLBracket"
    | (stop) "hd (ahead p) \<noteq> TDot" "hd (ahead p) \<noteq> TLBracket" by blast
  then show ?case
  proof cases
    case dot
    have field: "path_tokens (TDot # TIdent f # ks) (Field f # segs)" if "path_tokens ks segs" for f ks segs
      using path_tokens.Cons [OF segment_tokens.field that] by simp
    from dot show ?thesis
      unfolding p_path_segments.simps [of p]
      by (auto simp: r split: option.split intro!: sound_step [OF r dot] sound_bump
          sound_bind [OF ih] sound_return field)
  next
    case bracket
    have seg: "path_tokens (TLBracket # ks @ ks') (s # segs)"
      if "segment_tokens (TLBracket # ks) s" "path_tokens ks' segs" for ks s ks' segs
      using path_tokens.Cons [OF that] by simp
    from bracket show ?thesis
      unfolding p_path_segments.simps [of p]
      by (auto simp: r intro!: sound_step [OF r bracket] sound_bind_shorter [OF bracket_segment_sound]
          sound_bind [OF ih] sound_return seg)
  next
    case stop
    with r show ?thesis
      by (simp add: p_path_segments.simps [of p] sound_return path_tokens.Nil)
  qed
qed

lemma root_sound': "ready p \<Longrightarrow> sound (\<lambda>ks r. ks = root_tokens r) p (p_root p)"
  using root_sound [of p] by (simp add: sound_def)

lemma reference_sound: "ready p \<Longrightarrow> sound reference_tokens p (p_reference p)"
  unfolding p_reference_def reference_tokens_def
  by (auto intro!: sound_expect sound_return sound_bind [OF root_sound']
      sound_bind [OF path_segments_sound])

section \<open>Every reference of the grammar is read\<close>

lemma ready_hd: "ready p \<Longrightarrow> ahead p = k # ks \<Longrightarrow> hd (ahead p) = k"
  by simp

lemma bump_ahead: "ready p \<Longrightarrow> ahead p = k # ks \<Longrightarrow> k \<noteq> TEof \<Longrightarrow>
    p_bump p = Inr (cur p, steps (Suc 0) p) \<and> tk_kind (cur p) = k
      \<and> ready (steps (Suc 0) p) \<and> ahead (steps (Suc 0) p) = ks"
  by (simp add: bump_eq)

lemma expect_ahead: "ready p \<Longrightarrow> ahead p = k # ks \<Longrightarrow> plain k \<Longrightarrow>
    expect k p = Inr (cur p, steps (Suc 0) p) \<and> tk_kind (cur p) = k
      \<and> ready (steps (Suc 0) p) \<and> ahead (steps (Suc 0) p) = ks"
  by (auto simp: expect_eq)

lemma ready_steps_iff: "ready (steps n p) \<longleftrightarrow> closed (drop n (ahead p))"
  by (simp add: ready_def)

lemmas runs_simps = bump_eq expect_eq ready_steps_iff

lemma root_complete:
  assumes "ready p" "ahead p = root_tokens r @ rest" "r = RImplicit \<Longrightarrow> as_ident (hd rest) = None"
  shows "p_root p = Inr (r, steps (length (root_tokens r)) p)"
proof (cases r)
  case (RSteps i)
  have "closed (ahead p)" using assms(1) by (simp add: ready_def)
  with RSteps assms show ?thesis
    by (simp add: p_root_def plain_root_def p_steps_root_def runs_simps)
qed (use assms in \<open>simp_all add: p_root_def plain_root_def p_named_root_def bump_eq\<close>)

lemma bracket_complete:
  assumes "segment_tokens (TLBracket # ks) seg" "ready p" "ahead p = ks @ rest"
  shows "p_bracket_segment p = Inr (seg, steps (length ks) p)"
proof -
  have "closed (ahead p)" using assms(2) by (simp add: ready_def)
  with assms show ?thesis
    by (elim segment_tokens.cases)
      (simp_all add: p_bracket_segment_def p_bracket_inner_def p_filter_def runs_simps)
qed

lemma path_complete:
  "path_tokens ks segs \<Longrightarrow> ready p \<Longrightarrow> ahead p = ks @ rest \<Longrightarrow> path_end (hd rest) \<Longrightarrow>
    p_path_segments p = Inr (segs, steps (length ks) p)"
proof (induction arbitrary: p rule: path_tokens.induct)
  case Nil
  then show ?case by (simp add: p_path_segments.simps [of p] path_end_def)
next
  case (Cons ks seg ks' segs)
  let ?q = "steps (length ks) p"
  have q: "ready ?q" "ahead ?q = ks' @ rest"
    using ready_steps [of p ks "ks' @ rest"] Cons.prems segment_no_Eof [OF Cons.hyps(1)] by simp_all
  from Cons.IH [OF q Cons.prems(3)] have ih:
    "p_path_segments ?q = Inr (segs, steps (length ks + length ks') p)" by simp
  show ?case
  proof (cases "hd ks")
    case TDot
    obtain f where "ks = [TDot, TIdent f]" "seg = Field f"
      using Cons.hyps(1) TDot by (cases rule: segment_tokens.cases) auto
    with Cons.prems ih show ?thesis by (simp add: p_path_segments.simps [of p] bump_eq)
  next
    case TLBracket
    obtain kb where kb: "ks = TLBracket # kb"
      using Cons.hyps(1) TLBracket by (cases rule: segment_tokens.cases) auto
    have "p_bracket_segment (steps (Suc 0) p) = Inr (seg, ?q)"
      using bracket_complete [of kb seg "steps (Suc 0) p" "ks' @ rest"] Cons.hyps(1) Cons.prems kb
      by simp
    with Cons.prems ih kb show ?thesis by (simp add: p_path_segments.simps [of p] bump_eq)
  qed (use Cons.hyps(1) in \<open>cases rule: segment_tokens.cases; simp\<close>)+
qed

lemma path_tokens_hd: "path_tokens ks segs \<Longrightarrow> ks = [] \<or> \<not> path_end (hd ks)"
proof (induction rule: path_tokens.induct)
  case (Cons ks seg ks' segs)
  then show ?case by (cases rule: segment_tokens.cases) (auto simp: path_end_def)
qed simp

lemma reference_complete:
  assumes "reference_tokens ks r" "ready p" "ahead p = ks @ rest" "path_end (hd rest)"
    and "as_ident (hd rest) = None"
  shows "p_reference p = Inr (r, steps (length ks) p)"
proof -
  from assms(1) obtain ps where ks: "ks = TDollar # root_tokens (ref_root r) @ ps"
    and ps: "path_tokens ps (ref_path r)" by (auto simp: reference_tokens_def)
  let ?q = "steps (Suc 0) p" and ?q' = "steps (Suc (length (root_tokens (ref_root r)))) p"
  have q: "ready ?q" "ahead ?q = root_tokens (ref_root r) @ ps @ rest" using assms(2,3) ks by auto
  have "as_ident (hd (ps @ rest)) = None"
    using path_tokens_hd [OF ps] assms(5) by (cases ps) (auto simp: path_end_def)
  then have r: "p_root ?q = Inr (ref_root r, ?q')"
    using root_complete [OF q] by simp
  have "ahead ?q' = drop (length (root_tokens (ref_root r))) (ahead ?q)" by simp
  then have q': "ready ?q'" "ahead ?q' = ps @ rest"
    using ready_steps [OF q root_no_Eof] unfolding q(2) by simp_all
  from path_complete [OF ps q' assms(4)] have
    "p_path_segments ?q' = Inr (ref_path r, steps (length ks) p)" by (simp add: ks)
  with r assms(2,3) ks show ?thesis by (simp add: p_reference_def expect_eq)
qed

end
