(* ===== verification/ExprSpec.thy ===== *)
theory ExprSpec
  imports ParserSpec
begin

text \<open>
  The expression grammar of \<open>src/dsl/README.md\<close> and the proof that the precedence climb of
  \<open>src/dsl/parser.rs\<close> accepts exactly the token lists it derives, within the caps on nesting and on
  operators, and returns the tree of the derivation.
\<close>

section \<open>The expression grammar\<close>

definition level_op :: "nat \<Rightarrow> token_kind \<Rightarrow> binary_op option" where
  "level_op n k =
     (if n = 1 then comparison_op k
      else if n = 2 then equality_op k
      else if n = 3 then and_op k
      else if n = 4 then or_op k
      else if n = 5 then coalesce_op k
      else None)"

text \<open>
  \<open>derives n d ks e\<close>: the kinds \<open>ks\<close> are an expression of level \<open>n\<close>, from a unary expression (0)
  to a coalescing one (5), with tree \<open>e\<close>, and \<open>d\<close> is its nesting of parentheses and negations.
\<close>

inductive derives :: "nat \<Rightarrow> nat \<Rightarrow> token_kind list \<Rightarrow> expression \<Rightarrow> bool" where
  literal: "literal_of k = Some l \<Longrightarrow> derives 0 0 [k] (Literal l)"
| ref: "reference_tokens ks r \<Longrightarrow> derives 0 0 ks (Ref r)"
| paren: "derives 5 d ks e \<Longrightarrow> derives 0 (Suc d) (TLParen # ks @ [TRParen]) e"
| neg: "derives 0 d ks e \<Longrightarrow> derives 0 (Suc d) (TNot # ks) (Unary Not e)"
| operand: "derives n d ks e \<Longrightarrow> derives (Suc n) d ks e"
| binary: "derives (Suc n) d ks l \<Longrightarrow> level_op (Suc n) k = Some op \<Longrightarrow> derives n d' ks' r \<Longrightarrow>
    derives (Suc n) (max d d') (ks @ k # ks') (Binary op l r)"

fun p_level :: "nat \<Rightarrow> (parser \<Rightarrow> expression parsed) \<Rightarrow> parser \<Rightarrow> expression parsed" where
  "p_level 0 u = u"
| "p_level (Suc n) u = binary_level (level_op (Suc n)) (p_level n u)"

lemma level_op_simps:
  "level_op (Suc 0) = comparison_op" "level_op (Suc (Suc 0)) = equality_op"
  "level_op (Suc (Suc (Suc 0))) = and_op" "level_op (Suc (Suc (Suc (Suc 0)))) = or_op"
  "level_op (Suc (Suc (Suc (Suc (Suc 0))))) = coalesce_op"
  by (auto simp: level_op_def)

lemma p_level_coalesce: "p_coalesce u = p_level 5 u"
  unfolding p_coalesce_def p_or_def p_and_def p_equality_def p_comparison_def
  by (simp add: numeral_eq_Suc level_op_simps)

section \<open>Moves of the parser through an expression\<close>

text \<open>The parser read the kinds \<open>ks\<close> and counted \<open>c\<close> operators.\<close>

definition moved :: "nat \<Rightarrow> token_kind list \<Rightarrow> parser \<Rightarrow> parser \<Rightarrow> bool" where
  "moved c ks p p' \<longleftrightarrow> p' = (steps (length ks) p)\<lparr>ps_ops := ps_ops p + c\<rparr> \<and> TEof \<notin> set ks
     \<and> ahead p = ks @ drop (length ks) (ahead p)"

lemma moved_trans: "moved c ks p q \<Longrightarrow> moved c' ks' q r \<Longrightarrow> moved (c + c') (ks @ ks') p r"
  unfolding moved_def steps_def by (auto simp: ahead_def drop_map add.commute add.left_commute)

lemma moved_ready: "moved c ks p p' \<Longrightarrow> ready p \<Longrightarrow> ready p'"
  unfolding moved_def by (metis ahead_counters(2,4) ready_steps ready_def)

lemma moved_depth: "moved c ks p p' \<Longrightarrow> ps_depth p' = ps_depth p"
  by (auto simp: moved_def)

lemma moved_ops: "moved c ks p p' \<Longrightarrow> ps_ops p' = ps_ops p + c"
  by (auto simp: moved_def)

lemma moved_ahead: "moved c ks p p' \<Longrightarrow> ahead p = ks @ ahead p'"
  by (auto simp: moved_def)

lemma reads_moved: "reads ks p p' \<Longrightarrow> moved 0 ks p p'"
  by (auto simp: reads_def moved_def)

lemma remaining_ahead: "remaining p = length (ahead p)"
  by (simp add: remaining_def ahead_def)

section \<open>Soundness\<close>

definition esound :: "nat \<Rightarrow> parser \<Rightarrow> expression parsed \<Rightarrow> bool" where
  "esound n p r \<longleftrightarrow> ok r (\<lambda>(e, p'). \<exists>ks d. derives n d ks e \<and> moved (expr_ops e) ks p p'
     \<and> d + ps_depth p \<le> max_expr_depth \<and> ps_ops p' \<le> max_expr_ops)"

definition level_sound :: "nat \<Rightarrow> nat \<Rightarrow> (parser \<Rightarrow> expression parsed) \<Rightarrow> bool" where
  "level_sound depth n f \<longleftrightarrow>
     (\<forall>p. ready p \<and> ps_depth p = depth \<and> ps_ops p \<le> max_expr_ops \<longrightarrow> esound n p (f p))"

lemma loop_sound:
  assumes sub: "level_sound depth n sub" and p0: "ready p0" "ps_depth p0 = depth"
  shows "moved (expr_ops left) ks p0 p \<Longrightarrow> derives (Suc n) d ks left \<Longrightarrow>
    d + depth \<le> max_expr_depth \<Longrightarrow> ps_ops p \<le> max_expr_ops \<Longrightarrow> length (ahead p) < fuel \<Longrightarrow>
    esound (Suc n) p0 (binary_loop fuel sub (level_op (Suc n)) left p)"
proof (induction fuel arbitrary: left ks d p)
  case 0
  then show ?case by simp
next
  case (Suc fuel)
  from Suc.prems(1) p0(1) have p: "ready p" by (rule moved_ready)
  show ?case
  proof (cases "level_op (Suc n) (hd (ahead p))")
    case None
    with p Suc.prems p0 show ?thesis by (auto simp: esound_def)
  next
    case (Some op)
    let ?k = "hd (ahead p)"
    have k: "?k \<noteq> TEof"
      using Some by (auto simp: level_op_def comparison_op_def equality_op_def and_op_def or_op_def
          coalesce_op_def split: if_splits)
    define q where "q = steps (Suc 0) (p\<lparr>ps_ops := ps_ops p + 1\<rparr>)"
    show ?thesis
    proof (cases "ps_ops p + 1 > max_expr_ops")
      case True
      with p Some show ?thesis by (simp add: esound_def count_op_def)
    next
      case False
      have mq: "moved 1 [?k] p q"
        using p k ready_nonempty [OF p] by (cases "ahead p") (auto simp: moved_def q_def steps_def)
      have q: "ready q" "ps_depth q = depth" "ps_ops q \<le> max_expr_ops"
        using moved_ready [OF mq p] moved_depth [OF mq] moved_ops [OF mq] moved_depth [OF Suc.prems(1)]
          p0 False by auto
      have "ok (sub q) (\<lambda>(e, q'). \<exists>ks d. derives n d ks e \<and> moved (expr_ops e) ks q q'
          \<and> d + depth \<le> max_expr_depth \<and> ps_ops q' \<le> max_expr_ops)"
        using sub q unfolding level_sound_def esound_def by auto
      then have "ok (sub q) (\<lambda>(right, q'). esound (Suc n) p0
          (binary_loop fuel sub (level_op (Suc n)) (Binary op left right) q'))"
      proof (rule ok_mono, clarify)
        fix right q' ks' d'
        assume r: "derives n d' ks' right" "moved (expr_ops right) ks' q q'"
          "d' + depth \<le> max_expr_depth" "ps_ops q' \<le> max_expr_ops"
        have m: "moved (expr_ops (Binary op left right)) (ks @ ?k # ks') p0 q'"
          using moved_trans [OF Suc.prems(1) moved_trans [OF mq r(2)]] by simp
        have "length (ahead q') < fuel"
          using arg_cong [OF moved_ahead [OF mq], of length]
            arg_cong [OF moved_ahead [OF r(2)], of length] Suc.prems(5) unfolding length_append by simp
        then show "esound (Suc n) p0 (binary_loop fuel sub (level_op (Suc n)) (Binary op left right) q')"
          using Suc.IH [OF m derives.binary [OF Suc.prems(2) Some r(1)]] Suc.prems(3) r(3,4) by simp
      qed
      then show ?thesis using p Some k False
        by (simp add: esound_def count_op_def bump_eq q_def split_def)
    qed
  qed
qed

lemma level_sound_binary:
  assumes "level_sound depth n sub"
  shows "level_sound depth (Suc n) (binary_level (level_op (Suc n)) sub)"
  unfolding level_sound_def
proof (intro allI impI, elim conjE)
  fix p
  assume p: "ready p" "ps_depth p = depth" "ps_ops p \<le> max_expr_ops"
  then have "ok (sub p) (\<lambda>(e, p'). \<exists>ks d. derives n d ks e \<and> moved (expr_ops e) ks p p'
      \<and> d + depth \<le> max_expr_depth \<and> ps_ops p' \<le> max_expr_ops)"
    using assms unfolding level_sound_def esound_def by auto
  then have "ok (sub p) (\<lambda>(left, p'). esound (Suc n) p
      (binary_loop (Suc (remaining p')) sub (level_op (Suc n)) left p'))"
    by (rule ok_mono, clarify)
      (rule loop_sound [OF assms p(1,2)], auto simp: remaining_ahead intro: derives.operand)
  then show "esound (Suc n) p (binary_level (level_op (Suc n)) sub p)"
    unfolding binary_level_def esound_def ok_bind by (rule ok_mono) auto
qed

lemma p_level_sound: "level_sound depth 0 u \<Longrightarrow> level_sound depth n (p_level n u)"
  by (induction n) (auto intro: level_sound_binary)

lemma moved_step:
  "ready p \<Longrightarrow> hd (ahead p) = k \<Longrightarrow> k \<noteq> TEof \<Longrightarrow> moved 0 [k] p (steps (Suc 0) p)"
  by (auto intro: reads_moved reads_step)

text \<open>Reading under a guard: nesting goes up by one for the part that is read and back down.\<close>

lemma moved_nested:
  assumes "moved c ks (p\<lparr>ps_depth := Suc (ps_depth p)\<rparr>) q"
  shows "moved c ks p (ascend q)"
  using assms by (simp add: moved_def ascend_def steps_def)

lemma primary_sound:
  assumes e: "\<And>q. ready q \<Longrightarrow> ps_depth q = Suc (ps_depth p) \<Longrightarrow> ps_ops q \<le> max_expr_ops \<Longrightarrow>
      ps_depth q \<le> max_expr_depth \<Longrightarrow> esound 5 q (expr q)"
    and p: "ready p" "ps_ops p \<le> max_expr_ops" "ps_depth p \<le> max_expr_depth"
  shows "esound 0 p (p_primary expr p)"
proof -
  let ?k = "hd (ahead p)"
  consider (paren) "?k = TLParen" | (dollar) "?k = TDollar"
    | (lit) l where "?k \<noteq> TLParen" "?k \<noteq> TDollar" "literal_of ?k = Some l"
    | (bad) "?k \<noteq> TLParen" "?k \<noteq> TDollar" "literal_of ?k = None" by blast
  then show ?thesis
  proof cases
    case paren
    define q where "q = p\<lparr>ps_depth := Suc (ps_depth p)\<rparr>"
    have q: "ready q" "hd (ahead q) = TLParen" using p paren by (simp_all add: q_def)
    let ?q = "steps (Suc 0) q"
    show ?thesis
    proof (cases "Suc (ps_depth p) > max_expr_depth")
      case True
      with p paren show ?thesis by (simp add: p_primary_def esound_def descend_def)
    next
      case False
      have "esound 5 ?q (expr ?q)"
        by (rule e) (use q p False in \<open>auto simp: q_def ready_step\<close>)
      then have "ok (expr ?q) (\<lambda>(e, r). ok (expect TRParen (ascend r)) (\<lambda>(_, r').
          \<exists>ks d. derives 0 d ks e \<and> moved (expr_ops e) ks p r'
            \<and> d + ps_depth p \<le> max_expr_depth \<and> ps_ops r' \<le> max_expr_ops))"
        unfolding esound_def
      proof (rule ok_mono, clarify)
        fix e r ks d
        assume r: "derives 5 d ks e" "moved (expr_ops e) ks ?q r" "d + ps_depth ?q \<le> max_expr_depth"
          "ps_ops r \<le> max_expr_ops"
        have "moved (expr_ops e) (TLParen # ks) q r"
          using moved_trans [OF moved_step [OF q] r(2)] by simp
        then have m: "moved (expr_ops e) (TLParen # ks) p (ascend r)"
          unfolding q_def by (rule moved_nested)
        note rr = moved_ready [OF m p(1)]
        show "ok (expect TRParen (ascend r)) (\<lambda>(_, r'). \<exists>ks d. derives 0 d ks e
          \<and> moved (expr_ops e) ks p r' \<and> d + ps_depth p \<le> max_expr_depth \<and> ps_ops r' \<le> max_expr_ops)"
        proof (cases "hd (ahead (ascend r)) = TRParen")
          case True
          have "moved (expr_ops e) (TLParen # ks @ [TRParen]) p (steps (Suc 0) (ascend r))"
            using moved_trans [OF m moved_step [OF rr True]] by simp
          moreover have "Suc d + ps_depth p \<le> max_expr_depth" using r(3) by (simp add: q_def)
          ultimately have "\<exists>ks d. derives 0 d ks e \<and> moved (expr_ops e) ks p (steps (Suc 0) (ascend r))
              \<and> d + ps_depth p \<le> max_expr_depth"
            using derives.paren [OF r(1)] by blast
          with True rr r(4) show ?thesis by (simp add: expect_eq ascend_def)
        qed (use rr in \<open>simp add: expect_eq\<close>)
      qed
      then show ?thesis
        using p(1) paren False q by (simp add: p_primary_def esound_def descend_def bump_eq q_def split_def)
    qed
  next
    case dollar
    have "ok (p_reference p) (\<lambda>(r, p'). \<exists>ks d. derives 0 d ks (Ref r) \<and> moved 0 ks p p'
        \<and> d + ps_depth p \<le> max_expr_depth \<and> ps_ops p' \<le> max_expr_ops)"
      using reference_sound [OF p(1)] unfolding sound_def
    proof (rule ok_mono, clarify)
      fix r p' ks
      assume r: "reference_tokens ks r" "reads ks p p'"
      have "ps_ops p' \<le> max_expr_ops" "0 + ps_depth p \<le> max_expr_depth"
        using moved_ops [OF reads_moved [OF r(2)]] p by simp_all
      with derives.ref [OF r(1)] reads_moved [OF r(2)]
      show "\<exists>ks d. derives 0 d ks (Ref r) \<and> moved 0 ks p p'
          \<and> d + ps_depth p \<le> max_expr_depth \<and> ps_ops p' \<le> max_expr_ops"
        by blast
    qed
    then show ?thesis using p(1) dollar by (simp add: p_primary_def esound_def split_def)
  next
    case lit
    with p moved_step [OF p(1), of ?k] show ?thesis
      by (force simp: p_primary_def esound_def bump_eq literal_of_def intro: derives.literal)
  next
    case bad
    with p show ?thesis by (simp add: p_primary_def esound_def)
  qed
qed

lemma unary_sound:
  "ready p \<Longrightarrow> ps_ops p \<le> max_expr_ops \<Longrightarrow> ps_depth p \<le> max_expr_depth \<Longrightarrow>
    max_expr_depth < fuel + ps_depth p \<Longrightarrow> esound 0 p (p_unary fuel p)"
proof (induction fuel arbitrary: p)
  case 0
  then show ?case by simp
next
  case (Suc fuel)
  note p = Suc.prems
  show ?case
  proof (cases "hd (ahead p) = TNot")
    case False
    have "esound 5 q (p_coalesce (p_unary fuel) q)"
      if q: "ready q" "ps_depth q = Suc (ps_depth p)" "ps_ops q \<le> max_expr_ops"
        "ps_depth q \<le> max_expr_depth" for q
    proof -
      have "level_sound (ps_depth q) 0 (p_unary fuel)"
        unfolding level_sound_def using Suc.IH p(4) q(2,4) by auto
      from p_level_sound [OF this, of 5] q show ?thesis
        by (simp add: p_level_coalesce level_sound_def)
    qed
    then have "esound 0 p (p_primary (p_coalesce (p_unary fuel)) p)"
      by (rule primary_sound) (use p in auto)
    with False p show ?thesis by simp
  next
    case True
    define q where "q = p\<lparr>ps_depth := Suc (ps_depth p)\<rparr>"
    let ?q = "steps (Suc 0) q"
    have q: "ready q" "hd (ahead q) = TNot" using p True by (simp_all add: q_def)
    show ?thesis
    proof (cases "Suc (ps_depth p) > max_expr_depth")
      case True
      with p \<open>hd (ahead p) = TNot\<close> show ?thesis by (simp add: esound_def descend_def)
    next
      case False
      have "esound 0 ?q (p_unary fuel ?q)"
        by (rule Suc.IH) (use q p False in \<open>auto simp: q_def ready_step\<close>)
      then have "ok (p_unary fuel ?q) (\<lambda>(e, r). \<exists>ks d. derives 0 d ks (Unary Not e)
          \<and> moved (expr_ops e) ks p (ascend r) \<and> d + ps_depth p \<le> max_expr_depth
          \<and> ps_ops (ascend r) \<le> max_expr_ops)"
        unfolding esound_def
      proof (rule ok_mono, clarify)
        fix e r ks d
        assume r: "derives 0 d ks e" "moved (expr_ops e) ks ?q r" "d + ps_depth ?q \<le> max_expr_depth"
          "ps_ops r \<le> max_expr_ops"
        have "moved (expr_ops e) (TNot # ks) q r"
          using moved_trans [OF moved_step [OF q] r(2)] by simp
        then have "moved (expr_ops e) (TNot # ks) p (ascend r)"
          unfolding q_def by (rule moved_nested)
        moreover have "Suc d + ps_depth p \<le> max_expr_depth" using r(3) by (simp add: q_def)
        moreover have "ps_ops (ascend r) \<le> max_expr_ops" using r(4) by (simp add: ascend_def)
        ultimately show "\<exists>ks d. derives 0 d ks (Unary Not e) \<and> moved (expr_ops e) ks p (ascend r)
            \<and> d + ps_depth p \<le> max_expr_depth \<and> ps_ops (ascend r) \<le> max_expr_ops"
          using derives.neg [OF r(1)] by blast
      qed
      then show ?thesis
        using p True False q by (simp add: esound_def descend_def bump_eq q_def split_def)
    qed
  qed
qed

lemma expression_sound:
  assumes "ready p" "ps_ops p = 0" "ps_depth p = 0"
  shows "esound 5 p (p_expression p)"
proof -
  have "level_sound 0 0 (p_unary (Suc max_expr_depth))"
    unfolding level_sound_def by (auto simp del: p_unary.simps intro!: unary_sound)
  from p_level_sound [OF this, of 5] assms show ?thesis
    by (simp add: p_level_coalesce level_sound_def p_expression_def)
qed

section \<open>Completeness\<close>

definition after :: "nat \<Rightarrow> token_kind list \<Rightarrow> parser \<Rightarrow> parser" where
  "after c ks p = (steps (length ks) p)\<lparr>ps_ops := ps_ops p + c\<rparr>"

lemma after_simps [simp]:
  "ps_depth (after c ks p) = ps_depth p" "ps_ops (after c ks p) = ps_ops p + c"
  "ahead (after c ks p) = drop (length ks) (ahead p)"
  "after c' ks' (after c ks p) = after (c + c') (ks @ ks') p"
  by (simp_all add: after_def steps_def ahead_def drop_map add.commute add.left_commute)

lemma after_ready: "ready p \<Longrightarrow> ahead p = ks @ rest \<Longrightarrow> TEof \<notin> set ks \<Longrightarrow> ready (after c ks p)"
  using ready_steps [of p ks rest] by (simp add: after_def)

text \<open>What may follow an expression of level \<open>n\<close> without continuing it.\<close>

definition stops :: "nat \<Rightarrow> token_kind \<Rightarrow> bool" where
  "stops n k \<longleftrightarrow> path_end k \<and> as_ident k = None \<and> (\<forall>j<n. level_op j k = None)"

lemma level_op_kinds:
  "level_op n k = Some op \<Longrightarrow> k \<in> {TLt, TLe, TGt, TGe, TEq, TNotEq, TAnd, TOr, TCoalesce}"
  by (auto simp: level_op_def comparison_op_def equality_op_def and_op_def or_op_def coalesce_op_def
      split: if_splits)

lemma level_op_unique: "level_op n k = Some op \<Longrightarrow> level_op m k = Some op' \<Longrightarrow> n = m"
  by (auto simp: level_op_def comparison_op_def equality_op_def and_op_def or_op_def coalesce_op_def
      split: if_splits)

lemma level_op_stops: "level_op n k = Some op \<Longrightarrow> stops n k"
proof -
  assume k: "level_op n k = Some op"
  have "level_op j k = None" if "j < n" for j
    using level_op_unique [OF k] that by (cases "level_op j k") auto
  moreover have "path_end k \<and> as_ident k = None"
    using level_op_kinds [OF k] by (auto simp: path_end_def)
  ultimately show ?thesis by (simp add: stops_def)
qed

lemma derives_no_Eof: "derives n d ks e \<Longrightarrow> TEof \<notin> set ks"
proof (induction rule: derives.induct)
  case (literal k l)
  then show ?case by (auto simp: literal_of_def)
next
  case (binary n d ks l k op d' ks' r)
  then show ?case using level_op_kinds by fastforce
qed (auto dest: reference_no_Eof)

text \<open>The parser of level \<open>n\<close> has read the tree \<open>e\<close> and stands in its loop at \<open>p'\<close>.\<close>

definition arrives :: "nat \<Rightarrow> (parser \<Rightarrow> expression parsed) \<Rightarrow> parser \<Rightarrow> expression \<Rightarrow> parser \<Rightarrow> bool" where
  "arrives n u p e p' \<longleftrightarrow>
     (case n of
        0 \<Rightarrow> u p = Inr (e, p')
      | Suc m \<Rightarrow> \<exists>f. length (ahead p') < f
          \<and> p_level n u p = binary_loop f (p_level m u) (level_op n) e p')"

lemma arrives_done:
  assumes "arrives n u p e p'" "ready p'" "level_op n (hd (ahead p')) = None"
  shows "p_level n u p = Inr (e, p')"
proof (cases n)
  case 0
  with assms show ?thesis by (simp add: arrives_def)
next
  case (Suc m)
  with assms obtain f where "length (ahead p') < f"
    "p_level n u p = binary_loop f (p_level m u) (level_op n) e p'"
    by (auto simp: arrives_def)
  with assms show ?thesis by (cases f) auto
qed

lemma arrives_operand:
  "p_level n u p = Inr (e, p') \<Longrightarrow> arrives (Suc n) u p e p'"
  by (auto simp: arrives_def binary_level_def remaining_ahead)

lemma arrives_binary:
  assumes a: "arrives (Suc n) u p l p1" and p1: "ready p1" "ahead p1 = k # ks"
    and op: "level_op (Suc n) k = Some op" and ops: "ps_ops p1 + 1 \<le> max_expr_ops"
    and sub: "p_level n u (after 1 [k] p1) = Inr (r, p2)" "length (ahead p2) \<le> length ks"
  shows "arrives (Suc n) u p (Binary op l r) p2"
proof -
  from a obtain f where f: "length (ahead p1) < f"
    "p_level (Suc n) u p = binary_loop f (p_level n u) (level_op (Suc n)) l p1"
    by (auto simp: arrives_def)
  then obtain g where g: "f = Suc g" by (cases f) auto
  have k: "k \<noteq> TEof" using level_op_kinds [OF op] by auto
  have "steps (Suc 0) (p1\<lparr>ps_ops := Suc (ps_ops p1)\<rparr>) = after 1 [k] p1"
    by (simp add: after_def steps_def)
  then have "p_level (Suc n) u p = binary_loop g (p_level n u) (level_op (Suc n)) (Binary op l r) p2"
    using f(2) g op ops p1 sub(1) k by (simp add: count_op_def bump_eq)
  moreover have "length (ahead p2) < g" using f(1) g p1(2) sub(2) by simp
  ultimately show ?thesis by (auto simp: arrives_def)
qed

lemma literal_of_other: "literal_of k = Some l \<Longrightarrow> k \<noteq> TNot \<and> k \<noteq> TLParen \<and> k \<noteq> TDollar \<and> k \<noteq> TEof"
  by (auto simp: literal_of_def)

lemma expression_complete:
  "derives n d ks e \<Longrightarrow> ready p \<Longrightarrow> ahead p = ks @ rest \<Longrightarrow> stops n (hd rest) \<Longrightarrow>
    d + ps_depth p \<le> max_expr_depth \<Longrightarrow> max_expr_depth < fuel + ps_depth p \<Longrightarrow>
    ps_ops p + expr_ops e \<le> max_expr_ops \<Longrightarrow>
    arrives n (p_unary fuel) p e (after (expr_ops e) ks p)"
proof (induction arbitrary: p rest fuel rule: derives.induct)
  case (literal k l)
  then obtain f where "fuel = Suc f" by (cases fuel) auto
  with literal literal_of_other [OF literal(1)] show ?case
    by (simp add: arrives_def p_primary_def bump_eq after_def)
next
  case (ref ks r)
  then obtain f where f: "fuel = Suc f" by (cases fuel) auto
  from ref(1) obtain ks' where "ks = TDollar # ks'" by (auto simp: reference_tokens_def)
  moreover have "p_reference p = Inr (r, steps (length ks) p)"
    using reference_complete [OF ref(1-3)] ref(4) by (simp add: stops_def)
  ultimately show ?case using f ref by (simp add: arrives_def p_primary_def after_def)
next
  case (paren d ks e)
  then obtain f where f: "fuel = Suc f" by (cases fuel) auto
  define q where "q = steps (Suc 0) (p\<lparr>ps_depth := Suc (ps_depth p)\<rparr>)"
  have q: "ready q" "ahead q = ks @ TRParen # rest" "ps_depth q = Suc (ps_depth p)" "ps_ops q = ps_ops p"
    using paren.prems by (simp_all add: q_def)
  have "stops 5 (hd (TRParen # rest))"
    by (auto simp: stops_def path_end_def level_op_def comparison_op_def equality_op_def and_op_def
        or_op_def coalesce_op_def)
  from paren.IH [OF q(1,2) this, of f] paren.prems q f
  have a: "arrives 5 (p_unary f) q e (after (expr_ops e) ks q)" by simp
  have r: "ready (after (expr_ops e) ks q)"
    using after_ready [OF q(1,2)] derives_no_Eof [OF paren.hyps] by simp
  have "p_coalesce (p_unary f) q = Inr (e, after (expr_ops e) ks q)"
    unfolding p_level_coalesce
    by (rule arrives_done [OF a r]) (simp add: q(2) level_op_def coalesce_op_def)
  moreover have "steps (Suc 0) (ascend (after (expr_ops e) ks q))
      = after (expr_ops e) (TLParen # ks @ [TRParen]) p"
    by (simp add: q_def after_def steps_def ascend_def)
  moreover have "ready (ascend (after (expr_ops e) ks q))"
    "hd (ahead (ascend (after (expr_ops e) ks q))) = TRParen"
    using r q(2) by (simp_all add: ascend_def)
  ultimately show ?case
    using f paren.prems q
    by (simp add: arrives_def p_primary_def descend_def bump_eq expect_eq q_def)
next
  case (neg d ks e)
  then obtain f where f: "fuel = Suc f" by (cases fuel) auto
  define q where "q = steps (Suc 0) (p\<lparr>ps_depth := Suc (ps_depth p)\<rparr>)"
  have q: "ready q" "ahead q = ks @ rest" "ps_depth q = Suc (ps_depth p)" "ps_ops q = ps_ops p"
    using neg.prems by (simp_all add: q_def)
  from neg.IH [OF q(1,2) neg.prems(3), of f] neg.prems q f
  have "p_unary f q = Inr (e, after (expr_ops e) ks q)" by (simp add: arrives_def)
  moreover have "ascend (after (expr_ops e) ks q) = after (expr_ops e) (TNot # ks) p"
    by (simp add: q_def after_def steps_def ascend_def)
  ultimately show ?case
    using f neg.prems q by (simp add: arrives_def descend_def bump_eq q_def)
next
  case (operand n d ks e)
  have s: "stops n (hd rest)" "level_op n (hd rest) = None"
    using operand.prems(3) by (auto simp: stops_def)
  have a: "arrives n (p_unary fuel) p e (after (expr_ops e) ks p)"
    by (rule operand.IH [OF operand.prems(1,2) s(1) operand.prems(4-)])
  have "p_level n (p_unary fuel) p = Inr (e, after (expr_ops e) ks p)"
    using arrives_done [OF a after_ready [OF operand.prems(1,2)]] derives_no_Eof [OF operand.hyps]
      operand.prems(2) s(2) by simp
  then show ?case by (rule arrives_operand)
next
  case (binary n d ks l k op d' ks' r)
  let ?p1 = "after (expr_ops l) ks p"
  let ?q = "after 1 [k] ?p1"
  note prems = binary.prems
  have k: "k \<noteq> TEof" using level_op_kinds [OF binary.hyps(2)] by auto
  have s: "stops n (hd rest)" "level_op n (hd rest) = None"
    using prems(3) by (auto simp: stops_def)
  have a: "arrives (Suc n) (p_unary fuel) p l ?p1"
    by (rule binary.IH(1) [where rest = "k # ks' @ rest"])
      (use prems level_op_stops [OF binary.hyps(2)] in auto)
  have p1: "ready ?p1" "ahead ?p1 = k # ks' @ rest"
    using after_ready [of p ks "k # ks' @ rest"] prems derives_no_Eof [OF binary.hyps(1)] by auto
  have "ahead ?q = drop 1 (k # ks' @ rest)" unfolding p1(2) [symmetric] by simp
  moreover have "ready ?q" by (rule after_ready [OF p1(1), of "[k]" "ks' @ rest"]) (use p1(2) k in simp_all)
  ultimately have q: "ready ?q" "ahead ?q = ks' @ rest" by simp_all
  have b: "arrives n (p_unary fuel) ?q r (after (expr_ops r) ks' ?q)"
    by (rule binary.IH(2) [OF q s(1)]) (use prems in auto)
  have "p_level n (p_unary fuel) ?q = Inr (r, after (expr_ops r) ks' ?q)"
  proof (rule arrives_done [OF b after_ready [OF q derives_no_Eof [OF binary.hyps(3)]]])
    have "ahead (after (expr_ops r) ks' ?q) = rest" unfolding after_simps(3) [of _ ks'] q(2) by simp
    with s(2) show "level_op n (hd (ahead (after (expr_ops r) ks' ?q))) = None" by (simp only:)
  qed
  from arrives_binary [OF a p1 binary.hyps(2) _ this] prems q(2)
  have "arrives (Suc n) (p_unary fuel) p (Binary op l r) (after (expr_ops r) ks' ?q)" by simp
  then show ?case by (simp add: add.commute add.left_commute)
qed

section \<open>Whole sources\<close>

lemma ready_new:
  assumes "tokenize src = Inr ts"
  shows "ready (parser_new ts)" "ahead (parser_new ts) = map tk_kind ts"
    "\<exists>ks. map tk_kind ts = ks @ [TEof] \<and> TEof \<notin> set ks"
proof -
  from assms tokenize_from_sound [of "lexer_new src" ts] obtain xs end_ws where x:
    "ts = spelled_tokens 0 xs end_ws"
    "list_all (\<lambda>(ws, w, k). list_all is_ws ws \<and> spells w k) xs"
    by (auto simp: tokenize_def lexer_new_def)
  from spelled_tokens_shape [OF x(2), of 0 end_ws] x(1) obtain us where
    "ts = us @ [\<lparr>tk_kind = TEof, tk_start = length (spelled xs end_ws)\<rparr>]" "TEof \<notin> set (map tk_kind us)"
    by auto
  then have us: "map tk_kind ts = map tk_kind us @ [TEof]" "TEof \<notin> set (map tk_kind us)" by simp_all
  show a: "ahead (parser_new ts) = map tk_kind ts" by (simp add: ahead_def parser_new_def)
  show "\<exists>ks. map tk_kind ts = ks @ [TEof] \<and> TEof \<notin> set ks" using us by blast
  show "ready (parser_new ts)" unfolding ready_def a us(1) using us(2) by (simp add: closed_append)
qed

lemma tokens_split_Eof:
  "ks @ [TEof] = ks' @ r \<Longrightarrow> TEof \<notin> set ks \<Longrightarrow> TEof \<notin> set ks' \<Longrightarrow> hd r = TEof \<Longrightarrow> r \<noteq> [] \<Longrightarrow> ks = ks'"
proof (induction ks arbitrary: ks')
  case Nil
  then show ?case by (cases ks') auto
next
  case (Cons k ks)
  then show ?case by (cases ks') auto
qed

lemma expression_tokens:
  assumes t: "tokenize src = Inr ts"
  shows "parse_expression src = Inr e \<longleftrightarrow>
    (\<exists>ks d. map tk_kind ts = ks @ [TEof] \<and> derives 5 d ks e \<and> d \<le> max_expr_depth
      \<and> expr_ops e \<le> max_expr_ops)"
proof -
  let ?p = "parser_new ts"
  note n = ready_new [OF t]
  have c: "ps_ops ?p = 0" "ps_depth ?p = 0" by (simp_all add: parser_new_def)
  obtain us where us: "map tk_kind ts = us @ [TEof]" "TEof \<notin> set us" using n(3) by blast
  have eq: "parse_expression src
      = rbind (p_expression ?p) (\<lambda>(r, p). rbind (expect_eof p) (\<lambda>_. Inr r))"
    by (simp add: parse_expression_def parse_with_def t)
  show ?thesis
  proof
    assume "parse_expression src = Inr e"
    then obtain p' where p': "p_expression ?p = Inr (e, p')" "expect_eof p' = Inr ()"
      by (auto simp: eq rbind_Inr_iff)
    from expression_sound [OF n(1) c] p'(1) obtain ks d where
      k: "derives 5 d ks e" "moved (expr_ops e) ks ?p p'" "d \<le> max_expr_depth" "ps_ops p' \<le> max_expr_ops"
      by (auto simp: esound_def c)
    have r: "ready p'" by (rule moved_ready [OF k(2) n(1)])
    have "hd (ahead p') = TEof" using p'(2) r by (simp add: expect_eof_def split: if_splits)
    moreover have "us @ [TEof] = ks @ ahead p'" using moved_ahead [OF k(2)] n(2) us(1) by simp
    ultimately have "us = ks"
      using tokens_split_Eof us(2) derives_no_Eof [OF k(1)] ready_nonempty [OF r] by blast
    with k us moved_ops [OF k(2)] c show "\<exists>ks d. map tk_kind ts = ks @ [TEof] \<and> derives 5 d ks e
        \<and> d \<le> max_expr_depth \<and> expr_ops e \<le> max_expr_ops" by auto
  next
    assume "\<exists>ks d. map tk_kind ts = ks @ [TEof] \<and> derives 5 d ks e \<and> d \<le> max_expr_depth
      \<and> expr_ops e \<le> max_expr_ops"
    then obtain ks d where k: "map tk_kind ts = ks @ [TEof]" "derives 5 d ks e" "d \<le> max_expr_depth"
      "expr_ops e \<le> max_expr_ops" by blast
    have a: "ahead ?p = ks @ [TEof]" using n(2) k(1) by simp
    have s: "stops 5 (hd [TEof])" "level_op 5 TEof = None"
      by (auto simp: stops_def path_end_def level_op_def comparison_op_def equality_op_def and_op_def
          or_op_def coalesce_op_def)
    let ?p' = "after (expr_ops e) ks ?p"
    have "arrives 5 (p_unary (Suc max_expr_depth)) ?p e ?p'"
      by (rule expression_complete [OF k(2) n(1) a s(1)]) (use c k in simp_all)
    moreover have r: "ready ?p'" by (rule after_ready [OF n(1) a derives_no_Eof [OF k(2)]])
    moreover have h: "hd (ahead ?p') = TEof" using a by simp
    ultimately have "p_expression ?p = Inr (e, ?p')"
      unfolding p_expression_def p_level_coalesce using s(2) by (intro arrives_done) auto
    moreover have "expect_eof ?p' = Inr ()" using r h by (simp add: expect_eof_def)
    ultimately show "parse_expression src = Inr e" by (simp add: eq)
  qed
qed

lemma reference_tokens_iff:
  assumes t: "tokenize src = Inr ts"
  shows "parse_reference src = Inr r \<longleftrightarrow>
    (\<exists>ks. map tk_kind ts = ks @ [TEof] \<and> reference_tokens ks r)"
proof -
  let ?p = "parser_new ts"
  note n = ready_new [OF t]
  obtain us where us: "map tk_kind ts = us @ [TEof]" "TEof \<notin> set us" using n(3) by blast
  have eq: "parse_reference src
      = rbind (p_reference ?p) (\<lambda>(r, p). rbind (expect_eof p) (\<lambda>_. Inr r))"
    by (simp add: parse_reference_def parse_with_def t)
  show ?thesis
  proof
    assume "parse_reference src = Inr r"
    then obtain p' where p': "p_reference ?p = Inr (r, p')" "expect_eof p' = Inr ()"
      by (auto simp: eq rbind_Inr_iff)
    from reference_sound [OF n(1)] p'(1) obtain ks where
      k: "reference_tokens ks r" "reads ks ?p p'" by (auto simp: sound_def)
    have "ready p'" by (rule reads_ready [OF k(2) n(1)])
    moreover from this have "hd (ahead p') = TEof" using p'(2) by (simp add: expect_eof_def split: if_splits)
    moreover have "us @ [TEof] = ks @ ahead p'"
      using moved_ahead [OF reads_moved [OF k(2)]] n(2) us(1) by simp
    ultimately have "us = ks"
      using tokens_split_Eof us(2) reference_no_Eof [OF k(1)] ready_nonempty by blast
    with k us show "\<exists>ks. map tk_kind ts = ks @ [TEof] \<and> reference_tokens ks r" by auto
  next
    assume "\<exists>ks. map tk_kind ts = ks @ [TEof] \<and> reference_tokens ks r"
    then obtain ks where k: "map tk_kind ts = ks @ [TEof]" "reference_tokens ks r" by blast
    have a: "ahead ?p = ks @ [TEof]" using n(2) k(1) by simp
    let ?p' = "steps (length ks) ?p"
    have "p_reference ?p = Inr (r, ?p')"
      by (rule reference_complete [OF k(2) n(1) a]) (auto simp: path_end_def)
    moreover have "ready ?p'" by (rule ready_steps [OF n(1) a reference_no_Eof [OF k(2)]])
    ultimately show "parse_reference src = Inr r" using a by (simp add: eq expect_eof_def)
  qed
qed

section \<open>Properties of the expression parser\<close>

lemma derives_nots: "derives n d ks e \<Longrightarrow> expr_nots e \<le> d"
  by (induction rule: derives.induct) auto

text \<open>
  C26. \<open>parse_expression\<close> accepts exactly the sources whose tokens the grammar derives with a nesting
  of at most 128 and at most 256 operators, and returns the tree of the derivation: precedence,
  left associativity and grouping are those of the grammar, and nothing else is accepted.
\<close>

theorem parse_expression_exact:
  "parse_expression src = Inr e \<longleftrightarrow>
    (\<exists>ts ks d. tokenize src = Inr ts \<and> map tk_kind ts = ks @ [TEof] \<and> derives 5 d ks e
      \<and> d \<le> max_expr_depth \<and> expr_ops e \<le> max_expr_ops)"
proof (cases "tokenize src")
  case (Inl err)
  then show ?thesis by (simp add: parse_expression_def parse_with_def)
next
  case (Inr ts)
  with expression_tokens [OF Inr, of e] show ?thesis by auto
qed

text \<open>
  The expression parser always returns: an expression or a parse error of the source. It never
  indexes past its tokens, and the fuel of its loops, 129 for the nesting and one more than the
  tokens left for an operator loop, is never used up.
\<close>

theorem parse_expression_total:
  "(\<exists>e. parse_expression src = Inr e) \<or> (\<exists>err. parse_expression src = Inl (Fault err))"
proof (cases "tokenize src")
  case (Inl err)
  then show ?thesis by (simp add: parse_expression_def parse_with_def)
next
  case (Inr ts)
  let ?p = "parser_new ts"
  note n = ready_new [OF Inr]
  have "esound 5 ?p (p_expression ?p)"
    by (rule expression_sound [OF n(1)]) (simp_all add: parser_new_def)
  then have "ok (p_expression ?p) (\<lambda>(e, p'). ready p')"
    unfolding esound_def by (rule ok_mono) (auto dest: moved_ready [OF _ n(1)])
  then show ?thesis
    by (cases "p_expression ?p") (auto simp: parse_expression_def parse_with_def Inr ok_def
        expect_eof_def split: if_splits)
qed

text \<open>
  An accepted expression is small: at most 256 binary operators, at most 128 negations on a
  path, so a tree of depth at most 385, which bounds the recursion of the evaluator and of the
  destructor however long the source is.
\<close>

theorem parse_expression_bounded:
  assumes "parse_expression src = Inr e"
  shows "expr_ops e \<le> 256 \<and> expr_nots e \<le> 128 \<and> expr_depth e \<le> 385"
proof -
  obtain ts where t: "tokenize src = Inr ts"
    using assms by (cases "tokenize src") (auto simp: parse_expression_def parse_with_def)
  with assms expression_tokens [OF t, of e] obtain ks d where
    "derives 5 d ks e" "d \<le> max_expr_depth" "expr_ops e \<le> max_expr_ops" by blast
  with derives_nots [OF this(1)] expr_depth_bound [of e] show ?thesis
    by (simp add: max_expr_depth_def max_expr_ops_def)
qed

theorem parse_expression_bounded_witness:
  "parse_expression ''!$item ?? true'' =
      Inr (Binary OpCoalesce (Unary Not (Ref \<lparr>ref_root = RItem, ref_path = []\<rparr>)) (Literal (LBool True)))
    \<and> expr_depth (Binary OpCoalesce (Unary Not (Ref \<lparr>ref_root = RItem, ref_path = []\<rparr>))
        (Literal (LBool True))) \<le> 385"
proof -
  have e: "parse_expression ''!$item ?? true'' =
      Inr (Binary OpCoalesce (Unary Not (Ref \<lparr>ref_root = RItem, ref_path = []\<rparr>)) (Literal (LBool True)))"
    by code_simp
  from parse_expression_bounded [OF e] e show ?thesis by blast
qed

end
