(* ===== verification/RefText.thy ===== *)
theory RefText
  imports ExprSpec
begin

text \<open>
  The text of a reference and the round trip through \<open>parse_reference\<close>: every reference whose
  names are identifiers, whose filter literals can be quoted and whose indices fit the lexer's
  floating-point numbers exactly is read back from its text.
\<close>

section \<open>Decimal text of a natural number\<close>

fun nat_text :: "nat \<Rightarrow> string" where
  "nat_text n =
     (if n < 10 then [char_of (48 + n)] else nat_text (n div 10) @ [char_of (48 + n mod 10)])"

declare nat_text.simps [simp del]

lemma digit_char: "n < 10 \<Longrightarrow> is_digit (char_of (48 + n)) \<and> byte (char_of (48 + n)) - 48 = n"
  by (simp add: is_digit_def byte_def)

lemma digits_val_snoc: "digits_val acc (s @ [c]) = 10 * digits_val acc s + (byte c - 48)"
  by (induction acc s rule: digits_val.induct) auto

lemma nat_text_digits: "all_digits (nat_text n) \<and> digits_val 0 (nat_text n) = n"
proof (induction n rule: nat_text.induct)
  case (1 n)
  show ?case
  proof (cases "n < 10")
    case True
    with digit_char [OF True] show ?thesis by (simp add: nat_text.simps [of n] all_digits_def)
  next
    case False
    with 1 digit_char [of "n mod 10"] show ?thesis
      by (simp add: nat_text.simps [of n] all_digits_def digits_val_snoc)
  qed
qed

lemma nat_text_number:
  assumes "n < 2 ^ 53"
  shows "spells (nat_text n) (TNumber (Fin (of_nat n)))"
proof (rule spells.num)
  note d = nat_text_digits [of n]
  show "number_text (nat_text n)"
    unfolding number_text_def using d by (intro exI [of _ "[]"] exI [of _ "nat_text n"]) auto
  obtain c r where c: "nat_text n = c # r" using d by (cases "nat_text n") (auto simp: all_digits_def)
  then have "c \<noteq> CHR ''-''" using d by (auto simp: all_digits_def is_digit_def byte_def)
  then show "parse_f64 (nat_text n) = Some (Fin (of_nat n))"
    using parse_unsigned_digits [of "nat_text n"] d c f64_round_nat_exact [OF assms]
    by (simp add: parse_f64_def)
qed

lemma index_exact:
  assumes "i < 2 ^ 53"
  shows "\<not> f64_lt (Fin (of_nat i)) (Fin 0)" "\<not> f64_has_fract (Fin (of_nat i))"
    "f64_as_usize (Fin (of_nat i)) = i"
proof -
  show "\<not> f64_lt (Fin (of_nat i)) (Fin 0)" by simp
  show "\<not> f64_has_fract (Fin (of_nat i))" by (simp add: f64_has_fract_def)
  have "i \<le> usize_max" using assms by (simp add: usize_max_def)
  then show "f64_as_usize (Fin (of_nat i)) = i" by (simp add: f64_as_usize_def trunc_rat_def)
qed

section \<open>Text of references\<close>

definition name_ok :: "string \<Rightarrow> bool" where
  "name_ok w \<longleftrightarrow> ident_text w \<and> keyword_token w = TIdent w"

fun segment_ok :: "path_segment \<Rightarrow> bool" where
  "segment_ok (Field f) \<longleftrightarrow> name_ok f"
| "segment_ok (Index i) \<longleftrightarrow> i < 2 ^ 53"
| "segment_ok Wildcard \<longleftrightarrow> True"
| "segment_ok (FilterEq f v) \<longleftrightarrow> name_ok f \<and> string_text v"

fun root_ok :: "root \<Rightarrow> bool" where
  "root_ok (RSteps i) \<longleftrightarrow> name_ok i"
| "root_ok _ \<longleftrightarrow> True"

definition reference_ok :: "reference \<Rightarrow> bool" where
  "reference_ok r \<longleftrightarrow> root_ok (ref_root r) \<and> list_all segment_ok (ref_path r)"

fun root_text :: "root \<Rightarrow> string" where
  "root_text RInput = ''input''"
| "root_text (RSteps i) = ''steps.'' @ i"
| "root_text RConfig = ''config''"
| "root_text RSecrets = ''secrets''"
| "root_text RTrigger = ''trigger''"
| "root_text RVars = ''vars''"
| "root_text RItem = ''item''"
| "root_text RImplicit = []"

fun segment_text :: "path_segment \<Rightarrow> string" where
  "segment_text (Field f) = ''.'' @ f"
| "segment_text (Index i) = ''['' @ nat_text i @ '']''"
| "segment_text Wildcard = ''[*]''"
| "segment_text (FilterEq f v) = ''[?(@.'' @ f @ ''=='' @ [CHR 0x27] @ v @ [CHR 0x27] @ '')]''"

definition reference_text :: "reference \<Rightarrow> string" where
  "reference_text r = ''$'' @ root_text (ref_root r) @ concat (map segment_text (ref_path r))"

text \<open>The same text as a spelling, token by token.\<close>

fun tight :: "(string \<times> token_kind) list \<Rightarrow> spelling" where
  "tight [] = []"
| "tight ((w, k) # ws) = ([], w, k) # tight ws"

lemma tight_append [simp]: "tight (xs @ ys) = tight xs @ tight ys"
  by (induction xs rule: tight.induct) auto

lemma tight_kinds [simp]: "map (\<lambda>(ws, w, k). k) (tight xs) = map snd xs"
  by (induction xs rule: tight.induct) auto

fun root_spelling :: "root \<Rightarrow> (string \<times> token_kind) list" where
  "root_spelling (RSteps i) = [(''steps'', TIdent ''steps''), (''.'', TDot), (i, TIdent i)]"
| "root_spelling RImplicit = []"
| "root_spelling r = [(root_text r, TIdent (root_text r))]"

fun segment_spelling :: "path_segment \<Rightarrow> (string \<times> token_kind) list" where
  "segment_spelling (Field f) = [(''.'', TDot), (f, TIdent f)]"
| "segment_spelling (Index i) =
     [(''['', TLBracket), (nat_text i, TNumber (Fin (of_nat i))), ('']'', TRBracket)]"
| "segment_spelling Wildcard = [(''['', TLBracket), (''*'', TStar), ('']'', TRBracket)]"
| "segment_spelling (FilterEq f v) =
     [(''['', TLBracket), (''?'', TQuestion), (''('', TLParen), (''@'', TAt), (''.'', TDot),
      (f, TIdent f), (''=='', TEq), (CHR 0x27 # v @ [CHR 0x27], TString v), ('')'', TRParen),
      ('']'', TRBracket)]"

definition reference_spelling :: "reference \<Rightarrow> (string \<times> token_kind) list" where
  "reference_spelling r =
     (''$'', TDollar) # root_spelling (ref_root r) @ concat (map segment_spelling (ref_path r))"

lemma spelled_append: "spelled (xs @ ys) e = spelled xs (spelled ys e)"
  by (induction xs e rule: spelled.induct) auto

lemma root_spelled: "spelled (tight (root_spelling r)) e = root_text r @ e"
  by (cases r) auto

lemma segment_spelled: "spelled (tight (segment_spelling s)) e = segment_text s @ e"
  by (cases s) auto

lemma path_spelled:
  "spelled (tight (concat (map segment_spelling ss))) e = concat (map segment_text ss) @ e"
  by (induction ss) (auto simp: spelled_append segment_spelled)

lemma reference_spelled: "spelled (tight (reference_spelling r)) [] = reference_text r"
  by (simp add: reference_spelling_def reference_text_def spelled_append root_spelled path_spelled)

lemma spells_punct:
  "spells ''$'' TDollar" "spells ''.'' TDot" "spells ''['' TLBracket" "spells '']'' TRBracket"
  "spells ''('' TLParen" "spells '')'' TRParen" "spells ''?'' TQuestion" "spells ''@'' TAt"
  "spells ''*'' TStar" "spells ''=='' TEq"
  by (rule spells.punct, simp add: punct_text_def punct_table_def)+

lemma spells_name: "name_ok w \<Longrightarrow> spells w (TIdent w)"
  using spells.word [of w] by (simp add: name_ok_def)

lemma spells_quoted: "string_text v \<Longrightarrow> spells (CHR 0x27 # v @ [CHR 0x27]) (TString v)"
  by (rule spells.str)

lemma root_name_ok:
  "r \<noteq> RImplicit \<Longrightarrow> \<forall>i. r \<noteq> RSteps i \<Longrightarrow> name_ok (root_text r)"
  "name_ok ''steps''"
  by (cases r; simp add: name_ok_def ident_text_def keyword_token_def is_ident_start_def
      is_ident_char_def is_alnum_def is_alpha_def byte_def)
    (simp add: name_ok_def ident_text_def keyword_token_def is_ident_start_def
      is_ident_char_def is_alnum_def is_alpha_def byte_def)

text \<open>What follows a name inside a reference never extends it.\<close>

definition fresh :: "string \<Rightarrow> bool" where
  "fresh r \<longleftrightarrow> r = [] \<or> hd r = CHR ''.'' \<or> hd r = CHR ''[''"

lemma not_ident_chars:
  "\<not> is_ident_char (CHR ''.'')" "\<not> is_ident_char (CHR ''['')" "\<not> is_ident_char (CHR ''='')"
  "\<not> is_digit (CHR '']'')"
  by (simp_all add: is_ident_char_def is_alnum_def is_alpha_def is_digit_def byte_def)

lemma fresh_name: "fresh r \<Longrightarrow> follows w (TIdent s) r"
  using not_ident_chars by (auto simp: fresh_def follows_def next_not_def)

lemma follows_simps:
  "follows w TDollar r" "follows w TDot r" "follows w TLBracket r" "follows w TRBracket r"
  "follows w TLParen r" "follows w TRParen r" "follows w TAt r" "follows w TStar r" "follows w TEq r"
  "follows w (TString s) r" "follows w TQuestion (CHR ''('' # r)"
  "follows w (TNumber n) (CHR '']'' # r)" "follows w (TIdent s) (CHR ''='' # r)"
  "follows w (TIdent s) (CHR ''.'' # r)"
  using not_ident_chars by (simp_all add: follows_def next_not_def)

lemma segment_spelling_ok:
  assumes "segment_ok s" "spelling_ok xs []" "fresh (spelled xs [])"
  shows "spelling_ok (tight (segment_spelling s) @ xs) []"
  using assms
  by (cases s) (simp_all add: spells_punct spells_name spells_quoted nat_text_number fresh_name follows_simps)

lemma segment_fresh: "fresh (segment_text s @ r)"
  by (cases s) (auto simp: fresh_def)

lemma path_spelling_ok:
  "list_all segment_ok ss \<Longrightarrow> spelling_ok (tight (concat (map segment_spelling ss))) []
    \<and> fresh (concat (map segment_text ss))"
proof (induction ss)
  case Nil
  then show ?case by (simp add: fresh_def)
next
  case (Cons s ss)
  then show ?case
    using segment_spelling_ok [of s "tight (concat (map segment_spelling ss))"]
    by (auto simp: path_spelled segment_fresh)
qed

lemma reference_spelling_ok:
  assumes "reference_ok r"
  shows "spelling_ok (tight (reference_spelling r)) []"
proof -
  let ?xs = "tight (concat (map segment_spelling (ref_path r)))"
  have p: "spelling_ok ?xs []" "fresh (spelled ?xs [])"
    using path_spelling_ok assms by (auto simp: reference_ok_def path_spelled)
  have "spelling_ok (tight (root_spelling (ref_root r)) @ ?xs) []"
    using p assms root_name_ok(1) [of "ref_root r"] root_name_ok(2)
    by (cases "ref_root r")
      (simp_all add: reference_ok_def spells_punct spells_name fresh_name follows_simps)
  then show ?thesis by (simp add: reference_spelling_def spells_punct follows_simps)
qed

lemma spelled_kinds:
  "map tk_kind (spelled_tokens p xs e) = map (\<lambda>(ws, w, k). k) xs @ [TEof]"
  by (induction p xs e rule: spelled_tokens.induct) auto

lemma segment_spelling_tokens:
  "segment_ok s \<Longrightarrow> segment_tokens (map snd (segment_spelling s)) s"
proof (cases s)
  case (Index i)
  assume "segment_ok s"
  with Index have "i < 2 ^ 53" by simp
  from segment_tokens.index [OF index_exact(1,2) [OF this]] index_exact(3) [OF this] Index
  show ?thesis by simp
qed (simp_all add: segment_tokens.intros)

lemma path_spelling_tokens:
  "list_all segment_ok ss \<Longrightarrow> path_tokens (map snd (concat (map segment_spelling ss))) ss"
  by (induction ss) (auto intro!: path_tokens.intros segment_spelling_tokens)

lemma root_spelling_tokens: "map snd (root_spelling r) = root_tokens r"
  by (cases r) auto

lemma reference_spelling_tokens:
  "reference_ok r \<Longrightarrow> reference_tokens (map snd (reference_spelling r)) r"
  unfolding reference_tokens_def reference_spelling_def reference_ok_def
  using path_spelling_tokens by (auto simp: root_spelling_tokens)

lemma reference_text_parses:
  assumes "reference_ok r"
  shows "parse_reference (reference_text r) = Inr r"
proof -
  let ?xs = "tight (reference_spelling r)"
  have "tokenize (reference_text r) = Inr (spelled_tokens 0 ?xs [])"
    using tokenize_from_spelled [OF reference_spelling_ok [OF assms], of "lexer_new (reference_text r)"]
    by (simp add: tokenize_def lexer_new_def reference_spelled)
  from reference_tokens_iff [OF this, of r] reference_spelling_tokens [OF assms]
  show ?thesis by (simp add: spelled_kinds)
qed

section \<open>Properties\<close>

text \<open>
  C38. Round trip: \<open>parse_reference\<close> reads back the text of every well-formed reference, with its
  root, its step id, its field names, its indices below \<open>2 ^ 53\<close>, its wildcards and its filters.
\<close>

theorem parse_reference_text:
  assumes "reference_ok r"
  shows "parse_reference (reference_text r) = Inr r"
  using assms by (rule reference_text_parses)

theorem parse_reference_text_witness:
  "parse_reference ''$steps.call.items[?(@.id=='x')][7][*]''
    = Inr \<lparr>ref_root = RSteps ''call'',
        ref_path = [Field ''items'', FilterEq ''id'' ''x'', Index 7, Wildcard]\<rparr>"
proof -
  define r where "r = \<lparr>ref_root = RSteps ''call'',
    ref_path = [Field ''items'', FilterEq ''id'' ''x'', Index 7, Wildcard]\<rparr>"
  have "reference_ok r"
    by (simp add: r_def reference_ok_def name_ok_def ident_text_def keyword_token_def string_text_def
        is_ident_start_def is_ident_char_def is_alnum_def is_alpha_def is_ascii_def byte_def)
  moreover have "char_of (55::nat) = CHR ''7''" by code_simp
  ultimately show ?thesis
    using parse_reference_text [of r] unfolding r_def by (simp add: reference_text_def nat_text.simps [of 7])
qed

end
