(* ===== verification/Json.thy ===== *)
theory Json
  imports F64 "HOL-Library.Word"
begin

text \<open>
  \<open>serde_json::Value\<close>. A number is one of serde's three variants. An object is the association
  list of its entries in iteration order: \<open>serde_json::Map\<close> is a \<open>BTreeMap\<close> here (the lock file
  enables no \<open>preserve_order\<close>), so the keys are strictly increasing, which \<open>json_wf\<close> states and
  every operation that builds an object keeps.
\<close>

section \<open>Values\<close>

datatype json_num = PosInt "64 word" | NegInt "64 word" | JFloat f64

datatype json =
    JNull
  | JBool bool
  | JNumber json_num
  | JString string
  | JArray "json list"
  | JObject "(string \<times> json) list"

definition num_wf :: "json_num \<Rightarrow> bool" where
  "num_wf n = (case n of PosInt w \<Rightarrow> True | NegInt w \<Rightarrow> sint w < 0 | JFloat f \<Rightarrow> f64_is_finite f)"

definition keys_sorted :: "(string \<times> 'a) list \<Rightarrow> bool" where
  "keys_sorted m \<longleftrightarrow> sorted_wrt (<) (map fst m)"

fun json_wf :: "json \<Rightarrow> bool" where
  "json_wf (JNumber n) = num_wf n"
| "json_wf (JArray xs) = list_all json_wf xs"
| "json_wf (JObject m) = (keys_sorted m \<and> list_all (\<lambda>(k, v). json_wf v) m)"
| "json_wf v = True"

section \<open>Accessors\<close>

definition obj_get :: "(string \<times> json) list \<Rightarrow> string \<Rightarrow> json option" where
  "obj_get m k = map_of m k"

text \<open>\<open>Value::get(&str)\<close>, \<open>as_object\<close>, \<open>as_array\<close>, \<open>as_str\<close>.\<close>

definition json_get :: "json \<Rightarrow> string \<Rightarrow> json option" where
  "json_get v k = (case v of JObject m \<Rightarrow> obj_get m k | _ \<Rightarrow> None)"

definition as_object :: "json \<Rightarrow> (string \<times> json) list option" where
  "as_object v = (case v of JObject m \<Rightarrow> Some m | _ \<Rightarrow> None)"

definition as_array :: "json \<Rightarrow> json list option" where
  "as_array v = (case v of JArray xs \<Rightarrow> Some xs | _ \<Rightarrow> None)"

definition as_str :: "json \<Rightarrow> string option" where
  "as_str v = (case v of JString s \<Rightarrow> Some s | _ \<Rightarrow> None)"

definition num_as_f64 :: "json_num \<Rightarrow> f64" where
  "num_as_f64 n =
     (case n of
        PosInt w \<Rightarrow> f64_round (of_nat (unat w))
      | NegInt w \<Rightarrow> f64_round (of_int (sint w))
      | JFloat f \<Rightarrow> f)"

definition as_f64 :: "json \<Rightarrow> f64 option" where
  "as_f64 v = (case v of JNumber n \<Rightarrow> Some (num_as_f64 n) | _ \<Rightarrow> None)"

text \<open>\<open>Number::from(i64)\<close> and \<open>Number::from_f64\<close>.\<close>

definition num_of_i64 :: "int \<Rightarrow> json_num" where
  "num_of_i64 i = (if i < 0 then NegInt (word_of_int i) else PosInt (word_of_int i))"

definition num_from_f64 :: "f64 \<Rightarrow> json_num option" where
  "num_from_f64 f = (if f64_is_finite f then Some (JFloat f) else None)"

text \<open>
  Serde's \<open>PartialEq\<close> on \<open>Value\<close>: structural, with floats compared by value. A finite float is
  equal to itself, so on well-formed values this is equality of the model.
\<close>

definition json_eq :: "json \<Rightarrow> json \<Rightarrow> bool" where
  "json_eq a b \<longleftrightarrow> a = b"

text \<open>\<open>BTreeMap::insert\<close>, and the \<open>FromIterator\<close> built on it: a later entry wins.\<close>

fun obj_insert :: "string \<Rightarrow> 'a \<Rightarrow> (string \<times> 'a) list \<Rightarrow> (string \<times> 'a) list" where
  "obj_insert k v [] = [(k, v)]"
| "obj_insert k v ((k', v') # m) =
     (if k < k' then (k, v) # (k', v') # m
      else if k = k' then (k, v) # m
      else (k', v') # obj_insert k v m)"

fun obj_collect :: "(string \<times> 'a) list \<Rightarrow> (string \<times> 'a) list \<Rightarrow> (string \<times> 'a) list" where
  "obj_collect [] acc = acc"
| "obj_collect ((k, v) # kvs) acc = obj_collect kvs (obj_insert k v acc)"

section \<open>Facts\<close>

lemma map_of_obj_insert: "keys_sorted m \<Longrightarrow> map_of (obj_insert k v m) = (map_of m)(k \<mapsto> v)"
proof (induction m)
  case Nil
  show ?case by simp
next
  case (Cons e m)
  obtain k' v' where e: "e = (k', v')" by (cases e)
  from Cons.prems have s: "keys_sorted m" by (simp add: keys_sorted_def e)
  with Cons.IH show ?case by (auto simp: e fun_eq_iff)
qed

lemma fst_set_obj_insert: "fst ` set (obj_insert k v m) = insert k (fst ` set m)"
  by (induction k v m rule: obj_insert.induct) (simp_all add: insert_commute)

lemma keys_sorted_insert: "keys_sorted m \<Longrightarrow> keys_sorted (obj_insert k v m)"
proof (induction m)
  case Nil
  show ?case by (simp add: keys_sorted_def)
next
  case (Cons e m)
  obtain k' v' where e: "e = (k', v')" by (cases e)
  from Cons.prems have s: "keys_sorted m" and lt: "\<forall>x \<in> fst ` set m. k' < x"
    by (auto simp: keys_sorted_def e)
  show ?case
  proof (cases "k < k'")
    case True
    with lt s show ?thesis by (auto simp: e keys_sorted_def)
  next
    case False
    with lt Cons.IH [OF s] have "k \<noteq> k' \<Longrightarrow> \<forall>x \<in> fst ` set (obj_insert k v m). k' < x"
      by (auto simp: fst_set_obj_insert)
    with Cons.IH [OF s] s lt False show ?thesis by (auto simp: e keys_sorted_def)
  qed
qed

lemma keys_sorted_collect: "keys_sorted acc \<Longrightarrow> keys_sorted (obj_collect kvs acc)"
  by (induction kvs acc rule: obj_collect.induct) (auto intro: keys_sorted_insert)

lemma map_of_obj_collect:
  "keys_sorted acc \<Longrightarrow> map_of (obj_collect kvs acc) = map_of acc ++ map_of (rev kvs)"
proof (induction kvs acc rule: obj_collect.induct)
  case (1 acc)
  show ?case by simp
next
  case (2 k v kvs acc)
  then have "map_of (obj_collect kvs (obj_insert k v acc))
      = (map_of acc)(k \<mapsto> v) ++ map_of (rev kvs)"
    by (simp only: keys_sorted_insert map_of_obj_insert)
  then show ?case by (auto simp: map_add_def fun_eq_iff split: option.splits)
qed

lemma keys_sorted_distinct: "keys_sorted m \<Longrightarrow> distinct (map fst m)"
  by (simp add: keys_sorted_def strict_sorted_iff)

lemma obj_get_set: "obj_get m k = Some v \<Longrightarrow> (k, v) \<in> set m"
  by (simp add: obj_get_def map_of_SomeD)

lemma num_wf_of_i64: "i64_min \<le> i \<Longrightarrow> num_wf (num_of_i64 i)"
  by (auto simp: num_wf_def num_of_i64_def i64_min_def signed_of_int signed_take_bit_int_eq_self)

end
