(* ===== verification/Types.thy ===== *)
theory Types
  imports Json
begin

text \<open>
  The manifest data of \<open>src/kernel/types.rs\<close>, field by field, its constructors, the derived readers
  of a plugin manifest, and the parsing of an inner step from its JSON value. An \<open>IndexMap\<close> is the
  list of its entries in insertion order.
\<close>

section \<open>Steps and actions\<close>

record step_def =
  st_id :: string
  st_type :: string
  st_params :: json
  st_store_to_variable :: "string option"
  st_depends_on :: "string list"
  st_long_running :: bool

record tool_def =
  td_name :: string
  td_description :: string
  td_parameters :: json

record action =
  act_steps :: "step_def list"
  act_description :: "string option"
  act_results_path :: "string option"
  act_result_mapping :: "(string \<times> json) list"
  act_input_schema :: "json option"
  act_output_schema :: "json option"
  act_subscribes_to :: "string list"
  act_continuous :: bool
  act_interval_ms :: "64 word"
  act_parallel_waves :: bool
  act_dataflow :: bool
  act_wallclock_timeout_ms :: "64 word option"
  act_tool :: "tool_def option"

definition empty_object :: json where
  "empty_object = JObject []"

definition step_def_new :: "string \<Rightarrow> string \<Rightarrow> json \<Rightarrow> step_def" where
  "step_def_new i step_type params =
     \<lparr>st_id = i, st_type = step_type, st_params = params, st_store_to_variable = None,
      st_depends_on = [], st_long_running = False\<rparr>"

definition action_new :: "step_def list \<Rightarrow> action" where
  "action_new steps =
     \<lparr>act_steps = steps, act_description = None, act_results_path = None, act_result_mapping = [],
      act_input_schema = None, act_output_schema = None, act_subscribes_to = [],
      act_continuous = False, act_interval_ms = 0, act_parallel_waves = False, act_dataflow = False,
      act_wallclock_timeout_ms = None, act_tool = None\<rparr>"

section \<open>Step type contributions\<close>

record step_reference =
  sr_plugin :: string
  sr_action :: string

record step_type_def =
  sd_name :: string
  sd_freely_usable :: bool
  sd_input_schema :: "json option"
  sd_output_schema :: "json option"
  sd_metadata_schema :: "json option"
  sd_selector :: "string option"
  sd_references :: "step_reference list"

definition step_type_def_new :: "string \<Rightarrow> step_type_def" where
  "step_type_def_new name =
     \<lparr>sd_name = name, sd_freely_usable = False, sd_input_schema = None, sd_output_schema = None,
      sd_metadata_schema = None, sd_selector = None, sd_references = []\<rparr>"

datatype step_type_impl_kind = WasmImpl | NativeImpl | IntrinsicImpl

record step_type_impl =
  si_step_type :: string
  si_matches :: "string option"
  si_kind :: step_type_impl_kind
  si_wasm_module :: "string option"
  si_impl_ref :: "string option"

datatype wasm_module_spec = InlineModule string | PathModule string

section \<open>Secrets, configuration and the manifest\<close>

record secret_decl =
  se_key :: string
  se_overridable :: bool

definition secret_decl_new :: "string \<Rightarrow> secret_decl" where
  "secret_decl_new key = \<lparr>se_key = key, se_overridable = False\<rparr>"

definition secret_decl_overridable :: "string \<Rightarrow> secret_decl" where
  "secret_decl_overridable key = \<lparr>se_key = key, se_overridable = True\<rparr>"

record config_field =
  cf_key :: string
  cf_display_name :: "string option"
  cf_field_type :: string
  cf_required :: bool
  cf_default_value :: "json option"
  cf_description :: "string option"
  cf_options :: "string list"
  cf_secret :: bool

record config_schema =
  cs_system_fields :: "config_field list"
  cs_user_fields :: "config_field list"

record auth_spec =
  au_auth_type :: string
  au_header_name :: "string option"
  au_config_key :: "string option"

record plugin_manifest =
  pm_format_version :: "32 word option"
  pm_name :: string
  pm_display_name :: "string option"
  pm_version :: "string option"
  pm_description :: "string option"
  pm_roles :: "string list"
  pm_actions :: "(string \<times> action) list"
  pm_step_types :: "(string \<times> string) list"
  pm_config_schema :: "config_schema option"
  pm_auth :: "auth_spec option"
  pm_metadata :: "(string \<times> json) list"
  pm_permissions :: "string list"
  pm_uses_secrets :: "secret_decl list"
  pm_tracking_tag :: "string option"
  pm_step_type_defs :: "step_type_def list"
  pm_wasm_modules :: "(string \<times> wasm_module_spec) list"
  pm_step_type_impls :: "step_type_impl list"

definition plugin_manifest_new :: "string \<Rightarrow> plugin_manifest" where
  "plugin_manifest_new name =
     \<lparr>pm_format_version = None, pm_name = name, pm_display_name = None, pm_version = None,
      pm_description = None, pm_roles = [], pm_actions = [], pm_step_types = [],
      pm_config_schema = None, pm_auth = None, pm_metadata = [], pm_permissions = [],
      pm_uses_secrets = [], pm_tracking_tag = None, pm_step_type_defs = [], pm_wasm_modules = [],
      pm_step_type_impls = []\<rparr>"

definition ascii_upper_char :: "char \<Rightarrow> char" where
  "ascii_upper_char c = (if 97 \<le> byte c \<and> byte c \<le> 122 then char_of (byte c - 32) else c)"

text \<open>\<open>to_uppercase\<close> runs on ASCII letters and digits only, where it is the ASCII map.\<close>

definition tracking_tag :: "plugin_manifest \<Rightarrow> string" where
  "tracking_tag m =
     (case pm_tracking_tag m of
        Some t \<Rightarrow> t
      | None \<Rightarrow>
          (let derived = map ascii_upper_char (take 8 (filter is_alnum (pm_name m))) in
           if derived = [] then ''PLUGIN'' else derived))"

definition declared_secret_keys :: "plugin_manifest \<Rightarrow> string list" where
  "declared_secret_keys m = map se_key (pm_uses_secrets m)"

definition overridable_secret_keys :: "plugin_manifest \<Rightarrow> string list" where
  "overridable_secret_keys m = map se_key (filter se_overridable (pm_uses_secrets m))"

section \<open>Inner steps\<close>

text \<open>
  \<open>StepDef::from_inner_value\<close>: an object, then the derived deserializer. It visits the entries in the
  map's order, refuses unknown keys and values of the wrong type, and asks for \<open>id\<close> and \<open>type\<close> at
  the end; the other fields have defaults.
\<close>

datatype step_parse_error =
    NotAnObject json
  | UnknownField string
  | WrongType string
  | MissingField string

fun all_strings :: "json list \<Rightarrow> string list option" where
  "all_strings [] = Some []"
| "all_strings (JString s # vs) = map_option (\<lambda>ss. s # ss) (all_strings vs)"
| "all_strings (v # vs) = None"

record step_fields =
  fi_id :: "string option"
  fi_type :: "string option"
  fi_params :: "json option"
  fi_store :: "string option"
  fi_depends :: "string list option"
  fi_long :: "bool option"

definition visit_field :: "string \<Rightarrow> json \<Rightarrow> step_fields \<Rightarrow> step_parse_error + step_fields" where
  "visit_field k v f =
     (if k = ''id'' then
        (case v of JString s \<Rightarrow> Inr (f\<lparr>fi_id := Some s\<rparr>) | _ \<Rightarrow> Inl (WrongType k))
      else if k = ''type'' then
        (case v of JString s \<Rightarrow> Inr (f\<lparr>fi_type := Some s\<rparr>) | _ \<Rightarrow> Inl (WrongType k))
      else if k = ''params'' then Inr (f\<lparr>fi_params := Some v\<rparr>)
      else if k = ''storeToVariable'' then
        (case v of
           JString s \<Rightarrow> Inr (f\<lparr>fi_store := Some s\<rparr>)
         | JNull \<Rightarrow> Inr (f\<lparr>fi_store := None\<rparr>)
         | _ \<Rightarrow> Inl (WrongType k))
      else if k = ''dependsOn'' then
        (case v of
           JArray vs \<Rightarrow>
             (case all_strings vs of
                Some ss \<Rightarrow> Inr (f\<lparr>fi_depends := Some ss\<rparr>)
              | None \<Rightarrow> Inl (WrongType k))
         | _ \<Rightarrow> Inl (WrongType k))
      else if k = ''longRunning'' then
        (case v of JBool b \<Rightarrow> Inr (f\<lparr>fi_long := Some b\<rparr>) | _ \<Rightarrow> Inl (WrongType k))
      else Inl (UnknownField k))"

fun visit_fields :: "(string \<times> json) list \<Rightarrow> step_fields \<Rightarrow> step_parse_error + step_fields" where
  "visit_fields [] f = Inr f"
| "visit_fields ((k, v) # m) f = rbind (visit_field k v f) (\<lambda>f. visit_fields m f)"

definition no_fields :: step_fields where
  "no_fields = \<lparr>fi_id = None, fi_type = None, fi_params = None, fi_store = None,
     fi_depends = None, fi_long = None\<rparr>"

definition from_inner_value :: "json \<Rightarrow> step_parse_error + step_def" where
  "from_inner_value v =
     (case v of
        JObject m \<Rightarrow>
          rbind (visit_fields m no_fields) (\<lambda>f.
            case fi_id f of
              None \<Rightarrow> Inl (MissingField ''id'')
            | Some i \<Rightarrow>
                (case fi_type f of
                   None \<Rightarrow> Inl (MissingField ''type'')
                 | Some t \<Rightarrow>
                     Inr \<lparr>st_id = i, st_type = t,
                          st_params = (case fi_params f of Some p \<Rightarrow> p | None \<Rightarrow> empty_object),
                          st_store_to_variable = fi_store f,
                          st_depends_on = (case fi_depends f of Some d \<Rightarrow> d | None \<Rightarrow> []),
                          st_long_running = (case fi_long f of Some b \<Rightarrow> b | None \<Rightarrow> False)\<rparr>))
      | _ \<Rightarrow> Inl (NotAnObject v))"

text \<open>What an accepted inner step's object says of it.\<close>

lemma visit_field_keep:
  "visit_field k v f = Inr g \<Longrightarrow> k \<noteq> ''params'' \<Longrightarrow> fi_params g = fi_params f"
  by (auto simp: visit_field_def split: if_splits json.splits option.splits)

lemma visit_fields_params:
  "visit_fields m f = Inr g \<Longrightarrow> distinct (map fst m) \<Longrightarrow>
    fi_params g = (case map_of m ''params'' of Some p \<Rightarrow> Some p | None \<Rightarrow> fi_params f)"
proof (induction m arbitrary: f)
  case (Cons e m)
  obtain k v where e: "e = (k, v)" by (cases e)
  with Cons.prems obtain h where h: "visit_field k v f = Inr h" "visit_fields m h = Inr g"
    by (auto simp: rbind_Inr_iff)
  show ?case
  proof (cases "k = ''params''")
    case True
    then have "map_of m ''params'' = None" using Cons.prems(2) e by (auto simp: map_of_eq_None_iff)
    moreover have "fi_params h = Some v" using h(1) True by (auto simp: visit_field_def)
    ultimately show ?thesis using Cons.IH [OF h(2)] Cons.prems(2) e True by simp
  next
    case False
    have "fi_params g = (case map_of m ''params'' of Some p \<Rightarrow> Some p | None \<Rightarrow> fi_params h)"
      using Cons.IH [OF h(2)] Cons.prems(2) e by simp
    with False visit_field_keep [OF h(1) False] e show ?thesis by (simp split: option.splits)
  qed
qed simp

text \<open>An accepted inner step was an object, and its parameters are the last \<open>params\<close> visited.\<close>

lemma from_inner_object:
  assumes "from_inner_value v = Inr s"
  obtains m f where "v = JObject m" "visit_fields m no_fields = Inr f"
    "st_params s = (case fi_params f of Some p \<Rightarrow> p | None \<Rightarrow> empty_object)"
proof -
  obtain m where v: "v = JObject m" using assms by (cases v) (auto simp: from_inner_value_def)
  obtain f where f: "visit_fields m no_fields = Inr f"
    using assms by (auto simp: v from_inner_value_def rbind_Inr_iff)
  have "st_params s = (case fi_params f of Some p \<Rightarrow> p | None \<Rightarrow> empty_object)"
    using assms by (auto simp: v f from_inner_value_def split: option.splits)
  with v f that show thesis by blast
qed

lemma inner_step_params:
  assumes "from_inner_value (JObject m) = Inr s" "keys_sorted m"
  shows "st_params s = (case obj_get m ''params'' of Some p \<Rightarrow> p | None \<Rightarrow> empty_object)"
proof -
  from assms(1) obtain f where f: "visit_fields m no_fields = Inr f"
    "st_params s = (case fi_params f of Some p \<Rightarrow> p | None \<Rightarrow> empty_object)"
    by (auto elim: from_inner_object)
  with visit_fields_params [OF f(1) keys_sorted_distinct [OF assms(2)]] show ?thesis
    by (simp add: obj_get_def no_fields_def split: option.splits)
qed

text \<open>Parsing goes down: a parsed step's parameters are the empty object or smaller than its value.\<close>

lemma size_obj_get: "(k, v) \<in> set m \<Longrightarrow> size v < size (JObject m)"
  by (induction m) (auto simp: less_Suc_eq_le trans_le_add1 trans_le_add2)

lemma visit_fields_params_in:
  "visit_fields m f = Inr g \<Longrightarrow> fi_params g = fi_params f \<or> (\<exists>v. (''params'', v) \<in> set m \<and> fi_params g = Some v)"
proof (induction m arbitrary: f)
  case (Cons e m)
  obtain k v where e: "e = (k, v)" by (cases e)
  with Cons.prems obtain h where h: "visit_field k v f = Inr h" "visit_fields m h = Inr g"
    by (auto simp: rbind_Inr_iff)
  have "fi_params h = fi_params f \<or> k = ''params'' \<and> fi_params h = Some v"
    using h(1) visit_field_keep [OF h(1)] by (cases "k = ''params''") (auto simp: visit_field_def)
  with Cons.IH [OF h(2)] show ?case by (auto simp: e)
qed simp

lemma inner_step_smaller:
  assumes "from_inner_value v = Inr s"
  shows "st_params s = empty_object \<or> size (st_params s) < size v"
proof -
  from assms obtain m f where v: "v = JObject m" and f: "visit_fields m no_fields = Inr f"
    and p: "st_params s = (case fi_params f of Some p \<Rightarrow> p | None \<Rightarrow> empty_object)"
    by (rule from_inner_object)
  from visit_fields_params_in [OF f] show ?thesis
  proof
    assume "fi_params f = fi_params no_fields"
    with p show ?thesis by (simp add: no_fields_def)
  next
    assume "\<exists>w. (''params'', w) \<in> set m \<and> fi_params f = Some w"
    then obtain w where "(''params'', w) \<in> set m" "fi_params f = Some w" by blast
    with p size_obj_get [of "''params''" w m] show ?thesis by (simp add: v)
  qed
qed

section \<open>Secret declarations in JSON\<close>

text \<open>
  The hand-written \<open>Deserialize\<close> and \<open>Serialize\<close> of a declaration: a bare string, or an object with a
  string \<open>key\<close> and an optional boolean \<open>overridable\<close>; an empty key is refused.
\<close>

definition secret_decl_raw :: "json \<Rightarrow> secret_decl option" where
  "secret_decl_raw v =
     (case v of
        JString key \<Rightarrow> Some \<lparr>se_key = key, se_overridable = False\<rparr>
      | JObject m \<Rightarrow>
          (case (obj_get m ''key'', obj_get m ''overridable'') of
             (Some (JString key), None) \<Rightarrow> Some \<lparr>se_key = key, se_overridable = False\<rparr>
           | (Some (JString key), Some (JBool b)) \<Rightarrow> Some \<lparr>se_key = key, se_overridable = b\<rparr>
           | _ \<Rightarrow> None)
      | _ \<Rightarrow> None)"

definition secret_decl_deserialize :: "json \<Rightarrow> secret_decl option" where
  "secret_decl_deserialize v =
     (case secret_decl_raw v of
        None \<Rightarrow> None
      | Some d \<Rightarrow> if se_key d = [] then None else Some d)"

definition secret_decl_serialize :: "secret_decl \<Rightarrow> json" where
  "secret_decl_serialize d =
     (if se_overridable d
      then JObject [(''key'', JString (se_key d)), (''overridable'', JBool True)]
      else JString (se_key d))"

text \<open>
  A secret declaration survives being written to JSON and read back, except the one with the
  empty key, which is refused; and what is written is well-formed JSON.
\<close>

theorem secret_decl_roundtrip:
  "secret_decl_deserialize (secret_decl_serialize d) = (if se_key d = [] then None else Some d)
   \<and> json_wf (secret_decl_serialize d)"
  by (cases d) (auto simp: secret_decl_deserialize_def secret_decl_raw_def secret_decl_serialize_def
      obj_get_def keys_sorted_def)

end
