(* ===== verification/Dag.thy ===== *)
theory Dag
  imports Types RefText
begin

text \<open>
  The step graph of \<open>src/kernel/dag.rs\<close>: the scan of a step's parameters for \<open>$steps.<id>\<close>, the
  plan built from it and its layering into waves. The \<open>HashSet\<close> and \<open>BTreeSet\<close> values are sets, the
  \<open>HashMap\<close> of step ids a map; loops over a step's index carry the two vectors they fill.
\<close>

section \<open>Errors and plans\<close>

datatype dag_error =
    DuplicateStepId string
  | UnknownStepRef string string
  | ForwardRef string string
  | SelfRef string
  | Cycle string
  | UnrootedStepsReference string

record dag_plan =
  dp_waves :: "nat list list"
  dp_deps :: "nat list list"
  dp_consumers :: "nat list list"

definition step_count :: "dag_plan \<Rightarrow> nat" where
  "step_count p = length (dp_deps p)"

definition is_linear :: "dag_plan \<Rightarrow> bool" where
  "is_linear p = list_all (\<lambda>w. length w = 1) (dp_waves p)"

section \<open>References in a string\<close>

type_synonym id_acc = "string set \<times> string list"

definition push_unique :: "string \<Rightarrow> id_acc \<Rightarrow> id_acc" where
  "push_unique i acc = (case acc of (seen, out) \<Rightarrow>
     if i \<in> seen then (seen, out) else (insert i seen, out @ [i]))"

text \<open>
  One match of the expression \<open>\$steps\.([A-Za-z_][A-Za-z0-9_-]*)\<close> at the head of a string, and all
  of its matches from left to right.
\<close>

definition dsl_ref_at :: "string \<Rightarrow> (string \<times> string) option" where
  "dsl_ref_at s =
     (case strip_prefix ''$steps.'' s of
        None \<Rightarrow> None
      | Some [] \<Rightarrow> None
      | Some (c # r) \<Rightarrow>
          if is_ident_start c
          then Some (c # takeWhile is_ident_char r, dropWhile is_ident_char r) else None)"

lemma dsl_ref_at_shorter: "dsl_ref_at s = Some (i, r) \<Longrightarrow> length r < length s"
  by (auto simp: dsl_ref_at_def strip_prefix_Some less_Suc_eq_le
      intro!: le_trans [OF length_dropWhile_le] split: option.splits list.splits if_splits)

function dsl_refs :: "string \<Rightarrow> string list" where
  "dsl_refs [] = []"
| "dsl_refs (c # s) =
     (case dsl_ref_at (c # s) of Some (i, r) \<Rightarrow> i # dsl_refs r | None \<Rightarrow> dsl_refs s)"
  by pat_completeness auto
termination
  by (relation "measure length") (auto dest: dsl_ref_at_shorter)

definition scan_string :: "string \<Rightarrow> id_acc \<Rightarrow> id_acc" where
  "scan_string s acc = fold push_unique (dsl_refs s) acc"

fun scan_value :: "json \<Rightarrow> id_acc \<Rightarrow> id_acc" where
  "scan_value (JString s) acc = scan_string s acc"
| "scan_value (JArray vs) acc = fold (\<lambda>v acc. scan_value v acc) vs acc"
| "scan_value (JObject m) acc = fold (\<lambda>(k, v) acc. scan_value v acc) m acc"
| "scan_value v acc = acc"

text \<open>The expression \<open>\{\{\s*steps\.\<close>, where \<open>\s\<close> is Unicode white space.\<close>

fun unrooted_template :: "string \<Rightarrow> bool" where
  "unrooted_template [] = False"
| "unrooted_template (c # s) =
     ((case strip_prefix ''{{'' (c # s) of
         Some r \<Rightarrow> starts_with ''steps.'' (trim_start r)
       | None \<Rightarrow> False) \<or> unrooted_template s)"

fun contains_unrooted_steps_template :: "json \<Rightarrow> bool" where
  "contains_unrooted_steps_template (JString s) = unrooted_template s"
| "contains_unrooted_steps_template (JArray vs) = list_ex contains_unrooted_steps_template vs"
| "contains_unrooted_steps_template (JObject m)
     = list_ex (\<lambda>(k, v). contains_unrooted_steps_template v) m"
| "contains_unrooted_steps_template v = False"

section \<open>Inner step ids\<close>

definition inner_body_keys :: "string list" where
  "inner_body_keys = [''steps'', ''then'', ''try'', ''catch'', ''finally'']"

text \<open>
  \<open>v.get(k).and_then(|v| v.as_array())\<close>, the items looped over; a missing or other value has none.
\<close>

definition get_array :: "json \<Rightarrow> string \<Rightarrow> json list" where
  "get_array v k = (case Option.bind (json_get v k) as_array of Some arr \<Rightarrow> arr | None \<Rightarrow> [])"

lemma json_get_size: "json_get v k = Some w \<Longrightarrow> size w < size v"
  by (cases v) (auto simp: json_get_def dest!: obj_get_set size_obj_get)

lemma as_array_size: "as_array v = Some ws \<Longrightarrow> w \<in> set ws \<Longrightarrow> size w < size v"
  by (cases v) (auto simp: as_array_def less_Suc_eq_le intro: size_list_estimation')

lemma get_array_size:
  assumes "w \<in> set (get_array v k)"
  shows "size w < size v"
proof (cases "json_get v k")
  case (Some x)
  with assms have "\<exists>ws. as_array x = Some ws \<and> w \<in> set ws"
    by (cases "as_array x") (auto simp: get_array_def)
  with as_array_size json_get_size [OF Some] show ?thesis by fastforce
qed (use assms in \<open>simp add: get_array_def\<close>)

function collect_inner_step_ids :: "json \<Rightarrow> string set \<Rightarrow> string set"
  and collect_step_ids_in_array :: "json \<Rightarrow> string set \<Rightarrow> string set" where
  "collect_inner_step_ids params out =
     fold (\<lambda>key out.
         case json_get params key of
           Some v \<Rightarrow> collect_step_ids_in_array v out
         | None \<Rightarrow> out)
       inner_body_keys
       (fold (\<lambda>branch out. collect_step_ids_in_array branch out) (get_array params ''branches'')
         (fold (\<lambda>branch out. collect_inner_step_ids branch out) (get_array params ''ifs'') out))"
| "collect_step_ids_in_array v out =
     (case as_array v of
        None \<Rightarrow> out
      | Some arr \<Rightarrow>
          fold (\<lambda>item out.
              (let out = (case Option.bind (json_get item ''id'') as_str of
                            Some i \<Rightarrow> insert i out | None \<Rightarrow> out)
               in case json_get item ''params'' of
                    Some params \<Rightarrow> collect_inner_step_ids params out
                  | None \<Rightarrow> out)) arr out)"
  by pat_completeness auto
termination
  by (relation "measure (\<lambda>x. case x of Inl (v, out) \<Rightarrow> size v | Inr (v, out) \<Rightarrow> size v)")
    (auto dest: json_get_size get_array_size as_array_size less_trans)

declare collect_inner_step_ids.simps [simp del] collect_step_ids_in_array.simps [simp del]

definition extract_step_deps :: "step_def \<Rightarrow> string list" where
  "extract_step_deps step =
     (let acc = fold push_unique (st_depends_on step) ({}, []);
          scoped_local = collect_inner_step_ids (st_params step) {};
          local_out = snd (scan_value (st_params step) ({}, []))
      in snd (fold (\<lambda>i acc. if i \<in> scoped_local then acc else push_unique i acc) local_out acc))"

section \<open>The plan\<close>

text \<open>Step 1 of \<open>build_plan\<close>: the index of step ids.\<close>

fun index_ids :: "nat \<Rightarrow> step_def list \<Rightarrow> (string \<rightharpoonup> nat) \<Rightarrow> dag_error + (string \<rightharpoonup> nat)" where
  "index_ids i [] ids = Inr ids"
| "index_ids i (step # sts) ids =
     (if ids (st_id step) \<noteq> None then Inl (DuplicateStepId (st_id step))
      else index_ids (Suc i) sts (ids(st_id step \<mapsto> i)))"

text \<open>
  Step 2: the loop over one step's references, filling the vectors of dependencies and consumers,
  and the loop over the steps.
\<close>

record links =
  ln_deps :: "nat list list"
  ln_consumers :: "nat list list"

definition push_at :: "nat \<Rightarrow> 'a \<Rightarrow> 'a list list \<Rightarrow> 'a list list" where
  "push_at i x xss = xss[i := xss ! i @ [x]]"

definition add_link :: "nat \<Rightarrow> nat \<Rightarrow> links \<Rightarrow> links" where
  "add_link i target l =
     \<lparr>ln_deps = push_at i target (ln_deps l), ln_consumers = push_at target i (ln_consumers l)\<rparr>"

fun link_refs ::
  "(string \<rightharpoonup> nat) \<Rightarrow> nat \<Rightarrow> step_def \<Rightarrow> string list \<Rightarrow> nat set \<Rightarrow> links \<Rightarrow> dag_error + links" where
  "link_refs ids i step [] seen l = Inr l"
| "link_refs ids i step (ref_id # refs) seen l =
     (if ref_id = st_id step then Inl (SelfRef (st_id step))
      else
        (case ids ref_id of
           None \<Rightarrow> Inl (UnknownStepRef (st_id step) ref_id)
         | Some target \<Rightarrow>
             if i < target then Inl (ForwardRef (st_id step) ref_id)
             else if target \<in> seen then link_refs ids i step refs seen l
             else link_refs ids i step refs (insert target seen) (add_link i target l)))"

fun link_steps :: "(string \<rightharpoonup> nat) \<Rightarrow> nat \<Rightarrow> step_def list \<Rightarrow> links \<Rightarrow> dag_error + links" where
  "link_steps ids i [] l = Inr l"
| "link_steps ids i (step # sts) l =
     (if contains_unrooted_steps_template (st_params step)
      then Inl (UnrootedStepsReference (st_id step))
      else rbind (link_refs ids i step (extract_step_deps step) {} l)
             (\<lambda>l. link_steps ids (Suc i) sts l))"

text \<open>
  Step 3: the layering. \<open>wave_of\<close> is one pass over the unscheduled steps; the loop ends because it
  returns when the pass finds none.
\<close>

definition wave_of :: "nat list list \<Rightarrow> bool list \<Rightarrow> nat list" where
  "wave_of deps scheduled =
     filter (\<lambda>i. \<not> scheduled ! i \<and> list_all (\<lambda>d. scheduled ! d) (deps ! i)) [0..<length deps]"

definition schedule :: "nat list \<Rightarrow> bool list \<Rightarrow> bool list" where
  "schedule wave scheduled = fold (\<lambda>i sc. sc[i := True]) wave scheduled"

fun join_strings :: "string \<Rightarrow> string list \<Rightarrow> string" where
  "join_strings sep [] = []"
| "join_strings sep [s] = s"
| "join_strings sep (s # t # ss) = s @ sep @ join_strings sep (t # ss)"

definition stuck_steps :: "nat list list \<Rightarrow> bool list \<Rightarrow> step_def list \<Rightarrow> string list" where
  "stuck_steps deps scheduled sts =
     map (\<lambda>i. st_id (sts ! i)) (filter (\<lambda>i. \<not> scheduled ! i) [0..<length deps])"

function layer_loop ::
  "nat list list \<Rightarrow> step_def list \<Rightarrow> bool list \<Rightarrow> nat \<Rightarrow> nat list list \<Rightarrow> dag_error + nat list list"
  where
  "layer_loop deps sts scheduled left waves =
     (if left = 0 then Inr waves
      else
        (let wave = wave_of deps scheduled in
         if wave = [] then Inl (Cycle (join_strings '', '' (stuck_steps deps scheduled sts)))
         else layer_loop deps sts (schedule wave scheduled) (left - length wave) (waves @ [wave])))"
  by pat_completeness auto
termination
  by (relation "measure (\<lambda>(deps, sts, scheduled, left, waves). left)") auto

declare layer_loop.simps [simp del]

definition layer_into_waves :: "nat list list \<Rightarrow> step_def list \<Rightarrow> dag_error + nat list list" where
  "layer_into_waves deps sts =
     layer_loop deps sts (replicate (length deps) False) (length deps) []"

definition build_plan :: "action \<Rightarrow> dag_error + dag_plan" where
  "build_plan a =
     rbind (index_ids 0 (act_steps a) (\<lambda>_. None)) (\<lambda>ids.
       let n = length (act_steps a) in
       rbind (link_steps ids 0 (act_steps a)
                \<lparr>ln_deps = replicate n [], ln_consumers = replicate n []\<rparr>) (\<lambda>l.
         rbind (layer_into_waves (ln_deps l) (act_steps a)) (\<lambda>waves.
           Inr \<lparr>dp_waves = waves, dp_deps = ln_deps l, dp_consumers = ln_consumers l\<rparr>)))"

end
