(* ===== verification/DagSpec.thy ===== *)
theory DagSpec
  imports Dag
begin

text \<open>
  What the step graph promises: which ids a string and a step's parameters name, what a plan's edges
  are, when a plan is built, and that its waves run every step once, after its dependencies and as
  early as they allow.
\<close>

section \<open>References in a string\<close>

definition names_step :: "string \<Rightarrow> string \<Rightarrow> bool" where
  "names_step s i \<longleftrightarrow>
     (\<exists>a b. s = a @ ''$steps.'' @ i @ b \<and> ident_text i \<and> next_not is_ident_char b)"

lemma dsl_ref_at_Some:
  "dsl_ref_at s = Some (i, r) \<longleftrightarrow>
    s = ''$steps.'' @ i @ r \<and> ident_text i \<and> next_not is_ident_char r"
proof
  assume "dsl_ref_at s = Some (i, r)"
  then obtain c t where t: "s = ''$steps.'' @ c # t" "is_ident_start c"
    "i = c # takeWhile is_ident_char t" "r = dropWhile is_ident_char t"
    by (auto simp: dsl_ref_at_def strip_prefix_Some split: option.splits list.splits if_splits)
  have "next_not is_ident_char r"
    unfolding t(4) next_not_def by (metis hd_dropWhile)
  moreover have "ident_text i"
    using t(2,3) by (auto simp: ident_text_def is_ident_start_char list_all_iff dest: set_takeWhileD)
  ultimately show "s = ''$steps.'' @ i @ r \<and> ident_text i \<and> next_not is_ident_char r"
    using t by simp
next
  assume a: "s = ''$steps.'' @ i @ r \<and> ident_text i \<and> next_not is_ident_char r"
  then obtain c t where i: "i = c # t" by (cases i) (auto simp: ident_text_def)
  from a i have "strip_prefix ''$steps.'' s = Some (c # t @ r)" by (simp add: strip_prefix_Some)
  moreover have "takeWhile is_ident_char (t @ r) = t \<and> dropWhile is_ident_char (t @ r) = r"
    using a i by (intro takeWhile_stop) (auto simp: ident_text_def next_not_def list_all_iff)
  ultimately show "dsl_ref_at s = Some (i, r)"
    using a i by (simp add: dsl_ref_at_def ident_text_def)
qed

lemma dollar_not_ident: "\<not> is_ident_char (CHR ''$'')"
  by (simp add: is_ident_char_def is_alnum_def is_alpha_def is_digit_def byte_def)

text \<open>A match uses up the only dollar sign it reads, so the next one lies behind it.\<close>

lemma names_step_behind:
  assumes "dsl_ref_at s = Some (j, r)"
  shows "names_step s i \<longleftrightarrow> i = j \<or> names_step r i"
proof
  assume "names_step s i"
  then obtain a b where ab: "s = a @ ''$steps.'' @ i @ b" "ident_text i" "next_not is_ident_char b"
    by (auto simp: names_step_def)
  from assms have j: "s = ''$steps.'' @ j @ r" "ident_text j" "next_not is_ident_char r"
    by (simp_all add: dsl_ref_at_Some)
  show "i = j \<or> names_step r i"
  proof (cases a)
    case Nil
    with ab have "dsl_ref_at s = Some (i, b)" by (simp add: dsl_ref_at_Some)
    with assms show ?thesis by simp
  next
    case (Cons d a')
    let ?w = "''steps.'' @ j"
    from ab(1) j(1) Cons have e: "a' @ CHR ''$'' # (''steps.'' @ i @ b) = ?w @ r" by simp
    have n: "CHR ''$'' \<notin> set ?w"
      using j(2) dollar_not_ident by (auto simp: ident_text_def list_all_iff)
    from append_eq_append_conv2 [THEN iffD1, OF e] obtain u where
      "?w = a' @ u \<and> u @ r = CHR ''$'' # (''steps.'' @ i @ b)
        \<or> a' = ?w @ u \<and> r = u @ CHR ''$'' # (''steps.'' @ i @ b)" by metis
    then show ?thesis
    proof
      assume 1: "?w = a' @ u \<and> u @ r = CHR ''$'' # (''steps.'' @ i @ b)"
      show ?thesis
      proof (cases u)
        case Nil
        with 1 have "r = [] @ ''$steps.'' @ i @ b" by simp
        with ab(2,3) show ?thesis unfolding names_step_def by blast
      next
        case (Cons x u')
        with 1 have "?w = a' @ CHR ''$'' # u'" by simp
        then have "CHR ''$'' \<in> set ?w" by (metis in_set_conv_decomp)
        with n show ?thesis by blast
      qed
    next
      assume "a' = ?w @ u \<and> r = u @ CHR ''$'' # (''steps.'' @ i @ b)"
      then have "r = u @ ''$steps.'' @ i @ b" by simp
      with ab(2,3) show ?thesis unfolding names_step_def by blast
    qed
  qed
next
  assume "i = j \<or> names_step r i"
  then show "names_step s i"
  proof
    assume "i = j"
    with assms have "s = [] @ ''$steps.'' @ i @ r" "ident_text i" "next_not is_ident_char r"
      by (simp_all add: dsl_ref_at_Some)
    then show ?thesis unfolding names_step_def by blast
  next
    assume "names_step r i"
    then obtain a b where "r = a @ ''$steps.'' @ i @ b" "ident_text i" "next_not is_ident_char b"
      by (auto simp: names_step_def)
    moreover from assms have "s = ''$steps.'' @ j @ r" by (simp add: dsl_ref_at_Some)
    ultimately have "s = (''$steps.'' @ j @ a) @ ''$steps.'' @ i @ b" "ident_text i"
      "next_not is_ident_char b" by simp_all
    then show ?thesis unfolding names_step_def by blast
  qed
qed

lemma names_step_skip:
  assumes "dsl_ref_at (c # s) = None"
  shows "names_step (c # s) i \<longleftrightarrow> names_step s i"
proof
  assume "names_step (c # s) i"
  then obtain a b where ab: "c # s = a @ ''$steps.'' @ i @ b" "ident_text i" "next_not is_ident_char b"
    by (auto simp: names_step_def)
  show "names_step s i"
  proof (cases a)
    case Nil
    with ab have "dsl_ref_at (c # s) = Some (i, b)" by (simp add: dsl_ref_at_Some)
    with assms show ?thesis by simp
  next
    case (Cons d a')
    with ab(1) have "s = a' @ ''$steps.'' @ i @ b" by simp
    with ab(2,3) show ?thesis unfolding names_step_def by blast
  qed
next
  assume "names_step s i"
  then obtain a b where "s = a @ ''$steps.'' @ i @ b" "ident_text i" "next_not is_ident_char b"
    by (auto simp: names_step_def)
  then have "c # s = (c # a) @ ''$steps.'' @ i @ b" "ident_text i" "next_not is_ident_char b"
    by simp_all
  then show "names_step (c # s) i" unfolding names_step_def by blast
qed

lemma dsl_refs_iff: "i \<in> set (dsl_refs s) \<longleftrightarrow> names_step s i"
proof (induction s rule: dsl_refs.induct)
  case 1
  show ?case by (simp add: names_step_def)
next
  case (2 c s)
  show ?case
  proof (cases "dsl_ref_at (c # s)")
    case None
    with 2 show ?thesis by (simp add: names_step_skip)
  next
    case (Some p)
    obtain j r where "p = (j, r)" by (cases p)
    with Some 2 show ?thesis by (auto simp: names_step_behind)
  qed
qed

section \<open>References in a value\<close>

fun json_strings :: "json \<Rightarrow> string list" where
  "json_strings (JString s) = [s]"
| "json_strings (JArray vs) = concat (map json_strings vs)"
| "json_strings (JObject m) = concat (map (\<lambda>(k, v). json_strings v) m)"
| "json_strings v = []"

lemma fold_acc_concat:
  "(\<And>x acc. x \<in> set xs \<Longrightarrow> f x acc = fold g (h x) acc) \<Longrightarrow> fold f xs acc = fold g (concat (map h xs)) acc"
  by (induction xs arbitrary: acc) auto

lemma concat_map_concat: "concat (map f (concat xss)) = concat (map (\<lambda>xs. concat (map f xs)) xss)"
  by (induction xss) auto

lemma scan_value_fold:
  "scan_value v acc = fold push_unique (concat (map dsl_refs (json_strings v))) acc"
proof (induction v arbitrary: acc)
  case (JArray vs)
  have "fold (\<lambda>v acc. scan_value v acc) vs acc
      = fold push_unique (concat (map (\<lambda>v. concat (map dsl_refs (json_strings v))) vs)) acc"
    by (rule fold_acc_concat) (rule JArray)
  then show ?case by (simp add: concat_map_concat comp_def)
next
  case (JObject m)
  have "fold (\<lambda>(k, v) acc. scan_value v acc) m acc
      = fold push_unique (concat (map (\<lambda>(k, v). concat (map dsl_refs (json_strings v))) m)) acc"
    using JObject by (intro fold_acc_concat) (auto simp: snds.simps)
  then show ?case by (simp add: concat_map_concat comp_def case_prod_unfold)
qed (simp_all add: scan_string_def)

definition acc_ok :: "id_acc \<Rightarrow> bool" where
  "acc_ok acc \<longleftrightarrow> fst acc = set (snd acc) \<and> distinct (snd acc)"

lemma push_unique_ok:
  "acc_ok acc \<Longrightarrow> acc_ok (push_unique i acc) \<and> set (snd (push_unique i acc)) = insert i (set (snd acc))"
  by (cases acc) (auto simp: acc_ok_def push_unique_def)

lemma fold_push_unique_ok:
  "acc_ok acc \<Longrightarrow> acc_ok (fold push_unique is acc)
    \<and> set (snd (fold push_unique is acc)) = set (snd acc) \<union> set is"
  by (induction "is" arbitrary: acc) (auto simp: push_unique_ok)

section \<open>Scoped ids\<close>

text \<open>The ids of the steps written inside a step's own bodies, as a relation.\<close>

inductive body_id :: "json \<Rightarrow> string \<Rightarrow> bool" and array_id :: "json \<Rightarrow> string \<Rightarrow> bool" where
  branch: "b \<in> set (get_array p ''ifs'') \<Longrightarrow> body_id b i \<Longrightarrow> body_id p i"
| parallel: "b \<in> set (get_array p ''branches'') \<Longrightarrow> array_id b i \<Longrightarrow> body_id p i"
| body: "k \<in> set inner_body_keys \<Longrightarrow> json_get p k = Some v \<Longrightarrow> array_id v i \<Longrightarrow> body_id p i"
| here: "as_array v = Some arr \<Longrightarrow> item \<in> set arr \<Longrightarrow> json_get item ''id'' = Some (JString i)
    \<Longrightarrow> array_id v i"
| deeper: "as_array v = Some arr \<Longrightarrow> item \<in> set arr \<Longrightarrow> json_get item ''params'' = Some p
    \<Longrightarrow> body_id p i \<Longrightarrow> array_id v i"

inductive_simps body_id_iff: "body_id p i"
inductive_simps array_id_iff: "array_id v i"

lemma fold_grow:
  "(\<And>x out. x \<in> set xs \<Longrightarrow> i \<in> f x out \<longleftrightarrow> i \<in> out \<or> P x) \<Longrightarrow>
    i \<in> fold f xs out \<longleftrightarrow> i \<in> out \<or> (\<exists>x \<in> set xs. P x)"
  by (induction xs arbitrary: out) auto

lemma as_str_Some: "as_str v = Some s \<longleftrightarrow> v = JString s" "as_str (JString t) = Some t"
  by (cases v) (auto simp: as_str_def)

lemma collect_ids_iff:
  "i \<in> collect_inner_step_ids params out \<longleftrightarrow> i \<in> out \<or> body_id params i"
  "i \<in> collect_step_ids_in_array v out \<longleftrightarrow> i \<in> out \<or> array_id v i"
proof (induction params out and v out
    rule: collect_inner_step_ids_collect_step_ids_in_array.induct)
  case (1 params out)
  let ?A = "fold (\<lambda>branch out. collect_inner_step_ids branch out) (get_array params ''ifs'') out"
  let ?B = "fold (\<lambda>branch out. collect_step_ids_in_array branch out) (get_array params ''branches'') ?A"
  have A: "i \<in> ?A \<longleftrightarrow> i \<in> out \<or> (\<exists>b \<in> set (get_array params ''ifs''). body_id b i)"
    by (rule fold_grow) (rule 1)
  have B: "i \<in> ?B \<longleftrightarrow> i \<in> ?A \<or> (\<exists>b \<in> set (get_array params ''branches''). array_id b i)"
    by (rule fold_grow) (rule 1)
  have "i \<in> collect_inner_step_ids params out \<longleftrightarrow>
      i \<in> ?B \<or> (\<exists>k \<in> set inner_body_keys. \<exists>v. json_get params k = Some v \<and> array_id v i)"
    unfolding collect_inner_step_ids.simps [of params out]
    by (rule fold_grow) (auto simp: 1 split: option.split)
  with A B show ?case by (subst body_id_iff) blast
next
  case (2 v out)
  show ?case
  proof (cases "as_array v")
    case None
    then show ?thesis by (simp add: collect_step_ids_in_array.simps [of v] array_id_iff)
  next
    case (Some arr)
    have "i \<in> collect_step_ids_in_array v out \<longleftrightarrow> i \<in> out \<or>
        (\<exists>item \<in> set arr. json_get item ''id'' = Some (JString i)
          \<or> (\<exists>p. json_get item ''params'' = Some p \<and> body_id p i))"
      unfolding collect_step_ids_in_array.simps [of v] Some option.case
      by (rule fold_grow)
        (auto simp: 2 [OF Some] Let_def as_str_Some bind_eq_Some_conv split: option.split)
    with Some show ?thesis by (subst array_id_iff) auto
  qed
qed

section \<open>Dependencies of a step\<close>

lemma fold_filtered:
  "fold (\<lambda>i acc. if i \<in> S then acc else f i acc) xs acc = fold f (filter (\<lambda>i. i \<notin> S) xs) acc"
  by (induction xs arbitrary: acc) auto

lemma extract_step_deps_spec:
  "distinct (extract_step_deps step)"
  "i \<in> set (extract_step_deps step) \<longleftrightarrow>
    i \<in> set (st_depends_on step) \<or>
    \<not> body_id (st_params step) i \<and> (\<exists>s \<in> set (json_strings (st_params step)). names_step s i)"
proof -
  have e: "acc_ok ({}, [])" by (simp add: acc_ok_def)
  let ?a = "fold push_unique (st_depends_on step) ({}, [])"
  let ?l = "scan_value (st_params step) ({}, [])"
  let ?f = "filter (\<lambda>i. i \<notin> collect_inner_step_ids (st_params step) {}) (snd ?l)"
  have x: "extract_step_deps step = snd (fold push_unique ?f ?a)"
    by (simp add: extract_step_deps_def Let_def fold_filtered)
  have a: "acc_ok ?a" "set (snd ?a) = set (st_depends_on step)"
    using fold_push_unique_ok [OF e, of "st_depends_on step"] by simp_all
  have l: "set (snd ?l) = (\<Union>s \<in> set (json_strings (st_params step)). {i. names_step s i})"
    unfolding scan_value_fold
    using fold_push_unique_ok [OF e, of "concat (map dsl_refs (json_strings (st_params step)))"]
    by (auto simp: dsl_refs_iff)
  note r = fold_push_unique_ok [OF a(1), of ?f]
  from r show "distinct (extract_step_deps step)" by (simp add: x acc_ok_def)
  have "set (extract_step_deps step) = set (st_depends_on step) \<union> set ?f"
    using r a(2) by (simp add: x)
  then show "i \<in> set (extract_step_deps step) \<longleftrightarrow>
    i \<in> set (st_depends_on step) \<or>
    \<not> body_id (st_params step) i \<and> (\<exists>s \<in> set (json_strings (st_params step)). names_step s i)"
    by (auto simp: l collect_ids_iff)
qed

section \<open>The index of step ids\<close>

definition index_of :: "step_def list \<Rightarrow> string \<rightharpoonup> nat" where
  "index_of sts i =
     (if i \<in> set (map st_id sts) then Some (length (takeWhile (\<lambda>s. st_id s \<noteq> i) sts)) else None)"

lemma index_ids_Inr:
  "index_ids k sts ids = Inr m \<Longrightarrow>
    distinct (map st_id sts) \<and> set (map st_id sts) \<inter> dom ids = {}
    \<and> m = ids ++ (\<lambda>i. map_option (\<lambda>d. k + d) (index_of sts i))"
proof (induction k sts ids rule: index_ids.induct)
  case (1 k ids)
  then show ?case by (simp add: index_of_def map_add_def)
next
  case (2 k s sts ids)
  then have n: "ids (st_id s) = None" and m: "index_ids (Suc k) sts (ids(st_id s \<mapsto> k)) = Inr m"
    by (auto split: if_splits)
  from 2(1) [OF _ m] n have h: "distinct (map st_id sts)"
    "set (map st_id sts) \<inter> insert (st_id s) (dom ids) = {}"
    "m = ids(st_id s \<mapsto> k) ++ (\<lambda>i. map_option (\<lambda>d. Suc k + d) (index_of sts i))"
    by (auto simp: fun_upd_def)
  have "m = ids ++ (\<lambda>i. map_option (\<lambda>d. k + d) (index_of (s # sts) i))"
    unfolding h(3) using h(2) by (auto simp: fun_eq_iff map_add_def index_of_def)
  with h n show ?case by auto
qed

lemma index_ids_empty:
  assumes "index_ids 0 sts (\<lambda>_. None) = Inr m"
  shows "distinct (map st_id sts) \<and> m = index_of sts"
proof -
  have "(\<lambda>_. None) ++ (\<lambda>i. map_option (\<lambda>d. 0 + d) (index_of sts i)) = index_of sts"
    by (auto simp: fun_eq_iff map_add_def option.map_ident split: option.split)
  with index_ids_Inr [OF assms] show ?thesis by metis
qed

lemma index_ids_total:
  "distinct (map st_id sts) \<Longrightarrow> set (map st_id sts) \<inter> dom ids = {} \<Longrightarrow> \<exists>m. index_ids k sts ids = Inr m"
  by (induction k sts ids rule: index_ids.induct) auto

lemma index_of_Some:
  "distinct (map st_id sts) \<Longrightarrow> index_of sts i = Some d \<longleftrightarrow> d < length sts \<and> st_id (sts ! d) = i"
proof (induction sts arbitrary: d)
  case Nil
  then show ?case by (simp add: index_of_def)
next
  case (Cons s sts)
  show ?case
  proof (cases "st_id s = i")
    case True
    have "st_id (sts ! n) \<noteq> i" if "n < length sts" for n
    proof -
      have "st_id (sts ! n) \<in> set (map st_id sts)" using that by simp
      moreover have "i \<notin> set (map st_id sts)" using True Cons.prems by auto
      ultimately show ?thesis by metis
    qed
    with True show ?thesis by (cases d) (auto simp: index_of_def)
  next
    case False
    then have "index_of (s # sts) i = map_option Suc (index_of sts i)"
      by (auto simp: index_of_def)
    with Cons False show ?thesis by (cases d) auto
  qed
qed

section \<open>The edges of a plan\<close>

definition good_ref :: "(string \<rightharpoonup> nat) \<Rightarrow> nat \<Rightarrow> step_def \<Rightarrow> string \<Rightarrow> bool" where
  "good_ref ids i step r \<longleftrightarrow> r \<noteq> st_id step \<and> (\<exists>t. ids r = Some t \<and> t \<le> i)"

definition targets :: "(string \<rightharpoonup> nat) \<Rightarrow> string list \<Rightarrow> nat list" where
  "targets ids refs = map (\<lambda>r. the (ids r)) refs"

lemma link_refs_Inr_iff:
  assumes "inj_on ids (dom ids)" "distinct refs" "seen \<inter> {t. \<exists>r \<in> set refs. ids r = Some t} = {}"
  shows "link_refs ids i step refs seen l = Inr l' \<longleftrightarrow>
    list_all (good_ref ids i step) refs \<and> l' = fold (add_link i) (targets ids refs) l"
  using assms
proof (induction refs arbitrary: seen l)
  case Nil
  then show ?case by (auto simp: targets_def)
next
  case (Cons r refs)
  show ?case
  proof (cases "good_ref ids i step r")
    case False
    then show ?thesis by (auto simp: good_ref_def split: option.splits)
  next
    case True
    then obtain t where t: "r \<noteq> st_id step" "ids r = Some t" "t \<le> i" by (auto simp: good_ref_def)
    from Cons.prems(3) t(2) have "t \<notin> seen" by auto
    have "ids q \<noteq> Some t" if "q \<in> set refs" for q
      using inj_onD [OF Cons.prems(1), of q r] Cons.prems(2) t(2) that by auto
    with Cons.prems have "insert t seen \<inter> {t. \<exists>r \<in> set refs. ids r = Some t} = {}" by auto
    from Cons.IH [OF Cons.prems(1) _ this, of "add_link i t l"] Cons.prems(2)
    have "link_refs ids i step refs (insert t seen) (add_link i t l) = Inr l' \<longleftrightarrow>
        list_all (good_ref ids i step) refs \<and> l' = fold (add_link i) (targets ids refs) (add_link i t l)"
      by simp
    with True t \<open>t \<notin> seen\<close> show ?thesis by (simp add: targets_def)
  qed
qed

lemma zip_upt_Cons:
  "zip [k..<k + length (s # sts)] (s # sts) = (k, s) # zip [Suc k..<Suc k + length sts] sts"
  by (simp add: upt_rec [of k] Suc_le_eq del: upt_Suc)

lemma link_steps_Inr_iff:
  assumes "inj_on ids (dom ids)"
  shows "link_steps ids k sts l = Inr l' \<longleftrightarrow>
    (\<forall>j < length sts. \<not> contains_unrooted_steps_template (st_params (sts ! j))
       \<and> list_all (good_ref ids (k + j) (sts ! j)) (extract_step_deps (sts ! j)))
    \<and> l' = fold (\<lambda>(j, s). fold (add_link j) (targets ids (extract_step_deps s)))
             (zip [k..<k + length sts] sts) l"
proof (induction sts arbitrary: k l)
  case Nil
  then show ?case by auto
next
  case (Cons s sts)
  have r: "link_refs ids k s (extract_step_deps s) {} l = Inr l'' \<longleftrightarrow>
      list_all (good_ref ids k s) (extract_step_deps s)
      \<and> l'' = fold (add_link k) (targets ids (extract_step_deps s)) l" for l''
    by (rule link_refs_Inr_iff) (simp_all add: assms extract_step_deps_spec)
  show ?case
    unfolding zip_upt_Cons by (auto simp: rbind_Inr_iff r Cons.IH All_less_Suc2 simp del: upt_Suc)
qed

lemma fold_add_link:
  assumes "i < length (ln_deps l)" "list_all (\<lambda>t. t < length (ln_consumers l)) ts" "distinct ts"
  shows "fold (add_link i) ts l =
    \<lparr>ln_deps = (ln_deps l)[i := ln_deps l ! i @ ts],
     ln_consumers = map (\<lambda>t. ln_consumers l ! t @ (if t \<in> set ts then [i] else []))
       [0..<length (ln_consumers l)]\<rparr>"
  using assms
proof (induction ts arbitrary: l)
  case Nil
  then show ?case by (cases l) (simp add: map_nth)
next
  case (Cons t ts)
  let ?l = "add_link i t l"
  have l: "length (ln_deps ?l) = length (ln_deps l)" "length (ln_consumers ?l) = length (ln_consumers l)"
    by (simp_all add: add_link_def push_at_def)
  have "fold (add_link i) (t # ts) l = fold (add_link i) ts ?l" by simp
  also have "\<dots> = \<lparr>ln_deps = (ln_deps ?l)[i := ln_deps ?l ! i @ ts],
     ln_consumers = map (\<lambda>u. ln_consumers ?l ! u @ (if u \<in> set ts then [i] else []))
       [0..<length (ln_consumers ?l)]\<rparr>"
    using Cons.prems l by (intro Cons.IH) auto
  also have "\<dots> = \<lparr>ln_deps = (ln_deps l)[i := ln_deps l ! i @ (t # ts)],
     ln_consumers = map (\<lambda>u. ln_consumers l ! u @ (if u \<in> set (t # ts) then [i] else []))
       [0..<length (ln_consumers l)]\<rparr>"
    using Cons.prems by (auto simp: add_link_def push_at_def nth_list_update)
  finally show ?case .
qed

definition linked :: "nat list list \<Rightarrow> nat \<Rightarrow> links" where
  "linked T m =
     \<lparr>ln_deps = map (\<lambda>j. if j < m then T ! j else []) [0..<length T],
      ln_consumers = map (\<lambda>t. filter (\<lambda>j. t \<in> set (T ! j)) [0..<m]) [0..<length T]\<rparr>"

lemma linked_0: "linked T 0 = \<lparr>ln_deps = replicate (length T) [], ln_consumers = replicate (length T) []\<rparr>"
  by (simp add: linked_def map_replicate_const)

lemma linked_Suc:
  assumes "m < length T" "list_all (\<lambda>t. t < length T) (T ! m)" "distinct (T ! m)"
  shows "fold (add_link m) (T ! m) (linked T m) = linked T (Suc m)"
proof -
  have "fold (add_link m) (T ! m) (linked T m) =
    \<lparr>ln_deps = (ln_deps (linked T m))[m := ln_deps (linked T m) ! m @ T ! m],
     ln_consumers = map (\<lambda>t. ln_consumers (linked T m) ! t @ (if t \<in> set (T ! m) then [m] else []))
       [0..<length (ln_consumers (linked T m))]\<rparr>"
    using assms by (intro fold_add_link) (simp_all add: linked_def)
  also have "\<dots> = linked T (Suc m)"
    using assms(1) by (auto simp: linked_def less_Suc_eq intro!: nth_equalityI)
  finally show ?thesis .
qed

lemma linked_fold:
  assumes "k + length sts = length T"
    "\<And>j. j < length sts \<Longrightarrow> list_all (\<lambda>t. t < length T) (T ! (k + j)) \<and> distinct (T ! (k + j))"
    "\<And>j. j < length sts \<Longrightarrow> f (sts ! j) = T ! (k + j)"
  shows "fold (\<lambda>(j, s). fold (add_link j) (f s)) (zip [k..<k + length sts] sts) (linked T k)
    = linked T (k + length sts)"
  using assms
proof (induction sts arbitrary: k)
  case Nil
  then show ?case by simp
next
  case (Cons s sts)
  have "fold (add_link k) (f s) (linked T k) = linked T (Suc k)"
    using Cons.prems(1) Cons.prems(2,3) [of 0] linked_Suc [of k T] by simp
  moreover have "fold (\<lambda>(j, s). fold (add_link j) (f s)) (zip [Suc k..<Suc k + length sts] sts)
      (linked T (Suc k)) = linked T (Suc k + length sts)"
    using Cons.prems(1) Cons.prems(2,3) [of "Suc j" for j] by (intro Cons.IH) auto
  ultimately show ?case unfolding zip_upt_Cons by (simp del: upt_Suc)
qed

section \<open>Waves\<close>

text \<open>The steps that are not done and all of whose dependencies are, in order.\<close>

definition ready_steps :: "nat list list \<Rightarrow> nat set \<Rightarrow> nat list" where
  "ready_steps deps done = filter (\<lambda>i. i \<notin> done \<and> set (deps ! i) \<subseteq> done) [0..<length deps]"

definition layered :: "nat list list \<Rightarrow> nat list list \<Rightarrow> bool" where
  "layered deps waves \<longleftrightarrow>
     (\<forall>k < length waves. waves ! k \<noteq> [] \<and> waves ! k = ready_steps deps (set (concat (take k waves))))"

definition backward :: "nat list list \<Rightarrow> bool" where
  "backward deps \<longleftrightarrow> (\<forall>i < length deps. \<forall>d \<in> set (deps ! i). d < i)"

lemma layered_snoc:
  "layered deps waves \<Longrightarrow> w \<noteq> [] \<Longrightarrow> w = ready_steps deps (set (concat waves)) \<Longrightarrow> layered deps (waves @ [w])"
  by (auto simp: layered_def nth_append less_Suc_eq)

lemma layered_sub: "layered deps waves \<Longrightarrow> set (concat waves) \<subseteq> {..<length deps}"
proof
  fix i
  assume l: "layered deps waves" and "i \<in> set (concat waves)"
  then obtain w where "w \<in> set waves" "i \<in> set w" by auto
  then obtain k where "k < length waves" "i \<in> set (waves ! k)" by (auto simp: in_set_conv_nth)
  with l have "i \<in> set (ready_steps deps (set (concat (take k waves))))" by (metis layered_def)
  then show "i \<in> {..<length deps}" by (simp add: ready_steps_def)
qed

lemma layered_butlast: "layered deps (waves @ [w]) \<Longrightarrow> layered deps waves \<and> w = ready_steps deps (set (concat waves))"
  by (auto simp: layered_def nth_append dest: spec [of _ "length waves"] split: if_splits)
    (metis less_SucI order_less_irrefl)+

lemma layered_distinct: "layered deps waves \<Longrightarrow> distinct (concat waves)"
proof (induction waves rule: rev_induct)
  case (snoc w waves)
  then show ?case by (auto simp: ready_steps_def dest!: layered_butlast)
qed simp

lemma nth_set_True: "j < length sc \<Longrightarrow> sc[a := True] ! j \<longleftrightarrow> j = a \<or> sc ! j"
  by (cases "a = j") auto

lemma nth_fold_set: "length (fold (\<lambda>i sc. sc[i := True]) w sc) = length sc"
  "j < length sc \<Longrightarrow> fold (\<lambda>i sc. sc[i := True]) w sc ! j \<longleftrightarrow> j \<in> set w \<or> sc ! j"
  by (induction w arbitrary: sc) (auto simp: nth_set_True)

lemma ready_progress:
  assumes "backward deps" "j < length deps" "j \<notin> done"
  shows "ready_steps deps done \<noteq> []"
proof -
  define i where "i = (LEAST i. i \<notin> done)"
  have i: "i \<notin> done" unfolding i_def using assms(3) by (rule LeastI)
  have less: "d \<in> done" if "d < i" for d using not_less_Least [of d] that by (auto simp: i_def)
  have "i \<le> j" unfolding i_def using assms(3) by (rule Least_le)
  with assms i less have "i \<in> set (ready_steps deps done)"
    by (auto simp: ready_steps_def backward_def)
  then show ?thesis by auto
qed

lemma layer_loop_ok:
  assumes "backward deps" "length sc = length deps" "layered deps waves"
    "\<And>i. i < length deps \<Longrightarrow> sc ! i \<longleftrightarrow> i \<in> set (concat waves)"
    "left = length deps - length (concat waves)"
  shows "\<exists>ws. layer_loop deps sts sc left waves = Inr ws \<and> layered deps ws
    \<and> set (concat ws) = {..<length deps}"
  using assms
proof (induction deps sts sc left waves rule: layer_loop.induct)
  case (1 deps sts sc left waves)
  let ?done = "set (concat waves)"
  have card: "card ?done = length (concat waves)"
    using layered_distinct [OF 1(4)] by (rule distinct_card)
  have sub: "?done \<subseteq> {..<length deps}" by (rule layered_sub [OF 1(4)])
  show ?case
  proof (cases "left = 0")
    case True
    with 1(6) card have "card {..<length deps} \<le> card ?done" by simp
    with sub have "?done = {..<length deps}" by (intro card_seteq) auto
    with 1(4) True show ?thesis by (simp add: layer_loop.simps)
  next
    case False
    have w: "wave_of deps sc = ready_steps deps ?done"
      unfolding wave_of_def ready_steps_def
      using 1(2,5) by (intro filter_cong) (fastforce simp: list_all_iff backward_def)+
    have "?done \<noteq> {..<length deps}" using False 1(6) card by auto
    with sub obtain j where "j < length deps" "j \<notin> ?done" by auto
    with 1(2) have ne: "ready_steps deps ?done \<noteq> []" by (rule ready_progress)
    let ?waves = "waves @ [wave_of deps sc]"
    have "layered deps ?waves" by (rule layered_snoc [OF 1(4)]) (use ne w in simp_all)
    moreover have "schedule (wave_of deps sc) sc ! i \<longleftrightarrow> i \<in> set (concat ?waves)" if "i < length deps" for i
      using that 1(3,5) by (auto simp: schedule_def nth_fold_set)
    ultimately have "\<exists>ws. layer_loop deps sts (schedule (wave_of deps sc) sc)
        (left - length (wave_of deps sc)) ?waves = Inr ws
        \<and> layered deps ws \<and> set (concat ws) = {..<length deps}"
      using 1(2,3,6) False ne w by (intro 1(1)) (auto simp: schedule_def nth_fold_set)
    with False ne w show ?thesis by (subst layer_loop.simps) (simp add: Let_def)
  qed
qed

lemma layer_into_waves_ok:
  "backward deps \<Longrightarrow> \<exists>ws. layer_into_waves deps sts = Inr ws \<and> layered deps ws
    \<and> set (concat ws) = {..<length deps}"
  unfolding layer_into_waves_def by (rule layer_loop_ok) (auto simp: layered_def)

section \<open>Building a plan\<close>

definition edges_of :: "step_def list \<Rightarrow> nat list list" where
  "edges_of sts = map (\<lambda>s. targets (index_of sts) (extract_step_deps s)) sts"

definition plannable :: "step_def list \<Rightarrow> bool" where
  "plannable sts \<longleftrightarrow> distinct (map st_id sts) \<and>
     (\<forall>i < length sts. \<not> contains_unrooted_steps_template (st_params (sts ! i))
        \<and> list_all (good_ref (index_of sts) i (sts ! i)) (extract_step_deps (sts ! i)))"

lemma good_ref_iff:
  assumes "distinct (map st_id sts)" "i < length sts"
  shows "good_ref (index_of sts) i (sts ! i) r \<longleftrightarrow> (\<exists>t < i. st_id (sts ! t) = r)"
proof
  assume "good_ref (index_of sts) i (sts ! i) r"
  then obtain t where t: "r \<noteq> st_id (sts ! i)" "t \<le> i" "st_id (sts ! t) = r"
    using assms(1) by (auto simp: good_ref_def index_of_Some)
  then have "t < i" by (cases "t = i") auto
  with t show "\<exists>t < i. st_id (sts ! t) = r" by blast
next
  assume "\<exists>t < i. st_id (sts ! t) = r"
  then obtain t where t: "t < i" "st_id (sts ! t) = r" by blast
  have "st_id (sts ! t) \<noteq> st_id (sts ! i)"
    using nth_eq_iff_index_eq [OF assms(1), of t i] t(1) assms(2) by simp
  moreover have "index_of sts r = Some t" using t assms by (simp add: index_of_Some)
  ultimately show "good_ref (index_of sts) i (sts ! i) r"
    using t by (auto simp: good_ref_def less_imp_le)
qed

lemma index_of_inj:
  assumes "distinct (map st_id sts)"
  shows "inj_on (index_of sts) (dom (index_of sts))"
proof (rule inj_onI)
  fix x y
  assume "x \<in> dom (index_of sts)" and y: "index_of sts x = index_of sts y"
  then obtain t where "index_of sts x = Some t" by blast
  with y have "index_of sts x = Some t" "index_of sts y = Some t" by simp_all
  with assms show "x = y" by (simp add: index_of_Some)
qed

lemma edges_ids:
  assumes "plannable sts" "i < length sts"
  shows "map (\<lambda>d. st_id (sts ! d)) (edges_of sts ! i) = extract_step_deps (sts ! i)"
    "\<forall>d \<in> set (edges_of sts ! i). d < i" "distinct (edges_of sts ! i)"
proof -
  let ?refs = "extract_step_deps (sts ! i)"
  have d: "distinct (map st_id sts)" using assms(1) by (simp add: plannable_def)
  have e: "edges_of sts ! i = map (\<lambda>r. the (index_of sts r)) ?refs"
    using assms(2) by (simp add: edges_of_def targets_def)
  have g: "\<exists>t < i. index_of sts r = Some t \<and> st_id (sts ! t) = r" if "r \<in> set ?refs" for r
  proof -
    have "good_ref (index_of sts) i (sts ! i) r"
      using assms that by (simp add: plannable_def list_all_iff)
    then obtain t where "t < i" "st_id (sts ! t) = r" using good_ref_iff [OF d assms(2)] by blast
    with d assms(2) show ?thesis by (auto simp: index_of_Some)
  qed
  have "map (\<lambda>d. st_id (sts ! d)) (edges_of sts ! i) = map id ?refs"
    unfolding e map_map comp_def by (intro map_cong refl) (auto dest!: g)
  then show m: "map (\<lambda>d. st_id (sts ! d)) (edges_of sts ! i) = ?refs" by simp
  show "\<forall>d \<in> set (edges_of sts ! i). d < i"
  proof
    fix d
    assume "d \<in> set (edges_of sts ! i)"
    then obtain r where "r \<in> set ?refs" "d = the (index_of sts r)" by (auto simp: e)
    with g [of r] show "d < i" by auto
  qed
  show "distinct (edges_of sts ! i)"
    using extract_step_deps_spec(1) [of "sts ! i"] unfolding m [symmetric] distinct_map by blast
qed

lemma edges_backward: "plannable sts \<Longrightarrow> backward (edges_of sts)"
  unfolding backward_def using edges_ids(2) by (simp add: edges_of_def)

lemma edges_linked:
  assumes "plannable sts"
  shows "fold (\<lambda>(j, s). fold (add_link j) (targets (index_of sts) (extract_step_deps s)))
      (zip [0..<length sts] sts) (linked (edges_of sts) 0) = linked (edges_of sts) (length sts)"
proof -
  have n: "length (edges_of sts) = length sts" by (simp add: edges_of_def)
  have t: "list_all (\<lambda>t. t < length (edges_of sts)) (edges_of sts ! j) \<and> distinct (edges_of sts ! j)"
    if "j < length sts" for j
    using edges_ids(2,3) [OF assms that] that unfolding n list_all_iff by (blast intro: less_trans)
  have "fold (\<lambda>(j, s). fold (add_link j) (targets (index_of sts) (extract_step_deps s)))
      (zip [0..<0 + length sts] sts) (linked (edges_of sts) 0) = linked (edges_of sts) (0 + length sts)"
  proof (rule linked_fold)
    show "0 + length sts = length (edges_of sts)" by (simp add: n)
  next
    fix j
    assume "j < length sts"
    with t show "list_all (\<lambda>t. t < length (edges_of sts)) (edges_of sts ! (0 + j))
        \<and> distinct (edges_of sts ! (0 + j))" by simp
  next
    fix j
    assume "j < length sts"
    then show "targets (index_of sts) (extract_step_deps (sts ! j)) = edges_of sts ! (0 + j)"
      by (simp add: edges_of_def)
  qed
  then show ?thesis by simp
qed

lemma build_plan_Inr:
  "build_plan a = Inr p \<longleftrightarrow>
     plannable (act_steps a) \<and> layer_into_waves (edges_of (act_steps a)) (act_steps a) = Inr (dp_waves p)
     \<and> dp_deps p = edges_of (act_steps a)
     \<and> dp_consumers p = ln_consumers (linked (edges_of (act_steps a)) (length (act_steps a)))"
proof -
  let ?s = "act_steps a"
  let ?e = "\<lparr>ln_deps = replicate (length ?s) [], ln_consumers = replicate (length ?s) []\<rparr>"
  have n: "length (edges_of ?s) = length ?s" by (simp add: edges_of_def)
  have z: "?e = linked (edges_of ?s) 0" by (simp add: linked_0 n)
  have deps: "ln_deps (linked (edges_of ?s) (length ?s)) = edges_of ?s"
    by (rule nth_equalityI) (simp_all add: linked_def n)
  have i: "index_ids 0 ?s (\<lambda>_. None) = Inr m \<longleftrightarrow> distinct (map st_id ?s) \<and> m = index_of ?s" for m
  proof
    assume "index_ids 0 ?s (\<lambda>_. None) = Inr m"
    from index_ids_empty [OF this] show "distinct (map st_id ?s) \<and> m = index_of ?s" .
  next
    assume r: "distinct (map st_id ?s) \<and> m = index_of ?s"
    then obtain m' where "index_ids 0 ?s (\<lambda>_. None) = Inr m'"
      using index_ids_total [of ?s "\<lambda>_. None" 0] by auto
    with index_ids_empty [OF this] r show "index_ids 0 ?s (\<lambda>_. None) = Inr m" by simp
  qed
  have l: "link_steps (index_of ?s) 0 ?s ?e = Inr l \<and> distinct (map st_id ?s) \<longleftrightarrow>
      plannable ?s \<and> l = linked (edges_of ?s) (length ?s)" for l
    using link_steps_Inr_iff [OF index_of_inj, of ?s 0 ?s ?e l] edges_linked [of ?s]
    by (auto simp: plannable_def z)
  have "build_plan a = Inr p \<longleftrightarrow>
      (\<exists>l ws. (link_steps (index_of ?s) 0 ?s ?e = Inr l \<and> distinct (map st_id ?s))
        \<and> layer_into_waves (ln_deps l) ?s = Inr ws
        \<and> p = \<lparr>dp_waves = ws, dp_deps = ln_deps l, dp_consumers = ln_consumers l\<rparr>)"
    by (auto simp: build_plan_def rbind_Inr_iff i Let_def)
  then show ?thesis unfolding l by (cases p) (auto simp: deps)
qed

section \<open>What an error says\<close>

text \<open>The fact about the steps each error reports; a cycle is never reported.\<close>

fun dag_error_holds :: "step_def list \<Rightarrow> dag_error \<Rightarrow> bool" where
  "dag_error_holds sts (DuplicateStepId i) \<longleftrightarrow>
     (\<exists>b < length sts. \<exists>a < b. st_id (sts ! a) = i \<and> st_id (sts ! b) = i)"
| "dag_error_holds sts (SelfRef i) \<longleftrightarrow> (\<exists>s \<in> set sts. st_id s = i \<and> i \<in> set (extract_step_deps s))"
| "dag_error_holds sts (UnknownStepRef i r) \<longleftrightarrow>
     (\<exists>s \<in> set sts. st_id s = i \<and> r \<in> set (extract_step_deps s)) \<and> r \<notin> st_id ` set sts"
| "dag_error_holds sts (ForwardRef i r) \<longleftrightarrow>
     (\<exists>b < length sts. \<exists>a < b. st_id (sts ! a) = i \<and> st_id (sts ! b) = r
        \<and> r \<in> set (extract_step_deps (sts ! a)))"
| "dag_error_holds sts (UnrootedStepsReference i) \<longleftrightarrow>
     (\<exists>s \<in> set sts. st_id s = i \<and> contains_unrooted_steps_template (st_params s))"
| "dag_error_holds sts (Cycle w) \<longleftrightarrow> False"

lemma index_ids_Inl:
  "index_ids k sts ids = Inl e \<Longrightarrow>
    \<exists>b < length sts. e = DuplicateStepId (st_id (sts ! b))
      \<and> (ids (st_id (sts ! b)) \<noteq> None \<or> (\<exists>a < b. st_id (sts ! a) = st_id (sts ! b)))"
proof (induction k sts ids rule: index_ids.induct)
  case (2 k s sts ids)
  show ?case
  proof (cases "ids (st_id s) = None")
    case False
    with 2(2) show ?thesis by (intro exI [of _ 0]) auto
  next
    case True
    with 2(2) have "index_ids (Suc k) sts (ids(st_id s \<mapsto> k)) = Inl e" by simp
    from 2(1) [OF _ this] True obtain b where b: "b < length sts" "e = DuplicateStepId (st_id (sts ! b))"
      "(ids(st_id s \<mapsto> k)) (st_id (sts ! b)) \<noteq> None \<or> (\<exists>a < b. st_id (sts ! a) = st_id (sts ! b))"
      by auto
    from b(3) have "ids (st_id (sts ! b)) \<noteq> None
        \<or> (\<exists>a < Suc b. st_id ((s # sts) ! a) = st_id (sts ! b))"
      by (auto split: if_splits intro: exI [of _ 0] exI [of _ "Suc a" for a])
    with b(1,2) show ?thesis by (intro exI [of _ "Suc b"]) auto
  qed
qed simp

lemma link_refs_Inl:
  "link_refs ids i step refs seen l = Inl e \<Longrightarrow>
    \<exists>r \<in> set refs. r = st_id step \<and> e = SelfRef r
      \<or> ids r = None \<and> e = UnknownStepRef (st_id step) r
      \<or> (\<exists>t. ids r = Some t \<and> i < t) \<and> e = ForwardRef (st_id step) r"
  by (induction ids i step refs seen l rule: link_refs.induct) (auto split: if_splits option.splits)

lemma link_steps_Inl:
  "link_steps ids k sts l = Inl e \<Longrightarrow>
    \<exists>j < length sts. contains_unrooted_steps_template (st_params (sts ! j))
        \<and> e = UnrootedStepsReference (st_id (sts ! j))
      \<or> (\<exists>l. link_refs ids (k + j) (sts ! j) (extract_step_deps (sts ! j)) {} l = Inl e)"
proof (induction ids k sts l rule: link_steps.induct)
  case (2 ids k s sts l)
  show ?case
  proof (cases "contains_unrooted_steps_template (st_params s)")
    case True
    with 2(2) show ?thesis by (intro exI [of _ 0]) auto
  next
    case False
    show ?thesis
    proof (cases "link_refs ids k s (extract_step_deps s) {} l")
      case (Inl e')
      with False 2(2) show ?thesis by (intro exI [of _ 0]) auto
    next
      case (Inr l')
      with False 2(2) have "link_steps ids (Suc k) sts l' = Inl e" by simp
      from 2(1) [OF False Inr this] obtain j where j: "j < length sts"
        "contains_unrooted_steps_template (st_params (sts ! j))
          \<and> e = UnrootedStepsReference (st_id (sts ! j))
        \<or> (\<exists>l. link_refs ids (Suc k + j) (sts ! j) (extract_step_deps (sts ! j)) {} l = Inl e)"
        by blast
      then show ?thesis by (intro exI [of _ "Suc j"]) auto
    qed
  qed
qed simp

lemma plan_error_holds:
  assumes "build_plan a = Inl e"
  shows "dag_error_holds (act_steps a) e"
proof (cases "index_ids 0 (act_steps a) (\<lambda>_. None)")
  case (Inl e')
  with assms have "e' = e" by (simp add: build_plan_def)
  with index_ids_Inl [OF Inl] show ?thesis by force
next
  case (Inr m)
  let ?s = "act_steps a"
  from index_ids_empty [OF Inr] have d: "distinct (map st_id ?s)" and m: "m = index_of ?s" by simp_all
  let ?e = "\<lparr>ln_deps = replicate (length ?s) [], ln_consumers = replicate (length ?s) []\<rparr>"
  show ?thesis
  proof (cases "link_steps m 0 ?s ?e")
    case (Inr l)
    then have p: "plannable ?s" and l: "l = linked (edges_of ?s) (length ?s)"
      using link_steps_Inr_iff [OF index_of_inj [OF d], of 0 ?s ?e l] edges_linked [of ?s] d
        linked_0 [of "edges_of ?s"]
      by (auto simp: m plannable_def edges_of_def)
    have "ln_deps l = edges_of ?s"
      unfolding l by (rule nth_equalityI) (simp_all add: linked_def edges_of_def)
    with layer_into_waves_ok [OF edges_backward [OF p], of ?s] Inr \<open>index_ids 0 ?s _ = Inr m\<close> assms
    show ?thesis by (auto simp: build_plan_def Let_def)
  next
    case (Inl e')
    with assms \<open>index_ids 0 ?s _ = Inr m\<close> have "e' = e" by (simp add: build_plan_def Let_def)
    with link_steps_Inl [OF Inl] obtain j where j: "j < length ?s"
      "contains_unrooted_steps_template (st_params (?s ! j)) \<and> e = UnrootedStepsReference (st_id (?s ! j))
      \<or> (\<exists>l. link_refs m j (?s ! j) (extract_step_deps (?s ! j)) {} l = Inl e)" by auto
    from j(2) show ?thesis
    proof
      assume "contains_unrooted_steps_template (st_params (?s ! j)) \<and> e = UnrootedStepsReference (st_id (?s ! j))"
      with j(1) show ?thesis by auto
    next
      assume "\<exists>l. link_refs m j (?s ! j) (extract_step_deps (?s ! j)) {} l = Inl e"
      then obtain r where r: "r \<in> set (extract_step_deps (?s ! j))"
        "r = st_id (?s ! j) \<and> e = SelfRef r
         \<or> m r = None \<and> e = UnknownStepRef (st_id (?s ! j)) r
         \<or> (\<exists>t. m r = Some t \<and> j < t) \<and> e = ForwardRef (st_id (?s ! j)) r"
        by (auto dest!: link_refs_Inl)
      from r(2) show ?thesis
      proof (elim disjE)
        assume "r = st_id (?s ! j) \<and> e = SelfRef r"
        with r(1) j(1) show ?thesis by auto
      next
        assume "m r = None \<and> e = UnknownStepRef (st_id (?s ! j)) r"
        with r(1) j(1) show ?thesis by (auto simp: m index_of_def split: if_splits)
      next
        assume f: "(\<exists>t. m r = Some t \<and> j < t) \<and> e = ForwardRef (st_id (?s ! j)) r"
        then obtain t where "t < length ?s" "j < t" "st_id (?s ! t) = r"
          using d by (auto simp: m index_of_Some)
        with r(1) f show ?thesis by auto
      qed
    qed
  qed
qed

section \<open>Properties\<close>

text \<open>
  The dependencies of a step are, without repetition, its explicit declarations and every id a
  string of its parameters names as \<open>$steps.<id>\<close>, read up to the end of the identifier, unless a step
  inside its own bodies bears that id.
\<close>

theorem extract_step_deps_exact:
  "distinct (extract_step_deps step) \<and>
   (i \<in> set (extract_step_deps step) \<longleftrightarrow>
      i \<in> set (st_depends_on step) \<or>
      \<not> body_id (st_params step) i \<and> (\<exists>s \<in> set (json_strings (st_params step)). names_step s i))"
  using extract_step_deps_spec by blast

text \<open>
  A plan is built exactly when the step ids are distinct, no parameter holds a template
  \<open>{{steps.\<close> without its dollar sign, and every dependency is an earlier step of the action.
\<close>

theorem plan_exists:
  "(\<exists>p. build_plan a = Inr p) \<longleftrightarrow>
     distinct (map st_id (act_steps a)) \<and>
     list_all (\<lambda>i. \<not> contains_unrooted_steps_template (st_params (act_steps a ! i)) \<and>
         list_all (\<lambda>r. r \<in> set (map st_id (take i (act_steps a)))) (extract_step_deps (act_steps a ! i)))
       [0..<length (act_steps a)]"
proof -
  let ?s = "act_steps a"
  have "\<exists>p. build_plan a = Inr p" if p: "plannable ?s"
  proof -
    from layer_into_waves_ok [OF edges_backward [OF p], of ?s] obtain ws
      where "layer_into_waves (edges_of ?s) ?s = Inr ws" by blast
    with p have "build_plan a = Inr \<lparr>dp_waves = ws, dp_deps = edges_of ?s,
        dp_consumers = ln_consumers (linked (edges_of ?s) (length ?s))\<rparr>" by (simp add: build_plan_Inr)
    then show ?thesis ..
  qed
  then have "(\<exists>p. build_plan a = Inr p) \<longleftrightarrow> plannable ?s" by (auto simp: build_plan_Inr)
  moreover have "r \<in> set (map st_id (take i ?s)) \<longleftrightarrow> (\<exists>t < i. st_id (?s ! t) = r)"
    if "i < length ?s" for i r
    using that by (force simp: in_set_conv_nth)
  ultimately show ?thesis
    using good_ref_iff [of ?s] by (auto simp: plannable_def list_all_iff)
qed

text \<open>
  In a built plan the dependencies of a step are the indices of the ids it depends on, in the
  order they were extracted, all before the step itself; and the consumers of a step are the steps
  that depend on it, in ascending order.
\<close>

theorem plan_edges:
  assumes "build_plan a = Inr p" "i < length (act_steps a)"
  shows "length (dp_deps p) = length (act_steps a)
    \<and> map (\<lambda>d. st_id (act_steps a ! d)) (dp_deps p ! i) = extract_step_deps (act_steps a ! i)
    \<and> list_all (\<lambda>d. d < i) (dp_deps p ! i)
    \<and> dp_consumers p ! i = filter (\<lambda>j. i \<in> set (dp_deps p ! j)) [0..<length (act_steps a)]"
proof -
  from assms(1) have p: "plannable (act_steps a)" "dp_deps p = edges_of (act_steps a)"
    "dp_consumers p = ln_consumers (linked (edges_of (act_steps a)) (length (act_steps a)))"
    by (auto simp: build_plan_Inr)
  have "length (edges_of (act_steps a)) = length (act_steps a)" by (simp add: edges_of_def)
  with p edges_ids [OF p(1) assms(2)] assms(2) show ?thesis
    by (simp add: linked_def list_all_iff)
qed

text \<open>
  C28. The waves of a built plan run every step exactly once, and each wave is the non-empty ascending
  list of exactly the steps that are not in an earlier wave and whose dependencies all are: a step
  runs after everything it depends on and as early as that allows.
\<close>

theorem plan_waves:
  assumes "build_plan a = Inr p"
  shows "distinct (concat (dp_waves p)) \<and> set (concat (dp_waves p)) = {..<length (act_steps a)}
    \<and> (k < length (dp_waves p) \<longrightarrow>
        dp_waves p ! k \<noteq> [] \<and>
        dp_waves p ! k =
          filter (\<lambda>i. i \<notin> set (concat (take k (dp_waves p)))
              \<and> set (dp_deps p ! i) \<subseteq> set (concat (take k (dp_waves p)))) [0..<length (act_steps a)])"
proof -
  let ?e = "edges_of (act_steps a)"
  from assms have p: "plannable (act_steps a)" "dp_deps p = ?e"
    "layer_into_waves ?e (act_steps a) = Inr (dp_waves p)"
    by (auto simp: build_plan_Inr)
  have n: "length ?e = length (act_steps a)" by (simp add: edges_of_def)
  from layer_into_waves_ok [OF edges_backward [OF p(1)], of "act_steps a"] p(3)
  have l: "layered ?e (dp_waves p)" "set (concat (dp_waves p)) = {..<length ?e}" by auto
  have "k < length (dp_waves p) \<longrightarrow> dp_waves p ! k \<noteq> [] \<and> dp_waves p ! k =
      filter (\<lambda>i. i \<notin> set (concat (take k (dp_waves p)))
        \<and> set (dp_deps p ! i) \<subseteq> set (concat (take k (dp_waves p)))) [0..<length (act_steps a)]"
    using l(1) unfolding layered_def ready_steps_def p(2) n by blast
  with layered_distinct [OF l(1)] l(2) show ?thesis unfolding n by blast
qed

text \<open>
  An error of \<open>build_plan\<close> reports a fact of the steps: two steps with the id, a step that names
  itself, a dependency no step bears, a dependency on a later step, or an unrooted template in the
  step. The error for cycles is never returned.
\<close>

theorem plan_error:
  assumes "build_plan a = Inl e"
  shows "dag_error_holds (act_steps a) e"
  using assms by (rule plan_error_holds)

text \<open>
  Planning and evaluation agree: a template around the text of a well-formed reference to a
  step's result makes that step a dependency, unless the id is one of the step's own bodies.
\<close>

theorem template_reference_is_edge:
  assumes "reference_ok r" "ref_root r = RSteps i" "\<not> body_id (st_params step) i"
    "pre @ ''{{'' @ reference_text r @ ''}}'' @ post \<in> set (json_strings (st_params step))"
  shows "parse_reference (reference_text r) = Inr r \<and> i \<in> set (extract_step_deps step)"
proof -
  let ?path = "concat (map segment_text (ref_path r))"
  have t: "reference_text r = ''$steps.'' @ i @ ?path" by (simp add: reference_text_def assms(2))
  have f: "fresh ?path"
    using path_spelling_ok [of "ref_path r"] assms(1) by (simp add: reference_ok_def)
  have n: "\<not> is_ident_char (CHR ''}'')"
    by (simp add: is_ident_char_def is_alnum_def is_alpha_def is_digit_def byte_def)
  have "next_not is_ident_char (q @ ''}}'' @ post)" if "fresh q" for q
    using that n not_ident_chars by (cases q) (auto simp: fresh_def next_not_def)
  from this [OF f] have "next_not is_ident_char (?path @ ''}}'' @ post)" .
  moreover have "ident_text i" using assms(1,2) by (simp add: reference_ok_def name_ok_def)
  moreover have "pre @ ''{{'' @ reference_text r @ ''}}'' @ post
      = (pre @ ''{{'') @ ''$steps.'' @ i @ ?path @ ''}}'' @ post" by (simp add: t)
  ultimately have "names_step (pre @ ''{{'' @ reference_text r @ ''}}'' @ post) i"
    unfolding names_step_def by blast
  with assms(3,4) have "i \<in> set (extract_step_deps step)"
    by (auto simp: extract_step_deps_spec(2))
  moreover have "parse_reference (reference_text r) = Inr r"
    using reference_text_parses [OF assms(1)] .
  ultimately show ?thesis by simp
qed

section \<open>An example plan\<close>

definition sample_action :: action where
  "sample_action = action_new
     [step_def_new ''a'' ''noop'' empty_object,
      step_def_new ''b'' ''noop'' (JObject [(''v'', JString ''{{$steps.a.result}}'')])]"

lemma sample_plan:
  "build_plan sample_action = Inr \<lparr>dp_waves = [[0], [1]], dp_deps = [[], [0]], dp_consumers = [[1], []]\<rparr>"
  by code_simp

lemma spaced_reference_no_edge:
  "parse_reference ''$steps .a'' = Inr \<lparr>ref_root = RSteps ''a'', ref_path = []\<rparr>"
  "dsl_refs ''$steps .a'' = []"
  by code_simp+

text \<open>
  The lexer allows white space around the dot of a reference, the scan does not: such a reference is
  read at execution and orders nothing, so both steps are in the first wave.
\<close>

lemma spaced_reference_same_wave:
  "build_plan (action_new
     [step_def_new ''a'' ''noop'' empty_object,
      step_def_new ''b'' ''noop'' (JObject [(''v'', JString ''{{$steps .a.result}}'')])])
   = Inr \<lparr>dp_waves = [[0, 1]], dp_deps = [[], []], dp_consumers = [[], []]\<rparr>"
  by code_simp

section \<open>Witnesses\<close>

theorem plan_edges_witness:
  "[''a''] = extract_step_deps (act_steps sample_action ! 1) \<and>
   [] = filter (\<lambda>j. Suc 0 \<in> set ([[], [0]] ! j)) [0..<2]"
proof -
  have n: "length (act_steps sample_action) = 2" by code_simp
  have i: "st_id (act_steps sample_action ! 0) = ''a''" by code_simp
  from plan_edges [OF sample_plan, of 1] n i show ?thesis by simp
qed

theorem plan_waves_witness:
  "distinct (concat [[0], [1 :: nat]]) \<and> set (concat [[0], [1]]) = {..<length (act_steps sample_action)}"
  using plan_waves [OF sample_plan, of 1] unfolding dag_plan.select_convs by blast

theorem plan_error_witness:
  "dag_error_holds [step_def_new ''a'' ''noop'' empty_object, step_def_new ''a'' ''noop'' empty_object]
     (DuplicateStepId ''a'')"
proof -
  let ?a = "action_new [step_def_new ''a'' ''noop'' empty_object, step_def_new ''a'' ''noop'' empty_object]"
  have "build_plan ?a = Inl (DuplicateStepId ''a'')" by code_simp
  from plan_error [OF this] show ?thesis by (simp add: action_new_def)
qed

theorem template_reference_is_edge_witness:
  "parse_reference ''$steps.a.result''
     = Inr \<lparr>ref_root = RSteps ''a'', ref_path = [Field ''result'']\<rparr>
   \<and> ''a'' \<in> set (extract_step_deps (act_steps sample_action ! 1))"
proof -
  define r where "r = \<lparr>ref_root = RSteps ''a'', ref_path = [Field ''result'']\<rparr>"
  let ?s = "act_steps sample_action ! 1"
  have r: "reference_ok r"
    by (simp add: r_def reference_ok_def name_ok_def ident_text_def keyword_token_def
        is_ident_start_def is_ident_char_def is_alnum_def is_alpha_def byte_def)
  have t: "reference_text r = ''$steps.a.result''" by (simp add: r_def reference_text_def)
  have s: "json_strings (st_params ?s) = [''{{$steps.a.result}}'']" by code_simp
  have "''a'' \<notin> collect_inner_step_ids (st_params ?s) {}" by code_simp
  then have b: "\<not> body_id (st_params ?s) ''a''" by (simp add: collect_ids_iff)
  have "[] @ ''{{'' @ reference_text r @ ''}}'' @ [] \<in> set (json_strings (st_params ?s))"
    unfolding s t by simp
  from template_reference_is_edge [OF r _ b this] show ?thesis unfolding t by (simp add: r_def)
qed

end
