(* ===== verification/InvokeGraph.thy ===== *)
theory InvokeGraph
  imports Dag
begin

text \<open>
  The static invoke graph of \<open>src/kernel/invoke.rs\<close>: the edges an action declares through \<open>invoke\<close>
  steps, inner bodies and step-type aliases, the references declared by step type definitions, and
  the depth-first search for a cycle. The alias resolver and the lookups of plugins, actions and
  definitions are the functions the code takes as arguments.
\<close>

section \<open>Edges and errors\<close>

type_synonym node_ref = "string \<times> string"

record invoke_edge =
  ie_from :: node_ref
  ie_to :: node_ref

datatype invoke_cycle_error =
    InvokeCycle "node_ref list"
  | MalformedInnerStep string string step_parse_error

definition arrow :: string where
  "arrow = '' '' @ map char_of [226, 134, 146 :: nat] @ '' ''"

definition format_cycle :: "node_ref list \<Rightarrow> string" where
  "format_cycle cycle = join_strings arrow (map (\<lambda>(p, a). p @ ''.'' @ a) cycle)"

definition step_types_with_inner_steps :: "string list" where
  "step_types_with_inner_steps = [''for_each'', ''repeat'', ''ifs'', ''try'', ''parallel'']"

type_synonym alias_resolver = "string \<Rightarrow> node_ref option"

definition no_aliases :: alias_resolver where
  "no_aliases a = None"

section \<open>Collecting edges\<close>

definition invoke_target :: "json \<Rightarrow> node_ref option" where
  "invoke_target params =
     (case (Option.bind (json_get params ''plugin'') as_str, Option.bind (json_get params ''action'') as_str) of
        (Some p, Some a) \<Rightarrow> Some (p, a)
      | _ \<Rightarrow> None)"

definition push_edge :: "string \<Rightarrow> string \<Rightarrow> node_ref option \<Rightarrow> invoke_edge list \<Rightarrow> invoke_edge list" where
  "push_edge plugin action_name target out =
     (case target of
        Some t \<Rightarrow> out @ [\<lparr>ie_from = (plugin, action_name), ie_to = t\<rparr>]
      | None \<Rightarrow> out)"

type_synonym edge_result = "invoke_cycle_error + invoke_edge list"

text \<open>Sizes, for the recursion into inner steps.\<close>

lemma params_le: "from_inner_value v = Inr s \<Longrightarrow> size (st_params s) \<le> size v"
  using inner_step_smaller [of v s] by (cases v) (auto simp: from_inner_value_def empty_object_def)

lemma parsed_size:
  "traverse f inner = Inr parsed \<Longrightarrow> (\<And>v s. f v = Inr s \<Longrightarrow> size (st_params s) \<le> size v) \<Longrightarrow>
    sum_list (map (\<lambda>s. Suc (size (st_params s))) parsed) \<le> size_list size inner"
  by (induction f inner arbitrary: parsed rule: traverse.induct) (fastforce simp: rbind_Inr_iff)+

lemma array_size: "as_array v = Some arr \<Longrightarrow> size v = Suc (size_list size arr)"
  by (cases v) (auto simp: as_array_def)

lemma get_array_total:
  "Suc (Suc (size_list size (get_array v k))) \<le> size v \<or> get_array v k = []"
proof (cases "json_get v k")
  case (Some x)
  with json_get_size [OF Some] show ?thesis
    by (cases "as_array x") (auto simp: get_array_def dest: array_size)
qed (simp add: get_array_def)

lemma get_array_le: "size_list size (get_array v k) \<le> size v"
  using get_array_total [of v k] by auto

lemma branch_array_le:
  assumes "b \<in> set (get_array v k)"
  shows "size_list size (get_array b k') \<le> size v"
    and "as_array b = Some arr \<Longrightarrow> size_list size arr \<le> size v"
  using get_array_size [OF assms] get_array_le [of b k'] array_size [of b arr] by simp_all

lemma steps_array_le:
  "Option.bind (json_get v k) as_array = Some arr \<Longrightarrow> size_list size arr \<le> size v"
  using get_array_le [of v k] by (simp add: get_array_def)

lemma sum_list_member: "x \<in> set xs \<Longrightarrow> (f x :: nat) \<le> sum_list (map f xs)"
  by (induction xs) auto

function collect_step ::
    "string \<Rightarrow> string \<Rightarrow> alias_resolver \<Rightarrow> step_def \<Rightarrow> invoke_edge list \<Rightarrow> edge_result"
  and walk_inner_array ::
    "string \<Rightarrow> string \<Rightarrow> alias_resolver \<Rightarrow> string \<Rightarrow> json list \<Rightarrow> invoke_edge list \<Rightarrow> edge_result"
  and collect_from_steps ::
    "string \<Rightarrow> string \<Rightarrow> alias_resolver \<Rightarrow> step_def list \<Rightarrow> invoke_edge list \<Rightarrow> edge_result" where
  "collect_step plugin action_name aliases step out =
     (let t = st_type step; params = st_params step;
          alias_edge = push_edge plugin action_name (aliases t) out
      in if t = ''invoke'' then Inr (push_edge plugin action_name (invoke_target params) out)
         else if t \<in> set step_types_with_inner_steps then
           (if t = ''ifs'' then
              rfold (\<lambda>branch out. walk_inner_array plugin action_name aliases t (get_array branch ''then'') out)
                (get_array params ''ifs'') out
            else if t = ''try'' then
              rfold (\<lambda>key out. walk_inner_array plugin action_name aliases t (get_array params key) out)
                [''try'', ''catch'', ''finally''] out
            else if t = ''parallel'' then
              rfold (\<lambda>branch out.
                  case as_array branch of
                    Some branch_steps \<Rightarrow> walk_inner_array plugin action_name aliases t branch_steps out
                  | None \<Rightarrow> Inr out)
                (get_array params ''branches'') out
            else
              (case Option.bind (json_get params ''steps'') as_array of
                 Some inner \<Rightarrow> walk_inner_array plugin action_name aliases t inner out
               | None \<Rightarrow> Inr alias_edge))
         else Inr alias_edge)"
| "walk_inner_array plugin action_name aliases step_type inner out =
     rbind (traverse (\<lambda>v. map_err (MalformedInnerStep action_name step_type) (from_inner_value v)) inner)
       (\<lambda>inner_parsed. collect_from_steps plugin action_name aliases inner_parsed out)"
| "collect_from_steps plugin action_name aliases sts out =
     rfold (\<lambda>step out. collect_step plugin action_name aliases step out) sts out"
  by pat_completeness auto
termination
proof (relation "measures
    [\<lambda>x. case x of
        Inl (_, _, _, step, _) \<Rightarrow> size (st_params step)
      | Inr (Inl (_, _, _, _, inner, _)) \<Rightarrow> size_list size inner
      | Inr (Inr (_, _, _, sts, _)) \<Rightarrow> sum_list (map (\<lambda>s. Suc (size (st_params s))) sts),
     \<lambda>x. case x of Inl _ \<Rightarrow> 2 | Inr (Inl _) \<Rightarrow> 1 | Inr (Inr _) \<Rightarrow> 0]", goal_cases)
  case (6 plugin action_name aliases step_type inner out parsed)
  then have "sum_list (map (\<lambda>s. Suc (size (st_params s))) parsed) \<le> size_list size inner"
    by (intro parsed_size) (auto intro: params_le)
  then show ?case by simp linarith
next
  case (7 plugin action_name aliases sts out step s)
  with sum_list_member [of step sts "\<lambda>s. Suc (size (st_params s))"] show ?case by simp
qed (use branch_array_le get_array_le steps_array_le in \<open>auto simp: le_less\<close>)

declare collect_step.simps [simp del] walk_inner_array.simps [simp del] collect_from_steps.simps [simp del]

definition collect_edges :: "string \<Rightarrow> string \<Rightarrow> action \<Rightarrow> alias_resolver \<Rightarrow> edge_result" where
  "collect_edges plugin action_name a aliases =
     collect_from_steps plugin action_name aliases (act_steps a) []"

section \<open>Declared references\<close>

datatype declared_reference_error =
    UnknownPlugin string string string string
  | UnknownAction string string string string string string

definition is_templated :: "string \<Rightarrow> bool" where
  "is_templated s \<longleftrightarrow> contains_str ''{{'' s \<or> starts_with ''$'' s"

definition literal_reference_target :: "json \<Rightarrow> step_reference \<Rightarrow> node_ref option" where
  "literal_reference_target params reference =
     (case (Option.bind (json_get params (sr_plugin reference)) as_str,
            Option.bind (json_get params (sr_action reference)) as_str) of
        (Some p, Some a) \<Rightarrow> if is_templated p \<or> is_templated a then None else Some (p, a)
      | _ \<Rightarrow> None)"

definition check_reference ::
  "string \<Rightarrow> string \<Rightarrow> (string \<Rightarrow> bool) \<Rightarrow> (string \<Rightarrow> string \<Rightarrow> bool) \<Rightarrow> step_def \<Rightarrow> step_reference
    \<Rightarrow> invoke_edge list \<Rightarrow> declared_reference_error + invoke_edge list" where
  "check_reference plugin action_name plugin_exists action_exists step reference out =
     (case literal_reference_target (st_params step) reference of
        None \<Rightarrow> Inr out
      | Some (p, a) \<Rightarrow>
          if \<not> plugin_exists p then
            Inl (UnknownPlugin action_name (st_type step) p (sr_plugin reference))
          else if \<not> action_exists p a then
            Inl (UnknownAction action_name (st_type step) p a (sr_plugin reference) (sr_action reference))
          else Inr (push_edge plugin action_name (Some (p, a)) out))"

definition collect_declared_references ::
  "string \<Rightarrow> string \<Rightarrow> action \<Rightarrow> (string \<Rightarrow> step_type_def option) \<Rightarrow> (string \<Rightarrow> bool)
    \<Rightarrow> (string \<Rightarrow> string \<Rightarrow> bool) \<Rightarrow> declared_reference_error + invoke_edge list" where
  "collect_declared_references plugin action_name a def_resolver plugin_exists action_exists =
     rfold (\<lambda>step out.
         case def_resolver (st_type step) of
           None \<Rightarrow> Inr out
         | Some d \<Rightarrow>
             if sd_references d = [] then Inr out
             else rfold (\<lambda>reference out.
                 check_reference plugin action_name plugin_exists action_exists step reference out)
               (sd_references d) out)
       (act_steps a) []"

section \<open>The search for a cycle\<close>

text \<open>
  The adjacency map is the association list of its entries; the order in which a \<open>HashMap\<close> yields its
  keys is not specified, so \<open>check_acyclic\<close> takes it as an argument.
\<close>

type_synonym adjacency = "(node_ref \<times> node_ref list) list"

fun push_adj :: "node_ref \<Rightarrow> node_ref \<Rightarrow> adjacency \<Rightarrow> adjacency" where
  "push_adj f t [] = [(f, [t])]"
| "push_adj f t ((k, ts) # adj) = (if k = f then (k, ts @ [t]) # adj else (k, ts) # push_adj f t adj)"

definition adjacency_of :: "invoke_edge list \<Rightarrow> adjacency" where
  "adjacency_of edges = fold (\<lambda>e adj. push_adj (ie_from e) (ie_to e) adj) edges []"

definition neighbours :: "adjacency \<Rightarrow> node_ref \<Rightarrow> node_ref list" where
  "neighbours adj n = (case map_of adj n of Some ts \<Rightarrow> ts | None \<Rightarrow> [])"

datatype color = Gray | Black

type_synonym coloring = "node_ref \<rightharpoonup> color"

text \<open>The stack's top is the head of the list; its bottom is the node the search started from.\<close>

type_synonym dfs_stack = "(node_ref \<times> nat) list"

datatype dfs_result = NoCycle | FoundCycle "node_ref list" | GrayNotOnStack

definition cycle_of :: "dfs_stack \<Rightarrow> node_ref \<Rightarrow> dfs_result" where
  "cycle_of stack next =
     (let path = map fst (rev stack)
      in if next \<in> set path then FoundCycle (dropWhile (\<lambda>n. n \<noteq> next) path @ [next]) else GrayNotOnStack)"

definition all_nodes :: "adjacency \<Rightarrow> node_ref set" where
  "all_nodes adj = fst ` set adj \<union> (\<Union>e \<in> set adj. set (snd e))"

definition white :: "adjacency \<Rightarrow> coloring \<Rightarrow> node_ref set" where
  "white adj color = {n \<in> all_nodes adj. color n = None}"

lemma finite_all_nodes [simp]: "finite (all_nodes adj)"
  by (auto simp: all_nodes_def)

lemma finite_white [simp]: "finite (white adj color)"
  by (simp add: white_def)

lemma neighbour_node:
  assumes "b \<in> set (neighbours adj a)"
  shows "a \<in> all_nodes adj" "b \<in> all_nodes adj"
proof -
  from assms obtain ts where "map_of adj a = Some ts" "b \<in> set ts"
    by (cases "map_of adj a") (auto simp: neighbours_def)
  then have "(a, ts) \<in> set adj" "b \<in> set ts" by (auto dest: map_of_SomeD)
  then show "a \<in> all_nodes adj" "b \<in> all_nodes adj" unfolding all_nodes_def by force+
qed

lemma card_white_mono: "card (white adj (color(n \<mapsto> c))) \<le> card (white adj color)"
  by (rule card_mono [OF finite_white]) (auto simp: white_def)

lemma card_white_less:
  "n \<in> all_nodes adj \<Longrightarrow> color n = None \<Longrightarrow> card (white adj (color(n \<mapsto> c))) < card (white adj color)"
  by (rule psubset_card_mono [OF finite_white]) (auto simp: white_def)

function dfs_loop :: "adjacency \<Rightarrow> dfs_stack \<Rightarrow> coloring \<Rightarrow> dfs_result \<times> coloring" where
  "dfs_loop adj [] color = (NoCycle, color)"
| "dfs_loop adj ((node, next_idx) # stack) color =
     (if length (neighbours adj node) \<le> next_idx then dfs_loop adj stack (color(node \<mapsto> Black))
      else
        (let next = neighbours adj node ! next_idx; stack = (node, Suc next_idx) # stack
         in case color next of
              None \<Rightarrow> dfs_loop adj ((next, 0) # stack) (color(next \<mapsto> Gray))
            | Some Gray \<Rightarrow> (cycle_of stack next, color)
            | Some Black \<Rightarrow> dfs_loop adj stack color))"
  by pat_completeness auto
termination
proof (relation "measures
    [\<lambda>(adj, stack, color). card (white adj color),
     \<lambda>(adj, stack, color). sum_list (map (\<lambda>(n, i). Suc (length (neighbours adj n) - i)) stack)]", goal_cases)
  case (2 adj node next_idx stack color)
  with card_white_mono [of adj color node Black] show ?case by auto
next
  case (3 adj node next_idx stack color nxt stack')
  then have "nxt \<in> set (neighbours adj node)" by simp
  from neighbour_node(2) [OF this] 3 card_white_less [of nxt adj color Gray] show ?case by simp
qed auto

declare dfs_loop.simps(2) [simp del]

lemma dfs_loop_turn:
  "length (neighbours adj n) \<le> i \<Longrightarrow>
    dfs_loop adj ((n, i) # stack) color = dfs_loop adj stack (color(n \<mapsto> Black))"
  "i < length (neighbours adj n) \<Longrightarrow> color (neighbours adj n ! i) = None \<Longrightarrow>
    dfs_loop adj ((n, i) # stack) color =
      dfs_loop adj ((neighbours adj n ! i, 0) # (n, Suc i) # stack) (color(neighbours adj n ! i \<mapsto> Gray))"
  "i < length (neighbours adj n) \<Longrightarrow> color (neighbours adj n ! i) = Some Gray \<Longrightarrow>
    dfs_loop adj ((n, i) # stack) color = (cycle_of ((n, Suc i) # stack) (neighbours adj n ! i), color)"
  "i < length (neighbours adj n) \<Longrightarrow> color (neighbours adj n ! i) = Some Black \<Longrightarrow>
    dfs_loop adj ((n, i) # stack) color = dfs_loop adj ((n, Suc i) # stack) color"
  by (subst dfs_loop.simps; simp add: Let_def)+

definition dfs_find_cycle :: "node_ref \<Rightarrow> adjacency \<Rightarrow> coloring \<Rightarrow> dfs_result \<times> coloring" where
  "dfs_find_cycle start adj color = dfs_loop adj [(start, 0)] (color(start \<mapsto> Gray))"

fun check_starts :: "adjacency \<Rightarrow> node_ref list \<Rightarrow> coloring \<Rightarrow> dfs_result" where
  "check_starts adj [] color = NoCycle"
| "check_starts adj (start # starts) color =
     (if color start \<noteq> None then check_starts adj starts color
      else
        (case dfs_find_cycle start adj color of
           (NoCycle, color) \<Rightarrow> check_starts adj starts color
         | (r, color) \<Rightarrow> r))"

definition check_acyclic ::
  "(adjacency \<Rightarrow> node_ref list) \<Rightarrow> invoke_edge list \<Rightarrow> invoke_edge list \<Rightarrow> (invoke_cycle_error + unit) option" where
  "check_acyclic key_order existing new_edges =
     (let adj = adjacency_of (existing @ new_edges)
      in case check_starts adj (key_order adj) (\<lambda>_. None) of
           NoCycle \<Rightarrow> Some (Inr ())
         | FoundCycle cycle \<Rightarrow> Some (Inl (InvokeCycle cycle))
         | GrayNotOnStack \<Rightarrow> None)"

end
