(* ===== verification/InvokeSpec.thy ===== *)
theory InvokeSpec
  imports InvokeGraph
begin

text \<open>
  What the invoke graph promises: which edges an action contributes, and that the search accepts
  exactly the acyclic graphs and otherwise returns a cycle of the graph.
\<close>

section \<open>The adjacency map\<close>

definition invoke_rel :: "invoke_edge list \<Rightarrow> (node_ref \<times> node_ref) set" where
  "invoke_rel edges = (\<lambda>e. (ie_from e, ie_to e)) ` set edges"

definition adj_rel :: "adjacency \<Rightarrow> (node_ref \<times> node_ref) set" where
  "adj_rel adj = {(a, b). b \<in> set (neighbours adj a)}"

lemma adj_rel_iff [simp]: "(a, b) \<in> adj_rel adj \<longleftrightarrow> b \<in> set (neighbours adj a)"
  by (simp add: adj_rel_def)

lemma neighbours_push:
  "neighbours (push_adj f t adj) n = (if n = f then neighbours adj n @ [t] else neighbours adj n)"
  by (induction f t adj rule: push_adj.induct) (auto simp: neighbours_def)

lemma keys_push: "fst ` set (push_adj f t adj) = insert f (fst ` set adj)"
  by (induction f t adj rule: push_adj.induct) auto

lemma neighbours_fold:
  "set (neighbours (fold (\<lambda>e adj. push_adj (ie_from e) (ie_to e) adj) edges adj) n)
    = set (neighbours adj n) \<union> {b. (n, b) \<in> invoke_rel edges}"
  by (induction edges arbitrary: adj) (auto simp: invoke_rel_def neighbours_push)

lemma keys_fold:
  "fst ` set (fold (\<lambda>e adj. push_adj (ie_from e) (ie_to e) adj) edges adj)
    = fst ` set adj \<union> ie_from ` set edges"
  by (induction edges arbitrary: adj) (auto simp: keys_push)

lemma adjacency_rel: "adj_rel (adjacency_of edges) = invoke_rel edges"
  using neighbours_fold [of edges "[]"] by (auto simp: adjacency_of_def neighbours_def)

lemma adjacency_keys: "fst ` set (adjacency_of edges) = ie_from ` set edges"
  using keys_fold [of edges "[]"] by (simp add: adjacency_of_def)

section \<open>The search\<close>

definition simple_cycle :: "('a \<times> 'a) set \<Rightarrow> 'a list \<Rightarrow> bool" where
  "simple_cycle R c \<longleftrightarrow>
     2 \<le> length c \<and> hd c = last c \<and> distinct (butlast c) \<and> successively (\<lambda>a b. (a, b) \<in> R) c"

lemma successively_trancl:
  "successively (\<lambda>a b. (a, b) \<in> R) c \<Longrightarrow> 2 \<le> length c \<Longrightarrow> (hd c, last c) \<in> R\<^sup>+"
proof (induction c)
  case (Cons a c)
  then obtain b d where c: "c = b # d" by (cases c) auto
  with Cons.prems have ab: "(a, b) \<in> R" and s: "successively (\<lambda>a b. (a, b) \<in> R) c" by auto
  show ?case
  proof (cases d)
    case Nil
    with ab c show ?thesis by auto
  next
    case (Cons e f)
    with Cons.IH [OF s] c have "(b, last c) \<in> R\<^sup>+" by simp
    with ab c show ?thesis by auto
  qed
qed simp

lemma simple_cycle_cyclic: "simple_cycle R c \<Longrightarrow> \<not> acyclic R"
  using successively_trancl [of R c] unfolding simple_cycle_def acyclic_def by metis

text \<open>A black node's successors are black, and it lies on no cycle.\<close>

definition black_ok :: "adjacency \<Rightarrow> coloring \<Rightarrow> bool" where
  "black_ok adj color \<longleftrightarrow>
     (\<forall>n. color n = Some Black \<longrightarrow>
        (\<forall>m \<in> set (neighbours adj n). color m = Some Black) \<and> (n, n) \<notin> (adj_rel adj)\<^sup>+)"

text \<open>
  Every frame has only black neighbours before its index, but for the last of a frame below the top:
  that one is the node of the frame above it.
\<close>

definition before_black :: "adjacency \<Rightarrow> coloring \<Rightarrow> node_ref \<Rightarrow> nat \<Rightarrow> bool" where
  "before_black adj color n i \<longleftrightarrow>
     i \<le> length (neighbours adj n) \<and> (\<forall>j < i. color (neighbours adj n ! j) = Some Black)"

fun frames_below :: "adjacency \<Rightarrow> coloring \<Rightarrow> node_ref \<Rightarrow> dfs_stack \<Rightarrow> bool" where
  "frames_below adj color child [] \<longleftrightarrow> True"
| "frames_below adj color child ((n, i) # stack) \<longleftrightarrow>
     0 < i \<and> i \<le> length (neighbours adj n) \<and> neighbours adj n ! (i - 1) = child
     \<and> before_black adj color n (i - 1) \<and> frames_below adj color n stack"

fun frames :: "adjacency \<Rightarrow> coloring \<Rightarrow> dfs_stack \<Rightarrow> bool" where
  "frames adj color [] \<longleftrightarrow> True"
| "frames adj color ((n, i) # stack) \<longleftrightarrow> before_black adj color n i \<and> frames_below adj color n stack"

definition search_ok :: "adjacency \<Rightarrow> dfs_stack \<Rightarrow> coloring \<Rightarrow> bool" where
  "search_ok adj stack color \<longleftrightarrow>
     distinct (map fst stack) \<and> (\<forall>n. color n = Some Gray \<longleftrightarrow> n \<in> set (map fst stack))
     \<and> black_ok adj color \<and> frames adj color stack"

lemma before_black_mono:
  "before_black adj color n i \<Longrightarrow> (\<And>m. color m = Some Black \<Longrightarrow> color' m = Some Black) \<Longrightarrow>
    before_black adj color' n i"
  by (auto simp: before_black_def)

lemma frames_below_mono:
  "frames_below adj color c stack \<Longrightarrow> (\<And>m. color m = Some Black \<Longrightarrow> color' m = Some Black) \<Longrightarrow>
    frames_below adj color' c stack"
  by (induction adj color c stack rule: frames_below.induct) (auto intro: before_black_mono)

lemma frames_pop:
  assumes "frames_below adj color n stack" "color' n = Some Black"
    "\<And>m. color m = Some Black \<Longrightarrow> color' m = Some Black"
  shows "frames adj color' stack"
proof (cases stack)
  case (Cons f rest)
  obtain p i where f: "f = (p, i)" by (cases f)
  from assms(1) Cons f have b: "0 < i" "i \<le> length (neighbours adj p)" "neighbours adj p ! (i - 1) = n"
    "before_black adj color p (i - 1)" "frames_below adj color p rest" by auto
  have "color' (neighbours adj p ! j) = Some Black" if "j < i" for j
  proof (cases "j = i - 1")
    case False
    with that b(4) assms(3) show ?thesis by (auto simp: before_black_def)
  qed (use b(3) assms(2) in simp)
  with b(2) have "before_black adj color' p i" by (simp add: before_black_def)
  with frames_below_mono [OF b(5) assms(3)] Cons f show ?thesis by simp
qed simp

lemma black_reaches:
  assumes "black_ok adj color" "(m, n) \<in> (adj_rel adj)\<^sup>*" "color m = Some Black"
  shows "color n = Some Black"
  using assms(2,3)
proof (induction rule: rtrancl_induct)
  case (step y z)
  then have "color y = Some Black" "z \<in> set (neighbours adj y)" by simp_all
  with assms(1) show ?case unfolding black_ok_def by blast
qed (use assms(3) in simp)

lemma blacken_ok:
  assumes "black_ok adj color" "color n = Some Gray"
    "\<forall>m \<in> set (neighbours adj n). color m = Some Black"
  shows "black_ok adj (color(n \<mapsto> Black))"
proof -
  have "(n, n) \<notin> (adj_rel adj)\<^sup>+"
  proof
    assume "(n, n) \<in> (adj_rel adj)\<^sup>+"
    then obtain m where "(n, m) \<in> adj_rel adj" "(m, n) \<in> (adj_rel adj)\<^sup>*" by (auto dest: tranclD)
    with black_reaches [OF assms(1)] assms(2,3) show False by auto
  qed
  with assms show ?thesis by (auto simp: black_ok_def)
qed

lemma frames_below_path:
  "frames_below adj color c stack \<Longrightarrow> successively (\<lambda>b a. (a, b) \<in> adj_rel adj) (c # map fst stack)"
proof (induction adj color c stack rule: frames_below.induct)
  case (2 adj color c n i stack)
  then have "neighbours adj n ! (i - 1) \<in> set (neighbours adj n)" by (intro nth_mem) auto
  with 2 show ?case by auto
qed simp

lemma cycle_found:
  assumes "distinct (map fst stack)" "successively (\<lambda>b a. (a, b) \<in> R) (map fst stack)"
    "stack = (n, i) # rest" "(n, m) \<in> R" "m \<in> set (map fst stack)"
  shows "\<exists>c. cycle_of stack m = FoundCycle c \<and> simple_cycle R c"
proof -
  let ?path = "map fst (rev stack)"
  let ?c = "dropWhile (\<lambda>x. x \<noteq> m) ?path"
  have c: "cycle_of stack m = FoundCycle (?c @ [m])"
    using assms(5) by (simp add: cycle_of_def)
  have ne: "?c \<noteq> []" using assms(5) by (force simp: dropWhile_eq_Nil_conv)
  have hd: "hd ?c = m" using hd_dropWhile [OF ne] by simp
  have split: "?path = takeWhile (\<lambda>x. x \<noteq> m) ?path @ ?c" by simp
  have last: "last ?c = n"
    using last_appendR [OF ne, of "takeWhile (\<lambda>x. x \<noteq> m) ?path"] assms(3) by simp
  have "distinct ?path" using assms(1) by (simp add: rev_map [symmetric])
  then have d: "distinct ?c" by (rule distinct_dropWhile)
  have "successively (\<lambda>a b. (a, b) \<in> R) ?path"
    using assms(2) by (simp add: rev_map [symmetric])
  then have s: "successively (\<lambda>a b. (a, b) \<in> R) ?c"
    by (subst (asm) split) (simp only: successively_append_iff)
  have "successively (\<lambda>a b. (a, b) \<in> R) (?c @ [m])"
    using s last ne assms(4) by (simp add: successively_append_iff)
  moreover have "2 \<le> length (?c @ [m])" using ne by (cases ?c) auto
  ultimately have "simple_cycle R (?c @ [m])"
    using d hd ne by (simp add: simple_cycle_def)
  with c show ?thesis by blast
qed

text \<open>The loop from any state of the search: what it returns, and the colors it leaves.\<close>

definition finished :: "adjacency \<Rightarrow> coloring \<Rightarrow> bool" where
  "finished adj color \<longleftrightarrow> black_ok adj color \<and> (\<forall>n. color n \<noteq> Some Gray)"

fun search_result :: "adjacency \<Rightarrow> coloring \<Rightarrow> dfs_result \<times> coloring \<Rightarrow> bool" where
  "search_result adj color (NoCycle, color') \<longleftrightarrow> finished adj color' \<and> dom color \<subseteq> dom color'"
| "search_result adj color (FoundCycle c, color') \<longleftrightarrow> simple_cycle (adj_rel adj) c"
| "search_result adj color (GrayNotOnStack, color') \<longleftrightarrow> False"

lemma search_result_mono: "dom color \<subseteq> dom color1 \<Longrightarrow> search_result adj color1 r \<Longrightarrow> search_result adj color r"
  by (cases r; cases "fst r") auto

lemma dfs_loop_ok: "search_ok adj stack color \<Longrightarrow> search_result adj color (dfs_loop adj stack color)"
proof (induction adj stack color rule: dfs_loop.induct)
  case (1 adj color)
  then show ?case by (auto simp: search_ok_def finished_def)
next
  case (2 adj node i stack color)
  let ?ns = "neighbours adj node"
  from 2(4) have d: "distinct (map fst ((node, i) # stack))"
    and g: "\<And>n. color n = Some Gray \<longleftrightarrow> n = node \<or> n \<in> set (map fst stack)"
    and b: "black_ok adj color" and top: "before_black adj color node i"
    and below: "frames_below adj color node stack"
    unfolding search_ok_def by (simp_all del: split_paired_All)
  have gray: "color node = Some Gray" using g [of node] by simp
  show ?case
  proof (cases "length ?ns \<le> i")
    case True
    let ?color = "color(node \<mapsto> Black)"
    have all: "\<forall>m \<in> set ?ns. color m = Some Black"
    proof
      fix m
      assume "m \<in> set ?ns"
      then obtain j where "j < length ?ns" "m = ?ns ! j" by (metis in_set_conv_nth)
      with top True show "color m = Some Black" unfolding before_black_def by simp
    qed
    have "search_ok adj stack ?color"
      unfolding search_ok_def
    proof (intro conjI allI)
      show "distinct (map fst stack)" using d by simp
      show "?color n = Some Gray \<longleftrightarrow> n \<in> set (map fst stack)" for n using g [of n] d by auto
      show "black_ok adj ?color" using b gray all by (rule blacken_ok)
      show "frames adj ?color stack" by (rule frames_pop [OF below]) auto
    qed
    from 2(1) [OF True this] have "search_result adj ?color (dfs_loop adj stack ?color)" .
    then show ?thesis unfolding dfs_loop_turn(1) [OF True] by (rule search_result_mono [rotated]) auto
  next
    case False
    let ?m = "?ns ! i"
    have lt: "i < length ?ns" using False by simp
    let ?stack = "(node, Suc i) # stack"
    have edge: "(node, ?m) \<in> adj_rel adj" using lt by simp
    show ?thesis
    proof (cases "color ?m")
      case None
      let ?color = "color(?m \<mapsto> Gray)"
      have mono: "color m = Some Black \<Longrightarrow> ?color m = Some Black" for m using None by auto
      have "search_ok adj ((?m, 0) # ?stack) ?color"
        unfolding search_ok_def
      proof (intro conjI allI)
        show "distinct (map fst ((?m, 0) # ?stack))" using d g [of ?m] None by auto
        show "?color n = Some Gray \<longleftrightarrow> n \<in> set (map fst ((?m, 0) # ?stack))" for n using g [of n] by auto
        show "black_ok adj ?color"
          using b None unfolding black_ok_def by (auto simp del: split_paired_All)
        have "before_black adj ?color node i" using top by (rule before_black_mono) (rule mono)
        moreover have "frames_below adj ?color node stack"
          using below by (rule frames_below_mono) (rule mono)
        ultimately show "frames adj ?color ((?m, 0) # ?stack)"
          using False by (simp add: before_black_def)
      qed
      from 2(2) [OF False refl refl None this]
      have "search_result adj ?color (dfs_loop adj ((?m, 0) # ?stack) ?color)" .
      then show ?thesis
        unfolding dfs_loop_turn(2) [OF lt, of color, OF None] by (rule search_result_mono [rotated]) auto
    next
      case (Some c)
      show ?thesis
      proof (cases c)
        case Gray
        have "successively (\<lambda>b a. (a, b) \<in> adj_rel adj) (map fst ?stack)"
          using frames_below_path [OF below] by simp
        moreover have "?m \<in> set (map fst ?stack)" using g [of ?m] Some Gray by auto
        ultimately obtain c where "cycle_of ?stack ?m = FoundCycle c" "simple_cycle (adj_rel adj) c"
          using cycle_found [of ?stack "adj_rel adj" node "Suc i" stack ?m] d edge by auto
        then show ?thesis using dfs_loop_turn(3) [OF lt, of color stack] Some Gray by simp
      next
        case Black
        have "before_black adj color node (Suc i)"
          using top Some Black False by (auto simp: before_black_def less_Suc_eq)
        with below d g b have "search_ok adj ?stack color" by (simp add: search_ok_def del: split_paired_All)
        from 2(3) [OF False refl refl Some Black this]
        have "search_result adj color (dfs_loop adj ?stack color)" .
        then show ?thesis using dfs_loop_turn(4) [OF lt, of color stack] Some Black by simp
      qed
    qed
  qed
qed

lemma dfs_find_cycle_ok:
  assumes "finished adj color" "color start = None"
  shows "search_result adj (color(start \<mapsto> Gray)) (dfs_find_cycle start adj color)"
  unfolding dfs_find_cycle_def
proof (rule dfs_loop_ok)
  from assms have "black_ok adj (color(start \<mapsto> Gray))"
    unfolding finished_def black_ok_def by (auto simp del: split_paired_All)
  then show "search_ok adj [(start, 0)] (color(start \<mapsto> Gray))"
    using assms(1) by (auto simp: search_ok_def finished_def before_black_def simp del: split_paired_All)
qed

fun starts_result :: "adjacency \<Rightarrow> node_ref set \<Rightarrow> dfs_result \<Rightarrow> bool" where
  "starts_result adj S NoCycle \<longleftrightarrow> (\<exists>color. finished adj color \<and> S \<subseteq> dom color)"
| "starts_result adj S (FoundCycle c) \<longleftrightarrow> simple_cycle (adj_rel adj) c"
| "starts_result adj S GrayNotOnStack \<longleftrightarrow> False"

lemma starts_result_mono: "S \<subseteq> T \<Longrightarrow> starts_result adj T r \<Longrightarrow> starts_result adj S r"
  by (cases r) (auto intro: subset_trans)

lemma check_starts_ok:
  "finished adj color \<Longrightarrow> starts_result adj (set starts \<union> dom color) (check_starts adj starts color)"
proof (induction adj starts color rule: check_starts.induct)
  case (1 adj color)
  then show ?case by auto
next
  case (2 adj start starts color)
  show ?case
  proof (cases "color start")
    case (Some c)
    then have "set (start # starts) \<union> dom color \<subseteq> set starts \<union> dom color" by auto
    with 2(1) [OF _ 2(3)] Some show ?thesis by (auto intro: starts_result_mono)
  next
    case None
    obtain r color1 where r: "dfs_find_cycle start adj color = (r, color1)" by force
    with dfs_find_cycle_ok [OF 2(3) None] have s: "search_result adj (color(start \<mapsto> Gray)) (r, color1)" by simp
    show ?thesis
    proof (cases r)
      case NoCycle
      with s have f: "finished adj color1" "insert start (dom color) \<subseteq> dom color1" by auto
      have "starts_result adj (set starts \<union> dom color1) (check_starts adj starts color1)"
        using None r NoCycle f(1) by (intro 2(2)) auto
      moreover have "set (start # starts) \<union> dom color \<subseteq> set starts \<union> dom color1" using f(2) by auto
      ultimately have "starts_result adj (set (start # starts) \<union> dom color) (check_starts adj starts color1)"
        by (rule starts_result_mono [rotated])
      with None r NoCycle show ?thesis by simp
    qed (use s r None in auto)
  qed
qed

lemma finished_acyclic:
  assumes "finished adj color" "fst ` set adj \<subseteq> dom color"
  shows "acyclic (adj_rel adj)"
proof (rule acyclicI, rule allI, rule notI)
  fix n
  assume c: "(n, n) \<in> (adj_rel adj)\<^sup>+"
  then obtain m where "(n, m) \<in> adj_rel adj" by (auto dest: tranclD)
  then have "map_of adj n \<noteq> None" by (cases "map_of adj n") (auto simp: neighbours_def)
  then have "n \<in> fst ` set adj" by (simp add: map_of_eq_None_iff)
  with assms(2) obtain c where "color n = Some c" by blast
  moreover have "c \<noteq> Gray" using assms(1) calculation by (auto simp: finished_def simp del: split_paired_All)
  ultimately have "color n = Some Black" by (cases c) auto
  with assms(1) c show False by (auto simp: finished_def black_ok_def simp del: split_paired_All)
qed

section \<open>The edges of an action\<close>

text \<open>The arrays of inner steps the walk enters, and the steps it takes for aliases.\<close>

definition body_arrays :: "step_def \<Rightarrow> json list list" where
  "body_arrays s =
     (let t = st_type s; p = st_params s
      in if t = ''ifs'' then map (\<lambda>b. get_array b ''then'') (get_array p ''ifs'')
         else if t = ''try'' then map (get_array p) [''try'', ''catch'', ''finally'']
         else if t = ''parallel'' then List.map_filter as_array (get_array p ''branches'')
         else if t = ''for_each'' \<or> t = ''repeat'' then
           (case Option.bind (json_get p ''steps'') as_array of Some arr \<Rightarrow> [arr] | None \<Rightarrow> [])
         else [])"

definition alias_step :: "step_def \<Rightarrow> bool" where
  "alias_step s \<longleftrightarrow>
     (let t = st_type s
      in t \<notin> {''invoke'', ''ifs'', ''try'', ''parallel''}
         \<and> (t \<in> {''for_each'', ''repeat''} \<longrightarrow>
              Option.bind (json_get (st_params s) ''steps'') as_array = None))"

inductive invokes :: "alias_resolver \<Rightarrow> step_def \<Rightarrow> node_ref \<Rightarrow> bool" for aliases where
  direct: "st_type s = ''invoke'' \<Longrightarrow> invoke_target (st_params s) = Some t \<Longrightarrow> invokes aliases s t"
| via_alias: "alias_step s \<Longrightarrow> aliases (st_type s) = Some t \<Longrightarrow> invokes aliases s t"
| inner: "arr \<in> set (body_arrays s) \<Longrightarrow> v \<in> set arr \<Longrightarrow> from_inner_value v = Inr s' \<Longrightarrow>
    invokes aliases s' t \<Longrightarrow> invokes aliases s t"

inductive well_bodied :: "step_def \<Rightarrow> bool" where
  "(\<And>arr v. arr \<in> set (body_arrays s) \<Longrightarrow> v \<in> set arr \<Longrightarrow>
      \<exists>s'. from_inner_value v = Inr s' \<and> well_bodied s') \<Longrightarrow> well_bodied s"

inductive_simps invokes_iff: "invokes aliases s t"
inductive_simps well_bodied_iff: "well_bodied s"

lemma rfold_map: "rfold f (map g xs) s = rfold (\<lambda>x. f (g x)) xs s"
  by (induction xs arbitrary: s) (auto simp: rbind_def split: sum.split)

lemma rfold_map_filter:
  "rfold f (List.map_filter g xs) s = rfold (\<lambda>x s. case g x of Some y \<Rightarrow> f y s | None \<Rightarrow> Inr s) xs s"
  by (induction xs arbitrary: s) (auto simp: map_filter_simps rbind_def split: option.split sum.split)

lemma collect_step_arrays:
  assumes "st_type s \<noteq> ''invoke''" "\<not> alias_step s"
  shows "collect_step pl an al s out =
    rfold (\<lambda>arr out. walk_inner_array pl an al (st_type s) arr out) (body_arrays s) out"
proof -
  consider (ifs) "st_type s = ''ifs''" | (try_step) "st_type s = ''try''" | (par) "st_type s = ''parallel''"
    | (loop) arr where "st_type s = ''for_each'' \<or> st_type s = ''repeat''"
      "Option.bind (json_get (st_params s) ''steps'') as_array = Some arr"
    using assms by (auto simp: alias_step_def Let_def)
  then show ?thesis
  proof cases
    case ifs
    then show ?thesis
      by (simp add: collect_step.simps Let_def step_types_with_inner_steps_def body_arrays_def rfold_map)
  next
    case try_step
    then show ?thesis
      by (simp add: collect_step.simps Let_def step_types_with_inner_steps_def body_arrays_def rbind_def
          split: sum.split)
  next
    case par
    then show ?thesis
      by (simp add: collect_step.simps Let_def step_types_with_inner_steps_def body_arrays_def rfold_map_filter)
  next
    case loop
    then show ?thesis
      by (auto simp: collect_step.simps Let_def step_types_with_inner_steps_def body_arrays_def rbind_def
          split: sum.split)
  qed
qed

lemma collect_step_alias:
  "alias_step s \<Longrightarrow> collect_step pl an al s out = Inr (push_edge pl an (al (st_type s)) out)"
  by (auto simp: collect_step.simps Let_def step_types_with_inner_steps_def alias_step_def split: option.splits)

lemma collect_step_invoke:
  "st_type s = ''invoke'' \<Longrightarrow> collect_step pl an al s out = Inr (push_edge pl an (invoke_target (st_params s)) out)"
  by (simp add: collect_step.simps Let_def)

lemma alias_no_arrays: "alias_step s \<Longrightarrow> body_arrays s = []" "st_type s = ''invoke'' \<Longrightarrow> body_arrays s = []"
  by (auto simp: alias_step_def body_arrays_def Let_def)

lemma size_list_member: "v \<in> set arr \<Longrightarrow> size (v :: json) < size_list size arr"
  by (induction arr) auto

lemma body_arrays_size:
  assumes "arr \<in> set (body_arrays s)"
  shows "size_list size arr \<le> size (st_params s)"
proof -
  let ?p = "st_params s"
  consider "st_type s = ''ifs''" | "st_type s = ''try''" | "st_type s = ''parallel''"
    | "st_type s \<noteq> ''ifs'' \<and> st_type s \<noteq> ''try'' \<and> st_type s \<noteq> ''parallel''" by metis
  then show ?thesis
  proof cases
    case 1
    with assms obtain b where "b \<in> set (get_array ?p ''ifs'')" "arr = get_array b ''then''"
      by (auto simp: body_arrays_def)
    then show ?thesis by (simp add: branch_array_le(1))
  next
    case 2
    with assms obtain k where "arr = get_array ?p k" by (auto simp: body_arrays_def Let_def)
    then show ?thesis by (simp add: get_array_le)
  next
    case 3
    with assms obtain b where "b \<in> set (get_array ?p ''branches'')" "as_array b = Some arr"
      by (auto simp: body_arrays_def map_filter_def)
    then show ?thesis by (rule branch_array_le(2))
  next
    case 4
    let ?b = "Option.bind (json_get ?p ''steps'') as_array"
    have b: "body_arrays s = (if st_type s = ''for_each'' \<or> st_type s = ''repeat''
        then (case ?b of Some arr \<Rightarrow> [arr] | None \<Rightarrow> []) else [])"
      unfolding body_arrays_def Let_def using 4 by (simp only: if_False)
    have "?b = Some arr"
    proof (cases "st_type s = ''for_each'' \<or> st_type s = ''repeat''")
      case True
      from assms have "arr \<in> set (case ?b of Some arr \<Rightarrow> [arr] | None \<Rightarrow> [])"
        by (simp only: b if_P [OF True])
      then show ?thesis by (cases ?b) (simp_all del: bind_eq_Some_conv)
    next
      case False
      from assms show ?thesis by (simp only: b if_not_P [OF False] list.set empty_iff)
    qed
    then show ?thesis by (rule steps_array_le)
  qed
qed

lemma inner_smaller:
  "arr \<in> set (body_arrays s) \<Longrightarrow> v \<in> set arr \<Longrightarrow> from_inner_value v = Inr s' \<Longrightarrow>
    size (st_params s') < size (st_params s)"
  using body_arrays_size [of arr s] size_list_member [of v arr] params_le [of v s'] by linarith

definition edges_to :: "string \<Rightarrow> string \<Rightarrow> node_ref set \<Rightarrow> invoke_edge set" where
  "edges_to pl an T = (\<lambda>t. \<lparr>ie_from = (pl, an), ie_to = t\<rparr>) ` T"

lemma push_edge_set: "set (push_edge pl an target out) = set out \<union> edges_to pl an {t. target = Some t}"
  by (auto simp: push_edge_def edges_to_def split: option.split)

lemma edges_to_Un: "edges_to pl an (S \<union> T) = edges_to pl an S \<union> edges_to pl an T"
  by (auto simp: edges_to_def)

lemma edges_to_UN: "edges_to pl an (\<Union>x \<in> A. f x) = (\<Union>x \<in> A. edges_to pl an (f x))"
  by (auto simp: edges_to_def)

text \<open>One step, whatever was collected before it.\<close>

definition step_exact :: "string \<Rightarrow> string \<Rightarrow> alias_resolver \<Rightarrow> step_def \<Rightarrow> bool" where
  "step_exact pl an al s \<longleftrightarrow>
     (\<forall>out. ((\<exists>out'. collect_step pl an al s out = Inr out') \<longleftrightarrow> well_bodied s)
       \<and> (\<forall>out'. collect_step pl an al s out = Inr out' \<longrightarrow>
            set out' = set out \<union> edges_to pl an {t. invokes al s t}))"

lemma collect_from_exact:
  assumes "\<And>s. s \<in> set sts \<Longrightarrow> step_exact pl an al s"
  shows "(\<exists>out'. collect_from_steps pl an al sts out = Inr out') \<longleftrightarrow> (\<forall>s \<in> set sts. well_bodied s)"
    and "collect_from_steps pl an al sts out = Inr out' \<Longrightarrow>
      set out' = set out \<union> edges_to pl an {t. \<exists>s \<in> set sts. invokes al s t}"
proof -
  show "(\<exists>out'. collect_from_steps pl an al sts out = Inr out') \<longleftrightarrow> (\<forall>s \<in> set sts. well_bodied s)"
    unfolding collect_from_steps.simps
    by (rule rfold_succeeds) (use assms in \<open>auto simp: step_exact_def\<close>)
next
  assume "collect_from_steps pl an al sts out = Inr out'"
  then have "set out' = set out \<union> (\<Union>s \<in> set sts. edges_to pl an {t. invokes al s t})"
    unfolding collect_from_steps.simps
    by (rule rfold_collects [rotated]) (use assms in \<open>auto simp: step_exact_def\<close>)
  then show "set out' = set out \<union> edges_to pl an {t. \<exists>s \<in> set sts. invokes al s t}"
    by (auto simp: edges_to_def)
qed

definition parsed_of :: "json list \<Rightarrow> step_def set" where
  "parsed_of arr = {s. \<exists>v \<in> set arr. from_inner_value v = Inr s}"

lemma traverse_parsed:
  "traverse (\<lambda>v. map_err g (from_inner_value v)) arr = Inr sts \<Longrightarrow> set sts = parsed_of arr"
  by (induction arr arbitrary: sts) (fastforce simp: parsed_of_def rbind_Inr_iff)+

lemma traverse_parses:
  "(\<exists>sts. traverse (\<lambda>v. map_err g (from_inner_value v)) arr = Inr sts) \<longleftrightarrow>
    (\<forall>v \<in> set arr. \<exists>s. from_inner_value v = Inr s)"
proof
  assume "\<exists>sts. traverse (\<lambda>v. map_err g (from_inner_value v)) arr = Inr sts"
  then obtain sts where "list_all2 (\<lambda>v s. from_inner_value v = Inr s) arr sts"
    by (auto simp: traverse_Inr_iff)
  then show "\<forall>v \<in> set arr. \<exists>s. from_inner_value v = Inr s"
    by (auto simp: list_all2_conv_all_nth in_set_conv_nth)
next
  assume "\<forall>v \<in> set arr. \<exists>s. from_inner_value v = Inr s"
  then show "\<exists>sts. traverse (\<lambda>v. map_err g (from_inner_value v)) arr = Inr sts"
    by (intro traverse_total) auto
qed

lemma walk_exact:
  assumes "\<And>s. s \<in> parsed_of arr \<Longrightarrow> step_exact pl an al s"
  shows "(\<exists>out'. walk_inner_array pl an al ty arr out = Inr out') \<longleftrightarrow>
      (\<forall>v \<in> set arr. \<exists>s. from_inner_value v = Inr s \<and> well_bodied s)"
    and "walk_inner_array pl an al ty arr out = Inr out' \<Longrightarrow>
      set out' = set out \<union> edges_to pl an {t. \<exists>s \<in> parsed_of arr. invokes al s t}"
proof -
  let ?tr = "traverse (\<lambda>v. map_err (MalformedInnerStep an ty) (from_inner_value v)) arr"
  have w: "walk_inner_array pl an al ty arr out = rbind ?tr (\<lambda>sts. collect_from_steps pl an al sts out)"
    by (simp add: walk_inner_array.simps)
  have ex: "step_exact pl an al s" if "?tr = Inr sts" "s \<in> set sts" for s sts
    using assms traverse_parsed that by blast
  show "(\<exists>out'. walk_inner_array pl an al ty arr out = Inr out') \<longleftrightarrow>
      (\<forall>v \<in> set arr. \<exists>s. from_inner_value v = Inr s \<and> well_bodied s)"
  proof (cases ?tr)
    case (Inl e)
    then have "\<not> (\<forall>v \<in> set arr. \<exists>s. from_inner_value v = Inr s)"
      using traverse_parses [of "MalformedInnerStep an ty" arr] by simp
    with Inl show ?thesis unfolding w by auto
  next
    case (Inr sts)
    then have "\<forall>v \<in> set arr. \<exists>s. from_inner_value v = Inr s"
      using traverse_parses [of "MalformedInnerStep an ty" arr] by simp
    then have "(\<forall>s \<in> set sts. well_bodied s) \<longleftrightarrow>
        (\<forall>v \<in> set arr. \<exists>s. from_inner_value v = Inr s \<and> well_bodied s)"
      unfolding traverse_parsed [OF Inr] parsed_of_def by fastforce
    with collect_from_exact(1) [where out = out, OF ex [OF Inr]] Inr show ?thesis unfolding w by simp
  qed
  show "set out' = set out \<union> edges_to pl an {t. \<exists>s \<in> parsed_of arr. invokes al s t}"
    if "walk_inner_array pl an al ty arr out = Inr out'"
  proof -
    from that obtain sts where s: "?tr = Inr sts" "collect_from_steps pl an al sts out = Inr out'"
      unfolding w by (auto simp: rbind_Inr_iff)
    with collect_from_exact(2) [OF ex [OF s(1)] s(2)] traverse_parsed [OF s(1)] show ?thesis by simp
  qed
qed

lemma step_exact: "step_exact pl an al s"
proof (induction s rule: measure_induct_rule [of "\<lambda>s. size (st_params s)"])
  case (less s)
  show ?case
  proof (cases "st_type s = ''invoke'' \<or> alias_step s")
    case True
    then have "body_arrays s = []" using alias_no_arrays by blast
    then have w: "well_bodied s" by (subst well_bodied_iff) simp
    have i: "invokes al s t \<longleftrightarrow>
        (if st_type s = ''invoke'' then invoke_target (st_params s) else al (st_type s)) = Some t" for t
      using True \<open>body_arrays s = []\<close> by (subst invokes_iff) (auto simp: alias_step_def Let_def)
    show ?thesis
    proof (cases "st_type s = ''invoke''")
      case inv: True
      with w i show ?thesis by (simp add: step_exact_def collect_step_invoke push_edge_set)
    next
      case inv: False
      with True have "alias_step s" by simp
      with w i inv show ?thesis by (simp add: step_exact_def collect_step_alias push_edge_set)
    qed
  next
    case False
    then have c: "collect_step pl an al s out =
        rfold (\<lambda>arr out. walk_inner_array pl an al (st_type s) arr out) (body_arrays s) out" for out
      by (simp add: collect_step_arrays)
    have ih: "step_exact pl an al s'" if "arr \<in> set (body_arrays s)" "s' \<in> parsed_of arr" for arr s'
      using that less.IH inner_smaller by (auto simp: parsed_of_def)
    have "(\<exists>out'. collect_step pl an al s out = Inr out') \<longleftrightarrow>
        (\<forall>arr \<in> set (body_arrays s). \<forall>v \<in> set arr. \<exists>s'. from_inner_value v = Inr s' \<and> well_bodied s')" for out
      unfolding c by (rule rfold_succeeds) (rule walk_exact(1) [OF ih])
    moreover have "set out' = set out \<union> edges_to pl an {t. invokes al s t}"
      if "collect_step pl an al s out = Inr out'" for out out'
    proof -
      from that have "set out' = set out \<union>
          (\<Union>arr \<in> set (body_arrays s). edges_to pl an {t. \<exists>s \<in> parsed_of arr. invokes al s t})"
        unfolding c by (rule rfold_collects [rotated]) (rule walk_exact(2) [OF ih])
      moreover have "{t. invokes al s t} =
          (\<Union>arr \<in> set (body_arrays s). {t. \<exists>s \<in> parsed_of arr. invokes al s t})"
        using False by (auto simp: parsed_of_def invokes_iff [of al s])
      ultimately show ?thesis by (simp only: edges_to_UN)
    qed
    ultimately show ?thesis by (subst step_exact_def, subst well_bodied_iff) blast
  qed
qed

section \<open>Declared references\<close>

definition declares ::
  "(string \<Rightarrow> step_type_def option) \<Rightarrow> step_def list \<Rightarrow> step_def \<Rightarrow> step_reference \<Rightarrow> node_ref \<Rightarrow> bool" where
  "declares defs sts s r t \<longleftrightarrow>
     s \<in> set sts \<and> (\<exists>d. defs (st_type s) = Some d \<and> r \<in> set (sd_references d))
     \<and> literal_reference_target (st_params s) r = Some t"

lemma check_reference_Inr:
  "check_reference pl an pe ae s r out = Inr out' \<longleftrightarrow>
    (\<forall>p a. literal_reference_target (st_params s) r = Some (p, a) \<longrightarrow> pe p \<and> ae p a)
    \<and> out' = push_edge pl an (literal_reference_target (st_params s) r) out"
  by (auto simp: check_reference_def push_edge_def split: option.splits)

lemma declared_turn:
  assumes "(case defs (st_type s) of None \<Rightarrow> Inr out
      | Some d \<Rightarrow> if sd_references d = [] then Inr out
          else rfold (\<lambda>r out. check_reference pl an pe ae s r out) (sd_references d) out) = Inr out'"
    "s \<in> set sts"
  shows "set out' = set out \<union> edges_to pl an {t. \<exists>r. declares defs sts s r t}"
proof (cases "defs (st_type s)")
  case None
  with assms show ?thesis by (simp add: declares_def edges_to_def)
next
  case (Some d)
  with assms(1) have "rfold (\<lambda>r out. check_reference pl an pe ae s r out) (sd_references d) out = Inr out'"
    by (auto split: if_splits)
  then have "set out' = set out \<union>
      (\<Union>r \<in> set (sd_references d). edges_to pl an {t. literal_reference_target (st_params s) r = Some t})"
    by (rule rfold_collects [rotated]) (simp add: check_reference_Inr push_edge_set)
  with Some assms(2) show ?thesis by (auto simp: declares_def edges_to_def)
qed

lemma declared_collected:
  "collect_declared_references pl an a defs pe ae = Inr out' \<Longrightarrow>
    set out' = edges_to pl an {t. \<exists>s r. declares defs (act_steps a) s r t}"
proof -
  assume "collect_declared_references pl an a defs pe ae = Inr out'"
  then have "set out' = set [] \<union>
      (\<Union>s \<in> set (act_steps a). edges_to pl an {t. \<exists>r. declares defs (act_steps a) s r t})"
    unfolding collect_declared_references_def
    by (rule rfold_collects [rotated]) (rule declared_turn)
  then show ?thesis by (auto simp: edges_to_def declares_def)
qed

lemma declared_succeeds:
  "(\<exists>out'. collect_declared_references pl an a defs pe ae = Inr out') \<longleftrightarrow>
    (\<forall>s r p b. declares defs (act_steps a) s r (p, b) \<longrightarrow> pe p \<and> ae p b)"
proof -
  have "(\<exists>out'. rfold (\<lambda>r out. check_reference pl an pe ae s r out) refs out = Inr out') \<longleftrightarrow>
      (\<forall>r \<in> set refs. \<forall>p b. literal_reference_target (st_params s) r = Some (p, b) \<longrightarrow> pe p \<and> ae p b)"
    for s refs out
    by (rule rfold_succeeds) (simp add: check_reference_Inr)
  then have "(\<exists>out'. collect_declared_references pl an a defs pe ae = Inr out') \<longleftrightarrow>
      (\<forall>s \<in> set (act_steps a). \<forall>d. defs (st_type s) = Some d \<longrightarrow>
         (\<forall>r \<in> set (sd_references d). \<forall>p b.
            literal_reference_target (st_params s) r = Some (p, b) \<longrightarrow> pe p \<and> ae p b))"
    unfolding collect_declared_references_def by (intro rfold_succeeds) (auto split: option.split)
  then show ?thesis unfolding declares_def by blast
qed

lemma declared_error:
  assumes "collect_declared_references pl an a defs pe ae = Inl e"
  shows "\<exists>s r p b. declares defs (act_steps a) s r (p, b) \<and>
    (\<not> pe p \<and> e = UnknownPlugin an (st_type s) p (sr_plugin r)
     \<or> pe p \<and> \<not> ae p b \<and> e = UnknownAction an (st_type s) p b (sr_plugin r) (sr_action r))"
proof -
  from rfold_error [OF assms [unfolded collect_declared_references_def]] obtain s t where
    s: "s \<in> set (act_steps a)" "(case defs (st_type s) of None \<Rightarrow> Inr t
      | Some d \<Rightarrow> if sd_references d = [] then Inr t
          else rfold (\<lambda>r out. check_reference pl an pe ae s r out) (sd_references d) t) = Inl e" by blast
  then obtain d where d: "defs (st_type s) = Some d"
    "rfold (\<lambda>r out. check_reference pl an pe ae s r out) (sd_references d) t = Inl e"
    by (auto split: option.splits if_splits)
  from rfold_error [OF d(2)] obtain r u where
    r: "r \<in> set (sd_references d)" "check_reference pl an pe ae s r u = Inl e" by blast
  then obtain p b where "literal_reference_target (st_params s) r = Some (p, b)"
    "\<not> pe p \<and> e = UnknownPlugin an (st_type s) p (sr_plugin r)
     \<or> pe p \<and> \<not> ae p b \<and> e = UnknownAction an (st_type s) p b (sr_plugin r) (sr_action r)"
    by (auto simp: check_reference_def split: option.splits if_splits)
  with s(1) d(1) r(1) show ?thesis unfolding declares_def by blast
qed

section \<open>Properties\<close>

text \<open>
  Edge collection succeeds exactly when every inner step the walk reaches parses, and then
  contributes exactly the calls the action makes by name: the literal \<open>invoke\<close> steps and the resolved
  aliases of its steps and of the steps nested in their bodies at any depth, all leaving the action.
\<close>

theorem collect_edges_exact:
  "case collect_edges plugin action_name a aliases of
     Inr edges \<Rightarrow> list_all well_bodied (act_steps a)
       \<and> set edges = (\<lambda>t. \<lparr>ie_from = (plugin, action_name), ie_to = t\<rparr>) `
           {t. list_ex (\<lambda>s. invokes aliases s t) (act_steps a)}
   | Inl e \<Rightarrow> \<not> list_all well_bodied (act_steps a)"
proof (cases "collect_from_steps plugin action_name aliases (act_steps a) []")
  case (Inl e)
  with collect_from_exact(1) [where sts = "act_steps a" and out = "[]", OF step_exact, of plugin action_name aliases]
  show ?thesis by (simp add: collect_edges_def list_all_iff)
next
  case (Inr edges)
  with collect_from_exact(1) [where sts = "act_steps a" and out = "[]", OF step_exact, of plugin action_name aliases]
    collect_from_exact(2) [where sts = "act_steps a" and out = "[]", OF step_exact Inr]
  show ?thesis by (simp add: collect_edges_def list_all_iff list_ex_iff edges_to_def)
qed

text \<open>
  The references a step type declares are collected exactly when every literal target names a
  known plugin and one of its actions; otherwise the error names the keys and the target of such a
  reference, the plugin being reported before the action.
\<close>

theorem declared_references_exact:
  "case collect_declared_references plugin action_name a defs plugin_exists action_exists of
     Inr edges \<Rightarrow>
       (\<nexists>s r p b. declares defs (act_steps a) s r (p, b) \<and> \<not> (plugin_exists p \<and> action_exists p b))
       \<and> set edges = (\<lambda>t. \<lparr>ie_from = (plugin, action_name), ie_to = t\<rparr>) `
           {t. \<exists>s r. declares defs (act_steps a) s r t}
   | Inl e \<Rightarrow>
       \<exists>s r p b. declares defs (act_steps a) s r (p, b) \<and>
         (\<not> plugin_exists p \<and> e = UnknownPlugin action_name (st_type s) p (sr_plugin r)
          \<or> plugin_exists p \<and> \<not> action_exists p b
            \<and> e = UnknownAction action_name (st_type s) p b (sr_plugin r) (sr_action r))"
proof (cases "collect_declared_references plugin action_name a defs plugin_exists action_exists")
  case (Inl e)
  with declared_error [OF Inl] show ?thesis by simp
next
  case (Inr edges)
  with declared_collected [OF Inr] declared_succeeds [of plugin action_name a defs plugin_exists action_exists]
  show ?thesis by (auto simp: edges_to_def)
qed

text \<open>
  C29. Whatever order the hash map yields its keys in, the structural check accepts exactly the acyclic
  graphs of old and new edges; otherwise it returns a simple cycle of that graph, closed by its first
  node. It never finds a gray node that is not on its stack.
\<close>

theorem check_acyclic_exact:
  assumes "set (key_order (adjacency_of (existing @ new_edges))) = ie_from ` set (existing @ new_edges)"
  shows "acyclic (invoke_rel (existing @ new_edges))
        \<and> check_acyclic key_order existing new_edges = Some (Inr ())
    \<or> \<not> acyclic (invoke_rel (existing @ new_edges))
        \<and> (\<exists>c. check_acyclic key_order existing new_edges = Some (Inl (InvokeCycle c))
             \<and> simple_cycle (invoke_rel (existing @ new_edges)) c)"
proof -
  let ?adj = "adjacency_of (existing @ new_edges)"
  let ?r = "check_starts ?adj (key_order ?adj) (\<lambda>_. None)"
  have "finished ?adj (\<lambda>_. None)" by (simp add: finished_def black_ok_def)
  from check_starts_ok [OF this, of "key_order ?adj"]
  have r: "starts_result ?adj (ie_from ` set (existing @ new_edges)) ?r" using assms by simp
  show ?thesis
  proof (cases ?r)
    case NoCycle
    with r obtain color where "finished ?adj color" "fst ` set ?adj \<subseteq> dom color"
      by (auto simp: adjacency_keys)
    then have "acyclic (invoke_rel (existing @ new_edges))"
      using finished_acyclic adjacency_rel by metis
    with NoCycle show ?thesis by (simp add: check_acyclic_def)
  next
    case (FoundCycle c)
    with r have "simple_cycle (invoke_rel (existing @ new_edges)) c" by (simp add: adjacency_rel)
    with FoundCycle simple_cycle_cyclic show ?thesis by (auto simp: check_acyclic_def)
  next
    case GrayNotOnStack
    with r show ?thesis by simp
  qed
qed

theorem check_acyclic_exact_witness:
  "check_acyclic (map fst) [\<lparr>ie_from = (''p'', ''a''), ie_to = (''q'', ''b'')\<rparr>]
     [\<lparr>ie_from = (''q'', ''b''), ie_to = (''p'', ''a'')\<rparr>]
   = Some (Inl (InvokeCycle [(''p'', ''a''), (''q'', ''b''), (''p'', ''a'')]))
   \<and> \<not> acyclic (invoke_rel [\<lparr>ie_from = (''p'', ''a''), ie_to = (''q'', ''b'')\<rparr>,
       \<lparr>ie_from = (''q'', ''b''), ie_to = (''p'', ''a'')\<rparr>])"
proof -
  let ?old = "[\<lparr>ie_from = (''p'', ''a''), ie_to = (''q'', ''b'')\<rparr>]"
  let ?new = "[\<lparr>ie_from = (''q'', ''b''), ie_to = (''p'', ''a'')\<rparr>]"
  have c: "check_acyclic (map fst) ?old ?new
      = Some (Inl (InvokeCycle [(''p'', ''a''), (''q'', ''b''), (''p'', ''a'')]))"
    by code_simp
  have "set (map fst (adjacency_of (?old @ ?new))) = ie_from ` set (?old @ ?new)"
    using adjacency_keys [of "?old @ ?new"] by simp
  from check_acyclic_exact [of "map fst" ?old ?new, OF this] c show ?thesis by simp
qed

text \<open>
  The walk of declared references stays at the top level: a step nested in a body that declares a
  reference to an unknown plugin is not looked at.
\<close>

definition nested_call :: action where
  "nested_call = action_new
     [step_def_new ''loop'' ''for_each'' (JObject [(''steps'',
        JArray [JObject [(''id'', JString ''call''),
          (''params'', JObject [(''action'', JString ''a''), (''plugin'', JString ''missing'')]),
          (''type'', JString ''custom.call'')]])])]"

definition call_defs :: "string \<Rightarrow> step_type_def option" where
  "call_defs t = (if t = ''custom.call''
     then Some ((step_type_def_new t)\<lparr>sd_references := [\<lparr>sr_plugin = ''plugin'', sr_action = ''action''\<rparr>]\<rparr>)
     else None)"

lemma declared_inner_ignored:
  "collect_declared_references ''p'' ''run'' nested_call call_defs (\<lambda>_. False) (\<lambda>_ _. False) = Inr []"
  by code_simp

end
