(* ===== verification/Identity.thy ===== *)
theory Identity
  imports RefText
begin

text \<open>
  Plugin identity, \<open>src/kernel/identity.rs\<close>: the name grammar and its rejections, namespaces and
  qualified identities, the ancestor chain that every reference is resolved along, step type names
  and their owners, and native implementation references.
\<close>

section \<open>Names\<close>

definition namespace_separator :: char where "namespace_separator = CHR ''/''"

definition max_name_len :: nat where "max_name_len = 128"

datatype name_kind =
    KPlugin | KRole | KStepType | KStepTypeSelector | KNamespace | KNativeImplRef
  | KNativeImplRefSegment | KAppCategorySegment | KStepId

datatype name_error =
    NEmpty name_kind
  | NTooLong name_kind string nat nat
  | NInvalidChar name_kind string string
  | NLeadingDigit name_kind string
  | NQualifiedReserved name_kind string
  | NStepTypeNotOwned string string

definition name_char_ok :: "nat \<Rightarrow> char \<Rightarrow> bool" where
  "name_char_ok i ch \<longleftrightarrow> is_alnum ch \<or> ch = CHR ''_'' \<or> (ch = CHR ''-'' \<and> 0 < i)"

text \<open>
  The loop over \<open>char_indices\<close>, from byte \<open>i\<close> on. An accepted character is one byte, so the first
  rejected one starts at the first rejected byte; it is its lead byte and the continuation bytes.
\<close>

fun first_bad_char :: "nat \<Rightarrow> string \<Rightarrow> string option" where
  "first_bad_char i [] = None"
| "first_bad_char i (ch # r) =
     (if name_char_ok i ch then first_bad_char (i + 1) r else Some (ch # takeWhile utf8_cont r))"

definition validate_name :: "name_kind \<Rightarrow> string \<Rightarrow> name_error + unit" where
  "validate_name kind name =
     (if name = [] then Inl (NEmpty kind)
      else if length name > max_name_len
      then Inl (NTooLong kind name (length name) max_name_len)
      else if namespace_separator \<in> set name then Inl (NQualifiedReserved kind name)
      else if kind = KStepId \<and> is_digit (hd name) then Inl (NLeadingDigit kind name)
      else case first_bad_char 0 name of
        Some ch \<Rightarrow> Inl (NInvalidChar kind name ch)
      | None \<Rightarrow> Inr ())"

definition validate_reference :: "name_kind \<Rightarrow> string \<Rightarrow> name_error + unit" where
  "validate_reference kind reference = validate_name kind reference"

definition validate_namespace :: "string \<Rightarrow> name_error + unit" where
  "validate_namespace namespace =
     (if namespace = [] then Inr () else validate_name KNamespace namespace)"

section \<open>Qualified identities\<close>

definition qualify :: "string \<Rightarrow> string \<Rightarrow> string" where
  "qualify namespace name =
     (if namespace = [] then name else namespace @ [namespace_separator] @ name)"

definition namespace_of :: "string \<Rightarrow> string" where
  "namespace_of identity =
     (case rsplit_once namespace_separator identity of Some (ns, _) \<Rightarrow> ns | None \<Rightarrow> [])"

definition local_name_of :: "string \<Rightarrow> string" where
  "local_name_of identity =
     (case rsplit_once namespace_separator identity of Some (_, name) \<Rightarrow> name | None \<Rightarrow> identity)"

definition same_namespace :: "string \<Rightarrow> string \<Rightarrow> bool" where
  "same_namespace a b \<longleftrightarrow> namespace_of a = namespace_of b"

text \<open>The parent namespace, and the iterator that walks up to the root, the root included.\<close>

definition parent_namespace :: "string \<Rightarrow> string" where
  "parent_namespace ns =
     (case rsplit_once namespace_separator ns of Some (parent, _) \<Rightarrow> parent | None \<Rightarrow> [])"

lemma parent_shorter: "ns \<noteq> [] \<Longrightarrow> length (parent_namespace ns) < length ns"
  by (auto simp: parent_namespace_def split: option.split dest: rsplit_once_SomeD)

function ancestor_namespaces :: "string \<Rightarrow> string list" where
  "ancestor_namespaces ns =
     (if ns = [] then [ns] else ns # ancestor_namespaces (parent_namespace ns))"
  by pat_completeness auto
termination
  by (relation "measure length") (auto dest: parent_shorter)

declare ancestor_namespaces.simps [simp del]

definition is_on_chain :: "string \<Rightarrow> string \<Rightarrow> bool" where
  "is_on_chain target of_id \<longleftrightarrow>
     list_ex (\<lambda>ns. ns = namespace_of target) (ancestor_namespaces (namespace_of of_id))"

definition plugin_reference_candidates :: "string \<Rightarrow> string \<Rightarrow> name_error + string list" where
  "plugin_reference_candidates caller reference =
     rbind (validate_reference KPlugin reference) (\<lambda>_.
       Inr (map (\<lambda>ns. qualify ns reference) (ancestor_namespaces (namespace_of caller))))"

section \<open>Step type names and implementation references\<close>

definition step_type_separator :: char where "step_type_separator = CHR ''.''"

definition validate_step_type_name :: "string \<Rightarrow> string \<Rightarrow> bool \<Rightarrow> name_error + unit" where
  "validate_step_type_name name declaring_plugin kernel_owned =
     (case split_once step_type_separator name of
        None \<Rightarrow>
          rbind (validate_name KStepType name) (\<lambda>_.
            if kernel_owned then Inr () else Inl (NStepTypeNotOwned name declaring_plugin))
      | Some (owner, loc) \<Rightarrow>
          rbind (validate_name KPlugin owner) (\<lambda>_.
          rbind (validate_name KStepType loc) (\<lambda>_.
            if owner = declaring_plugin then Inr ()
            else Inl (NStepTypeNotOwned name declaring_plugin))))"

definition validate_step_type_reference :: "string \<Rightarrow> name_error + unit" where
  "validate_step_type_reference name =
     (case split_once step_type_separator name of
        None \<Rightarrow> validate_name KStepType name
      | Some (owner, loc) \<Rightarrow>
          rbind (validate_name KPlugin owner) (\<lambda>_. validate_name KStepType loc))"

definition impl_ref_segments :: nat where "impl_ref_segments = 3"

text \<open>The \<open>for segment in reference.split('.')\<close> loop.\<close>

fun validate_segments :: "string list \<Rightarrow> name_error + unit" where
  "validate_segments [] = Inr ()"
| "validate_segments (seg # segs) =
     rbind (validate_name KNativeImplRefSegment seg) (\<lambda>_. validate_segments segs)"

definition validate_impl_ref :: "string \<Rightarrow> name_error + unit" where
  "validate_impl_ref reference =
     (if reference = [] then Inl (NEmpty KNativeImplRef)
      else if namespace_separator \<in> set reference
      then Inl (NQualifiedReserved KNativeImplRef reference)
      else validate_segments (split_on (CHR ''.'') reference))"

definition impl_ref_owner :: "string \<Rightarrow> string option" where
  "impl_ref_owner reference =
     (let segments = split_on (CHR ''.'') reference in
      if length segments \<noteq> impl_ref_segments then None else Some (segments ! 1))"

section \<open>Authenticated identities\<close>

record plugin_identity =
  pi_namespace :: string
  pi_name :: string

definition plugin_identity_new :: "string \<Rightarrow> string \<Rightarrow> name_error + plugin_identity" where
  "plugin_identity_new namespace name =
     rbind (validate_namespace namespace) (\<lambda>_.
     rbind (validate_name KPlugin name) (\<lambda>_.
       Inr \<lparr>pi_namespace = namespace, pi_name = name\<rparr>))"

definition plugin_identity_root :: "string \<Rightarrow> name_error + plugin_identity" where
  "plugin_identity_root name = plugin_identity_new [] name"

definition is_root :: "plugin_identity \<Rightarrow> bool" where
  "is_root i \<longleftrightarrow> pi_namespace i = []"

definition pi_qualified :: "plugin_identity \<Rightarrow> string" where
  "pi_qualified i = qualify (pi_namespace i) (pi_name i)"

section \<open>The name grammar\<close>

definition valid_name :: "string \<Rightarrow> bool" where
  "valid_name s \<longleftrightarrow> s \<noteq> [] \<and> length s \<le> 128 \<and> hd s \<noteq> CHR ''-'' \<and> list_all is_ident_char s"

lemma first_bad_char_None: "first_bad_char i s = None \<longleftrightarrow>
    list_all is_ident_char s \<and> (i = 0 \<longrightarrow> s = [] \<or> hd s \<noteq> CHR ''-'')"
  by (induction i s rule: first_bad_char.induct)
    (auto simp: name_char_ok_def is_ident_char_def is_alnum_def is_alpha_def is_digit_def byte_def)

lemma separator_not_ident: "\<not> is_ident_char namespace_separator" "\<not> is_ident_char step_type_separator"
  by (simp_all add: namespace_separator_def step_type_separator_def is_ident_char_def is_alnum_def
      is_alpha_def is_digit_def byte_def)

lemma valid_name_separators:
  "valid_name s \<Longrightarrow> namespace_separator \<notin> set s \<and> step_type_separator \<notin> set s"
  using separator_not_ident by (auto simp: valid_name_def list_all_iff)

lemma validate_name_Inr:
  "validate_name kind s = Inr () \<longleftrightarrow> valid_name s \<and> (kind = KStepId \<longrightarrow> \<not> is_digit (hd s))"
proof
  assume "validate_name kind s = Inr ()"
  then show "valid_name s \<and> (kind = KStepId \<longrightarrow> \<not> is_digit (hd s))"
    by (auto simp: validate_name_def valid_name_def max_name_len_def first_bad_char_None
        split: if_splits option.splits)
next
  assume v: "valid_name s \<and> (kind = KStepId \<longrightarrow> \<not> is_digit (hd s))"
  then have "first_bad_char 0 s = None" by (auto simp: first_bad_char_None valid_name_def)
  with v valid_name_separators [of s] show "validate_name kind s = Inr ()"
    by (auto simp: validate_name_def valid_name_def max_name_len_def)
qed

lemma validate_name_unit: "validate_name kind s = Inr u \<longleftrightarrow> validate_name kind s = Inr ()"
  by simp

section \<open>Qualified identities split uniquely\<close>

lemma namespace_of_qualify [chain_simps]:
  "namespace_separator \<notin> set n \<Longrightarrow> namespace_of (qualify ns n) = ns"
  by (auto simp: namespace_of_def qualify_def rsplit_once_None [THEN iffD2] rsplit_once_append)

lemma local_name_of_qualify [chain_simps]:
  "namespace_separator \<notin> set n \<Longrightarrow> local_name_of (qualify ns n) = n"
  by (auto simp: local_name_of_def qualify_def rsplit_once_None [THEN iffD2] rsplit_once_append)

lemma qualify_split:
  assumes "hd (i @ [CHR ''x'']) \<noteq> namespace_separator"
  shows "qualify (namespace_of i) (local_name_of i) = i"
proof (cases "rsplit_once namespace_separator i")
  case None
  then show ?thesis by (simp add: namespace_of_def local_name_of_def qualify_def)
next
  case (Some p)
  obtain a b where p: "p = (a, b)" by (cases p)
  with Some have i: "i = a @ namespace_separator # b" by (auto dest: rsplit_once_SomeD)
  with assms have "a \<noteq> []" by auto
  with Some p i show ?thesis by (simp add: namespace_of_def local_name_of_def qualify_def)
qed

section \<open>The ancestor chain\<close>

lemma ancestor_root [chain_simps]: "ancestor_namespaces [] = [[]]"
  by (simp add: ancestor_namespaces.simps)

lemma ancestor_step [chain_simps]:
  "ns \<noteq> [] \<Longrightarrow> ancestor_namespaces ns = ns # ancestor_namespaces (parent_namespace ns)"
  by (simp add: ancestor_namespaces.simps [of ns])

lemma ancestor_hd [chain_simps]: "hd (ancestor_namespaces ns) = ns" "ancestor_namespaces ns \<noteq> []"
  by (cases "ns = []"; simp add: chain_simps)+

lemma parent_cases:
  "ns \<noteq> [] \<Longrightarrow> (\<exists>r. ns = parent_namespace ns @ namespace_separator # r \<and> namespace_separator \<notin> set r)
    \<or> namespace_separator \<notin> set ns \<and> parent_namespace ns = []"
  by (auto simp: parent_namespace_def rsplit_once_None split: option.split dest: rsplit_once_SomeD)

text \<open>A namespace above another: the root, the namespace itself, or a prefix before a separator.\<close>

definition encloses :: "string \<Rightarrow> string \<Rightarrow> bool" where
  "encloses m ns \<longleftrightarrow> m = [] \<or> m = ns \<or> (\<exists>r. ns = m @ namespace_separator # r)"

lemma encloses_parent:
  assumes "ns \<noteq> []"
  shows "encloses m ns \<longleftrightarrow> m = ns \<or> encloses m (parent_namespace ns)"
proof
  assume e: "encloses m ns"
  show "m = ns \<or> encloses m (parent_namespace ns)"
  proof (cases "m = [] \<or> m = ns")
    case False
    with e obtain r where r: "ns = m @ namespace_separator # r" by (auto simp: encloses_def)
    with parent_cases [OF assms] obtain q where
      q: "ns = parent_namespace ns @ namespace_separator # q" "namespace_separator \<notin> set q" by auto
    define par where "par = parent_namespace ns"
    have "m @ namespace_separator # r = par @ namespace_separator # q"
      using r q(1) by (simp only: par_def)
    then have "m = par \<or> (\<exists>t. par = m @ namespace_separator # t)"
      using q(2) by (auto simp: append_eq_append_conv2 Cons_eq_append_conv append_eq_Cons_conv)
    then show ?thesis by (auto simp: encloses_def par_def)
  qed (auto simp: encloses_def)
next
  assume "m = ns \<or> encloses m (parent_namespace ns)"
  then show "encloses m ns"
    using parent_cases [OF assms] by (fastforce simp: encloses_def)
qed

lemma ancestor_iff [chain_simps]: "m \<in> set (ancestor_namespaces ns) \<longleftrightarrow> encloses m ns"
proof (induction ns rule: ancestor_namespaces.induct)
  case (1 ns)
  show ?case
  proof (cases "ns = []")
    case True
    then show ?thesis by (simp add: ancestor_root encloses_def)
  next
    case False
    with 1 show ?thesis by (simp add: ancestor_step encloses_parent [of ns m])
  qed
qed

lemma encloses_trans: "encloses k m \<Longrightarrow> encloses m ns \<Longrightarrow> encloses k ns"
  by (fastforce simp: encloses_def)

lemma encloses_length: "encloses m ns \<Longrightarrow> length m \<le> length ns"
  by (auto simp: encloses_def)

lemma ancestors_longest_first: "sorted_wrt (\<lambda>a b. length b < length a) (ancestor_namespaces ns)"
proof (induction ns rule: ancestor_namespaces.induct)
  case (1 ns)
  show ?case
  proof (cases "ns = []")
    case False
    with 1 parent_shorter [OF False] show ?thesis
      by (fastforce simp: ancestor_step ancestor_iff dest: encloses_length)
  qed (simp add: ancestor_root)
qed

section \<open>Scopes\<close>

text \<open>
  The interface every chain-scoped resolution uses: the names a scope can see, nearest first. A
  client looks for the first one that satisfies a test; what it finds is the nearest, and a scope
  sees everything the scopes above it see.
\<close>

locale scope_chain =
  fixes chain :: "'s \<Rightarrow> 's list"
    and top :: 's
  assumes nearest: "chain s \<noteq> [] \<and> hd (chain s) = s"
    and reaches_top: "top \<in> set (chain s)"
    and upward: "t \<in> set (chain s) \<Longrightarrow> set (chain t) \<subseteq> set (chain s)"
    and no_repeat: "distinct (chain s)"
begin

definition above :: "'s \<Rightarrow> 's \<Rightarrow> bool" where
  "above t s \<longleftrightarrow> t \<in> set (chain s)"

lemma above_refl: "above s s"
  using nearest [of s] unfolding above_def by (metis list.set_sel(1))

lemma above_trans: "above u t \<Longrightarrow> above t s \<Longrightarrow> above u s"
  using upward unfolding above_def by blast

lemma above_top: "above top s"
  using reaches_top unfolding above_def by blast

lemma find_above: "List.find P (chain s) = Some t \<Longrightarrow> above t s \<and> P t"
  unfolding above_def by (auto simp: find_Some_iff)

lemma find_None: "List.find P (chain s) = None \<longleftrightarrow> (\<forall>t. above t s \<longrightarrow> \<not> P t)"
  unfolding above_def by (auto simp: find_None_iff)

text \<open>The scope itself is tried first, and what a scope above can find, this one finds something for.\<close>

lemma find_self: "P s \<Longrightarrow> List.find P (chain s) = Some s"
  using nearest [of s] by (cases "chain s") auto

lemma find_inherits: "above t s \<Longrightarrow> List.find P (chain t) \<noteq> None \<Longrightarrow> List.find P (chain s) \<noteq> None"
  using above_trans by (auto simp: find_None)

text \<open>The nearest hit: everything before it in the chain fails the test.\<close>

lemma find_nearest:
  assumes "List.find P (chain s) = Some t"
  shows "\<exists>before after. chain s = before @ t # after \<and> P t \<and> (\<forall>u\<in>set before. \<not> P u)"
proof -
  from assms obtain i where i: "i < length (chain s)" "P (chain s ! i)" "t = chain s ! i"
    "\<forall>j<i. \<not> P (chain s ! j)" by (auto simp: find_Some_iff)
  have "chain s = take i (chain s) @ t # drop (Suc i) (chain s)"
    using i(1,3) id_take_nth_drop by blast
  moreover have "\<forall>u\<in>set (take i (chain s)). \<not> P u"
    using i(1,4) by (auto simp: in_set_conv_nth)
  ultimately show ?thesis using i(2,3) by blast
qed

end

interpretation ns_chain: scope_chain ancestor_namespaces "[]"
proof
  fix s t :: string
  show "ancestor_namespaces s \<noteq> [] \<and> hd (ancestor_namespaces s) = s" by (simp add: chain_simps)
  show "[] \<in> set (ancestor_namespaces s)" by (simp add: ancestor_iff encloses_def)
  have "distinct xs" if "sorted_wrt (\<lambda>a b. length b < length a) xs" for xs :: "string list"
    using that by (induction xs) auto
  then show "distinct (ancestor_namespaces s)" using ancestors_longest_first by blast
  show "t \<in> set (ancestor_namespaces s) \<Longrightarrow> set (ancestor_namespaces t) \<subseteq> set (ancestor_namespaces s)"
    using encloses_trans by (auto simp: ancestor_iff)
qed

lemma is_on_chain_above: "is_on_chain t s \<longleftrightarrow> ns_chain.above (namespace_of t) (namespace_of s)"
  by (auto simp: is_on_chain_def ns_chain.above_def list_ex_iff)

lemma candidates_on_chain:
  assumes "plugin_reference_candidates caller r = Inr cs"
  shows "valid_name r \<and> cs = map (\<lambda>ns. qualify ns r) (ancestor_namespaces (namespace_of caller))
    \<and> (\<forall>c\<in>set cs. is_on_chain c caller \<and> local_name_of c = r)"
proof -
  have v: "validate_name KPlugin r = Inr ()"
    and cs: "cs = map (\<lambda>ns. qualify ns r) (ancestor_namespaces (namespace_of caller))"
    using assms by (auto simp: plugin_reference_candidates_def validate_reference_def rbind_Inr_iff)
  from v have r: "valid_name r" by (simp add: validate_name_Inr)
  then have "namespace_separator \<notin> set r" using valid_name_separators by blast
  with r cs show ?thesis
    by (auto simp: is_on_chain_above ns_chain.above_def chain_simps)
qed

section \<open>Properties\<close>

text \<open>
  C39. The name grammar: a name is accepted exactly when it has 1 to 128 bytes, all of them ASCII
  letters, digits, underscores or hyphens, does not start with a hyphen and, for a step id, does
  not start with a digit. In particular it is never a wildcard and never holds a separator of
  namespaces, step types or permission strings.
\<close>

theorem validate_name_grammar:
  "(validate_name kind s = Inr ()) =
     (0 < length s \<and> length s \<le> 128 \<and> list_all is_ident_char s \<and> hd s \<noteq> CHR ''-''
      \<and> (if kind = KStepId then \<not> is_digit (hd s) else True))"
  unfolding validate_name_Inr valid_name_def by auto

text \<open>
  An identity splits into its namespace and its local name in exactly one way: qualifying a
  validated name into a namespace gives back both, so two plugins have the same registry key only
  if they have the same namespace and the same name.
\<close>

theorem qualify_injective:
  assumes "plugin_identity_new ns n = Inr i" "plugin_identity_new ns' n' = Inr i'"
  shows "namespace_of (pi_qualified i) = ns \<and> local_name_of (pi_qualified i) = n
    \<and> (pi_qualified i = pi_qualified i') = (i = i')"
proof -
  have i: "i = \<lparr>pi_namespace = ns, pi_name = n\<rparr>" "valid_name n"
    and i': "i' = \<lparr>pi_namespace = ns', pi_name = n'\<rparr>" "valid_name n'"
    using assms by (auto simp: plugin_identity_new_def rbind_Inr_iff validate_name_Inr)
  note sep = valid_name_separators [OF i(2)] valid_name_separators [OF i'(2)]
  have "ns = ns' \<and> n = n'" if "qualify ns n = qualify ns' n'"
    using that sep namespace_of_qualify [of n ns] namespace_of_qualify [of n' ns']
      local_name_of_qualify [of n ns] local_name_of_qualify [of n' ns'] by simp
  with sep show ?thesis by (auto simp: i i' pi_qualified_def chain_simps)
qed

theorem qualify_injective_witness:
  "namespace_of ''acme/vault'' = ''acme'' \<and> local_name_of ''acme/vault'' = ''vault''
    \<and> pi_qualified \<lparr>pi_namespace = ''acme'', pi_name = ''vault''\<rparr>
        \<noteq> pi_qualified \<lparr>pi_namespace = [], pi_name = ''vault''\<rparr>"
proof -
  have "plugin_identity_new ''acme'' ''vault'' = Inr \<lparr>pi_namespace = ''acme'', pi_name = ''vault''\<rparr>"
    "plugin_identity_new [] ''vault'' = Inr \<lparr>pi_namespace = [], pi_name = ''vault''\<rparr>"
    by code_simp+
  from qualify_injective [OF this] show ?thesis
    by (simp add: pi_qualified_def qualify_def namespace_separator_def)
qed

text \<open>
  The containment rule: a target is on the chain of an identity exactly when its namespace is the
  root, the identity's own, or a prefix of it that ends before a separator. So it holds upward and
  never down or sideways: \<open>tenant_a\<close> encloses \<open>tenant_a/team\<close> and not \<open>tenant_a2\<close>.
\<close>

theorem is_on_chain_encloses:
  "is_on_chain target of_id = (namespace_of target = [] \<or> namespace_of target = namespace_of of_id
     \<or> (\<exists>r. namespace_of of_id = namespace_of target @ namespace_separator # r))"
  unfolding is_on_chain_above ns_chain.above_def ancestor_iff encloses_def ..

text \<open>
  The candidates of a plugin reference are, nearest first and without repetition, all identities
  on the caller's chain with that local name and no other: resolution can neither leave the chain
  nor miss a plugin on it.
\<close>

theorem reference_candidates_exact:
  assumes "plugin_reference_candidates caller r = Inr cs"
    and "hd (i @ [CHR ''x'']) \<noteq> namespace_separator"
  shows "(i \<in> set cs) = (is_on_chain i caller \<and> local_name_of i = r)
    \<and> sorted_wrt (\<lambda>a b. length (namespace_of b) < length (namespace_of a)) cs"
proof -
  from candidates_on_chain [OF assms(1)] have r: "valid_name r"
    and cs: "cs = map (\<lambda>ns. qualify ns r) (ancestor_namespaces (namespace_of caller))"
    and c: "\<forall>c\<in>set cs. is_on_chain c caller \<and> local_name_of c = r" by auto
  have sep: "namespace_separator \<notin> set r" using valid_name_separators [OF r] by blast
  have "i \<in> set cs" if "is_on_chain i caller" "local_name_of i = r"
  proof -
    have "i = qualify (namespace_of i) r" using qualify_split [OF assms(2)] that(2) by simp
    with that(1) show ?thesis
      unfolding cs is_on_chain_above ns_chain.above_def by (metis imageI list.set_map)
  qed
  moreover have "sorted_wrt (\<lambda>a b. length (namespace_of b) < length (namespace_of a)) cs"
    unfolding cs sorted_wrt_map
    by (rule sorted_wrt_mono_rel [OF _ ancestors_longest_first]) (simp add: namespace_of_qualify [OF sep])
  ultimately show ?thesis using c by blast
qed

theorem reference_candidates_exact_witness:
  "plugin_reference_candidates ''acme/app'' ''vault'' = Inr [''acme/vault'', ''vault'']
    \<and> (''acme/vault'' \<in> set [''acme/vault'', ''vault''])
        = (is_on_chain ''acme/vault'' ''acme/app'' \<and> local_name_of ''acme/vault'' = ''vault'')"
proof -
  have e: "plugin_reference_candidates ''acme/app'' ''vault'' = Inr [''acme/vault'', ''vault'']"
    by code_simp
  have "hd (''acme/vault'' @ [CHR ''x'']) \<noteq> namespace_separator" by (simp add: namespace_separator_def)
  from reference_candidates_exact [OF e this] e show ?thesis by blast
qed

text \<open>
  Step type ownership is in the name: a plugin other than the kernel may declare exactly the step
  types \<open><its own name>.<name>\<close>, and the kernel the bare names (and those under its own prefix).
\<close>

theorem step_type_ownership:
  "(validate_step_type_name name p kernel_owned = Inr ()) =
     ((kernel_owned \<and> valid_name name)
      \<or> (\<exists>loc. name = p @ ''.'' @ loc \<and> valid_name p \<and> valid_name loc))"
proof (cases "split_once step_type_separator name")
  case None
  then have "step_type_separator \<notin> set name" by (simp add: split_once_None)
  then have "name \<noteq> p @ ''.'' @ loc" for loc by (auto simp: step_type_separator_def)
  with None show ?thesis
    by (auto simp: validate_step_type_name_def rbind_Inr_iff validate_name_Inr)
next
  case (Some q)
  obtain owner loc where q: "q = (owner, loc)" by (cases q)
  with Some have n: "name = owner @ step_type_separator # loc" "step_type_separator \<notin> set owner"
    by (auto dest: split_once_SomeD)
  have "\<not> valid_name name" using valid_name_separators [of name] n by auto
  moreover have "owner = p \<and> loc = l" if "name = p @ ''.'' @ l" "valid_name p" for l
  proof -
    have "split_once step_type_separator name = Some (p, l)"
      using that valid_name_separators [OF that(2)]
      by (auto simp: step_type_separator_def intro!: split_once_append)
    with Some q show ?thesis by simp
  qed
  moreover have "validate_step_type_name name p kernel_owned = Inr ()
      \<longleftrightarrow> valid_name owner \<and> valid_name loc \<and> owner = p"
    using Some q by (auto simp: validate_step_type_name_def rbind_Inr_iff validate_name_Inr)
  moreover have "name = owner @ ''.'' @ loc" using n(1) by (simp add: step_type_separator_def)
  ultimately show ?thesis by metis
qed

section \<open>Step ids and the DSL\<close>

text \<open>
  A validated step id lies in the lexer's identifier production, as \<open>NameKind::StepId\<close> promises.
  The production's keywords are the exception: \<open>true\<close>, \<open>false\<close> and \<open>null\<close> are accepted as step ids
  and cannot be referred to.
\<close>

lemma step_id_ident: "validate_name KStepId s = Inr () \<Longrightarrow> ident_text s"
  by (auto simp: validate_name_Inr valid_name_def ident_text_def is_ident_start_def is_ident_char_def
      is_alnum_def list_all_iff)

lemma step_id_keyword_unreachable:
  "validate_name KStepId ''null'' = Inr () \<and>
   parse_reference ''$steps.null'' = Inl (Fault (Unexpected ExpectedStepId 7))"
  by code_simp

end
