(* ===== verification/Permissions.thy ===== *)
theory Permissions
  imports Identity Json
begin

text \<open>
  The capability model of \<open>src/kernel/permissions.rs\<close>: permission strings and their parser, the
  matching of host, path and name patterns, the embedder's categories, and the default-deny checks.
  A rejection's message text is kept as a constructor with the values it is formatted from.
\<close>

section \<open>Patterns\<close>

datatype blob_op = BRead | BWrite | BDelete | BList | BStat | BWatch

datatype name_pattern = NAny | NExact string

datatype host_pattern = HAny | HSuffix string | HExact string

datatype path_pattern = PAny | PPrefix string | PExact string

definition name_matches :: "name_pattern \<Rightarrow> string \<Rightarrow> bool" where
  "name_matches pat name = (case pat of NAny \<Rightarrow> True | NExact n \<Rightarrow> n = name)"

definition host_matches :: "host_pattern \<Rightarrow> string \<Rightarrow> bool" where
  "host_matches pat host =
     (case pat of
        HAny \<Rightarrow> True
      | HExact h \<Rightarrow> eq_ignore_ascii_case h host
      | HSuffix suffix \<Rightarrow>
          if eq_ignore_ascii_case host suffix then True
          else (let with_dot = ''.'' @ suffix;
                    host_lower = ascii_lower host;
                    suffix_lower = ascii_lower with_dot
                in ends_with suffix_lower host_lower))"

definition path_matches :: "path_pattern \<Rightarrow> string \<Rightarrow> bool" where
  "path_matches pat key =
     (case pat of
        PAny \<Rightarrow> True
      | PExact p \<Rightarrow> p = key
      | PPrefix prefix \<Rightarrow> if key = prefix then True else starts_with (prefix @ ''/'') key)"

section \<open>Permissions and categories\<close>

datatype permission =
    NetworkEgress host_pattern
  | Blobs blob_op path_pattern
  | StepType string
  | InvokePlugin name_pattern
  | InvokeRole name_pattern
  | ProvideStepType string "string option"
  | BindNativeImpl string
  | AppDefined string json

record app_permission_category =
  ac_name :: string
  ac_validator :: "(string \<Rightarrow> string + unit) option"

definition app_permission_category_new :: "string \<Rightarrow> app_permission_category" where
  "app_permission_category_new name = \<lparr>ac_name = name, ac_validator = None\<rparr>"

definition with_validator ::
    "app_permission_category \<Rightarrow> (string \<Rightarrow> string + unit) \<Rightarrow> app_permission_category" where
  "with_validator c validator = c\<lparr>ac_validator := Some validator\<rparr>"

definition is_value_checked :: "app_permission_category \<Rightarrow> bool" where
  "is_value_checked c \<longleftrightarrow> ac_validator c \<noteq> None"

definition check_value :: "app_permission_category \<Rightarrow> string \<Rightarrow> string + unit" where
  "check_value c v = (case ac_validator c of Some f \<Rightarrow> f v | None \<Rightarrow> Inr ())"

datatype pattern_field =
  FHostPattern | FHostSuffix | FPathPattern | FPathPrefix | FStepTypeName | FImplRef | FInvokeTarget
  | FProvidedStepType | FProvidedSelector

datatype malformed =
    NetworkKind string
  | NetworkNeedsHost
  | BlobOpUnknown string
  | BlobsNeedPath
  | StepTypeNeedsName
  | BindKind string
  | BindNeedsImplRef
  | InvokeNeedsTarget
  | InvokeKind string
  | ProvideKind string
  | ProvideNeedsType
  | ProvideTrailingColon string
  | CategoryNoValue string
  | HostHasColon
  | HostEmptySuffix
  | GlobChar pattern_field char
  | BadName name_error

text \<open>The tail of an unknown-category message: none declared, or the declared names, sorted.\<close>

datatype known_categories = NoneDeclared | Declared "string list"

datatype permission_parse_error =
    PermEmpty
  | ReservedCategory string string
  | UnknownAppCategory string string known_categories
  | AppValueRejected string string string
  | Malformed string malformed

section \<open>Parsing\<close>

definition glob_chars :: "char list" where
  "glob_chars = [CHR ''*'', CHR ''?'', CHR ''['']"

definition reject_glob_chars ::
    "string \<Rightarrow> pattern_field \<Rightarrow> string \<Rightarrow> permission_parse_error + unit" where
  "reject_glob_chars raw field s =
     (case List.find (\<lambda>c. c \<in> set glob_chars) s of
        Some c \<Rightarrow> Inl (Malformed raw (GlobChar field c))
      | None \<Rightarrow> Inr ())"

definition name_rejection :: "string \<Rightarrow> name_error + unit \<Rightarrow> permission_parse_error + unit" where
  "name_rejection raw r = map_err (\<lambda>e. Malformed raw (BadName e)) r"

definition validate_permission_name ::
    "string \<Rightarrow> name_kind \<Rightarrow> string \<Rightarrow> permission_parse_error + unit" where
  "validate_permission_name raw kind name = name_rejection raw (validate_reference kind name)"

definition parse_host_pattern :: "string \<Rightarrow> string \<Rightarrow> permission_parse_error + host_pattern" where
  "parse_host_pattern raw s =
     (if s = ''*'' then Inr HAny
      else if CHR '':'' \<in> set s then Inl (Malformed raw HostHasColon)
      else case strip_prefix ''*.'' s of
        Some suffix \<Rightarrow>
          if suffix = [] then Inl (Malformed raw HostEmptySuffix)
          else rbind (reject_glob_chars raw FHostSuffix suffix) (\<lambda>_. Inr (HSuffix suffix))
      | None \<Rightarrow> rbind (reject_glob_chars raw FHostPattern s) (\<lambda>_. Inr (HExact s)))"

definition parse_path_pattern :: "string \<Rightarrow> string \<Rightarrow> permission_parse_error + path_pattern" where
  "parse_path_pattern raw s =
     (if s = ''*'' then Inr PAny
      else case strip_suffix ''/*'' s of
        Some prefix \<Rightarrow> rbind (reject_glob_chars raw FPathPrefix prefix) (\<lambda>_. Inr (PPrefix prefix))
      | None \<Rightarrow> rbind (reject_glob_chars raw FPathPattern s) (\<lambda>_. Inr (PExact s)))"

definition parse_network :: "string \<Rightarrow> string \<Rightarrow> permission_parse_error + permission" where
  "parse_network trimmed rest =
     (let (kind, pattern) = splitn2 (CHR '':'') rest in
      if kind \<noteq> ''egress'' then Inl (Malformed trimmed (NetworkKind kind))
      else if pattern = [] then Inl (Malformed trimmed NetworkNeedsHost)
      else rbind (parse_host_pattern trimmed pattern) (\<lambda>h. Inr (NetworkEgress h)))"

definition blob_op_of :: "string \<Rightarrow> blob_op option" where
  "blob_op_of s =
     (if s = ''read'' then Some BRead
      else if s = ''write'' then Some BWrite
      else if s = ''delete'' then Some BDelete
      else if s = ''list'' then Some BList
      else if s = ''stat'' then Some BStat
      else if s = ''watch'' then Some BWatch
      else None)"

definition parse_blobs :: "string \<Rightarrow> string \<Rightarrow> permission_parse_error + permission" where
  "parse_blobs trimmed rest =
     (let (op_str, prefix) = splitn2 (CHR '':'') rest in
      case blob_op_of op_str of
        None \<Rightarrow> Inl (Malformed trimmed (BlobOpUnknown op_str))
      | Some op \<Rightarrow>
          if prefix = [] then Inl (Malformed trimmed BlobsNeedPath)
          else rbind (parse_path_pattern trimmed prefix) (\<lambda>p. Inr (Blobs op p)))"

definition parse_step_type :: "string \<Rightarrow> string \<Rightarrow> permission_parse_error + permission" where
  "parse_step_type trimmed rest =
     (if rest = [] then Inl (Malformed trimmed StepTypeNeedsName)
      else rbind (reject_glob_chars trimmed FStepTypeName rest) (\<lambda>_.
           rbind (name_rejection trimmed (validate_step_type_reference rest)) (\<lambda>_.
             Inr (StepType rest))))"

definition parse_bind :: "string \<Rightarrow> string \<Rightarrow> permission_parse_error + permission" where
  "parse_bind trimmed rest =
     (let (what, target) = splitn2 (CHR '':'') rest in
      if what \<noteq> ''native_impl'' then Inl (Malformed trimmed (BindKind what))
      else if target = [] then Inl (Malformed trimmed BindNeedsImplRef)
      else rbind (reject_glob_chars trimmed FImplRef target) (\<lambda>_.
           rbind (name_rejection trimmed (validate_impl_ref target)) (\<lambda>_.
             Inr (BindNativeImpl target))))"

definition parse_invoke :: "string \<Rightarrow> string \<Rightarrow> permission_parse_error + permission" where
  "parse_invoke trimmed rest =
     (let (kind, name) = splitn2 (CHR '':'') rest in
      if name = [] then Inl (Malformed trimmed InvokeNeedsTarget)
      else if kind \<noteq> ''plugin'' \<and> kind \<noteq> ''role'' then Inl (Malformed trimmed (InvokeKind kind))
      else
        let name_kind = (if kind = ''plugin'' then KPlugin else KRole) in
        rbind (if name = ''*'' then Inr NAny
               else rbind (reject_glob_chars trimmed FInvokeTarget name) (\<lambda>_.
                    rbind (validate_permission_name trimmed name_kind name) (\<lambda>_.
                      Inr (NExact name)))) (\<lambda>pattern.
        Inr (if name_kind = KRole then InvokeRole pattern else InvokePlugin pattern)))"

definition parse_provide :: "string \<Rightarrow> string \<Rightarrow> permission_parse_error + permission" where
  "parse_provide raw rest =
     (let (what, target) = splitn2 (CHR '':'') rest in
      if what \<noteq> ''step_type'' then Inl (Malformed raw (ProvideKind what))
      else if target = [] then Inl (Malformed raw ProvideNeedsType)
      else
        rbind (case split_once (CHR '':'') target of
                 Some (t, sel) \<Rightarrow>
                   if sel = [] then Inl (Malformed raw (ProvideTrailingColon t))
                   else Inr (t, Some sel)
               | None \<Rightarrow> Inr (target, None)) (\<lambda>(step_type, selector).
        rbind (reject_glob_chars raw FProvidedStepType step_type) (\<lambda>_.
        rbind (name_rejection raw (validate_step_type_reference step_type)) (\<lambda>_.
        rbind (case selector of
                 None \<Rightarrow> Inr ()
               | Some sel \<Rightarrow>
                   rbind (reject_glob_chars raw FProvidedSelector sel) (\<lambda>_.
                     validate_permission_name raw KStepTypeSelector sel)) (\<lambda>_.
          Inr (ProvideStepType step_type selector))))))"

definition parse_app_defined :: "string \<Rightarrow> string \<Rightarrow> string \<Rightarrow> permission_parse_error + permission" where
  "parse_app_defined trimmed other rest =
     (if other = [] then Inl PermEmpty
      else if CHR ''.'' \<notin> set other then Inl (ReservedCategory trimmed other)
      else if rest = [] then Inl (Malformed trimmed (CategoryNoValue other))
      else Inr (AppDefined other (JString rest)))"

definition parse_permission :: "string \<Rightarrow> permission_parse_error + permission" where
  "parse_permission raw =
     (let trimmed = trim raw in
      if trimmed = [] then Inl PermEmpty
      else
        let (category, rest) = splitn2 (CHR '':'') trimmed in
        if category = ''network'' then parse_network trimmed rest
        else if category = ''blobs'' then parse_blobs trimmed rest
        else if category = ''step_type'' then parse_step_type trimmed rest
        else if category = ''provide'' then parse_provide trimmed rest
        else if category = ''bind'' then parse_bind trimmed rest
        else if category = ''invoke'' then parse_invoke trimmed rest
        else parse_app_defined trimmed category rest)"

definition parse_permission_list :: "string list \<Rightarrow> permission_parse_error + permission list" where
  "parse_permission_list raw = traverse parse_permission raw"

definition describe_known_categories :: "app_permission_category list \<Rightarrow> known_categories" where
  "describe_known_categories categories =
     (if categories = [] then NoneDeclared else Declared (sort (map ac_name categories)))"

definition parse_manifest_permission ::
    "app_permission_category list \<Rightarrow> string \<Rightarrow> permission_parse_error + permission" where
  "parse_manifest_permission categories entry =
     rbind (parse_permission entry) (\<lambda>parsed.
       case parsed of
         AppDefined kind v \<Rightarrow>
           (case List.find (\<lambda>c. ac_name c = kind) categories of
              None \<Rightarrow> Inl (UnknownAppCategory (trim entry) kind (describe_known_categories categories))
            | Some category \<Rightarrow>
                rbind (map_err (\<lambda>reason. AppValueRejected (trim entry) kind reason)
                  (check_value category (case as_str v of Some s \<Rightarrow> s | None \<Rightarrow> []))) (\<lambda>_.
                Inr parsed))
       | _ \<Rightarrow> Inr parsed)"

definition parse_manifest_permissions ::
    "string list \<Rightarrow> app_permission_category list \<Rightarrow> permission_parse_error + permission list" where
  "parse_manifest_permissions raw categories = traverse (parse_manifest_permission categories) raw"

datatype app_category_error =
    CategoryEmpty
  | CategoryNoDot string
  | CategoryColon string string
  | CategorySegment name_error

definition validate_app_category_name :: "string \<Rightarrow> app_category_error + unit" where
  "validate_app_category_name name =
     (if name = [] then Inl CategoryEmpty
      else if CHR ''.'' \<notin> set name then Inl (CategoryNoDot name)
      else if CHR '':'' \<in> set name then Inl (CategoryColon name (hd (split_on (CHR '':'') name)))
      else rbind (traverse (\<lambda>segment. map_err CategorySegment
             (validate_name KAppCategorySegment segment)) (split_on (CHR ''.'') name)) (\<lambda>_. Inr ()))"

section \<open>Checks\<close>

datatype permission_check = Granted | Denied string

definition is_granted :: "permission_check \<Rightarrow> bool" where
  "is_granted c \<longleftrightarrow> c = Granted"

fun blob_op_text :: "blob_op \<Rightarrow> string" where
  "blob_op_text BRead = ''read''"
| "blob_op_text BWrite = ''write''"
| "blob_op_text BDelete = ''delete''"
| "blob_op_text BList = ''list''"
| "blob_op_text BStat = ''stat''"
| "blob_op_text BWatch = ''watch''"

fun check_network_egress :: "permission list \<Rightarrow> string \<Rightarrow> permission_check" where
  "check_network_egress [] host = Denied (''network:egress:'' @ host)"
| "check_network_egress (g # gs) host =
     (case g of
        NetworkEgress pat \<Rightarrow> if host_matches pat host then Granted else check_network_egress gs host
      | _ \<Rightarrow> check_network_egress gs host)"

fun check_blobs :: "permission list \<Rightarrow> blob_op \<Rightarrow> string \<Rightarrow> permission_check" where
  "check_blobs [] op key = Denied (''blobs:'' @ blob_op_text op @ '':'' @ key)"
| "check_blobs (g # gs) op key =
     (case g of
        Blobs grant_op pattern \<Rightarrow>
          if grant_op = op \<and> path_matches pattern key then Granted else check_blobs gs op key
      | _ \<Rightarrow> check_blobs gs op key)"

fun check_invoke_role :: "permission list \<Rightarrow> string \<Rightarrow> permission_check" where
  "check_invoke_role [] role = Denied (''invoke:role:'' @ role)"
| "check_invoke_role (g # gs) role =
     (case g of
        InvokeRole pat \<Rightarrow> if name_matches pat role then Granted else check_invoke_role gs role
      | _ \<Rightarrow> check_invoke_role gs role)"

fun check_step_type :: "permission list \<Rightarrow> string \<Rightarrow> permission_check" where
  "check_step_type [] step_type = Denied (''step_type:'' @ step_type)"
| "check_step_type (g # gs) step_type =
     (case g of
        StepType name \<Rightarrow> if name = step_type then Granted else check_step_type gs step_type
      | _ \<Rightarrow> check_step_type gs step_type)"

section \<open>The text of a permission\<close>

definition glob_free :: "string \<Rightarrow> bool" where
  "glob_free s \<longleftrightarrow> (\<forall>c\<in>set s. c \<notin> set glob_chars)"

fun host_text :: "host_pattern \<Rightarrow> string" where
  "host_text HAny = ''*''"
| "host_text (HSuffix s) = ''*.'' @ s"
| "host_text (HExact h) = h"

fun path_text :: "path_pattern \<Rightarrow> string" where
  "path_text PAny = ''*''"
| "path_text (PPrefix p) = p @ ''/*''"
| "path_text (PExact p) = p"

fun name_text :: "name_pattern \<Rightarrow> string" where
  "name_text NAny = ''*''"
| "name_text (NExact n) = n"

fun host_wf :: "host_pattern \<Rightarrow> bool" where
  "host_wf HAny \<longleftrightarrow> True"
| "host_wf (HSuffix s) \<longleftrightarrow> s \<noteq> [] \<and> glob_free s \<and> CHR '':'' \<notin> set s"
| "host_wf (HExact h) \<longleftrightarrow> h \<noteq> [] \<and> glob_free h \<and> CHR '':'' \<notin> set h"

fun path_wf :: "path_pattern \<Rightarrow> bool" where
  "path_wf PAny \<longleftrightarrow> True"
| "path_wf (PPrefix p) \<longleftrightarrow> glob_free p"
| "path_wf (PExact p) \<longleftrightarrow> p \<noteq> [] \<and> glob_free p"

fun name_pattern_wf :: "name_pattern \<Rightarrow> bool" where
  "name_pattern_wf NAny \<longleftrightarrow> True"
| "name_pattern_wf (NExact n) \<longleftrightarrow> valid_name n"

fun permission_text :: "permission \<Rightarrow> string" where
  "permission_text (NetworkEgress h) = ''network:egress:'' @ host_text h"
| "permission_text (Blobs op p) = ''blobs:'' @ blob_op_text op @ '':'' @ path_text p"
| "permission_text (StepType n) = ''step_type:'' @ n"
| "permission_text (InvokePlugin p) = ''invoke:plugin:'' @ name_text p"
| "permission_text (InvokeRole p) = ''invoke:role:'' @ name_text p"
| "permission_text (ProvideStepType t sel) =
     ''provide:step_type:'' @ t @ (case sel of None \<Rightarrow> [] | Some s \<Rightarrow> '':'' @ s)"
| "permission_text (BindNativeImpl r) = ''bind:native_impl:'' @ r"
| "permission_text (AppDefined kind v) = kind @ '':'' @ (case as_str v of Some s \<Rightarrow> s | None \<Rightarrow> [])"

definition step_type_ref_ok :: "string \<Rightarrow> bool" where
  "step_type_ref_ok s \<longleftrightarrow>
     valid_name s \<or> (\<exists>owner loc. s = owner @ ''.'' @ loc \<and> valid_name owner \<and> valid_name loc)"

definition impl_ref_ok :: "string \<Rightarrow> bool" where
  "impl_ref_ok r \<longleftrightarrow> list_all valid_name (split_on (CHR ''.'') r)"

fun permission_wf :: "permission \<Rightarrow> bool" where
  "permission_wf (NetworkEgress h) \<longleftrightarrow> host_wf h"
| "permission_wf (Blobs op p) \<longleftrightarrow> path_wf p"
| "permission_wf (StepType n) \<longleftrightarrow> step_type_ref_ok n"
| "permission_wf (InvokePlugin p) \<longleftrightarrow> name_pattern_wf p"
| "permission_wf (InvokeRole p) \<longleftrightarrow> name_pattern_wf p"
| "permission_wf (ProvideStepType t sel) \<longleftrightarrow>
     step_type_ref_ok t \<and> (case sel of None \<Rightarrow> True | Some s \<Rightarrow> valid_name s)"
| "permission_wf (BindNativeImpl r) \<longleftrightarrow> impl_ref_ok r"
| "permission_wf (AppDefined kind v) \<longleftrightarrow> CHR ''.'' \<in> set kind \<and> CHR '':'' \<notin> set kind
     \<and> (case v of JString s \<Rightarrow> s \<noteq> [] | _ \<Rightarrow> False)"

section \<open>The parsers accept exactly the texts\<close>

lemma reject_Inr [result_simps]: "reject_glob_chars raw f s = Inr u \<longleftrightarrow> glob_free s"
proof (cases "List.find (\<lambda>c. c \<in> set glob_chars) s")
  case None
  then have "glob_free s" by (auto simp: find_None_iff glob_free_def)
  with None show ?thesis by (simp add: reject_glob_chars_def)
next
  case (Some c)
  then have "c \<in> set s \<and> c \<in> set glob_chars" by (auto simp: find_Some_iff)
  then have "\<not> glob_free s" by (auto simp: glob_free_def)
  with Some show ?thesis by (simp add: reject_glob_chars_def)
qed

lemma name_rejection_Inr [result_simps]: "name_rejection raw r = Inr u \<longleftrightarrow> r = Inr u"
  by (simp add: name_rejection_def)

lemma glob_chars_not_ident: "c \<in> set glob_chars \<Longrightarrow> \<not> is_ident_char c \<and> c \<noteq> CHR ''.''"
  by (auto simp: glob_chars_def is_ident_char_def is_alnum_def is_alpha_def is_digit_def byte_def)

lemma valid_name_chars: "valid_name n \<Longrightarrow> c \<in> set n \<Longrightarrow> is_ident_char c"
  by (simp add: valid_name_def list_all_iff)

lemma valid_name_clean: "valid_name n \<Longrightarrow> glob_free n \<and> CHR '':'' \<notin> set n \<and> CHR ''.'' \<notin> set n \<and> n \<noteq> []"
proof -
  assume n: "valid_name n"
  have "\<not> is_ident_char (CHR '':'')" "\<not> is_ident_char (CHR ''.'')"
    by (simp_all add: is_ident_char_def is_alnum_def is_alpha_def is_digit_def byte_def)
  with valid_name_chars [OF n] have "CHR '':'' \<notin> set n" "CHR ''.'' \<notin> set n" by blast+
  moreover have "glob_free n"
    unfolding glob_free_def using valid_name_chars [OF n] glob_chars_not_ident by blast
  moreover have "n \<noteq> []" using n by (simp add: valid_name_def)
  ultimately show ?thesis by blast
qed

lemma step_type_ref_Inr [result_simps]:
  "validate_step_type_reference s = Inr u \<longleftrightarrow> step_type_ref_ok s"
proof (cases "split_once step_type_separator s")
  case None
  then have "CHR ''.'' \<notin> set s" by (simp add: split_once_None step_type_separator_def)
  with None show ?thesis
    by (auto simp: validate_step_type_reference_def validate_name_Inr step_type_ref_ok_def)
next
  case (Some q)
  obtain a b where q: "q = (a, b)" by (cases q)
  with Some have s: "s = a @ CHR ''.'' # b" "CHR ''.'' \<notin> set a"
    by (auto dest!: split_once_SomeD simp: step_type_separator_def)
  then have "\<not> valid_name s" using valid_name_clean [of s] by auto
  moreover have "a = owner \<and> b = loc" if "s = owner @ ''.'' @ loc" "valid_name owner" for owner loc
  proof -
    have "split_once step_type_separator s = Some (owner, loc)"
      using that valid_name_clean [OF that(2)]
      by (auto simp: step_type_separator_def intro!: split_once_append)
    with Some q show ?thesis by simp
  qed
  ultimately have "step_type_ref_ok s \<longleftrightarrow> valid_name a \<and> valid_name b"
    using s(1) unfolding step_type_ref_ok_def append_Cons append_Nil by blast
  then show ?thesis using Some q
    by (auto simp: validate_step_type_reference_def rbind_Inr_iff validate_name_Inr)
qed

lemma step_type_ref_clean:
  assumes "step_type_ref_ok s"
  shows "glob_free s \<and> CHR '':'' \<notin> set s \<and> s \<noteq> []"
proof (cases "valid_name s")
  case True
  then show ?thesis using valid_name_clean by blast
next
  case False
  with assms obtain a b where s: "s = a @ ''.'' @ b" "valid_name a" "valid_name b"
    by (auto simp: step_type_ref_ok_def)
  have "CHR ''.'' \<notin> set glob_chars" by (simp add: glob_chars_def)
  with valid_name_clean [OF s(2)] valid_name_clean [OF s(3)] show ?thesis
    unfolding s(1) glob_free_def by auto
qed

lemma split_on_covers: "x \<in> set s \<Longrightarrow> x \<noteq> c \<Longrightarrow> \<exists>w\<in>set (split_on c s). x \<in> set w"
  by (induction s) (auto split: list.splits)

lemma validate_segments_Inr: "validate_segments segs = Inr u \<longleftrightarrow> list_all valid_name segs"
  by (induction segs) (auto simp: rbind_Inr_iff validate_name_Inr)

lemma impl_ref_clean:
  assumes "impl_ref_ok r"
  shows "glob_free r \<and> namespace_separator \<notin> set r \<and> r \<noteq> []"
proof -
  have w: "glob_free w" "namespace_separator \<notin> set w" if "w \<in> set (split_on (CHR ''.'') r)" for w
    using assms that valid_name_clean valid_name_separators by (auto simp: impl_ref_ok_def list_all_iff)
  have "glob_free r"
    unfolding glob_free_def
  proof
    fix c
    assume "c \<in> set r"
    then show "c \<notin> set glob_chars"
      using split_on_covers [of c r "CHR ''.''"] w(1) glob_chars_not_ident [of c]
      by (auto simp: glob_free_def)
  qed
  moreover have "namespace_separator \<notin> set r"
    using split_on_covers [of namespace_separator r "CHR ''.''"] w(2)
    by (auto simp: namespace_separator_def)
  moreover have "r \<noteq> []" using assms by (auto simp: impl_ref_ok_def valid_name_def)
  ultimately show ?thesis by blast
qed

lemma impl_ref_Inr [result_simps]: "validate_impl_ref r = Inr u \<longleftrightarrow> impl_ref_ok r"
  using impl_ref_clean [of r]
  by (auto simp: validate_impl_ref_def validate_segments_Inr impl_ref_ok_def)

lemma splitn2_iff: "splitn2 c s = (a, b) \<longleftrightarrow> c \<notin> set s \<and> a = s \<and> b = [] \<or> s = a @ c # b \<and> c \<notin> set a"
proof (cases "split_once c s")
  case None
  then have "c \<notin> set s" by (simp add: split_once_None)
  with None show ?thesis by (auto simp: splitn2_def)
next
  case (Some p)
  obtain x y where p: "p = (x, y)" by (cases p)
  with Some have s: "s = x @ c # y" "c \<notin> set x" by (auto dest: split_once_SomeD)
  have "x = a \<and> y = b" if "s = a @ c # b" "c \<notin> set a"
    using split_once_append [OF that(2), of b] that(1) Some p by simp
  moreover have "splitn2 c s = (x, y)" using Some p by (simp add: splitn2_def)
  moreover have "c \<in> set s" unfolding s(1) by simp
  ultimately show ?thesis using s by (metis prod.inject)
qed

lemma splitn2_rest: "splitn2 c s = (a, b) \<Longrightarrow> b \<noteq> [] \<Longrightarrow> s = a @ c # b \<and> c \<notin> set a"
  by (auto simp: splitn2_iff)

lemma glob_free_star: "glob_free s \<Longrightarrow> CHR ''*'' \<notin> set s"
  by (auto simp: glob_free_def glob_chars_def)

lemma host_text_wf_iff:
  "host_wf h \<and> ''*'' = host_text h \<longleftrightarrow> h = HAny"
  "host_wf h \<and> ''*.'' @ x = host_text h \<longleftrightarrow> h = HSuffix x \<and> host_wf h"
  by (cases h; auto dest: glob_free_star)+

lemma host_pattern_Inr [result_simps]:
  assumes "s \<noteq> []"
  shows "parse_host_pattern raw s = Inr h \<longleftrightarrow> host_wf h \<and> s = host_text h"
proof (cases "s = ''*''")
  case True
  then show ?thesis using host_text_wf_iff(1) [of h] by (auto simp: parse_host_pattern_def)
next
  case star: False
  show ?thesis
  proof (cases "CHR '':'' \<in> set s")
    case True
    then have "\<not> (host_wf h \<and> s = host_text h)" by (cases h) auto
    with True star show ?thesis by (simp add: parse_host_pattern_def)
  next
    case colon: False
    show ?thesis
    proof (cases "strip_prefix ''*.'' s")
      case None
      then have "s \<noteq> ''*.'' @ x" for x by (metis strip_prefix_append option.distinct(1))
      then have "host_wf h \<and> s = host_text h \<longleftrightarrow> glob_free s \<and> h = HExact s"
        using star assms colon by (cases h) auto
      with None star colon show ?thesis
        by (auto simp: parse_host_pattern_def rbind_Inr_iff reject_Inr)
    next
      case (Some x)
      then have s: "s = ''*.'' @ x" by (simp only: strip_prefix_Some)
      have "parse_host_pattern raw s = Inr h \<longleftrightarrow> x \<noteq> [] \<and> glob_free x \<and> h = HSuffix x"
        using Some star colon by (auto simp: parse_host_pattern_def rbind_Inr_iff reject_Inr)
      moreover have "host_wf h \<and> s = host_text h \<longleftrightarrow> h = HSuffix x \<and> host_wf h"
        unfolding s by (rule host_text_wf_iff(2))
      moreover have "CHR '':'' \<notin> set x" using colon s by simp
      ultimately show ?thesis by auto
    qed
  qed
qed

lemma path_text_wf_iff:
  "path_wf h \<and> ''*'' = path_text h \<longleftrightarrow> h = PAny"
  "path_wf h \<and> x @ ''/*'' = path_text h \<longleftrightarrow> h = PPrefix x \<and> path_wf h"
  by (cases h; auto dest: glob_free_star)+

lemma path_pattern_Inr [result_simps]:
  assumes "s \<noteq> []"
  shows "parse_path_pattern raw s = Inr h \<longleftrightarrow> path_wf h \<and> s = path_text h"
proof (cases "s = ''*''")
  case True
  then show ?thesis using path_text_wf_iff(1) [of h] by (auto simp: parse_path_pattern_def)
next
  case star: False
  show ?thesis
  proof (cases "strip_suffix ''/*'' s")
    case None
    then have "s \<noteq> x @ ''/*''" for x by (metis strip_suffix_append option.distinct(1))
    then have "path_wf h \<and> s = path_text h \<longleftrightarrow> glob_free s \<and> h = PExact s"
      using star assms by (cases h) auto
    with None star show ?thesis
      by (auto simp: parse_path_pattern_def rbind_Inr_iff reject_Inr)
  next
    case (Some x)
    then have s: "s = x @ ''/*''" by (simp only: strip_suffix_Some)
    have "parse_path_pattern raw s = Inr h \<longleftrightarrow> glob_free x \<and> h = PPrefix x"
      using Some star by (auto simp: parse_path_pattern_def rbind_Inr_iff reject_Inr)
    moreover have "path_wf h \<and> s = path_text h \<longleftrightarrow> h = PPrefix x \<and> path_wf h"
      unfolding s by (rule path_text_wf_iff(2))
    ultimately show ?thesis by auto
  qed
qed

lemma split_unique: "(c::char) \<notin> set a \<Longrightarrow> c \<notin> set a' \<Longrightarrow> a @ c # b = a' @ c # b' \<longleftrightarrow> a = a' \<and> b = b'"
  using split_once_append [of c] by (metis option.inject prod.inject)

text \<open>The category of a permission and what follows the first colon of its text.\<close>

fun perm_category :: "permission \<Rightarrow> string" where
  "perm_category (NetworkEgress h) = ''network''"
| "perm_category (Blobs op p) = ''blobs''"
| "perm_category (StepType n) = ''step_type''"
| "perm_category (InvokePlugin p) = ''invoke''"
| "perm_category (InvokeRole p) = ''invoke''"
| "perm_category (ProvideStepType t sel) = ''provide''"
| "perm_category (BindNativeImpl r) = ''bind''"
| "perm_category (AppDefined kind v) = kind"

fun perm_kind :: "permission \<Rightarrow> string" where
  "perm_kind (NetworkEgress h) = ''egress''"
| "perm_kind (Blobs op p) = blob_op_text op"
| "perm_kind (InvokePlugin p) = ''plugin''"
| "perm_kind (InvokeRole p) = ''role''"
| "perm_kind (ProvideStepType t sel) = ''step_type''"
| "perm_kind (BindNativeImpl r) = ''native_impl''"
| "perm_kind _ = []"

fun perm_target :: "permission \<Rightarrow> string" where
  "perm_target (NetworkEgress h) = host_text h"
| "perm_target (Blobs op p) = path_text p"
| "perm_target (StepType n) = n"
| "perm_target (InvokePlugin p) = name_text p"
| "perm_target (InvokeRole p) = name_text p"
| "perm_target (ProvideStepType t sel) = t @ (case sel of None \<Rightarrow> [] | Some s \<Rightarrow> '':'' @ s)"
| "perm_target (BindNativeImpl r) = r"
| "perm_target (AppDefined kind v) = (case as_str v of Some s \<Rightarrow> s | None \<Rightarrow> [])"

definition perm_rest :: "permission \<Rightarrow> string" where
  "perm_rest p = (if perm_kind p = [] then perm_target p else perm_kind p @ CHR '':'' # perm_target p)"

lemma permission_text_split: "permission_text p = perm_category p @ CHR '':'' # perm_rest p"
proof (cases p)
  case (Blobs op pat)
  then show ?thesis by (cases op) (auto simp: perm_rest_def)
qed (auto simp: perm_rest_def)

lemma perm_no_colon: "permission_wf p \<Longrightarrow> CHR '':'' \<notin> set (perm_category p) \<and> CHR '':'' \<notin> set (perm_kind p)"
proof (cases p)
  case (Blobs op pat)
  then show ?thesis by (cases op) auto
qed auto

lemma name_text_nonempty [simp]:
  "name_pattern_wf pat \<Longrightarrow> name_text pat \<noteq> []" "name_pattern_wf pat \<Longrightarrow> [] \<noteq> name_text pat"
  by (cases pat; auto simp: valid_name_def)+

lemma host_text_nonempty [simp]:
  "host_wf h \<Longrightarrow> host_text h \<noteq> []" "host_wf h \<Longrightarrow> [] \<noteq> host_text h"
  by (cases h; auto)+

lemma path_text_nonempty [simp]:
  "path_wf h \<Longrightarrow> path_text h \<noteq> []" "path_wf h \<Longrightarrow> [] \<noteq> path_text h"
  by (cases h; auto)+

lemma perm_target_nonempty: "permission_wf p \<Longrightarrow> perm_target p \<noteq> []"
proof (cases p)
  case (NetworkEgress h)
  then show "permission_wf p \<Longrightarrow> ?thesis" by (cases h) auto
next
  case (Blobs op h)
  then show "permission_wf p \<Longrightarrow> ?thesis" by (cases h) auto
next
  case (AppDefined kind v)
  then show "permission_wf p \<Longrightarrow> ?thesis" by (cases v) (auto simp: as_str_def)
qed (auto dest: name_text_nonempty step_type_ref_clean impl_ref_clean)

text \<open>A sub-parser that splits its argument once more, on the two halves of the split.\<close>

lemma perm_rest_split:
  assumes "permission_wf p" "perm_kind p \<noteq> []" "splitn2 (CHR '':'') rest = (kind, target)"
  shows "rest = perm_rest p \<longleftrightarrow> kind = perm_kind p \<and> target = perm_target p"
proof -
  have r: "perm_rest p = perm_kind p @ CHR '':'' # perm_target p"
    using assms(2) by (simp add: perm_rest_def)
  note nc = perm_no_colon [OF assms(1)]
  show ?thesis
  proof
    assume "rest = perm_rest p"
    then have "splitn2 (CHR '':'') rest = (perm_kind p, perm_target p)"
      unfolding r using nc by (simp add: splitn2_append)
    with assms(3) show "kind = perm_kind p \<and> target = perm_target p" by simp
  next
    assume k: "kind = perm_kind p \<and> target = perm_target p"
    then have "target \<noteq> []" using perm_target_nonempty [OF assms(1)] by simp
    from splitn2_rest [OF assms(3) this] k show "rest = perm_rest p" by (simp add: r)
  qed
qed

lemma network_Inr: "parse_network t rest = Inr p \<longleftrightarrow>
    permission_wf p \<and> rest = perm_rest p \<and> (\<exists>h. p = NetworkEgress h)"
proof -
  obtain k x where s: "splitn2 (CHR '':'') rest = (k, x)" by (cases "splitn2 (CHR '':'') rest")
  have "parse_network t rest = Inr p \<longleftrightarrow>
      (\<exists>h. p = NetworkEgress h \<and> k = ''egress'' \<and> x = host_text h \<and> host_wf h)"
    using host_pattern_Inr [of x t]
    by (cases "x = []") (auto simp: parse_network_def s rbind_Inr_iff)
  then show ?thesis using perm_rest_split [OF _ _ s, of p]
    by (cases p) (simp_all cong: conj_cong, (blast | auto)?)
qed

lemma blob_op_text_nonempty [simp]: "blob_op_text op \<noteq> []"
  by (cases op) auto

lemma blob_op_of_Some: "blob_op_of s = Some op \<longleftrightarrow> s = blob_op_text op"
  by (cases op) (auto simp: blob_op_of_def split: if_splits)

lemma blobs_Inr: "parse_blobs t rest = Inr p \<longleftrightarrow>
    permission_wf p \<and> rest = perm_rest p \<and> (\<exists>op h. p = Blobs op h)"
proof -
  obtain k x where s: "splitn2 (CHR '':'') rest = (k, x)" by (cases "splitn2 (CHR '':'') rest")
  have "parse_blobs t rest = Inr p \<longleftrightarrow>
      (\<exists>op h. p = Blobs op h \<and> k = blob_op_text op \<and> x = path_text h \<and> path_wf h)"
    using path_pattern_Inr [of x t]
    by (cases "x = []")
      (auto simp: parse_blobs_def s rbind_Inr_iff blob_op_of_Some [symmetric] split: option.splits)
  then show ?thesis using perm_rest_split [OF _ _ s, of p]
    by (cases p) (simp_all cong: conj_cong, (blast | auto)?)
qed

lemma step_type_Inr: "parse_step_type t rest = Inr p \<longleftrightarrow>
    permission_wf p \<and> rest = perm_rest p \<and> (\<exists>n. p = StepType n)"
  using step_type_ref_clean [of rest]
  by (auto simp: parse_step_type_def rbind_Inr_iff result_simps perm_rest_def)

lemma bind_Inr: "parse_bind t rest = Inr p \<longleftrightarrow>
    permission_wf p \<and> rest = perm_rest p \<and> (\<exists>r. p = BindNativeImpl r)"
proof -
  obtain k x where s: "splitn2 (CHR '':'') rest = (k, x)" by (cases "splitn2 (CHR '':'') rest")
  have "parse_bind t rest = Inr p \<longleftrightarrow> p = BindNativeImpl x \<and> k = ''native_impl'' \<and> impl_ref_ok x"
    using impl_ref_clean [of x]
    by (auto simp: parse_bind_def s rbind_Inr_iff result_simps)
  then show ?thesis using perm_rest_split [OF _ _ s, of p]
    by (cases p) (simp_all cong: conj_cong, (blast | auto)?)
qed

lemma name_pattern_Inr:
  "x \<noteq> [] \<Longrightarrow>
    ((if x = ''*'' then Inr NAny
      else rbind (reject_glob_chars t FInvokeTarget x) (\<lambda>_.
           rbind (validate_permission_name t k x) (\<lambda>_. Inr (NExact x)))) = Inr pat) =
    (if k \<noteq> KStepId then name_pattern_wf pat \<and> x = name_text pat
     else name_pattern_wf pat \<and> x = name_text pat \<and> (x \<noteq> ''*'' \<longrightarrow> \<not> is_digit (hd x)))"
  using valid_name_clean [of x] glob_free_star [of "''*''"]
  by (cases pat) (auto simp: rbind_Inr_iff result_simps validate_permission_name_def
      validate_reference_def validate_name_Inr)

lemma invoke_Inr: "parse_invoke t rest = Inr p \<longleftrightarrow>
    permission_wf p \<and> rest = perm_rest p \<and> ((\<exists>pat. p = InvokePlugin pat) \<or> (\<exists>pat. p = InvokeRole pat))"
proof -
  obtain k x where s: "splitn2 (CHR '':'') rest = (k, x)" by (cases "splitn2 (CHR '':'') rest")
  have "parse_invoke t rest = Inr p \<longleftrightarrow> (\<exists>pat. name_pattern_wf pat \<and> x = name_text pat
      \<and> (k = ''plugin'' \<and> p = InvokePlugin pat \<or> k = ''role'' \<and> p = InvokeRole pat))"
    by (cases "x = []") (auto simp: parse_invoke_def s Let_def rbind_Inr_iff name_pattern_Inr)
  then show ?thesis using perm_rest_split [OF _ _ s, of p]
    by (cases p) (simp_all cong: conj_cong, (blast | auto)+)
qed

lemma provide_Inr: "parse_provide t rest = Inr p \<longleftrightarrow>
    permission_wf p \<and> rest = perm_rest p \<and> (\<exists>st sel. p = ProvideStepType st sel)"
proof -
  obtain k x where s: "splitn2 (CHR '':'') rest = (k, x)" by (cases "splitn2 (CHR '':'') rest")
  let ?sel = "\<lambda>sel. case sel of None \<Rightarrow> [] | Some v \<Rightarrow> '':'' @ v"
  have "parse_provide t rest = Inr p \<longleftrightarrow>
      (\<exists>st sel. p = ProvideStepType st sel \<and> permission_wf p \<and> k = ''step_type'' \<and> x = st @ ?sel sel)"
  proof (cases "split_once (CHR '':'') x")
    case None
    then have c: "CHR '':'' \<notin> set x" by (simp add: split_once_None)
    have "x = st @ ?sel sel \<longleftrightarrow> sel = None \<and> st = x" for st sel using c by (cases sel) auto
    with None s show ?thesis using step_type_ref_clean [of x]
      by (auto simp: parse_provide_def rbind_Inr_iff result_simps)
  next
    case (Some q)
    obtain a b where q: "q = (a, b)" by (cases q)
    with Some have x: "x = a @ CHR '':'' # b" "CHR '':'' \<notin> set a" by (auto dest: split_once_SomeD)
    have split: "x = st @ ?sel sel \<longleftrightarrow> sel = Some b \<and> st = a" if "permission_wf (ProvideStepType st sel)" for st sel
      using x that split_unique [of "CHR '':''" a st b] step_type_ref_clean [of st] by (cases sel) auto
    have "x \<noteq> []" using x by simp
    then have parse: "parse_provide t rest = Inr p \<longleftrightarrow> p = ProvideStepType a (Some b) \<and> permission_wf p \<and> k = ''step_type''"
      using Some q s step_type_ref_clean [of a] valid_name_clean [of b]
      by (cases "b = []") (auto simp: parse_provide_def rbind_Inr_iff result_simps validate_permission_name_def
          validate_reference_def validate_name_Inr valid_name_def)
    show ?thesis
    proof (cases "\<exists>st sel. p = ProvideStepType st sel")
      case True
      then obtain st sel where "p = ProvideStepType st sel" by blast
      with parse split [of st sel] show ?thesis by (simp cong: conj_cong) fastforce
    next
      case False
      with parse show ?thesis by blast
    qed
  qed
  then show ?thesis using perm_rest_split [OF _ _ s, of p]
    by (cases p) (simp_all cong: conj_cong, (blast | auto)?)
qed

lemma app_Inr: "CHR '':'' \<notin> set cat \<Longrightarrow> parse_app_defined t cat rest = Inr p \<longleftrightarrow>
    permission_wf p \<and> rest = perm_rest p \<and> (\<exists>v. p = AppDefined cat v)"
  by (auto simp: parse_app_defined_def perm_rest_def as_str_def split: json.splits)

lemma perm_category_cases:
  assumes "permission_wf p"
  shows "(perm_category p = ''network'') = (\<exists>h. p = NetworkEgress h)"
    "(perm_category p = ''blobs'') = (\<exists>op h. p = Blobs op h)"
    "(perm_category p = ''step_type'') = (\<exists>n. p = StepType n)"
    "(perm_category p = ''provide'') = (\<exists>st sel. p = ProvideStepType st sel)"
    "(perm_category p = ''bind'') = (\<exists>r. p = BindNativeImpl r)"
    "(perm_category p = ''invoke'') = ((\<exists>pat. p = InvokePlugin pat) \<or> (\<exists>pat. p = InvokeRole pat))"
  using assms by (cases p; auto)+

lemma parse_permission_Inr:
  "parse_permission raw = Inr p \<longleftrightarrow> permission_wf p \<and> trim raw = permission_text p"
proof -
  obtain cat rest where s: "splitn2 (CHR '':'') (trim raw) = (cat, rest)"
    by (cases "splitn2 (CHR '':'') (trim raw)")
  have tx: "trim raw = permission_text p \<longleftrightarrow> cat = perm_category p \<and> rest = perm_rest p"
    if "permission_wf p"
  proof
    assume "trim raw = permission_text p"
    then have "splitn2 (CHR '':'') (trim raw) = (perm_category p, perm_rest p)"
      using perm_no_colon [OF that] by (simp add: permission_text_split splitn2_append)
    with s show "cat = perm_category p \<and> rest = perm_rest p" by simp
  next
    assume a: "cat = perm_category p \<and> rest = perm_rest p"
    then have "rest \<noteq> []" using perm_target_nonempty [OF that] by (simp add: perm_rest_def)
    from splitn2_rest [OF s this] a show "trim raw = permission_text p"
      by (simp add: permission_text_split)
  qed
  have colon: "CHR '':'' \<notin> set cat \<or> rest = []" using s by (auto simp: splitn2_iff)
  have "parse_permission raw = Inr p \<longleftrightarrow> permission_wf p \<and> cat = perm_category p \<and> rest = perm_rest p"
  proof (cases "trim raw = []")
    case True
    then have "cat = []" using s by (auto simp: splitn2_iff)
    moreover have "permission_wf p \<Longrightarrow> perm_category p \<noteq> []" by (cases p) auto
    ultimately show ?thesis using True by (auto simp: parse_permission_def)
  next
    case False
    then have eq: "parse_permission raw = (if cat = ''network'' then parse_network (trim raw) rest
        else if cat = ''blobs'' then parse_blobs (trim raw) rest
        else if cat = ''step_type'' then parse_step_type (trim raw) rest
        else if cat = ''provide'' then parse_provide (trim raw) rest
        else if cat = ''bind'' then parse_bind (trim raw) rest
        else if cat = ''invoke'' then parse_invoke (trim raw) rest
        else parse_app_defined (trim raw) cat rest)"
      using s by (simp add: parse_permission_def Let_def)
    show ?thesis
    proof (cases "cat \<in> {''network'', ''blobs'', ''step_type'', ''provide'', ''bind'', ''invoke''}")
      case True
      then show ?thesis
        unfolding eq using perm_category_cases [of p]
        by (elim insertE emptyE)
          (simp_all add: network_Inr blobs_Inr step_type_Inr provide_Inr bind_Inr invoke_Inr, metis+)
    next
      case False
      have no_app: "cat = perm_category p \<longleftrightarrow> (\<exists>v. p = AppDefined cat v)" using False by (cases p) auto
      show ?thesis
      proof (cases "rest = []")
        case True
        have "permission_wf p \<Longrightarrow> perm_rest p \<noteq> []"
          using perm_target_nonempty [of p] by (simp add: perm_rest_def)
        with True False show ?thesis by (auto simp: eq parse_app_defined_def)
      next
        case rest: False
        with colon app_Inr [of cat "trim raw" rest p] False no_app show ?thesis
          by (simp add: eq) blast
      qed
    qed
  qed
  with tx show ?thesis by auto
qed

section \<open>Default deny\<close>

text \<open>
  The contract the four checks share: nothing is granted by an empty grant set, and a grant set
  authorises a request exactly when one of its grants does.
\<close>

locale default_deny =
  fixes check :: "permission list \<Rightarrow> 'r \<Rightarrow> permission_check"
    and authorises :: "permission \<Rightarrow> 'r \<Rightarrow> bool"
  assumes deny_empty: "check [] r \<noteq> Granted"
    and check_step: "check (g # gs) r = Granted \<longleftrightarrow> authorises g r \<or> check gs r = Granted"
begin

lemma granted_iff: "check gs r = Granted \<longleftrightarrow> (\<exists>g\<in>set gs. authorises g r)"
  by (induction gs) (auto simp: deny_empty check_step)

lemma granted_mono: "set gs \<subseteq> set hs \<Longrightarrow> check gs r = Granted \<Longrightarrow> check hs r = Granted"
  by (auto simp: granted_iff)

lemma granted_append: "check (gs @ hs) r = Granted \<longleftrightarrow> check gs r = Granted \<or> check hs r = Granted"
  by (auto simp: granted_iff)

end

interpretation egress_check: default_deny check_network_egress
  "\<lambda>g host. \<exists>pat. g = NetworkEgress pat \<and> host_matches pat host"
  by unfold_locales (auto split: permission.splits if_splits)

interpretation blob_check: default_deny "\<lambda>gs (op, key). check_blobs gs op key"
  "\<lambda>g (op, key). \<exists>pat. g = Blobs op pat \<and> path_matches pat key"
  by unfold_locales (auto split: permission.splits if_splits)

interpretation role_check: default_deny check_invoke_role
  "\<lambda>g role. \<exists>pat. g = InvokeRole pat \<and> name_matches pat role"
  by unfold_locales (auto split: permission.splits if_splits)

interpretation step_type_check: default_deny check_step_type "\<lambda>g st. g = StepType st"
  by unfold_locales (auto split: permission.splits if_splits)

section \<open>Properties\<close>


text \<open>
  C40. The checks are default-deny and grant exactly what is listed: a check succeeds exactly when the
  grant set holds a grant of its own kind that matches the request, whatever else the set holds and
  in whatever order.
\<close>

theorem checks_exact:
  "(check_network_egress gs host = Granted)
      = list_ex (\<lambda>g. case g of NetworkEgress pat \<Rightarrow> host_matches pat host | _ \<Rightarrow> False) gs
   \<and> (check_blobs gs op key = Granted)
      = list_ex (\<lambda>g. case g of Blobs op' pat \<Rightarrow> op' = op \<and> path_matches pat key | _ \<Rightarrow> False) gs
   \<and> (check_invoke_role gs role = Granted)
      = list_ex (\<lambda>g. case g of InvokeRole pat \<Rightarrow> name_matches pat role | _ \<Rightarrow> False) gs
   \<and> (check_step_type gs st = Granted) = (StepType st \<in> set gs)"
proof -
  have "(check_network_egress gs host = Granted)
      = list_ex (\<lambda>g. case g of NetworkEgress pat \<Rightarrow> host_matches pat host | _ \<Rightarrow> False) gs"
    unfolding egress_check.granted_iff list_ex_iff by (rule bex_cong) (auto split: permission.splits)
  moreover have "(check_blobs gs op key = Granted)
      = list_ex (\<lambda>g. case g of Blobs op' pat \<Rightarrow> op' = op \<and> path_matches pat key | _ \<Rightarrow> False) gs"
    unfolding blob_check.granted_iff [of gs "(op, key)", simplified] list_ex_iff
    by (rule bex_cong) (auto split: permission.splits)
  moreover have "(check_invoke_role gs role = Granted)
      = list_ex (\<lambda>g. case g of InvokeRole pat \<Rightarrow> name_matches pat role | _ \<Rightarrow> False) gs"
    unfolding role_check.granted_iff list_ex_iff by (rule bex_cong) (auto split: permission.splits)
  ultimately show ?thesis by (simp add: step_type_check.granted_iff)
qed

text \<open>
  A host suffix pattern matches the suffix itself and the names below it, at a label boundary and
  whatever the case of either side: \<open>*.example.com\<close> matches \<open>API.example.com\<close> and not
  \<open>badexample.com\<close>. A path prefix pattern matches the prefix and what is below it at a slash.
\<close>

theorem patterns_at_boundaries:
  "host_matches (HSuffix suffix) host
      = (ascii_lower host = ascii_lower suffix
         \<or> (\<exists>r. ascii_lower host = r @ ''.'' @ ascii_lower suffix))
   \<and> path_matches (PPrefix prefix) key = (key = prefix \<or> (\<exists>r. key = prefix @ ''/'' @ r))"
proof -
  have dot: "ascii_lower (''.'' @ s) = ''.'' @ ascii_lower s" for s
    by (simp add: ascii_lower_def ascii_lower_char_def byte_def)
  show ?thesis
    unfolding host_matches_def path_matches_def host_pattern.case path_pattern.case Let_def dot
    by (auto simp: eq_ignore_ascii_case_def ends_with_iff starts_with_iff)
qed

text \<open>
  The load path stores no grant that nobody would read: a manifest's permissions are accepted
  exactly when every entry parses and every entry of an embedder category names a declared category
  whose validator, if it has one, accepts the value.
\<close>

theorem manifest_permissions_addressed:
  "(parse_manifest_permissions raw cats = Inr ps) =
     list_all2 (\<lambda>entry p. parse_permission entry = Inr p \<and>
       (case p of
          AppDefined kind v \<Rightarrow>
            (case List.find (\<lambda>c. ac_name c = kind) cats of
               None \<Rightarrow> False
             | Some c \<Rightarrow> check_value c (case as_str v of Some s \<Rightarrow> s | None \<Rightarrow> []) = Inr ())
        | _ \<Rightarrow> True)) raw ps"
proof -
  have "parse_manifest_permission cats entry = Inr p \<longleftrightarrow> parse_permission entry = Inr p \<and>
       (case p of
          AppDefined kind v \<Rightarrow>
            (case List.find (\<lambda>c. ac_name c = kind) cats of
               None \<Rightarrow> False
             | Some c \<Rightarrow> check_value c (case as_str v of Some s \<Rightarrow> s | None \<Rightarrow> []) = Inr ())
        | _ \<Rightarrow> True)" for entry p
  proof (cases "parse_permission entry")
    case (Inl e)
    then show ?thesis by (simp add: parse_manifest_permission_def)
  next
    case (Inr q)
    show ?thesis
    proof (cases "\<exists>kind v. q = AppDefined kind v")
      case True
      then obtain kind v where q: "q = AppDefined kind v" by blast
      with Inr show ?thesis
        by (cases "List.find (\<lambda>c. ac_name c = kind) cats")
          (auto simp: parse_manifest_permission_def rbind_Inr_iff)
    next
      case False
      then show ?thesis using Inr by (cases q) (auto simp: parse_manifest_permission_def)
    qed
  qed
  then show ?thesis
    unfolding parse_manifest_permissions_def traverse_Inr_iff by simp
qed

section \<open>An empty path prefix\<close>

text \<open>
  A host pattern \<open>*.\<close> is rejected for its empty suffix; the path pattern \<open>/*\<close>, which the manifest
  schema rejects as well, is accepted with an empty prefix and matches every key under a slash.
\<close>

lemma empty_path_prefix:
  "parse_path_pattern raw ''/*'' = Inr (PPrefix []) \<and> path_matches (PPrefix []) ''/etc/passwd''
    \<and> parse_host_pattern raw ''*.'' = Inl (Malformed raw HostEmptySuffix)"
  by (simp add: parse_path_pattern_def strip_suffix_def reject_glob_chars_def path_matches_def
      starts_with_def parse_host_pattern_def)

end
