(* ===== verification/Registry.thy ===== *)
theory Registry
  imports Dag InvokeGraph Identity Permissions "HOL-Library.AList"
begin

text \<open>
  The plugin registry of \<open>src/kernel/registry.rs\<close>: its tables and every operation on them. A \<open>HashMap\<close>
  is the association list of its entries with distinct keys; the order of the list stands for the
  unspecified order of iteration, so what is proved of an iteration speaks of its set. A compiled wasm
  module, a value of the third-party runtime, is the type parameter.
\<close>

section \<open>Tables\<close>

type_synonym ('k, 'v) table = "('k \<times> 'v) list"

definition table_get :: "('k, 'v) table \<Rightarrow> 'k \<Rightarrow> 'v option" where
  "table_get t k = map_of t k"

definition table_insert :: "'k \<Rightarrow> 'v \<Rightarrow> ('k, 'v) table \<Rightarrow> ('k, 'v) table" where
  "table_insert k v t = AList.update k v t"

definition table_remove :: "'k \<Rightarrow> ('k, 'v) table \<Rightarrow> ('k, 'v) table" where
  "table_remove k t = AList.delete k t"

definition table_retain :: "('k \<Rightarrow> 'v \<Rightarrow> bool) \<Rightarrow> ('k, 'v) table \<Rightarrow> ('k, 'v) table" where
  "table_retain keep t = filter (\<lambda>(k, v). keep k v) t"

text \<open>\<open>entry(k).or_default()\<close> followed by a change of the vector found there.\<close>

definition table_bucket :: "('k, 'v list) table \<Rightarrow> 'k \<Rightarrow> 'v list" where
  "table_bucket t k = (case table_get t k of Some b \<Rightarrow> b | None \<Rightarrow> [])"

text \<open>\<open>values_mut\<close> with a \<open>retain\<close> on each vector, then the removal of the empty ones.\<close>

definition buckets_retain :: "('v \<Rightarrow> bool) \<Rightarrow> ('k, 'v list) table \<Rightarrow> ('k, 'v list) table" where
  "buckets_retain keep t =
     table_retain (\<lambda>k b. b \<noteq> []) (map (\<lambda>(k, b). (k, filter keep b)) t)"

section \<open>State\<close>

record action_registration =
  ar_action :: action
  ar_plan :: dag_plan

record tool_descriptor =
  tl_tool_name :: string
  tl_description :: string
  tl_parameters :: json
  tl_plugin_key :: string
  tl_action_name :: string

record step_type_impl_entry =
  ie_plugin :: string
  ie_wasm_module :: string

record 'm registry =
  rg_modules :: "(node_ref, action_registration) table"
  rg_roles :: "(string, string list) table"
  rg_manifests :: "(string, plugin_manifest) table"
  rg_invoke_edges :: "invoke_edge list"
  rg_subscriptions :: "(string, node_ref list) table"
  rg_step_type_aliases :: "(string, node_ref) table"
  rg_permissions :: "(string, permission list) table"
  rg_plugin_wasm_modules :: "(node_ref, 'm) table"
  rg_step_type_defs :: "(string, string \<times> step_type_def) table"
  rg_step_type_impls :: "(string \<times> string option, step_type_impl_entry) table"

definition registry_new :: "'m registry" where
  "registry_new =
     \<lparr>rg_modules = [], rg_roles = [], rg_manifests = [], rg_invoke_edges = [], rg_subscriptions = [],
      rg_step_type_aliases = [], rg_permissions = [], rg_plugin_wasm_modules = [],
      rg_step_type_defs = [], rg_step_type_impls = []\<rparr>"

section \<open>Step types\<close>

definition step_type_key :: "string \<Rightarrow> string \<Rightarrow> string" where
  "step_type_key plugin written =
     (if step_type_separator \<in> set written then qualify (namespace_of plugin) written else written)"

definition step_type_impl_owner :: "'m registry \<Rightarrow> string \<Rightarrow> string option \<Rightarrow> node_ref option" where
  "step_type_impl_owner r step_type matches =
     map_option (\<lambda>e. (ie_plugin e, ie_wasm_module e)) (table_get (rg_step_type_impls r) (step_type, matches))"

definition commit_step_type_impl ::
  "string \<Rightarrow> string \<Rightarrow> string option \<Rightarrow> string \<Rightarrow> 'm registry \<Rightarrow> 'm registry" where
  "commit_step_type_impl plugin step_type matches wasm_module r =
     r\<lparr>rg_step_type_impls :=
         table_insert (step_type_key plugin step_type, matches)
           \<lparr>ie_plugin = plugin, ie_wasm_module = wasm_module\<rparr> (rg_step_type_impls r)\<rparr>"

definition step_type_impl_candidates ::
  "'m registry \<Rightarrow> string \<Rightarrow> string option \<Rightarrow> step_type_impl_entry list" where
  "step_type_impl_candidates r step_type matches =
     (case table_get (rg_step_type_impls r) (step_type, matches) of Some e \<Rightarrow> [e] | None \<Rightarrow> [])"

definition step_type_impl_matches :: "'m registry \<Rightarrow> string \<Rightarrow> string list" where
  "step_type_impl_matches r step_type =
     List.map_filter snd (filter (\<lambda>(t, _). t = step_type) (map fst (rg_step_type_impls r)))"

definition commit_step_type_def :: "string \<Rightarrow> step_type_def \<Rightarrow> 'm registry \<Rightarrow> 'm registry" where
  "commit_step_type_def plugin d r =
     r\<lparr>rg_step_type_defs :=
         table_insert (step_type_key plugin (sd_name d)) (plugin, d) (rg_step_type_defs r)\<rparr>"

definition get_step_type_def :: "'m registry \<Rightarrow> string \<Rightarrow> (string \<times> step_type_def) option" where
  "get_step_type_def r key = table_get (rg_step_type_defs r) key"

definition step_type_defs_iter :: "'m registry \<Rightarrow> (string \<times> string \<times> step_type_def) list" where
  "step_type_defs_iter r = map (\<lambda>(name, plugin, d). (name, plugin, d)) (rg_step_type_defs r)"

definition step_type_aliases_iter :: "'m registry \<Rightarrow> (string \<times> string) list" where
  "step_type_aliases_iter r = map (\<lambda>(alias, plugin, _). (alias, plugin)) (rg_step_type_aliases r)"

definition step_type_def_count :: "'m registry \<Rightarrow> nat" where
  "step_type_def_count r = length (rg_step_type_defs r)"

definition commit_step_type_alias :: "string \<Rightarrow> string \<Rightarrow> string \<Rightarrow> 'm registry \<Rightarrow> 'm registry" where
  "commit_step_type_alias alias plugin action r =
     r\<lparr>rg_step_type_aliases :=
         table_insert (step_type_key plugin alias) (plugin, action) (rg_step_type_aliases r)\<rparr>"

definition step_type_alias_candidates :: "'m registry \<Rightarrow> string \<Rightarrow> node_ref list" where
  "step_type_alias_candidates r alias =
     (case table_get (rg_step_type_aliases r) alias of Some p \<Rightarrow> [p] | None \<Rightarrow> [])"

section \<open>Wasm modules, subscriptions and edges\<close>

definition register_plugin_wasm_module :: "string \<Rightarrow> string \<Rightarrow> 'm \<Rightarrow> 'm registry \<Rightarrow> 'm registry" where
  "register_plugin_wasm_module plugin module_name m r =
     r\<lparr>rg_plugin_wasm_modules := table_insert (plugin, module_name) m (rg_plugin_wasm_modules r)\<rparr>"

definition get_plugin_wasm_module :: "'m registry \<Rightarrow> string \<Rightarrow> string \<Rightarrow> 'm option" where
  "get_plugin_wasm_module r plugin module_name = table_get (rg_plugin_wasm_modules r) (plugin, module_name)"

definition register_subscription :: "string \<Rightarrow> string \<Rightarrow> string \<Rightarrow> 'm registry \<Rightarrow> 'm registry" where
  "register_subscription event_type plugin action r =
     (let bucket = table_bucket (rg_subscriptions r) event_type; pair = (plugin, action)
      in r\<lparr>rg_subscriptions :=
             table_insert event_type (if pair \<in> set bucket then bucket else bucket @ [pair])
               (rg_subscriptions r)\<rparr>)"

definition subscribers_for :: "'m registry \<Rightarrow> string \<Rightarrow> node_ref list" where
  "subscribers_for r event_type = table_bucket (rg_subscriptions r) event_type"

definition extend_invoke_edges :: "invoke_edge list \<Rightarrow> 'm registry \<Rightarrow> 'm registry" where
  "extend_invoke_edges edges r = r\<lparr>rg_invoke_edges := rg_invoke_edges r @ edges\<rparr>"

section \<open>Actions, manifests, roles and permissions\<close>

definition register_action :: "string \<Rightarrow> string \<Rightarrow> action \<Rightarrow> dag_plan \<Rightarrow> 'm registry \<Rightarrow> 'm registry" where
  "register_action plugin_name action_name a plan r =
     r\<lparr>rg_modules :=
         table_insert (plugin_name, action_name) \<lparr>ar_action = a, ar_plan = plan\<rparr> (rg_modules r)\<rparr>"

definition register_manifest :: "plugin_manifest \<Rightarrow> 'm registry \<Rightarrow> 'm registry" where
  "register_manifest m r = r\<lparr>rg_manifests := table_insert (pm_name m) m (rg_manifests r)\<rparr>"

definition register_role :: "string \<Rightarrow> string \<Rightarrow> 'm registry \<Rightarrow> 'm registry" where
  "register_role role plugin_name r =
     r\<lparr>rg_roles := table_insert role (table_bucket (rg_roles r) role @ [plugin_name]) (rg_roles r)\<rparr>"

definition get_action :: "'m registry \<Rightarrow> string \<Rightarrow> string \<Rightarrow> action_registration option" where
  "get_action r plugin_name action_name = table_get (rg_modules r) (plugin_name, action_name)"

definition plugins_for_role :: "'m registry \<Rightarrow> string \<Rightarrow> string list" where
  "plugins_for_role r role = table_bucket (rg_roles r) role"

definition has_plugin :: "'m registry \<Rightarrow> string \<Rightarrow> bool" where
  "has_plugin r plugin_name \<longleftrightarrow> table_get (rg_manifests r) plugin_name \<noteq> None"

definition get_manifest :: "'m registry \<Rightarrow> string \<Rightarrow> plugin_manifest option" where
  "get_manifest r plugin_name = table_get (rg_manifests r) plugin_name"

definition plugin_names :: "'m registry \<Rightarrow> string list" where
  "plugin_names r = map fst (rg_manifests r)"

definition action_names :: "'m registry \<Rightarrow> string \<Rightarrow> string list" where
  "action_names r plugin_name = map snd (filter (\<lambda>(p, _). p = plugin_name) (map fst (rg_modules r)))"

definition descriptors_of :: "string \<Rightarrow> plugin_manifest \<Rightarrow> tool_descriptor list" where
  "descriptors_of plugin_name m =
     List.map_filter (\<lambda>(action_name, a).
         case act_tool a of
           None \<Rightarrow> None
         | Some tool \<Rightarrow>
             Some \<lparr>tl_tool_name = td_name tool, tl_description = td_description tool,
               tl_parameters = td_parameters tool, tl_plugin_key = plugin_name,
               tl_action_name = action_name\<rparr>)
       (pm_actions m)"

definition get_tool_descriptors :: "'m registry \<Rightarrow> tool_descriptor list" where
  "get_tool_descriptors r = concat (map (\<lambda>(plugin_name, m). descriptors_of plugin_name m) (rg_manifests r))"

definition set_permissions :: "string \<Rightarrow> permission list \<Rightarrow> 'm registry \<Rightarrow> 'm registry" where
  "set_permissions plugin perms r = r\<lparr>rg_permissions := table_insert plugin perms (rg_permissions r)\<rparr>"

definition permissions_for :: "'m registry \<Rightarrow> string \<Rightarrow> permission list" where
  "permissions_for r plugin = table_bucket (rg_permissions r) plugin"

section \<open>Removing a plugin\<close>

definition unregister_plugin :: "string \<Rightarrow> 'm registry \<Rightarrow> bool \<times> 'm registry" where
  "unregister_plugin plugin_name r =
     (if \<not> has_plugin r plugin_name then (False, r)
      else
        (True,
         r\<lparr>rg_modules := table_retain (\<lambda>(p, _) _. p \<noteq> plugin_name) (rg_modules r),
           rg_manifests := table_remove plugin_name (rg_manifests r),
           rg_permissions := table_remove plugin_name (rg_permissions r),
           rg_plugin_wasm_modules := table_retain (\<lambda>(p, _) _. p \<noteq> plugin_name) (rg_plugin_wasm_modules r),
           rg_step_type_aliases := table_retain (\<lambda>_ (p, _). p \<noteq> plugin_name) (rg_step_type_aliases r),
           rg_step_type_defs := table_retain (\<lambda>_ (p, _). p \<noteq> plugin_name) (rg_step_type_defs r),
           rg_step_type_impls := table_retain (\<lambda>_ e. ie_plugin e \<noteq> plugin_name) (rg_step_type_impls r),
           rg_roles := buckets_retain (\<lambda>p. p \<noteq> plugin_name) (rg_roles r),
           rg_subscriptions := buckets_retain (\<lambda>(p, _). p \<noteq> plugin_name) (rg_subscriptions r),
           rg_invoke_edges := filter (\<lambda>e. fst (ie_from e) \<noteq> plugin_name) (rg_invoke_edges r)\<rparr>))"

end
