(* ===== verification/RegistrySpec.thy ===== *)
theory RegistrySpec
  imports Registry
begin

text \<open>
  What the registry promises: its invariant under every sequence of operations, the lookups after a
  registration, and that removing a plugin removes exactly what it contributed. A table whose entries
  have owners is an interface; each table of the registry implements it.
\<close>

section \<open>Tables\<close>

lemma table_get_insert [simp]: "table_get (table_insert k v t) k' = (if k' = k then Some v else table_get t k')"
  by (simp add: table_get_def table_insert_def update_conv)

lemma table_get_remove [simp]: "table_get (table_remove k t) k' = (if k' = k then None else table_get t k')"
  by (simp add: table_get_def table_remove_def delete_conv)

definition keys_distinct :: "('k, 'v) table \<Rightarrow> bool" where
  "keys_distinct t \<longleftrightarrow> distinct (map fst t)"

lemma table_get_set: "keys_distinct t \<Longrightarrow> table_get t k = Some v \<longleftrightarrow> (k, v) \<in> set t"
  by (simp add: table_get_def keys_distinct_def map_of_eq_Some_iff)

lemma keys_distinct_insert [simp]: "keys_distinct t \<Longrightarrow> keys_distinct (table_insert k v t)"
  by (simp add: keys_distinct_def table_insert_def distinct_update)

lemma keys_distinct_remove [simp]: "keys_distinct t \<Longrightarrow> keys_distinct (table_remove k t)"
  by (simp add: keys_distinct_def table_remove_def distinct_delete)

lemma keys_distinct_retain [simp]: "keys_distinct t \<Longrightarrow> keys_distinct (table_retain f t)"
  unfolding keys_distinct_def table_retain_def by (induction t) auto

lemma keys_distinct_buckets [simp]: "keys_distinct t \<Longrightarrow> keys_distinct (buckets_retain f t)"
  unfolding buckets_retain_def
  by (rule keys_distinct_retain) (simp add: keys_distinct_def comp_def case_prod_unfold)

lemma set_table_insert:
  assumes "keys_distinct t"
  shows "set (table_insert k v t) = {e \<in> set t. fst e \<noteq> k} \<union> {(k, v)}"
proof -
  have "(a, b) \<in> set (table_insert k v t) \<longleftrightarrow> (a, b) \<in> {e \<in> set t. fst e \<noteq> k} \<union> {(k, v)}" for a b
    using table_get_set [OF keys_distinct_insert [OF assms], of k v a b] table_get_set [OF assms, of a b]
    by (auto split: if_splits)
  then show ?thesis by auto
qed

lemma set_table_remove: "set (table_remove k t) = {e \<in> set t. fst e \<noteq> k}"
  by (auto simp: table_remove_def AList.delete_eq)

lemma set_table_retain: "set (table_retain f t) = {e \<in> set t. f (fst e) (snd e)}"
  by (auto simp: table_retain_def)

lemma set_buckets_retain:
  "(k, b) \<in> set (buckets_retain f t) \<longleftrightarrow> b \<noteq> [] \<and> (\<exists>c. (k, c) \<in> set t \<and> b = filter f c)"
  by (auto simp: buckets_retain_def set_table_retain)

section \<open>Entries with owners\<close>

text \<open>The contract of a table that can forget an owner: exactly that owner's entries go.\<close>

locale owned_table =
  fixes entries :: "'t \<Rightarrow> (string \<times> 'e) set"
    and forget :: "string \<Rightarrow> 't \<Rightarrow> 't"
  assumes entries_forget: "entries (forget p t) = {x \<in> entries t. fst x \<noteq> p}"
begin

definition owned :: "'t \<Rightarrow> string \<Rightarrow> 'e set" where
  "owned t p = {e. (p, e) \<in> entries t}"

lemma owned_forget: "owned (forget p t) q = (if q = p then {} else owned t q)"
  by (auto simp: owned_def entries_forget)

lemma forget_again: "entries (forget p (forget p t)) = entries (forget p t)"
  by (auto simp: entries_forget)

lemma forget_commute: "entries (forget p (forget q t)) = entries (forget q (forget p t))"
  by (auto simp: entries_forget)

lemma forget_stranger: "owned t p = {} \<Longrightarrow> entries (forget p t) = entries t"
  by (auto simp: owned_def entries_forget)

end

text \<open>Tables with one owner for each entry, and tables of buckets with an owner for each element.\<close>

locale keyed_table =
  fixes owner :: "'k \<Rightarrow> 'v \<Rightarrow> string"
begin

definition rows :: "('k, 'v) table \<Rightarrow> (string \<times> 'k \<times> 'v) set" where
  "rows t = (\<lambda>(k, v). (owner k v, k, v)) ` set t"

lemma rows_insert:
  assumes "keys_distinct t" "owner k v = p" "\<And>w. table_get t k = Some w \<Longrightarrow> owner k w = p"
  shows "{x \<in> rows (table_insert k v t). fst x \<noteq> p} = {x \<in> rows t. fst x \<noteq> p}"
  using assms(2,3) table_get_set [OF assms(1)]
  by (auto simp: rows_def set_table_insert [OF assms(1)])

end

sublocale keyed_table \<subseteq> owned_table rows "\<lambda>p. table_retain (\<lambda>k v. owner k v \<noteq> p)"
  by unfold_locales (auto simp: rows_def set_table_retain)

locale bucket_table =
  fixes owner :: "'v \<Rightarrow> string"
begin

definition rows :: "('k, 'v list) table \<Rightarrow> (string \<times> 'k \<times> 'v) set" where
  "rows t = {(owner e, k, e) | k b e. (k, b) \<in> set t \<and> e \<in> set b}"

lemma rows_iff: "(q, k, e) \<in> rows t \<longleftrightarrow> q = owner e \<and> (\<exists>b. (k, b) \<in> set t \<and> e \<in> set b)"
  by (auto simp: rows_def)

lemma rows_bucket:
  assumes "keys_distinct t"
  shows "(q, k, e) \<in> rows t \<longleftrightarrow> q = owner e \<and> e \<in> set (table_bucket t k)"
proof -
  have "(\<exists>b. table_get t k = Some b \<and> e \<in> set b) \<longleftrightarrow> e \<in> set (table_bucket t k)"
    by (cases "table_get t k") (simp_all add: table_bucket_def)
  then show ?thesis by (simp add: rows_iff table_get_set [OF assms])
qed

lemma rows_insert:
  fixes t :: "('k, 'v list) table"
  assumes "keys_distinct t" "owner e = p" "set b = insert e (set (table_bucket t k))"
  shows "{x \<in> rows (table_insert k b t). fst x \<noteq> p} = {x \<in> rows t. fst x \<noteq> p}"
proof (intro set_eqI)
  fix x :: "string \<times> 'k \<times> 'v"
  obtain q j d where x: "x = (q, j, d)" by (cases x)
  have "table_bucket (table_insert k b t) j = (if j = k then b else table_bucket t j)"
    by (simp add: table_bucket_def)
  with assms show "x \<in> {x \<in> rows (table_insert k b t). fst x \<noteq> p} \<longleftrightarrow> x \<in> {x \<in> rows t. fst x \<noteq> p}"
    by (auto simp: x rows_bucket)
qed

end

sublocale bucket_table \<subseteq> owned_table rows "\<lambda>p. buckets_retain (\<lambda>e. owner e \<noteq> p)"
proof (unfold_locales, intro set_eqI)
  fix p and x :: "string \<times> 'k \<times> 'v" and t :: "('k, 'v list) table"
  obtain q j d where x: "x = (q, j, d)" by (cases x)
  let ?t = "buckets_retain (\<lambda>e. owner e \<noteq> p) t"
  show "x \<in> rows ?t \<longleftrightarrow> x \<in> {x \<in> rows t. fst x \<noteq> p}"
  proof
    assume "x \<in> rows ?t"
    then obtain b where "(j, b) \<in> set ?t" "d \<in> set b" "q = owner d" by (auto simp: x rows_iff)
    moreover then obtain c where "(j, c) \<in> set t" "b = filter (\<lambda>e. owner e \<noteq> p) c"
      by (auto simp: set_buckets_retain)
    ultimately show "x \<in> {x \<in> rows t. fst x \<noteq> p}" by (auto simp: x rows_iff)
  next
    assume "x \<in> {x \<in> rows t. fst x \<noteq> p}"
    then obtain c where c: "(j, c) \<in> set t" "d \<in> set c" "q = owner d" "owner d \<noteq> p"
      by (auto simp: x rows_iff)
    then have "d \<in> set (filter (\<lambda>e. owner e \<noteq> p) c)" by simp
    moreover then have "filter (\<lambda>e. owner e \<noteq> p) c \<noteq> []" by (metis list.set(1) empty_iff)
    ultimately have "(j, filter (\<lambda>e. owner e \<noteq> p) c) \<in> set ?t" "d \<in> set (filter (\<lambda>e. owner e \<noteq> p) c)"
      using c(1) by (auto simp: set_buckets_retain)
    with c(3) show "x \<in> rows ?t" unfolding x rows_iff by blast
  qed
qed

section \<open>The tables of the registry\<close>

text \<open>Actions and wasm modules have the plugin in their key, aliases and definitions in their value.\<close>

interpretation by_key: keyed_table "\<lambda>(p, _) _. p" .

interpretation by_value: keyed_table "\<lambda>_ (p, _). p" .

interpretation impls: keyed_table "\<lambda>_. ie_plugin" .

interpretation roles: bucket_table "\<lambda>p. p" .

interpretation subscriptions: bucket_table "\<lambda>(p, _). p" .

interpretation named: owned_table set table_remove
  by unfold_locales (auto simp: set_table_remove)

interpretation edges: owned_table "\<lambda>es. (\<lambda>e. (fst (ie_from e), e)) ` set es"
  "\<lambda>p. filter (\<lambda>e. fst (ie_from e) \<noteq> p)"
  by unfold_locales (simp only: Compr_image_eq fst_conv set_filter)

text \<open>Everything a registry holds, each piece with the plugin it came from.\<close>

datatype 'm trace =
    TAction "node_ref \<times> action_registration"
  | TWasm "node_ref \<times> 'm"
  | TAlias "string \<times> node_ref"
  | TDef "string \<times> string \<times> step_type_def"
  | TImpl "(string \<times> string option) \<times> step_type_impl_entry"
  | TRole "string \<times> string"
  | TSubscription "string \<times> node_ref"
  | TManifest plugin_manifest
  | TPermissions "permission list"
  | TEdge invoke_edge

definition tag :: "('e \<Rightarrow> 'm trace) \<Rightarrow> (string \<times> 'e) set \<Rightarrow> (string \<times> 'm trace) set" where
  "tag f S = (\<lambda>(p, e). (p, f e)) ` S"

lemma tag_others: "{x \<in> tag f S. fst x \<noteq> p} = tag f {x \<in> S. fst x \<noteq> p}"
  by (auto simp: tag_def)

definition traces :: "'m registry \<Rightarrow> (string \<times> 'm trace) set" where
  "traces r =
     tag TAction (by_key.rows (rg_modules r)) \<union> tag TWasm (by_key.rows (rg_plugin_wasm_modules r))
     \<union> tag TAlias (by_value.rows (rg_step_type_aliases r)) \<union> tag TDef (by_value.rows (rg_step_type_defs r))
     \<union> tag TImpl (impls.rows (rg_step_type_impls r)) \<union> tag TRole (roles.rows (rg_roles r))
     \<union> tag TSubscription (subscriptions.rows (rg_subscriptions r))
     \<union> tag TManifest (set (rg_manifests r)) \<union> tag TPermissions (set (rg_permissions r))
     \<union> tag TEdge ((\<lambda>e. (fst (ie_from e), e)) ` set (rg_invoke_edges r))"

definition traces_of :: "'m registry \<Rightarrow> string \<Rightarrow> 'm trace set" where
  "traces_of r p = {t. (p, t) \<in> traces r}"

lemma collect_Un: "{x \<in> A \<union> B. P x} = {x \<in> A. P x} \<union> {x \<in> B. P x}"
  by auto

lemma case_prod_neq: "(\<lambda>(p, a) b. p \<noteq> q) = (\<lambda>k b. (case k of (p, a) \<Rightarrow> (\<lambda>b. p)) b \<noteq> q)"
  "(\<lambda>c (p, a). p \<noteq> q) = (\<lambda>c v. (case v of (p, a) \<Rightarrow> p) \<noteq> q)"
  "(\<lambda>(p, a). p \<noteq> q) = (\<lambda>v. (case v of (p, a) \<Rightarrow> p) \<noteq> q)"
  by auto

lemma edge_rows: "{x \<in> (\<lambda>e. (fst (ie_from e), e)) ` S. fst x \<noteq> p}
    = (\<lambda>e. (fst (ie_from e), e)) ` {e \<in> S. fst (ie_from e) \<noteq> p}"
  by (simp only: Compr_image_eq fst_conv)

lemma traces_unregister:
  assumes "has_plugin r p"
  shows "traces (snd (unregister_plugin p r)) = {x \<in> traces r. fst x \<noteq> p}"
  unfolding traces_def collect_Un tag_others using assms
  by (simp add: unregister_plugin_def case_prod_neq
      by_key.entries_forget by_value.entries_forget
      impls.entries_forget roles.entries_forget subscriptions.entries_forget named.entries_forget
      edges.entries_forget edge_rows)

section \<open>Operations and the invariant\<close>

datatype 'm registry_op =
    CommitImpl string string "string option" string
  | CommitDef string step_type_def
  | CommitAlias string string string
  | AddWasm string string 'm
  | Subscribe string string string
  | AddEdges "invoke_edge list"
  | AddAction string string action dag_plan
  | AddManifest plugin_manifest
  | AddRole string string
  | SetPermissions string "permission list"
  | Unregister string

fun apply_op :: "'m registry_op \<Rightarrow> 'm registry \<Rightarrow> 'm registry" where
  "apply_op (CommitImpl p t m w) r = commit_step_type_impl p t m w r"
| "apply_op (CommitDef p d) r = commit_step_type_def p d r"
| "apply_op (CommitAlias al p a) r = commit_step_type_alias al p a r"
| "apply_op (AddWasm p n w) r = register_plugin_wasm_module p n w r"
| "apply_op (Subscribe e p a) r = register_subscription e p a r"
| "apply_op (AddEdges es) r = extend_invoke_edges es r"
| "apply_op (AddAction p n a plan) r = register_action p n a plan r"
| "apply_op (AddManifest m) r = register_manifest m r"
| "apply_op (AddRole role p) r = register_role role p r"
| "apply_op (SetPermissions p ps) r = set_permissions p ps r"
| "apply_op (Unregister p) r = snd (unregister_plugin p r)"

text \<open>
  The registry's invariant: no key twice, no empty bucket, no subscriber twice, manifests under their
  own names, and every step type key in the namespace of the plugin the entry belongs to.
\<close>

definition registry_keys :: "'m registry \<Rightarrow> bool" where
  "registry_keys r \<longleftrightarrow>
     keys_distinct (rg_modules r) \<and> keys_distinct (rg_roles r) \<and> keys_distinct (rg_manifests r)
     \<and> keys_distinct (rg_subscriptions r) \<and> keys_distinct (rg_step_type_aliases r)
     \<and> keys_distinct (rg_permissions r) \<and> keys_distinct (rg_plugin_wasm_modules r)
     \<and> keys_distinct (rg_step_type_defs r) \<and> keys_distinct (rg_step_type_impls r)"

definition registry_rows :: "'m registry \<Rightarrow> bool" where
  "registry_rows r \<longleftrightarrow>
     (\<forall>(role, b) \<in> set (rg_roles r). b \<noteq> [])
     \<and> (\<forall>(e, b) \<in> set (rg_subscriptions r). b \<noteq> [] \<and> distinct b)
     \<and> (\<forall>(n, m) \<in> set (rg_manifests r). pm_name m = n)
     \<and> (\<forall>(k, p, a) \<in> set (rg_step_type_aliases r). \<exists>w. k = step_type_key p w)
     \<and> (\<forall>(k, p, d) \<in> set (rg_step_type_defs r). k = step_type_key p (sd_name d))
     \<and> (\<forall>((t, m), e) \<in> set (rg_step_type_impls r). \<exists>w. t = step_type_key (ie_plugin e) w)"

definition registry_ok :: "'m registry \<Rightarrow> bool" where
  "registry_ok r \<longleftrightarrow> registry_keys r \<and> registry_rows r"

lemmas registry_op_defs =
  commit_step_type_impl_def commit_step_type_def_def commit_step_type_alias_def
  register_plugin_wasm_module_def register_subscription_def extend_invoke_edges_def
  register_action_def register_manifest_def register_role_def set_permissions_def
  unregister_plugin_def

lemma registry_keys_op: "registry_keys r \<Longrightarrow> registry_keys (apply_op c r)"
  by (cases c) (simp_all add: registry_keys_def registry_op_defs Let_def)

lemma bucket_in: "keys_distinct t \<Longrightarrow> table_bucket t k \<noteq> [] \<Longrightarrow> (k, table_bucket t k) \<in> set t"
  using table_get_set [of t k] by (cases "table_get t k") (auto simp: table_bucket_def)

lemma subscription_bucket:
  "registry_ok r \<Longrightarrow> distinct (table_bucket (rg_subscriptions r) e)"
  using bucket_in [of "rg_subscriptions r" e]
  by (cases "table_bucket (rg_subscriptions r) e = []")
    (auto simp: registry_ok_def registry_keys_def registry_rows_def)

lemma registry_rows_op:
  assumes "registry_ok r"
  shows "registry_rows (apply_op c r)"
proof -
  from assms have k: "registry_keys r" and r: "registry_rows r" by (simp_all add: registry_ok_def)
  show ?thesis
  proof (cases c)
    case (Subscribe e p a)
    with k r subscription_bucket [OF assms, of e] show ?thesis
      by (auto simp: registry_rows_def registry_keys_def register_subscription_def Let_def set_table_insert)
  next
    case (Unregister p)
    have "distinct b" if "(e, b) \<in> set (rg_subscriptions r)" for e b
      using r that by (auto simp: registry_rows_def)
    with Unregister r show ?thesis
      by (auto intro!: distinct_filter simp: registry_rows_def unregister_plugin_def set_table_retain set_table_remove set_buckets_retain)
  qed (use k r in \<open>auto simp: registry_rows_def registry_keys_def registry_op_defs set_table_insert\<close>)
qed

lemma registry_ok_op: "registry_ok r \<Longrightarrow> registry_ok (apply_op c r)"
  using registry_rows_op [of r c] registry_keys_op [of r c] by (simp add: registry_ok_def)

lemma registry_ok_new: "registry_ok registry_new"
  by (simp add: registry_ok_def registry_keys_def registry_rows_def registry_new_def keys_distinct_def)

text \<open>The registries a kernel can hold: those reached from the empty one.\<close>

inductive reachable_registry :: "'m registry \<Rightarrow> bool" where
  start: "reachable_registry registry_new"
| turn: "reachable_registry r \<Longrightarrow> reachable_registry (apply_op c r)"

lemma reachable_ok: "reachable_registry r \<Longrightarrow> registry_ok r"
  by (induction rule: reachable_registry.induct) (simp_all add: registry_ok_new registry_ok_op)

section \<open>Loading and unloading\<close>

fun op_by :: "string \<Rightarrow> 'm registry_op \<Rightarrow> bool" where
  "op_by p (CommitImpl q t m w) \<longleftrightarrow> q = p"
| "op_by p (CommitDef q d) \<longleftrightarrow> q = p"
| "op_by p (CommitAlias al q a) \<longleftrightarrow> q = p"
| "op_by p (AddWasm q n w) \<longleftrightarrow> q = p"
| "op_by p (Subscribe e q a) \<longleftrightarrow> q = p"
| "op_by p (AddEdges es) \<longleftrightarrow> list_all (\<lambda>e. fst (ie_from e) = p) es"
| "op_by p (AddAction q n a plan) \<longleftrightarrow> q = p"
| "op_by p (AddManifest m) \<longleftrightarrow> pm_name m = p"
| "op_by p (AddRole role q) \<longleftrightarrow> q = p"
| "op_by p (SetPermissions q ps) \<longleftrightarrow> q = p"
| "op_by p (Unregister q) \<longleftrightarrow> False"

text \<open>The commits overwrite: their callers have checked that the slot is free or the plugin's own.\<close>

fun slot_free :: "'m registry_op \<Rightarrow> 'm registry \<Rightarrow> bool" where
  "slot_free (CommitImpl p t m w) r \<longleftrightarrow>
     (case step_type_impl_owner r (step_type_key p t) m of None \<Rightarrow> True | Some (q, _) \<Rightarrow> q = p)"
| "slot_free (CommitDef p d) r \<longleftrightarrow>
     (case get_step_type_def r (step_type_key p (sd_name d)) of None \<Rightarrow> True | Some (q, _) \<Rightarrow> q = p)"
| "slot_free (CommitAlias al p a) r \<longleftrightarrow>
     list_all (\<lambda>(q, _). q = p) (step_type_alias_candidates r (step_type_key p al))"
| "slot_free _ r \<longleftrightarrow> True"

lemma others_insert: "keys_distinct t \<Longrightarrow> {x \<in> set (table_insert p v t). fst x \<noteq> p} = {x \<in> set t. fst x \<noteq> p}"
  by (auto simp: set_table_insert)

definition others :: "string \<Rightarrow> (string \<times> 'e) set \<Rightarrow> (string \<times> 'e) set" where
  "others p S = {x \<in> S. fst x \<noteq> p}"

definition same_others :: "string \<Rightarrow> 'm registry \<Rightarrow> 'm registry \<Rightarrow> bool" where
  "same_others p r r' \<longleftrightarrow>
     others p (by_key.rows (rg_modules r')) = others p (by_key.rows (rg_modules r))
     \<and> others p (by_key.rows (rg_plugin_wasm_modules r')) = others p (by_key.rows (rg_plugin_wasm_modules r))
     \<and> others p (by_value.rows (rg_step_type_aliases r')) = others p (by_value.rows (rg_step_type_aliases r))
     \<and> others p (by_value.rows (rg_step_type_defs r')) = others p (by_value.rows (rg_step_type_defs r))
     \<and> others p (impls.rows (rg_step_type_impls r')) = others p (impls.rows (rg_step_type_impls r))
     \<and> others p (roles.rows (rg_roles r')) = others p (roles.rows (rg_roles r))
     \<and> others p (subscriptions.rows (rg_subscriptions r')) = others p (subscriptions.rows (rg_subscriptions r))
     \<and> others p (set (rg_manifests r')) = others p (set (rg_manifests r))
     \<and> others p (set (rg_permissions r')) = others p (set (rg_permissions r))
     \<and> others p ((\<lambda>e. (fst (ie_from e), e)) ` set (rg_invoke_edges r'))
         = others p ((\<lambda>e. (fst (ie_from e), e)) ` set (rg_invoke_edges r))"

lemma same_others_traces: "same_others p r r' \<Longrightarrow> others p (traces r') = others p (traces r)"
  by (simp add: same_others_def traces_def others_def collect_Un tag_others del: Un_iff)

lemmas owner_rows_insert =
  by_key.rows_insert [folded others_def] by_value.rows_insert [folded others_def]
  impls.rows_insert [folded others_def] roles.rows_insert [folded others_def]
  subscriptions.rows_insert [folded others_def]

lemma op_same_others:
  assumes "registry_keys r" "op_by p c" "slot_free c r"
  shows "same_others p r (apply_op c r)"
proof (cases c)
  case (CommitImpl q t m w)
  have "others p (impls.rows (table_insert (step_type_key p t, m) \<lparr>ie_plugin = p, ie_wasm_module = w\<rparr> (rg_step_type_impls r)))
      = others p (impls.rows (rg_step_type_impls r))"
    by (rule owner_rows_insert(3)) (use assms CommitImpl in \<open>auto simp: registry_keys_def step_type_impl_owner_def split: option.splits\<close>)
  with CommitImpl assms(2) show ?thesis by (simp add: same_others_def registry_op_defs Let_def)
next
  case (CommitDef q d)
  have "others p (by_value.rows (table_insert (step_type_key p (sd_name d)) (p, d) (rg_step_type_defs r)))
      = others p (by_value.rows (rg_step_type_defs r))"
    by (rule owner_rows_insert(2)) (use assms CommitDef in \<open>auto simp: registry_keys_def get_step_type_def_def\<close>)
  with CommitDef assms(2) show ?thesis by (simp add: same_others_def registry_op_defs Let_def)
next
  case (CommitAlias al q a)
  have "others p (by_value.rows (table_insert (step_type_key p al) (p, a) (rg_step_type_aliases r)))
      = others p (by_value.rows (rg_step_type_aliases r))"
    by (rule owner_rows_insert(2)) (use assms CommitAlias in \<open>auto simp: registry_keys_def step_type_alias_candidates_def\<close>)
  with CommitAlias assms(2) show ?thesis by (simp add: same_others_def registry_op_defs Let_def)
next
  case (AddWasm q n w)
  have "others p (by_key.rows (table_insert (p, n) w (rg_plugin_wasm_modules r)))
      = others p (by_key.rows (rg_plugin_wasm_modules r))"
    by (rule owner_rows_insert(1)) (use assms AddWasm in \<open>auto simp: registry_keys_def \<close>)
  with AddWasm assms(2) show ?thesis by (simp add: same_others_def registry_op_defs Let_def)
next
  case (AddAction q n x plan)
  have "others p (by_key.rows (table_insert (p, n) \<lparr>ar_action = x, ar_plan = plan\<rparr> (rg_modules r)))
      = others p (by_key.rows (rg_modules r))"
    by (rule owner_rows_insert(1)) (use assms AddAction in \<open>auto simp: registry_keys_def \<close>)
  with AddAction assms(2) show ?thesis by (simp add: same_others_def registry_op_defs Let_def)
next
  case (AddRole role q)
  have "others p (roles.rows (table_insert role (table_bucket (rg_roles r) role @ [p]) (rg_roles r)))
      = others p (roles.rows (rg_roles r))"
    by (rule owner_rows_insert(4) [where e = p]) (use assms AddRole in \<open>auto simp: registry_keys_def \<close>)
  with AddRole assms(2) show ?thesis by (simp add: same_others_def registry_op_defs Let_def)
next
  case (Subscribe e q x)
  have "others p (subscriptions.rows (table_insert e
      (if (p, x) \<in> set (table_bucket (rg_subscriptions r) e) then table_bucket (rg_subscriptions r) e
       else table_bucket (rg_subscriptions r) e @ [(p, x)]) (rg_subscriptions r)))
      = others p (subscriptions.rows (rg_subscriptions r))"
    by (rule owner_rows_insert(5) [where e = "(p, x)"]) (use assms Subscribe in \<open>auto simp: registry_keys_def \<close>)
  with Subscribe assms(2) show ?thesis by (simp add: same_others_def registry_op_defs Let_def)
next
  case (AddEdges es)
  with assms(2) show ?thesis
    by (auto simp: same_others_def registry_op_defs others_def list_all_iff)
next
  case (AddManifest m)
  with assms(1,2) show ?thesis
    by (auto simp: same_others_def registry_op_defs others_def registry_keys_def set_table_insert)
next
  case (SetPermissions q ps)
  with assms(1,2) show ?thesis
    by (auto simp: same_others_def registry_op_defs others_def registry_keys_def set_table_insert)
qed (use assms(2) in simp)

text \<open>A sequence of operations one plugin makes, each on a slot that is free or its own.\<close>

fun loads :: "string \<Rightarrow> 'm registry_op list \<Rightarrow> 'm registry \<Rightarrow> bool" where
  "loads p [] r \<longleftrightarrow> True"
| "loads p (c # cs) r \<longleftrightarrow> op_by p c \<and> slot_free c r \<and> loads p cs (apply_op c r)"

lemma loads_others: "registry_keys r \<Longrightarrow> loads p cs r \<Longrightarrow> others p (traces (fold apply_op cs r)) = others p (traces r)"
proof (induction cs arbitrary: r)
  case (Cons c cs)
  then have "others p (traces (fold apply_op cs (apply_op c r))) = others p (traces (apply_op c r))"
    by (simp add: registry_keys_op)
  with Cons.prems same_others_traces [OF op_same_others, of r p c] show ?case by simp
qed simp

lemma reachable_fold: "reachable_registry r \<Longrightarrow> reachable_registry (fold apply_op cs r)"
  by (induction cs arbitrary: r) (auto intro: reachable_registry.turn)

lemma step_type_key_local:
  assumes "namespace_separator \<notin> set w" "step_type_separator \<in> set w"
  shows "namespace_of (step_type_key p w) = namespace_of p" "local_name_of (step_type_key p w) = w"
  using assms by (simp_all add: step_type_key_def namespace_of_qualify local_name_of_qualify)

lemma key_separator: "step_type_separator \<notin> set w \<Longrightarrow> step_type_key p w = w"
  "step_type_separator \<in> set w \<Longrightarrow> step_type_separator \<in> set (step_type_key p w)"
  by (auto simp: step_type_key_def qualify_def)

section \<open>What a lookup sees\<close>

lemma traces_of_iff:
  "TAction e \<in> traces_of r p \<longleftrightarrow> (p, e) \<in> by_key.rows (rg_modules r)"
  "TWasm w \<in> traces_of r p \<longleftrightarrow> (p, w) \<in> by_key.rows (rg_plugin_wasm_modules r)"
  "TAlias l \<in> traces_of r p \<longleftrightarrow> (p, l) \<in> by_value.rows (rg_step_type_aliases r)"
  "TDef d \<in> traces_of r p \<longleftrightarrow> (p, d) \<in> by_value.rows (rg_step_type_defs r)"
  "TImpl i \<in> traces_of r p \<longleftrightarrow> (p, i) \<in> impls.rows (rg_step_type_impls r)"
  "TRole o' \<in> traces_of r p \<longleftrightarrow> (p, o') \<in> roles.rows (rg_roles r)"
  "TSubscription s \<in> traces_of r p \<longleftrightarrow> (p, s) \<in> subscriptions.rows (rg_subscriptions r)"
  "TManifest m \<in> traces_of r p \<longleftrightarrow> (p, m) \<in> set (rg_manifests r)"
  "TPermissions ps \<in> traces_of r p \<longleftrightarrow> (p, ps) \<in> set (rg_permissions r)"
  "TEdge g \<in> traces_of r p \<longleftrightarrow> p = fst (ie_from g) \<and> g \<in> set (rg_invoke_edges r)"
  by (auto simp: traces_of_def traces_def tag_def)

lemma rows_iff_get:
  assumes "keys_distinct t"
  shows "(p, (q, a), x) \<in> by_key.rows t \<longleftrightarrow> p = q \<and> table_get t (q, a) = Some x"
  unfolding table_get_set [OF assms] by (force simp: by_key.rows_def)

lemma rows_value_get:
  assumes "keys_distinct t"
  shows "(p, k, q, x) \<in> by_value.rows t \<longleftrightarrow> p = q \<and> table_get t k = Some (q, x)"
  unfolding table_get_set [OF assms] by (force simp: by_value.rows_def)

lemma rows_impl_get:
  assumes "keys_distinct t"
  shows "(p, k, e) \<in> impls.rows t \<longleftrightarrow> p = ie_plugin e \<and> table_get t k = Some e"
  unfolding table_get_set [OF assms] by (force simp: impls.rows_def)

section \<open>Properties\<close>

text \<open>
  C32. Every registry reached from the empty one satisfies the invariant: no table has a key twice, no
  role or event has an empty bucket, no plugin is subscribed to an event twice with the same action,
  manifests are stored under their names, and every step type, alias and implementation is keyed in
  the namespace of the plugin it belongs to.
\<close>

theorem registry_invariant:
  assumes "reachable_registry r"
  shows "registry_keys r \<and> registry_rows r"
  using reachable_ok [OF assms] by (simp add: registry_ok_def)

theorem registry_invariant_witness:
  "registry_rows (apply_op (Subscribe ''created'' ''p'' ''on'')
     (apply_op (Subscribe ''created'' ''p'' ''on'') (registry_new :: nat registry)))"
  using registry_invariant [OF reachable_registry.turn [OF reachable_registry.turn [OF reachable_registry.start]]]
  by blast

text \<open>
  What a lookup answers is what the registry holds of the plugin in the answer: for actions,
  manifests, wasm modules, aliases, step type definitions and implementations, roles, subscribers and
  permissions. So the traces of the plugins are all a caller can see.
\<close>

theorem lookups_read_traces:
  assumes "reachable_registry r"
  shows "(get_action r p a = Some x) = (TAction ((p, a), x) \<in> traces_of r p)
    \<and> (get_manifest r p = Some m) = (TManifest m \<in> traces_of r p)
    \<and> (get_plugin_wasm_module r p n = Some w) = (TWasm ((p, n), w) \<in> traces_of r p)
    \<and> (step_type_alias_candidates r k = [(p, a)]) = (TAlias (k, p, a) \<in> traces_of r p)
    \<and> (get_step_type_def r k = Some (p, d)) = (TDef (k, p, d) \<in> traces_of r p)
    \<and> (step_type_impl_owner r k sel = Some (p, n))
        = (TImpl ((k, sel), \<lparr>ie_plugin = p, ie_wasm_module = n\<rparr>) \<in> traces_of r p)
    \<and> (p \<in> set (plugins_for_role r role)) = (TRole (role, p) \<in> traces_of r p)
    \<and> ((p, a) \<in> set (subscribers_for r event)) = (TSubscription (event, p, a) \<in> traces_of r p)
    \<and> (c \<in> set (permissions_for r p)) = (\<exists>ps. TPermissions ps \<in> traces_of r p \<and> c \<in> set ps)"
proof -
  from reachable_ok [OF assms] have k: "registry_keys r" by (simp add: registry_ok_def)
  have al: "step_type_alias_candidates r k = [(p, a)] \<longleftrightarrow> table_get (rg_step_type_aliases r) k = Some (p, a)"
    by (simp add: step_type_alias_candidates_def split: option.split)
  have impl: "step_type_impl_owner r k sel = Some (p, n) \<longleftrightarrow>
      table_get (rg_step_type_impls r) (k, sel) = Some \<lparr>ie_plugin = p, ie_wasm_module = n\<rparr>"
    by (auto simp: step_type_impl_owner_def)
  have perms: "c \<in> set (permissions_for r p) \<longleftrightarrow> (\<exists>ps. table_get (rg_permissions r) p = Some ps \<and> c \<in> set ps)"
    by (cases "table_get (rg_permissions r) p") (auto simp: permissions_for_def table_bucket_def)
  show ?thesis
    using k unfolding al impl perms traces_of_iff registry_keys_def
    by (simp add: rows_iff_get rows_value_get rows_impl_get get_action_def get_manifest_def
        get_plugin_wasm_module_def get_step_type_def_def plugins_for_role_def subscribers_for_def
        roles.rows_bucket subscriptions.rows_bucket table_get_set)
qed

text \<open>
  Removing a plugin removes exactly what it contributed: nothing of it is left in any table, every
  other plugin keeps what it had, invoke edges that target the plugin included; and a plugin that is
  not registered leaves the registry as it is.
\<close>

theorem unregister_plugin_exact:
  "fst (unregister_plugin p r) = has_plugin r p
   \<and> (if has_plugin r p
      then traces_of (snd (unregister_plugin p r)) q = (if q = p then {} else traces_of r q)
      else snd (unregister_plugin p r) = r)"
  using traces_unregister [of r p]
  by (auto simp: unregister_plugin_def traces_of_def)

text \<open>
  C31. Loading and unloading a plugin is the identity on everything else: after any operations of the
  plugin on slots that were free or its own, and its removal, exactly the traces of the other plugins
  remain, so a registry without the plugin is back where it was.
\<close>

theorem load_unload:
  assumes "reachable_registry r" "loads p ops r" "has_plugin (fold apply_op ops r) p"
  shows "traces (snd (unregister_plugin p (fold apply_op ops r))) = {x \<in> traces r. fst x \<noteq> p}"
  using traces_unregister [OF assms(3)] loads_others [OF _ assms(2)] reachable_ok [OF assms(1)]
  by (simp add: registry_ok_def others_def)

theorem load_unload_witness:
  "traces (snd (unregister_plugin ''p''
     (fold apply_op [AddManifest (plugin_manifest_new ''p''), CommitAlias ''p.go'' ''p'' ''run'',
        AddRole ''store'' ''p''] (registry_new :: nat registry))))
   = {x \<in> traces (registry_new :: nat registry). fst x \<noteq> ''p''}"
proof (rule load_unload)
  show "reachable_registry (registry_new :: nat registry)" by (rule reachable_registry.start)
qed (code_simp+)

text \<open>
  Reading after writing: a committed implementation, definition, alias, action, wasm module or
  permission set is what its key answers and no other key's answer changes; a plugin joins the end of
  a role's list; a subscription is added once.
\<close>

theorem registry_lookups:
  "step_type_impl_owner (commit_step_type_impl p t sel n r) k sel'
     = (if k = step_type_key p t \<and> sel' = sel then Some (p, n) else step_type_impl_owner r k sel')
   \<and> get_step_type_def (commit_step_type_def p d r) k
     = (if k = step_type_key p (sd_name d) then Some (p, d) else get_step_type_def r k)
   \<and> step_type_alias_candidates (commit_step_type_alias l p a r) k
     = (if k = step_type_key p l then [(p, a)] else step_type_alias_candidates r k)
   \<and> get_action (register_action p a x plan r) q b
     = (if (q, b) = (p, a) then Some \<lparr>ar_action = x, ar_plan = plan\<rparr> else get_action r q b)
   \<and> get_plugin_wasm_module (register_plugin_wasm_module p n w r) q b
     = (if (q, b) = (p, n) then Some w else get_plugin_wasm_module r q b)
   \<and> permissions_for (set_permissions p ps r) q = (if q = p then ps else permissions_for r q)
   \<and> plugins_for_role (register_role role p r) role'
     = plugins_for_role r role' @ (if role' = role then [p] else [])
   \<and> subscribers_for (register_subscription e p a r) e'
     = subscribers_for r e' @ (if e' = e \<and> (p, a) \<notin> set (subscribers_for r e) then [(p, a)] else [])"
  by (intro conjI; simp add: registry_op_defs step_type_impl_owner_def get_step_type_def_def
      step_type_alias_candidates_def get_action_def get_plugin_wasm_module_def permissions_for_def
      plugins_for_role_def subscribers_for_def table_bucket_def Let_def)

text \<open>
  Step type names of different namespaces never share a key: for names without a namespace
  separator, two keys are equal exactly when the names are, and the name is a bare kernel name or the
  two plugins live in one namespace.
\<close>

theorem step_type_key_scoped:
  assumes "namespace_separator \<notin> set w" "namespace_separator \<notin> set v"
  shows "step_type_key p w = step_type_key q v \<longleftrightarrow>
    w = v \<and> (step_type_separator \<notin> set w \<or> namespace_of p = namespace_of q)"
proof (cases "step_type_separator \<in> set w \<and> step_type_separator \<in> set v")
  case True
  then show ?thesis
    using step_type_key_local [OF assms(1), of p] step_type_key_local [OF assms(2), of q]
    by (auto simp: step_type_key_def)
next
  case False
  then consider "step_type_separator \<notin> set w" "step_type_separator \<notin> set v"
    | "step_type_separator \<in> set w" "step_type_separator \<notin> set v"
    | "step_type_separator \<notin> set w" "step_type_separator \<in> set v" by blast
  then show ?thesis
  proof cases
    case 1
    then show ?thesis by (simp add: key_separator(1))
  next
    case 2
    with key_separator(2) [of w p] show ?thesis by (auto simp: key_separator(1) [of v])
  next
    case 3
    with key_separator(2) [of v q] show ?thesis by (auto simp: key_separator(1) [of w])
  qed
qed

theorem step_type_key_scoped_witness:
  "step_type_key ''a/vault'' ''vault.sign'' \<noteq> step_type_key ''b/vault'' ''vault.sign''"
proof -
  have "namespace_separator \<notin> set ''vault.sign''" by code_simp
  moreover have "step_type_separator \<in> set ''vault.sign''" "namespace_of ''a/vault'' \<noteq> namespace_of ''b/vault''"
    by code_simp+
  ultimately show ?thesis using step_type_key_scoped [of "''vault.sign''" "''vault.sign''" "''a/vault''" "''b/vault''"]
    by simp
qed

end
