(* ===== verification/Dispatch.thy ===== *)
theory Dispatch
  imports RegistrySpec "HOL-Library.Word"
begin

text \<open>
  Dispatch between plugins: \<open>src/kernel/dispatch.rs\<close> and the resolution and authorisation methods of
  \<open>src/kernel/mod.rs\<close>. The orchestrator, a hook of the embedder, is an argument. The execution
  context is opaque to the kernel and a type parameter. Refusals are constructors with the values they
  print; their texts, and the steps that dispatch, are in \<open>Invocation\<close>.
\<close>

section \<open>Requests, contexts and plans\<close>

datatype dispatch_request =
    ByRole string string json json
  | ByPlugin string string json json

record ('m, 'x) dispatch_context =
  dc_registry :: "'m registry"
  dc_exec_ctx :: 'x
  dc_caller_plugin :: "string option"
  dc_caller_config :: json
  dc_role_candidates :: "string list"

record dispatch_plan =
  pl_plugin :: string
  pl_action :: string
  pl_config :: json

definition dispatch_plan_new :: "string \<Rightarrow> string \<Rightarrow> dispatch_plan" where
  "dispatch_plan_new plugin action = \<lparr>pl_plugin = plugin, pl_action = action, pl_config = JNull\<rparr>"

definition with_config :: "dispatch_plan \<Rightarrow> json \<Rightarrow> dispatch_plan" where
  "with_config p config = p\<lparr>pl_config := config\<rparr>"

datatype dispatch_error =
    RoleUnbound string
  | SelectionFailed string
  | ConfigResolutionFailed string

type_synonym ('m, 'x) orchestrator =
  "dispatch_request \<Rightarrow> ('m, 'x) dispatch_context \<Rightarrow> dispatch_error + dispatch_plan"

definition quoted :: "string \<Rightarrow> string" where
  "quoted s = [CHR 0x27] @ s @ [CHR 0x27]"

definition default_orchestrator :: "('m, 'x) orchestrator" where
  "default_orchestrator request ctx =
     rbind
       (case request of
          ByRole role action input hints \<Rightarrow>
            (case dc_role_candidates ctx of
               plugin # _ \<Rightarrow> Inr (plugin, action)
             | [] \<Rightarrow>
                 Inl (RoleUnbound (''No plugin registered for role '' @ quoted role @ '' reachable from ''
                   @ (case dc_caller_plugin ctx of
                        Some caller \<Rightarrow> quoted caller | None \<Rightarrow> ''the embedder''))))
        | ByPlugin plugin action input hints \<Rightarrow> Inr (plugin, action))
       (\<lambda>(plugin, action).
          Inr \<lparr>pl_plugin = plugin, pl_action = action, pl_config = dc_caller_config ctx\<rparr>)"

section \<open>Resolution of names\<close>

definition resolve_plugin_reference :: "'m registry \<Rightarrow> string \<Rightarrow> string \<Rightarrow> name_error + string" where
  "resolve_plugin_reference r caller_plugin reference =
     rbind (plugin_reference_candidates caller_plugin reference) (\<lambda>candidates.
       Inr (case List.find (has_plugin r) candidates of
              Some candidate \<Rightarrow> candidate
            | None \<Rightarrow> hd candidates))"

text \<open>\<open>sort_by_key\<close> with the reversed length of the candidate's chain; the sort is stable.\<close>

definition chain_depth :: "string \<Rightarrow> nat" where
  "chain_depth c = length (ancestor_namespaces (namespace_of c))"

fun role_levels :: "'m registry \<Rightarrow> string \<Rightarrow> string \<Rightarrow> string list \<Rightarrow> string list" where
  "role_levels r caller_plugin role [] = []"
| "role_levels r caller_plugin role (ns # nss) =
     (let candidates =
        filter (\<lambda>candidate. is_on_chain candidate caller_plugin) (plugins_for_role r (qualify ns role))
      in if candidates = [] then role_levels r caller_plugin role nss
         else sort_key (\<lambda>c. - int (chain_depth c)) candidates)"

definition role_candidates :: "'m registry \<Rightarrow> string option \<Rightarrow> string \<Rightarrow> string list" where
  "role_candidates r caller_plugin role =
     (let caller_plugin = (case caller_plugin of Some c \<Rightarrow> c | None \<Rightarrow> [])
      in role_levels r caller_plugin role (ancestor_namespaces (namespace_of caller_plugin)))"

section \<open>Grants\<close>

fun check_invoke_plugin_in :: "'m registry \<Rightarrow> string \<Rightarrow> string \<Rightarrow> permission list \<Rightarrow> permission_check" where
  "check_invoke_plugin_in r caller_plugin target [] = Denied (''invoke:plugin:'' @ local_name_of target)"
| "check_invoke_plugin_in r caller_plugin target (grant # grants) =
     (let granted =
        (case grant of
           InvokePlugin NAny \<Rightarrow> same_namespace caller_plugin target
         | InvokePlugin (NExact name) \<Rightarrow>
             (case resolve_plugin_reference r caller_plugin name of
                Inr resolved \<Rightarrow> resolved = target
              | Inl _ \<Rightarrow> False)
         | _ \<Rightarrow> False)
      in if granted then Granted else check_invoke_plugin_in r caller_plugin target grants)"

definition check_invoke_plugin :: "'m registry \<Rightarrow> string \<Rightarrow> string \<Rightarrow> permission_check" where
  "check_invoke_plugin r caller_plugin target =
     check_invoke_plugin_in r caller_plugin target (permissions_for r caller_plugin)"

datatype redirect = NoRedirect | PluginRedirect string string | RoleRedirect string string

datatype refusal =
    LacksGrant string string
  | OffChain string string
  | LacksInvoke string string redirect

definition check_invoke_grant :: "'m registry \<Rightarrow> string \<Rightarrow> dispatch_request \<Rightarrow> refusal + unit" where
  "check_invoke_grant r caller_plugin request =
     (let denied =
        (case request of
           ByPlugin plugin _ _ _ \<Rightarrow>
             if plugin = caller_plugin then Granted else check_invoke_plugin r caller_plugin plugin
         | ByRole role _ _ _ \<Rightarrow> check_invoke_role (permissions_for r caller_plugin) role)
      in case denied of
           Granted \<Rightarrow> Inr ()
         | Denied requested \<Rightarrow> Inl (LacksGrant caller_plugin requested))"

definition authorize_resolved_dispatch ::
  "'m registry \<Rightarrow> string \<Rightarrow> dispatch_request \<Rightarrow> dispatch_plan \<Rightarrow> string option \<Rightarrow> refusal + unit" where
  "authorize_resolved_dispatch r caller_plugin request plan also_allowed =
     (if \<not> is_on_chain (pl_plugin plan) caller_plugin then Inl (OffChain caller_plugin (pl_plugin plan))
      else if pl_plugin plan = caller_plugin \<or> also_allowed = Some (pl_plugin plan) then Inr ()
      else if is_granted (check_invoke_plugin r caller_plugin (pl_plugin plan)) then Inr ()
      else if (case request of
                 ByRole role _ _ _ \<Rightarrow> is_granted (check_invoke_role (permissions_for r caller_plugin) role)
               | _ \<Rightarrow> False) then Inr ()
      else
        Inl (LacksInvoke caller_plugin (pl_plugin plan)
          (case request of
             ByPlugin plugin _ _ _ \<Rightarrow>
               if plugin \<noteq> pl_plugin plan then PluginRedirect plugin (pl_plugin plan) else NoRedirect
           | ByRole role _ _ _ \<Rightarrow> RoleRedirect role (pl_plugin plan))))"

end
