(* ===== verification/Outcome.thy ===== *)
theory Outcome
  imports Types
begin

text \<open>
  Errors and limits of an execution: \<open>KernelError\<close> and \<open>RuntimeLimits\<close> of \<open>src/kernel/mod.rs\<close>,
  \<open>StepOutput\<close>, \<open>StepError\<close>, \<open>ResourceViolation\<close> and the size estimate of \<open>src/kernel/host_api.rs\<close>.
  Their texts are values a manifest can read (\<open>{{$.error}}\<close>), so they are modelled to the byte. A
  \<open>u64\<close> or \<open>usize\<close> is a natural number; the additions the code writes as saturating saturate here.
\<close>

section \<open>Text\<close>

fun decimal :: "nat \<Rightarrow> string" where
  "decimal n = (if n < 10 then [char_of (48 + n)] else decimal (n div 10) @ [char_of (48 + n mod 10)])"

declare decimal.simps [simp del]

definition ticked :: "string \<Rightarrow> string" where
  "ticked s = [CHR 0x27] @ s @ [CHR 0x27]"

definition step_arrow :: string where "step_arrow = [CHR 0xE2, CHR 0x86, CHR 0x92]"

definition long_dash :: string where "long_dash = [CHR 0xE2, CHR 0x80, CHR 0x94]"

text \<open>
  The formatting the sources call: \<open>Display\<close> and \<open>Debug\<close> of a JSON value, \<open>Debug\<close> of a list of
  strings, and the \<open>Display\<close> of the parse error and the name error, whose messages the parser and
  the name grammar keep as constructors.
\<close>

record ('pe, 'ne) formats =
  fm_display :: "json \<Rightarrow> string"
  fm_debug :: "json \<Rightarrow> string"
  fm_strings :: "string list \<Rightarrow> string"
  fm_parse_error :: "'pe \<Rightarrow> string"
  fm_name_error :: "'ne \<Rightarrow> string"

section \<open>Errors\<close>

record plugin_error_payload =
  pe_code :: string
  pe_message :: string
  pe_params :: json

datatype kernel_error =
    Boot string
  | NotFound string
  | Validation string
  | Runtime string
  | Execution string
  | FuelExhausted nat string
  | MemoryLimitExceeded nat string
  | StepResultsLimitExceeded nat nat
  | ExecutionTimeout nat
  | Cancelled string
  | CalleeFailed string string string kernel_error
  | PluginError string string json

fun kernel_error_text :: "kernel_error \<Rightarrow> string" where
  "kernel_error_text (Boot m) = ''Kernel boot failed: '' @ m"
| "kernel_error_text (NotFound m) = ''Plugin/action not found: '' @ m"
| "kernel_error_text (Validation m) = ''Manifest validation failed: '' @ m"
| "kernel_error_text (Runtime m) = ''Wasm runtime error: '' @ m"
| "kernel_error_text (Execution m) = ''Execution error: '' @ m"
| "kernel_error_text (FuelExhausted budget detail) =
     ''Wasm fuel exhausted ('' @ decimal budget @ '' unit budget): '' @ detail"
| "kernel_error_text (MemoryLimitExceeded limit_bytes detail) =
     ''Wasm memory limit exceeded ('' @ decimal limit_bytes @ '' bytes): '' @ detail"
| "kernel_error_text (StepResultsLimitExceeded limit_bytes attempted_bytes) =
     ''Step results exceeded the '' @ decimal limit_bytes @ ''-byte budget (needed ''
     @ decimal attempted_bytes @ ''). Step results accumulate across an action and one step may ''
     @ ''reference another's result more than once, so a chain of them grows geometrically; raise ''
     @ ''RuntimeLimits::max_step_results_bytes if this action legitimately holds this much.''"
| "kernel_error_text (ExecutionTimeout timeout_ms) =
     ''Action wallclock timeout exceeded ('' @ decimal timeout_ms @ '' ms)''"
| "kernel_error_text (Cancelled at_step) = ''Action cancelled at step '' @ ticked at_step"
| "kernel_error_text (CalleeFailed step_id plugin action source) =
     ''step '' @ ticked step_id @ '' '' @ step_arrow @ '' '' @ plugin @ ''.'' @ action @ '' failed: ''
     @ kernel_error_text source"
| "kernel_error_text (PluginError code message params) = ''Plugin error '' @ code @ '': '' @ message"

record step_output =
  so_value :: json
  so_metadata :: "(string \<times> json) list"

definition step_output_from :: "json \<Rightarrow> step_output" where
  "step_output_from v = \<lparr>so_value = v, so_metadata = []\<rparr>"

datatype step_error =
    Failed string
  | Thrown plugin_error_payload
  | StepCancelled
  | Callee string string kernel_error

definition from_callee :: "string \<Rightarrow> string \<Rightarrow> kernel_error \<Rightarrow> step_error" where
  "from_callee plugin action err =
     (case err of Cancelled _ \<Rightarrow> StepCancelled | source \<Rightarrow> Callee plugin action source)"

record callee_error =
  ce_plugin :: string
  ce_action :: string
  ce_source :: kernel_error

section \<open>Limits\<close>

record runtime_limits =
  rl_fuel_budget :: nat
  rl_max_memory_bytes :: nat
  rl_max_table_elements :: nat
  rl_max_instances :: nat
  rl_max_tables :: nat
  rl_max_memories :: nat
  rl_default_wallclock_ms :: nat
  rl_max_wallclock_ms :: "nat option"
  rl_max_parallel_branches :: nat
  rl_max_step_results_bytes :: nat
  rl_dataflow_events_capacity :: nat

definition runtime_limits_default :: runtime_limits where
  "runtime_limits_default =
     \<lparr>rl_fuel_budget = 1000000000, rl_max_memory_bytes = 64 * 1024 * 1024,
      rl_max_table_elements = 65536, rl_max_instances = 32, rl_max_tables = 64, rl_max_memories = 16,
      rl_default_wallclock_ms = 60 * 1000, rl_max_wallclock_ms = None,
      rl_max_parallel_branches = 64, rl_max_step_results_bytes = 64 * 1024 * 1024,
      rl_dataflow_events_capacity = 64\<rparr>"

datatype resource_violation =
    ViolFuel nat string
  | ViolMemory nat string
  | ViolStepResults nat nat

definition escapes_try :: "resource_violation \<Rightarrow> bool" where
  "escapes_try v = (case v of ViolFuel _ _ \<Rightarrow> False | ViolMemory _ _ \<Rightarrow> False | ViolStepResults _ _ \<Rightarrow> True)"

definition violation_error :: "resource_violation \<Rightarrow> kernel_error" where
  "violation_error v =
     (case v of
        ViolFuel budget detail \<Rightarrow> FuelExhausted budget detail
      | ViolMemory bytes detail \<Rightarrow> MemoryLimitExceeded bytes detail
      | ViolStepResults limit_bytes attempted_bytes \<Rightarrow>
          StepResultsLimitExceeded limit_bytes attempted_bytes)"

section \<open>Sizes\<close>

definition usize_bound :: nat where "usize_bound = 2 ^ 64 - 1"

definition saturating_add :: "nat \<Rightarrow> nat \<Rightarrow> nat" where
  "saturating_add a b = min (a + b) usize_bound"

lemma saturating_add_code [code]:
  "saturating_add a b = nat (min (int a + int b) (2 ^ 64 - 1))"
  by (simp add: saturating_add_def usize_bound_def min_def) linarith

definition node_overhead :: nat where "node_overhead = 16"

text \<open>
  The sums are of sizes held in memory at once, so they stay below \<open>usize::MAX\<close>.
\<close>

fun approx_value_bytes :: "json \<Rightarrow> nat" where
  "approx_value_bytes (JString s) = node_overhead + length s"
| "approx_value_bytes (JArray items) = node_overhead + sum_list (map approx_value_bytes items)"
| "approx_value_bytes (JObject m) =
     node_overhead
     + sum_list (map (\<lambda>(k, v). node_overhead + length k + approx_value_bytes v) m)"
| "approx_value_bytes v = node_overhead"

fun json_depth :: "json \<Rightarrow> nat" where
  "json_depth (JArray items) = Suc (fold max (map json_depth items) 0)"
| "json_depth (JObject m) = Suc (fold max (map (\<lambda>(k, v). json_depth v) m) 0)"
| "json_depth v = 0"

lemma le_fold_max: "(x::nat) \<in> set xs \<or> x = a \<Longrightarrow> x \<le> fold max xs a"
proof (induction xs arbitrary: a)
  case (Cons y ys)
  have "a \<le> fold max zs a" for zs :: "nat list" and a
    by (induction zs arbitrary: a) (simp_all, metis max.bounded_iff)
  with Cons show ?case by (auto intro: le_trans [of _ "max y a"])
qed simp

lemma depth_array_elem: "v \<in> set items \<Longrightarrow> json_depth v < json_depth (JArray items)"
  by (simp add: less_Suc_eq_le) (rule le_fold_max, simp)

lemma depth_object_entry: "(k, v) \<in> set m \<Longrightarrow> json_depth v < json_depth (JObject m)"
  by (simp add: less_Suc_eq_le) (rule le_fold_max, force)

text \<open>An inner step's parameters are no deeper than the object it is written as.\<close>

lemma depth_inner_step:
  assumes "from_inner_value v = Inr s"
  shows "json_depth (st_params s) \<le> json_depth v"
proof -
  from assms obtain m f where v: "v = JObject m" and f: "visit_fields m no_fields = Inr f"
    and p: "st_params s = (case fi_params f of Some p \<Rightarrow> p | None \<Rightarrow> empty_object)"
    by (rule from_inner_object)
  from visit_fields_params_in [OF f] show ?thesis
    by (auto simp: p v no_fields_def empty_object_def dest!: depth_object_entry)
qed

end
