(* ===== verification/Secrets.thy ===== *)
theory Secrets
  imports Outcome Identity
begin

text \<open>
  Credentials: \<open>src/kernel/secrets.rs\<close>. The resolver is the embedder's code and a function argument;
  the execution context it receives is opaque and a type parameter. The properties say what no
  resolver can change: who may be asked about, and which keys of the answer survive.
\<close>

section \<open>Requests and resolvers\<close>

record 'x secret_request =
  sq_subject :: string
  sq_executing_plugin :: string
  sq_declared_keys :: "string list"
  sq_overridable_keys :: "string list"
  sq_exec_ctx :: 'x

datatype secret_error = Unavailable string string

definition secret_error_text :: "secret_error \<Rightarrow> string" where
  "secret_error_text e =
     (case e of Unavailable subject reason \<Rightarrow>
        ''secret resolution failed for '' @ ticked subject @ '': '' @ reason)"

type_synonym 'x secret_resolver = "'x secret_request \<Rightarrow> secret_error + json"

definition static_secret_resolver :: "string \<Rightarrow> json \<Rightarrow> 'x secret_resolver" where
  "static_secret_resolver plugin secrets request =
     Inr (if sq_subject request = plugin then secrets else JNull)"

section \<open>Pulling\<close>

definition subject_is_on_chain :: "string \<Rightarrow> string \<Rightarrow> bool" where
  "subject_is_on_chain subject executing_plugin = is_on_chain subject executing_plugin"

definition intersect_declared :: "json \<Rightarrow> string list \<Rightarrow> json" where
  "intersect_declared secrets declared =
     (case secrets of
        JObject m \<Rightarrow>
          JObject (obj_collect
            (List.map_filter (\<lambda>k. map_option (\<lambda>v. (k, v)) (obj_get m k)) declared) [])
      | _ \<Rightarrow> JNull)"

definition pull ::
  "'x secret_resolver \<Rightarrow> string \<Rightarrow> string \<Rightarrow> string list \<Rightarrow> string list \<Rightarrow> 'x \<Rightarrow> kernel_error + json" where
  "pull resolver subject executing_plugin declared overridable exec_ctx =
     (if declared = [] then Inr JNull
      else if \<not> subject_is_on_chain subject executing_plugin then
        Inl (Execution (''secret resolution for '' @ ticked subject
          @ '' refused: not on the executing plugin '' @ ticked executing_plugin @ '' chain''))
      else
        case resolver \<lparr>sq_subject = subject, sq_executing_plugin = executing_plugin,
               sq_declared_keys = declared, sq_overridable_keys = overridable,
               sq_exec_ctx = exec_ctx\<rparr> of
          Inl e \<Rightarrow> Inl (Execution (secret_error_text e))
        | Inr answer \<Rightarrow> Inr (intersect_declared answer declared))"

section \<open>What survives an answer\<close>

lemma set_kept:
  "set (List.map_filter (\<lambda>k. map_option (\<lambda>v. (k, v)) (obj_get m k)) ks)
     = {(k, v). k \<in> set ks \<and> obj_get m k = Some v}"
  by (induction ks) (auto simp: List.map_filter_simps split: option.splits)

lemma kept_functional:
  assumes "\<And>v'. (k, v') \<in> set kvs \<Longrightarrow> v' = v" "(k, v) \<in> set kvs"
  shows "map_of kvs k = Some v"
proof -
  from assms(2) obtain v' where "map_of kvs k = Some v'"
    using weak_map_of_SomeI by fastforce
  with assms(1) map_of_SomeD [of kvs k v'] show ?thesis by simp
qed

lemma obj_get_intersect:
  "obj_get (obj_collect (List.map_filter (\<lambda>k. map_option (\<lambda>v. (k, v)) (obj_get m k)) ks) []) k
     = (if k \<in> set ks then obj_get m k else None)"
proof -
  define kvs where "kvs = List.map_filter (\<lambda>k. map_option (\<lambda>v. (k, v)) (obj_get m k)) ks"
  have s: "set kvs = {(k, v). k \<in> set ks \<and> obj_get m k = Some v}"
    unfolding kvs_def by (rule set_kept)
  have g: "obj_get (obj_collect kvs []) k = map_of (rev kvs) k"
    by (simp add: obj_get_def map_of_obj_collect keys_sorted_def)
  show ?thesis
  proof (cases "k \<in> set ks \<and> obj_get m k \<noteq> None")
    case True
    then obtain v where v: "obj_get m k = Some v" "(k, v) \<in> set (rev kvs)" by (auto simp: s)
    have "map_of (rev kvs) k = Some v"
      by (rule kept_functional [OF _ v(2)]) (simp add: s v(1))
    with v True g show ?thesis by (simp add: kvs_def)
  next
    case False
    then have "map_of (rev kvs) k = None" by (force simp: map_of_eq_None_iff s)
    with False g show ?thesis by (auto simp: kvs_def)
  qed
qed

lemma chain_encloses:
  "subject_is_on_chain subject executing
     \<longleftrightarrow> encloses (namespace_of subject) (namespace_of executing)"
  by (simp add: subject_is_on_chain_def is_on_chain_above ns_chain.above_def ancestor_iff)

lemma pull_refuses_off_chain:
  "declared \<noteq> [] \<Longrightarrow> \<not> encloses (namespace_of subject) (namespace_of executing) \<Longrightarrow>
    \<exists>m. \<forall>resolver. pull resolver subject executing declared overridable x = Inl (Execution m)"
  by (simp add: pull_def chain_encloses)

lemma pull_error_is_error:
  "encloses (namespace_of subject) (namespace_of executing) \<Longrightarrow> declared \<noteq> [] \<Longrightarrow>
    resolver \<lparr>sq_subject = subject, sq_executing_plugin = executing,
         sq_declared_keys = declared, sq_overridable_keys = overridable, sq_exec_ctx = x\<rparr> = Inl e \<Longrightarrow>
    pull resolver subject executing declared overridable x = Inl (Execution (secret_error_text e))"
  by (simp add: pull_def chain_encloses)

text \<open>
  C34. Credentials a body receives are bounded by the manifest and the chain, whatever the resolver
  answers: a pull that returns something other than null asked about a subject whose namespace
  encloses the executing plugin's, got an object, and holds exactly the declared keys of it, each
  with the value the resolver gave.
\<close>

theorem pull_contained:
  assumes "pull resolver subject executing declared overridable x = Inr v" "v \<noteq> JNull"
  shows "encloses (namespace_of subject) (namespace_of executing) \<and>
    (\<exists>answer m. resolver \<lparr>sq_subject = subject, sq_executing_plugin = executing,
         sq_declared_keys = declared, sq_overridable_keys = overridable, sq_exec_ctx = x\<rparr>
       = Inr (JObject answer) \<and> v = JObject m
     \<and> (\<forall>k. obj_get m k = (if k \<in> set declared then obj_get answer k else None)))"
proof -
  let ?q = "\<lparr>sq_subject = subject, sq_executing_plugin = executing,
         sq_declared_keys = declared, sq_overridable_keys = overridable, sq_exec_ctx = x\<rparr>"
  from assms obtain a where c: "subject_is_on_chain subject executing"
    and a: "resolver ?q = Inr a" and v: "intersect_declared a declared = v"
    by (auto simp: pull_def split: if_splits sum.splits)
  from v assms(2) obtain answer where "a = JObject answer" "v = JObject (obj_collect
      (List.map_filter (\<lambda>k. map_option (\<lambda>v. (k, v)) (obj_get answer k)) declared) [])"
    by (auto simp: intersect_declared_def split: json.splits)
  with a c show ?thesis by (auto simp: chain_encloses obj_get_intersect)
qed

theorem pull_contained_witness:
  "encloses (namespace_of ''vault'') (namespace_of ''acme/billing'')
   \<and> (\<exists>m. pull (static_secret_resolver ''vault'' (JObject [(''key'', JBool True), (''other'', JNull)]))
          ''vault'' ''acme/billing'' [''key''] [] () = Inr (JObject m)
        \<and> obj_get m ''other'' = None)"
proof -
  let ?r = "static_secret_resolver ''vault'' (JObject [(''key'', JBool True), (''other'', JNull)])"
  let ?v = "JObject [(''key'', JBool True)]"
  have p: "pull ?r ''vault'' ''acme/billing'' [''key''] [] () = Inr ?v" by code_simp
  from pull_contained [OF p] have "encloses (namespace_of ''vault'') (namespace_of ''acme/billing'')"
    by simp
  moreover from pull_contained [OF p] have "obj_get [(''key'', JBool True)] ''other'' = None"
    by auto
  ultimately show ?thesis using p by blast
qed

end
