(* ===== verification/StepAccess.thy ===== *)
theory StepAccess
  imports RegistrySpec Secrets
begin

text \<open>
  Which step types an invocation may run: \<open>StepTypeAccess\<close>, \<open>BodyOwner\<close> and the reserved names of
  \<open>src/kernel/host_api.rs\<close>, and \<open>step_type_access_for\<close> and \<open>explain_step_type_refusal\<close> of
  \<open>src/kernel/mod.rs\<close>, which decide it once per invocation from the registry. The properties: every
  admitted name is reserved, the plugin's own, freely usable or granted, and registered on the
  plugin's chain; a body another plugin ships is always marked with its owner.
\<close>

section \<open>The access set\<close>

record body_owner =
  bo_identity :: string
  bo_declared_keys :: "string list"
  bo_overridable_keys :: "string list"

record step_type_access =
  sa_allowed :: "(string, string) table"
  sa_body_owners :: "(string, body_owner) table"

definition step_type_access_default :: step_type_access where
  "step_type_access_default = \<lparr>sa_allowed = [], sa_body_owners = []\<rparr>"

definition reserved_step_type_names :: "string list" where
  "reserved_step_type_names =
     [''ifs'', ''for_each'', ''repeat'', ''parallel'', ''return'', ''try'', ''script'',
      ''throw_error'', ''invoke'', ''wasm'', ''let'']"

definition access_resolve :: "step_type_access \<Rightarrow> string \<Rightarrow> string option" where
  "access_resolve access step_type =
     (case List.find (\<lambda>r. r = step_type) reserved_step_type_names of
        Some reserved \<Rightarrow> Some reserved
      | None \<Rightarrow> table_get (sa_allowed access) step_type)"

definition access_body_owner :: "step_type_access \<Rightarrow> string \<Rightarrow> body_owner option" where
  "access_body_owner access step_type = table_get (sa_body_owners access) step_type"

section \<open>Deciding it\<close>

definition admit_def ::
  "'m registry \<Rightarrow> string \<Rightarrow> string \<Rightarrow> string \<times> string \<times> step_type_def \<Rightarrow> step_type_access \<Rightarrow> step_type_access" where
  "admit_def r plugin ns entry acc =
     (case entry of (key, owner, d) \<Rightarrow>
       (let written = sd_name d in
        if namespace_of owner \<noteq> ns then acc
        else if table_get (sa_allowed acc) written \<noteq> None then acc
        else if owner = plugin \<or> sd_freely_usable d
          \<or> is_granted (check_step_type (permissions_for r plugin) written)
        then
          (let acc = acc\<lparr>sa_allowed := table_insert written key (sa_allowed acc)\<rparr> in
           if owner = plugin then acc
           else
             (case get_manifest r owner of
                None \<Rightarrow> acc
              | Some m \<Rightarrow>
                  acc\<lparr>sa_body_owners := table_insert written
                         \<lparr>bo_identity = owner, bo_declared_keys = declared_secret_keys m,
                          bo_overridable_keys = overridable_secret_keys m\<rparr> (sa_body_owners acc)\<rparr>))
        else acc))"

definition admit_alias ::
  "'m registry \<Rightarrow> string \<Rightarrow> string \<Rightarrow> string \<times> string \<Rightarrow> step_type_access \<Rightarrow> step_type_access" where
  "admit_alias r plugin ns entry acc =
     (case entry of (key, owner) \<Rightarrow>
       (let written = local_name_of key in
        if namespace_of owner \<noteq> ns then acc
        else if table_get (sa_allowed acc) written \<noteq> None then acc
        else if owner = plugin \<or> is_granted (check_step_type (permissions_for r plugin) written)
        then acc\<lparr>sa_allowed := table_insert written key (sa_allowed acc)\<rparr>
        else acc))"

definition admit_level :: "'m registry \<Rightarrow> string \<Rightarrow> string \<Rightarrow> step_type_access \<Rightarrow> step_type_access" where
  "admit_level r plugin ns acc =
     fold (admit_alias r plugin ns) (step_type_aliases_iter r)
       (fold (admit_def r plugin ns) (step_type_defs_iter r) acc)"

definition step_type_access_for :: "'m registry \<Rightarrow> string \<Rightarrow> step_type_access" where
  "step_type_access_for r plugin =
     fold (admit_level r plugin) (ancestor_namespaces (namespace_of plugin)) step_type_access_default"

text \<open>The reason given for a refusal. The owner named is that of the nearest registration.\<close>

definition nearest_def :: "'m registry \<Rightarrow> string \<Rightarrow> string \<Rightarrow> string option" where
  "nearest_def r caller_plugin step_type =
     (let key_at = (\<lambda>ns. if step_type_separator \<in> set step_type then qualify ns step_type else step_type)
      in case List.find (\<lambda>ns. get_step_type_def r (key_at ns) \<noteq> None)
               (ancestor_namespaces (namespace_of caller_plugin)) of
           None \<Rightarrow> None
         | Some ns \<Rightarrow> map_option fst (get_step_type_def r (key_at ns)))"

definition explain_step_type_refusal :: "'m registry \<Rightarrow> string \<Rightarrow> string \<Rightarrow> string" where
  "explain_step_type_refusal r caller_plugin step_type =
     (case nearest_def r caller_plugin step_type of
        Some owner \<Rightarrow>
          ''plugin '' @ ticked caller_plugin @ '' may not use step type '' @ ticked step_type
          @ '', which is defined by plugin '' @ ticked owner @ ''. Add \"step_type:'' @ step_type
          @ ''\" to this manifest's `permissions`, or '' @ long_dash
          @ '' if the step type is safe for anyone to call '' @ long_dash @ '' have '' @ ticked owner
          @ '' mark its `stepTypeDefs` entry \"freelyUsable\": true''
      | None \<Rightarrow>
          (case List.find (\<lambda>(key, _). local_name_of key = step_type) (step_type_aliases_iter r) of
             Some (_, owner) \<Rightarrow>
               ''plugin '' @ ticked caller_plugin @ '' lacks step_type:'' @ step_type
               @ '' permission (add it to the manifest's `permissions` list). Step type ''
               @ ticked step_type @ '' is an alias registered by plugin '' @ ticked owner
               @ '', so using it dispatches into that plugin's action''
           | None \<Rightarrow>
               ''plugin '' @ ticked caller_plugin @ '' lacks step_type:'' @ step_type
               @ '' permission, and no registered `stepTypeDefs` entry or alias defines ''
               @ ticked step_type))"

section \<open>What is admitted\<close>

definition may_use :: "'m registry \<Rightarrow> string \<Rightarrow> string \<Rightarrow> string \<Rightarrow> bool \<Rightarrow> bool" where
  "may_use r plugin owner written free \<longleftrightarrow>
     encloses (namespace_of owner) (namespace_of plugin)
     \<and> (owner = plugin \<or> free \<or> is_granted (check_step_type (permissions_for r plugin) written))"

text \<open>One admitted name: a definition with its owner marked when foreign, or an alias.\<close>

definition admitted :: "'m registry \<Rightarrow> string \<Rightarrow> step_type_access \<Rightarrow> string \<Rightarrow> string \<Rightarrow> bool" where
  "admitted r plugin acc written key \<longleftrightarrow>
     (\<exists>owner d. (key, owner, d) \<in> set (step_type_defs_iter r) \<and> sd_name d = written
        \<and> may_use r plugin owner written (sd_freely_usable d)
        \<and> access_body_owner acc written =
            (if owner = plugin then None
             else map_option (\<lambda>m. \<lparr>bo_identity = owner, bo_declared_keys = declared_secret_keys m,
                    bo_overridable_keys = overridable_secret_keys m\<rparr>) (get_manifest r owner)))
     \<or> (\<exists>owner. (key, owner) \<in> set (step_type_aliases_iter r) \<and> local_name_of key = written
        \<and> may_use r plugin owner written False \<and> access_body_owner acc written = None)"

definition access_ok :: "'m registry \<Rightarrow> string \<Rightarrow> step_type_access \<Rightarrow> bool" where
  "access_ok r plugin acc \<longleftrightarrow>
     (\<forall>written key. table_get (sa_allowed acc) written = Some key \<longrightarrow> admitted r plugin acc written key)
     \<and> (\<forall>written. table_get (sa_allowed acc) written = None \<longrightarrow> access_body_owner acc written = None)"

lemma access_ok_insert:
  assumes ok: "access_ok r plugin acc" and new: "table_get (sa_allowed acc) written = None"
    and acc': "acc' = acc\<lparr>sa_allowed := table_insert written key (sa_allowed acc)\<rparr>
      \<or> (\<exists>b. acc' = acc\<lparr>sa_allowed := table_insert written key (sa_allowed acc),
               sa_body_owners := table_insert written b (sa_body_owners acc)\<rparr>)"
    and adm: "admitted r plugin acc' written key"
  shows "access_ok r plugin acc'"
proof -
  have other: "table_get (sa_allowed acc') w = table_get (sa_allowed acc) w"
    "access_body_owner acc' w = access_body_owner acc w" if "w \<noteq> written" for w
    using acc' that by (auto simp: access_body_owner_def table_get_insert)
  have this_one: "table_get (sa_allowed acc') written = Some key"
    using acc' by (auto simp: table_get_insert)
  have "admitted r plugin acc' w k" if "table_get (sa_allowed acc') w = Some k" for w k
  proof (cases "w = written")
    case True
    with that this_one adm show ?thesis by simp
  next
    case False
    with that ok other [OF False] show ?thesis by (simp add: access_ok_def admitted_def)
  qed
  moreover have "access_body_owner acc' w = None" if "table_get (sa_allowed acc') w = None" for w
  proof -
    from that this_one have "w \<noteq> written" by auto
    with that ok other [OF this] show ?thesis by (simp add: access_ok_def)
  qed
  ultimately show ?thesis by (simp add: access_ok_def)
qed

lemma admit_def_ok:
  assumes ok: "access_ok r plugin acc" and ns: "encloses ns (namespace_of plugin)"
    and e: "entry \<in> set (step_type_defs_iter r)"
  shows "access_ok r plugin (admit_def r plugin ns entry acc)"
proof -
  obtain key owner d where entry: "entry = (key, owner, d)" by (cases entry)
  let ?w = "sd_name d"
  show ?thesis
  proof (cases "namespace_of owner = ns \<and> table_get (sa_allowed acc) ?w = None
      \<and> (owner = plugin \<or> sd_freely_usable d
         \<or> is_granted (check_step_type (permissions_for r plugin) ?w))")
    case False
    then have "admit_def r plugin ns entry acc = acc" by (auto simp: admit_def_def entry Let_def)
    with ok show ?thesis by simp
  next
    case True
    then have use: "may_use r plugin owner ?w (sd_freely_usable d)" using ns by (simp add: may_use_def)
    from True ok have free: "access_body_owner acc ?w = None" by (simp add: access_ok_def)
    define acc' where "acc' = admit_def r plugin ns entry acc"
    have shape: "acc' = (let acc1 = acc\<lparr>sa_allowed := table_insert ?w key (sa_allowed acc)\<rparr> in
        if owner = plugin then acc1
        else case get_manifest r owner of None \<Rightarrow> acc1
          | Some m \<Rightarrow> acc1\<lparr>sa_body_owners := table_insert ?w
              \<lparr>bo_identity = owner, bo_declared_keys = declared_secret_keys m,
               bo_overridable_keys = overridable_secret_keys m\<rparr> (sa_body_owners acc1)\<rparr>)"
      using True by (auto simp: acc'_def admit_def_def entry Let_def)
    have "access_body_owner acc' ?w =
        (if owner = plugin then None
         else map_option (\<lambda>m. \<lparr>bo_identity = owner, bo_declared_keys = declared_secret_keys m,
                bo_overridable_keys = overridable_secret_keys m\<rparr>) (get_manifest r owner))"
      using free by (simp add: shape Let_def access_body_owner_def table_get_insert split: option.split)
    with e use entry have "admitted r plugin acc' ?w key" unfolding admitted_def by blast
    moreover have "acc' = acc\<lparr>sa_allowed := table_insert ?w key (sa_allowed acc)\<rparr>
      \<or> (\<exists>b. acc' = acc\<lparr>sa_allowed := table_insert ?w key (sa_allowed acc),
               sa_body_owners := table_insert ?w b (sa_body_owners acc)\<rparr>)"
      by (cases "get_manifest r owner") (auto simp: shape Let_def)
    ultimately show ?thesis using access_ok_insert [OF ok] True unfolding acc'_def by blast
  qed
qed

lemma admit_alias_ok:
  assumes ok: "access_ok r plugin acc" and ns: "encloses ns (namespace_of plugin)"
    and e: "entry \<in> set (step_type_aliases_iter r)"
  shows "access_ok r plugin (admit_alias r plugin ns entry acc)"
proof -
  obtain key owner where entry: "entry = (key, owner)" by (cases entry)
  let ?w = "local_name_of key"
  show ?thesis
  proof (cases "namespace_of owner = ns \<and> table_get (sa_allowed acc) ?w = None
      \<and> (owner = plugin \<or> is_granted (check_step_type (permissions_for r plugin) ?w))")
    case False
    then have "admit_alias r plugin ns entry acc = acc" by (auto simp: admit_alias_def entry Let_def)
    with ok show ?thesis by simp
  next
    case True
    define acc' where "acc' = acc\<lparr>sa_allowed := table_insert ?w key (sa_allowed acc)\<rparr>"
    from True have a: "admit_alias r plugin ns entry acc = acc'"
      by (auto simp: acc'_def admit_alias_def entry Let_def)
    from True ns have "may_use r plugin owner ?w False" by (auto simp: may_use_def)
    moreover from True ok have "access_body_owner acc' ?w = None"
      by (simp add: access_ok_def acc'_def access_body_owner_def)
    ultimately have "admitted r plugin acc' ?w key" using e entry unfolding admitted_def by blast
    with True show ?thesis unfolding a by (intro access_ok_insert [OF ok]) (auto simp: acc'_def)
  qed
qed

lemma fold_keeps: "(\<And>x s. x \<in> set xs \<Longrightarrow> P s \<Longrightarrow> P (f x s)) \<Longrightarrow> P s \<Longrightarrow> P (fold f xs s)"
  by (induction xs arbitrary: s) auto

lemma access_for_ok: "access_ok r plugin (step_type_access_for r plugin)"
  unfolding step_type_access_for_def
proof (rule fold_keeps [where P = "access_ok r plugin"])
  show "access_ok r plugin step_type_access_default"
    by (simp add: access_ok_def step_type_access_default_def access_body_owner_def table_get_def)
next
  fix ns acc
  assume "ns \<in> set (ancestor_namespaces (namespace_of plugin))" and ok: "access_ok r plugin acc"
  then have "encloses ns (namespace_of plugin)" by (simp add: ancestor_iff)
  then show "access_ok r plugin (admit_level r plugin ns acc)"
    unfolding admit_level_def by (intro fold_keeps [where P = "access_ok r plugin"] admit_alias_ok admit_def_ok ok)
qed

lemma resolve_admitted:
  assumes "access_resolve (step_type_access_for r plugin) step_type = Some key"
  shows "step_type \<in> set reserved_step_type_names \<and> key = step_type
    \<or> admitted r plugin (step_type_access_for r plugin) step_type key"
proof (cases "step_type \<in> set reserved_step_type_names")
  case True
  with assms show ?thesis
    by (auto simp: access_resolve_def find_None_iff find_Some_iff split: option.splits)
next
  case False
  then have "table_get (sa_allowed (step_type_access_for r plugin)) step_type = Some key"
    using assms by (auto simp: access_resolve_def find_Some_iff split: option.splits)
  with access_for_ok [of r plugin] show ?thesis by (simp add: access_ok_def)
qed


text \<open>
  A root plugin offers \<open>vault.sign\<close> to everyone, a tenant's own \<open>vault\<close> keeps its \<open>vault.sign\<close> private.
  The comment of \<open>step_type_access_for\<close> says the first registration on the chain wins, so that a
  tenant's definition shadows the root's. The code takes the first registration the plugin may use:
  the tenant's other plugins, without a grant, silently reach the root's body.
\<close>

definition shadowed_registry :: "unit registry" where
  "shadowed_registry =
     commit_step_type_def ''acme/vault'' (step_type_def_new ''vault.sign'')
       (commit_step_type_def ''vault'' ((step_type_def_new ''vault.sign'')\<lparr>sd_freely_usable := True\<rparr>)
          registry_new)"

lemma shadowed_resolution:
  "access_resolve (step_type_access_for shadowed_registry ''acme/app'') ''vault.sign''
     = Some ''vault.sign''"
  "nearest_def shadowed_registry ''acme/app'' ''vault.sign'' = Some ''acme/vault''"
  by code_simp+


text \<open>
  The comment also says an unknown step type is let through, to fail at the linker. It is not in the
  access set, so it is refused as a missing permission.
\<close>

lemma unknown_step_type_refused:
  "access_resolve (step_type_access_for (registry_new :: unit registry) ''app'') ''typo'' = None"
  by code_simp

end
