(* ===== verification/Eval.thy ===== *)
theory Eval
  imports Parser Json
begin

text \<open>
  The evaluator of \<open>src/dsl/eval.rs\<close>: the context, path selection over JSON values with the
  unwrap-singleton rule, and expressions with the DSL's equality, ordering and truthiness. The
  recursion is structural, so evaluation is total.
\<close>

section \<open>The context\<close>

record eval_context =
  ec_input :: "json option"
  ec_steps :: "json option"
  ec_config :: "json option"
  ec_secrets :: "json option"
  ec_trigger :: "json option"
  ec_vars :: "json option"
  ec_item :: "json option"
  ec_implicit_source :: "json option"

definition empty_context :: eval_context where
  "empty_context = \<lparr>ec_input = None, ec_steps = None, ec_config = None, ec_secrets = None,
     ec_trigger = None, ec_vars = None, ec_item = None, ec_implicit_source = None\<rparr>"

definition with_implicit :: "json \<Rightarrow> eval_context" where
  "with_implicit source = empty_context\<lparr>ec_implicit_source := Some source\<rparr>"

section \<open>References\<close>

definition resolve_root :: "root \<Rightarrow> eval_context \<Rightarrow> json option" where
  "resolve_root r ctx =
     (case r of
        RImplicit \<Rightarrow> ec_implicit_source ctx
      | RInput \<Rightarrow> ec_input ctx
      | RConfig \<Rightarrow> ec_config ctx
      | RSecrets \<Rightarrow> ec_secrets ctx
      | RTrigger \<Rightarrow> ec_trigger ctx
      | RVars \<Rightarrow> ec_vars ctx
      | RItem \<Rightarrow> ec_item ctx
      | RSteps i \<Rightarrow>
          Option.bind (ec_steps ctx) (\<lambda>s. Option.bind (as_object s) (\<lambda>m. obj_get m i)))"

definition field_equals_string :: "json \<Rightarrow> string \<Rightarrow> string \<Rightarrow> bool" where
  "field_equals_string v field expected =
     (case v of
        JObject m \<Rightarrow> (case obj_get m field of Some (JString s) \<Rightarrow> s = expected | _ \<Rightarrow> False)
      | _ \<Rightarrow> False)"

text \<open>One value's contribution to the selection, and the loop over the selection.\<close>

definition segment_select :: "path_segment \<Rightarrow> json \<Rightarrow> json list" where
  "segment_select seg v =
     (case seg of
        Field name \<Rightarrow>
          (case v of
             JObject m \<Rightarrow> (case obj_get m name of Some child \<Rightarrow> [child] | None \<Rightarrow> [])
           | _ \<Rightarrow> [])
      | Index i \<Rightarrow>
          (case v of JArray arr \<Rightarrow> (if i < length arr then [arr ! i] else []) | _ \<Rightarrow> [])
      | Wildcard \<Rightarrow> (case v of JArray arr \<Rightarrow> arr | _ \<Rightarrow> [])
      | FilterEq field value \<Rightarrow>
          (case v of
             JArray arr \<Rightarrow> filter (\<lambda>elem. field_equals_string elem field value) arr
           | _ \<Rightarrow> []))"

definition apply_segment :: "path_segment \<Rightarrow> json list \<Rightarrow> json list" where
  "apply_segment seg sel = concat (map (segment_select seg) sel)"

text \<open>The loop of \<open>eval_reference\<close>, which stops early on an empty selection.\<close>

fun select_path :: "path_segment list \<Rightarrow> json list \<Rightarrow> json list" where
  "select_path [] selection = selection"
| "select_path (seg # path) selection =
     (let selection = apply_segment seg selection in
      if selection = [] then selection else select_path path selection)"

definition unwrap_selection :: "json list \<Rightarrow> json" where
  "unwrap_selection selection =
     (case selection of
        [] \<Rightarrow> JNull
      | [v] \<Rightarrow> v
      | _ \<Rightarrow> JArray selection)"

definition eval_reference :: "reference \<Rightarrow> eval_context \<Rightarrow> json" where
  "eval_reference r ctx =
     (case resolve_root (ref_root r) ctx of
        None \<Rightarrow> JNull
      | Some base \<Rightarrow> unwrap_selection (select_path (ref_path r) [base]))"

section \<open>Expressions\<close>

text \<open>
  \<open>i64::MAX as f64\<close> is \<open>2 ^ 63\<close>, the nearest double, so the upper test admits \<open>2 ^ 63\<close> itself.
\<close>

definition literal_to_value :: "literal \<Rightarrow> json" where
  "literal_to_value l =
     (case l of
        LString s \<Rightarrow> JString s
      | LNumber n \<Rightarrow>
          (if f64_is_finite n \<and> \<not> f64_has_fract n \<and> f64_le (f64_round (of_int i64_min)) n
             \<and> f64_le n (f64_round (of_int i64_max))
           then JNumber (num_of_i64 (f64_as_i64 n))
           else case num_from_f64 n of Some num \<Rightarrow> JNumber num | None \<Rightarrow> JNull)
      | LBool b \<Rightarrow> JBool b
      | LNull \<Rightarrow> JNull)"

definition values_equal :: "json \<Rightarrow> json \<Rightarrow> bool" where
  "values_equal a b =
     (case (as_f64 a, as_f64 b) of
        (Some la, Some lb) \<Rightarrow> f64_eq la lb
      | _ \<Rightarrow> json_eq a b)"

definition values_ordered :: "binary_op \<Rightarrow> json \<Rightarrow> json \<Rightarrow> bool" where
  "values_ordered op a b =
     (case (as_f64 a, as_f64 b) of
        (Some la, Some lb) \<Rightarrow>
          (case op of
             OpLt \<Rightarrow> f64_lt la lb
           | OpLe \<Rightarrow> f64_le la lb
           | OpGt \<Rightarrow> f64_lt lb la
           | OpGe \<Rightarrow> f64_le lb la
           | _ \<Rightarrow> False)
      | _ \<Rightarrow> False)"

definition is_truthy :: "json \<Rightarrow> bool" where
  "is_truthy v =
     (case v of
        JNull \<Rightarrow> False
      | JBool b \<Rightarrow> b
      | JNumber n \<Rightarrow> \<not> f64_eq (num_as_f64 n) (Fin 0)
      | JString s \<Rightarrow> s \<noteq> []
      | JArray a \<Rightarrow> a \<noteq> []
      | JObject m \<Rightarrow> m \<noteq> [])"

fun eval_expression :: "expression \<Rightarrow> eval_context \<Rightarrow> json" where
  "eval_expression (Literal l) ctx = literal_to_value l"
| "eval_expression (Ref r) ctx = eval_reference r ctx"
| "eval_expression (Unary Not inner) ctx = JBool (\<not> is_truthy (eval_expression inner ctx))"
| "eval_expression (Binary op l r) ctx =
     (let left = eval_expression l ctx in
      case op of
        OpEq \<Rightarrow> JBool (values_equal left (eval_expression r ctx))
      | OpNotEq \<Rightarrow> JBool (\<not> values_equal left (eval_expression r ctx))
      | OpAnd \<Rightarrow> (if is_truthy left then JBool (is_truthy (eval_expression r ctx)) else JBool False)
      | OpOr \<Rightarrow> (if is_truthy left then JBool True else JBool (is_truthy (eval_expression r ctx)))
      | OpCoalesce \<Rightarrow> (if left = JNull then eval_expression r ctx else left)
      | _ \<Rightarrow> JBool (values_ordered op left (eval_expression r ctx)))"

section \<open>Selection\<close>

lemma apply_segment_simps [simp]:
  "apply_segment seg [] = []"
  "apply_segment seg (v # sel) = segment_select seg v @ apply_segment seg sel"
  by (simp_all add: apply_segment_def)

lemma apply_segment_append: "apply_segment seg (s @ t) = apply_segment seg s @ apply_segment seg t"
  by (simp add: apply_segment_def)

text \<open>The early exit changes nothing: an empty selection stays empty.\<close>

lemma select_path_fold: "select_path path sel = fold apply_segment path sel"
proof (induction path sel rule: select_path.induct)
  case (2 seg path sel)
  have "fold apply_segment path [] = []" by (induction path) auto
  with 2 show ?case by (auto simp: Let_def)
qed simp

lemma select_path_append: "select_path (p @ q) sel = select_path q (select_path p sel)"
  by (simp add: select_path_fold)

lemma select_path_distrib: "select_path p (s @ t) = select_path p s @ select_path p t"
  unfolding select_path_fold
  by (induction p arbitrary: s t) (simp_all add: apply_segment_append)

lemma obj_get_wf: "json_wf (JObject m) \<Longrightarrow> obj_get m k = Some v \<Longrightarrow> json_wf v"
  by (auto simp: list_all_iff dest!: obj_get_set)

lemma segment_select_wf: "json_wf v \<Longrightarrow> list_all json_wf (segment_select seg v)"
  using obj_get_wf
  by (cases seg; cases v) (auto simp: segment_select_def list_all_iff split: option.split)

lemma apply_segment_wf: "list_all json_wf sel \<Longrightarrow> list_all json_wf (apply_segment seg sel)"
  using segment_select_wf by (fastforce simp: apply_segment_def list_all_iff)

lemma select_path_wf: "list_all json_wf sel \<Longrightarrow> list_all json_wf (select_path p sel)"
  unfolding select_path_fold by (induction p arbitrary: sel) (simp_all add: apply_segment_wf)

definition source_wf :: "json option \<Rightarrow> bool" where
  "source_wf src = (case src of None \<Rightarrow> True | Some v \<Rightarrow> json_wf v)"

definition context_wf :: "eval_context \<Rightarrow> bool" where
  "context_wf ctx \<longleftrightarrow> list_all source_wf
     [ec_input ctx, ec_steps ctx, ec_config ctx, ec_secrets ctx, ec_trigger ctx, ec_vars ctx,
      ec_item ctx, ec_implicit_source ctx]"

lemma source_wf_Some: "source_wf src \<Longrightarrow> src = Some v \<Longrightarrow> json_wf v"
  by (simp add: source_wf_def)

lemma resolve_root_wf:
  assumes "context_wf ctx" "resolve_root r ctx = Some v"
  shows "json_wf v"
proof (cases "\<exists>i. r = RSteps i")
  case True
  have as_object_Some: "as_object y = Some m \<longleftrightarrow> y = JObject m" for y m
    by (cases y) (auto simp: as_object_def)
  from True assms(2) obtain i m where m: "ec_steps ctx = Some (JObject m)" "obj_get m i = Some v"
    by (auto simp: resolve_root_def bind_eq_Some_conv as_object_Some)
  have "json_wf (JObject m)"
    by (rule source_wf_Some [OF _ m(1)]) (use assms(1) in \<open>simp add: context_wf_def\<close>)
  then show ?thesis using m(2) by (rule obj_get_wf)
next
  case False
  with assms show ?thesis
    by (cases r) (auto simp: context_wf_def resolve_root_def intro: source_wf_Some)
qed

lemma unwrap_selection_wf: "list_all json_wf sel \<Longrightarrow> json_wf (unwrap_selection sel)"
  by (auto simp: unwrap_selection_def split: list.split)

lemma eval_reference_wf: "context_wf ctx \<Longrightarrow> json_wf (eval_reference r ctx)"
  by (auto simp: eval_reference_def resolve_root_wf select_path_wf intro!: unwrap_selection_wf
      split: option.split)

lemma f64_as_i64_range: "i64_min \<le> f64_as_i64 n"
  by (auto simp: f64_as_i64_def i64_min_def i64_max_def split: f64.split)

lemma literal_wf: "json_wf (literal_to_value l)"
proof (cases l)
  case (LNumber n)
  then show ?thesis
    by (simp add: literal_to_value_def num_from_f64_def num_wf_of_i64 [OF f64_as_i64_range])
      (simp add: num_wf_def)
qed (simp_all add: literal_to_value_def)

lemma eval_bool_cases:
  "op \<noteq> OpCoalesce \<Longrightarrow> \<exists>b. eval_expression (Binary op l r) ctx = JBool b"
  by (cases op) (auto simp: Let_def)

lemma num_as_f64_not_NaN: "num_wf n \<Longrightarrow> num_as_f64 n \<noteq> NaN"
  by (auto simp: num_wf_def num_as_f64_def f64_is_finite_def split: json_num.splits)

section \<open>Properties\<close>

text \<open>
  Path selection composes: selecting a path \<open>p @ q\<close> from a value selects \<open>q\<close> from every value
  that \<open>p\<close> selects, in order. The early exit on an empty selection and the flattening of wildcards
  and filters do not change what is selected.
\<close>

theorem select_path_compose:
  "select_path (p @ q) [v] = concat (map (\<lambda>w. select_path q [w]) (select_path p [v]))"
proof -
  have "select_path q ws = concat (map (\<lambda>w. select_path q [w]) ws)" for ws
  proof (induction ws)
    case Nil
    show ?case unfolding select_path_fold by (induction q) auto
  next
    case (Cons w ws)
    then show ?case using select_path_distrib [of q "[w]" ws] by simp
  qed
  then show ?thesis by (metis select_path_append)
qed



text \<open>
  Comparison of two numbers is a total order on their values as doubles: exactly one of \<open><\<close>,
  \<open>==\<close> and \<open>>\<close> holds, \<open><=\<close> is \<open><\<close> or \<open>==\<close>, and \<open>>=\<close> is \<open>>\<close> or \<open>==\<close>. As soon as one operand is not a
  number, all four orderings are false.
\<close>

theorem comparisons_total:
  assumes "json_wf a" "json_wf b"
  shows "(if as_f64 a \<noteq> None \<and> as_f64 b \<noteq> None
     then length (filter id [values_ordered OpLt a b, values_equal a b, values_ordered OpGt a b]) = 1
       \<and> values_ordered OpLe a b = (values_ordered OpLt a b \<or> values_equal a b)
       \<and> values_ordered OpGe a b = (values_ordered OpGt a b \<or> values_equal a b)
     else list_all (\<lambda>op. \<not> values_ordered op a b) [OpLt, OpLe, OpGt, OpGe])"
proof (cases "\<exists>m n. a = JNumber m \<and> b = JNumber n")
  case True
  then obtain m n where mn: "a = JNumber m" "b = JNumber n" by blast
  let ?x = "num_as_f64 m" and ?y = "num_as_f64 n"
  have nn: "?x \<noteq> NaN" "?y \<noteq> NaN" using assms mn num_as_f64_not_NaN by auto
  have asym: "\<not> (f64_lt ?x ?y \<and> f64_lt ?y ?x)" using f64_lt_trans f64_lt_irrefl by blast
  have eq: "f64_eq ?x ?y \<Longrightarrow> \<not> f64_lt ?x ?y \<and> \<not> f64_lt ?y ?x"
    by (auto simp: f64_eq_def f64_lt_irrefl)
  have tri: "f64_lt ?x ?y \<or> f64_eq ?x ?y \<or> f64_lt ?y ?x" by (rule f64_trichotomy [OF nn])
  have sym: "f64_eq ?y ?x = f64_eq ?x ?y" by (auto simp: f64_eq_def)
  show ?thesis using asym eq tri sym
    by (auto simp: mn as_f64_def values_ordered_def values_equal_def f64_le_def)
next
  case False
  then have "as_f64 a = None \<or> as_f64 b = None" by (auto simp: as_f64_def split: json.split)
  then show ?thesis by (auto simp: values_ordered_def split: option.split)
qed

theorem comparisons_total_witness:
  "length (filter id [values_ordered OpLt (JNumber (PosInt 4)) (JNumber (JFloat (Fin 4))),
     values_equal (JNumber (PosInt 4)) (JNumber (JFloat (Fin 4))),
     values_ordered OpGt (JNumber (PosInt 4)) (JNumber (JFloat (Fin 4)))]) = 1"
  using comparisons_total [of "JNumber (PosInt 4)" "JNumber (JFloat (Fin 4))"]
  by (simp add: num_wf_def f64_is_finite_def as_f64_def)

text \<open>
  The logical operators are the classical ones on truthiness: \<open>!\<close> negates exactly, \<open>&&\<close> and \<open>||\<close>
  are conjunction and disjunction although they skip their right operand, and \<open>!=\<close> is the negation
  of \<open>==\<close>.
\<close>

theorem logic_on_truthiness:
  "is_truthy (eval_expression (Unary Not e) ctx) = (\<not> is_truthy (eval_expression e ctx))
   \<and> is_truthy (eval_expression (Binary OpAnd e f) ctx)
      = (is_truthy (eval_expression e ctx) \<and> is_truthy (eval_expression f ctx))
   \<and> is_truthy (eval_expression (Binary OpOr e f) ctx)
      = (is_truthy (eval_expression e ctx) \<or> is_truthy (eval_expression f ctx))
   \<and> is_truthy (eval_expression (Binary OpNotEq e f) ctx)
      = (\<not> is_truthy (eval_expression (Binary OpEq e f) ctx))"
  by (auto simp: Let_def is_truthy_def)

section \<open>Integer literals\<close>

lemma literal_integer:
  assumes "n < 2 ^ 53"
  shows "literal_to_value (LNumber (Fin (of_nat n))) = JNumber (PosInt (of_nat n))"
proof -
  have "(of_nat n :: rat) < 2 ^ 53"
    using assms by (metis of_nat_less_iff of_nat_numeral of_nat_power)
  then have "(of_nat n :: rat) \<le> 2 ^ 63" by simp
  moreover have "(- (2 ^ 63) :: rat) < of_nat n" by simp
  ultimately have r: "f64_le (f64_round (of_int i64_min)) (Fin (of_nat n))"
    "f64_le (Fin (of_nat n)) (f64_round (of_int i64_max))"
    by (auto simp: f64_round_i64_min f64_round_i64_max f64_le_def f64_eq_def)
  have "int n \<le> i64_max" using assms by (simp add: i64_max_def)
  then have "f64_as_i64 (Fin (of_nat n)) = int n"
    by (simp add: f64_as_i64_def trunc_rat_def i64_min_def)
  then show ?thesis
    using r by (simp add: literal_to_value_def f64_is_finite_def f64_has_fract_def num_of_i64_def)
qed

text \<open>
  The upper end: \<open>2 ^ 63\<close> passes the range test, being \<open>i64::MAX as f64\<close>, and the cast saturates,
  so the literal 9223372036854775808 is emitted as 9223372036854775807.
\<close>

lemma literal_saturates:
  "literal_to_value (LNumber (Fin (2 ^ 63))) = JNumber (PosInt 9223372036854775807)"
proof -
  have "f64_as_i64 (Fin (2 ^ 63)) = i64_max"
    by (simp add: f64_as_i64_def trunc_rat_def i64_min_def i64_max_def)
  moreover have "num_of_i64 i64_max = PosInt 9223372036854775807"
    by (simp add: num_of_i64_def i64_max_def)
  ultimately show ?thesis
    by (simp add: literal_to_value_def f64_is_finite_def f64_has_fract_def f64_round_i64_min
        f64_round_i64_max f64_le_def f64_eq_def)
qed

end
