(* ===== verification/Resolve.thy ===== *)
theory Resolve
  imports Eval
begin

text \<open>
  The template resolver of \<open>src/domain/resolve.rs\<close>: the placeholders of a string, their evaluation
  to text, and the recursion into JSON values that keeps the type of a value that is one whole
  placeholder. Serde's \<open>Display\<close> of a number, an array or an object is not code of this repository;
  it is the parameter \<open>fmt\<close>.
\<close>

section \<open>The placeholder matcher\<close>

text \<open>
  The regular expression \<open>\{\{(.+?)}}\<close> by hand. The dot matches any character but a line feed, the
  plus asks for one character, and the lazy repetition ends at the first closing pair after it.
  On UTF-8 bytes this is the same as on characters, a brace being never part of a longer encoding.
\<close>

fun lazy_close :: "string \<Rightarrow> (string \<times> string) option" where
  "lazy_close [] = None"
| "lazy_close (c # r) =
     (case strip_prefix ''}}'' (c # r) of
        Some rest \<Rightarrow> Some ([], rest)
      | None \<Rightarrow>
          if c = CHR 0x0A then None
          else map_option (\<lambda>(inner, rest). (c # inner, rest)) (lazy_close r))"

definition match_template :: "string \<Rightarrow> (string \<times> string) option" where
  "match_template s =
     (case strip_prefix ''{{'' s of
        None \<Rightarrow> None
      | Some [] \<Rightarrow> None
      | Some (c # r) \<Rightarrow>
          if c = CHR 0x0A then None
          else map_option (\<lambda>(inner, rest). (c # inner, rest)) (lazy_close r))"

lemma lazy_close_shorter: "lazy_close s = Some (inner, rest) \<Longrightarrow> length rest < length s"
proof (induction s arbitrary: inner)
  case (Cons c r)
  show ?case
  proof (cases "strip_prefix ''}}'' (c # r)")
    case None
    with Cons show ?thesis by (fastforce split: if_splits)
  next
    case (Some rest')
    with Cons.prems have "rest' = rest" by (simp only: lazy_close.simps option.case) simp
    with Some have "c # r = ''}}'' @ rest" by (simp only: strip_prefix_Some)
    from arg_cong [OF this, of length] show ?thesis by simp
  qed
qed simp

lemma match_template_shorter: "match_template s = Some (inner, rest) \<Longrightarrow> length rest < length s"
  by (fastforce simp: match_template_def strip_prefix_Some split: option.splits list.splits if_splits
      dest: lazy_close_shorter)

text \<open>\<open>Regex::replace_all\<close> and \<open>captures_iter\<close>: leftmost matches, none overlapping.\<close>

function replace_all :: "(string \<Rightarrow> string) \<Rightarrow> string \<Rightarrow> string" where
  "replace_all f s =
     (case match_template s of
        Some (inner, rest) \<Rightarrow> f inner @ replace_all f rest
      | None \<Rightarrow> (case s of [] \<Rightarrow> [] | c # r \<Rightarrow> c # replace_all f r))"
  by pat_completeness auto
termination
  by (relation "measure (\<lambda>(f, s). length s)") (auto dest: match_template_shorter)

function captures :: "string \<Rightarrow> string list" where
  "captures s =
     (case match_template s of
        Some (inner, rest) \<Rightarrow> inner # captures rest
      | None \<Rightarrow> (case s of [] \<Rightarrow> [] | c # r \<Rightarrow> captures r))"
  by pat_completeness auto
termination
  by (relation "measure length") (auto dest: match_template_shorter)

declare replace_all.simps [simp del] captures.simps [simp del]

section \<open>Resolution\<close>

definition build_dsl_context :: "json \<Rightarrow> eval_context" where
  "build_dsl_context variables =
     \<lparr>ec_input = Some variables,
      ec_steps = json_get variables ''steps'',
      ec_config = json_get variables ''config'',
      ec_secrets = json_get variables ''secrets'',
      ec_trigger = json_get variables ''trigger'',
      ec_vars = json_get variables ''vars'',
      ec_item = json_get variables ''item'',
      ec_implicit_source = Some variables\<rparr>"

definition value_to_string :: "(json \<Rightarrow> string) \<Rightarrow> json \<Rightarrow> string" where
  "value_to_string fmt v =
     (case v of
        JString s \<Rightarrow> s
      | JNumber n \<Rightarrow> fmt v
      | JBool b \<Rightarrow> (if b then ''true'' else ''false'')
      | JNull \<Rightarrow> []
      | other \<Rightarrow> fmt other)"

definition resolve_expression_to_string :: "(json \<Rightarrow> string) \<Rightarrow> string \<Rightarrow> json \<Rightarrow> string" where
  "resolve_expression_to_string fmt expr variables =
     (if expr = ''value'' then ''{{value}}''
      else case parse_expression expr of
        Inr parsed \<Rightarrow> value_to_string fmt (eval_expression parsed (build_dsl_context variables))
      | Inl _ \<Rightarrow> [])"

definition resolve :: "(json \<Rightarrow> string) \<Rightarrow> string \<Rightarrow> json \<Rightarrow> string" where
  "resolve fmt tmpl variables =
     replace_all (\<lambda>inner. resolve_expression_to_string fmt (trim inner) variables) tmpl"

text \<open>Evaluation by \<open>code_simp\<close> must not look under the closure, where the expression is not known yet.\<close>

definition resolve_match :: "(json \<Rightarrow> string) \<Rightarrow> json \<Rightarrow> string \<Rightarrow> string" where
  "resolve_match fmt variables inner = resolve_expression_to_string fmt (trim inner) variables"

lemma resolve_code [code]: "resolve fmt tmpl variables = replace_all (resolve_match fmt variables) tmpl"
  by (simp add: resolve_def resolve_match_def [abs_def])

definition single_template_expression :: "string \<Rightarrow> string option" where
  "single_template_expression s =
     Option.bind (strip_prefix ''{{'' (trim s)) (\<lambda>r.
     Option.bind (strip_suffix ''}}'' r) (\<lambda>inner.
       if contains_str ''{{'' inner \<or> contains_str ''}}'' inner then None
       else Some (trim inner)))"

definition resolve_string_as_value :: "(json \<Rightarrow> string) \<Rightarrow> string \<Rightarrow> json \<Rightarrow> json" where
  "resolve_string_as_value fmt s variables =
     (case single_template_expression s of
        None \<Rightarrow> JString (resolve fmt s variables)
      | Some expr \<Rightarrow>
          if expr = ''value'' then JString s
          else case parse_expression expr of
            Inl _ \<Rightarrow> JString (resolve fmt s variables)
          | Inr parsed \<Rightarrow>
              (let v = eval_expression parsed (build_dsl_context variables) in
               if v = JNull then JString [] else v))"

fun resolve_value :: "(json \<Rightarrow> string) \<Rightarrow> json \<Rightarrow> json \<Rightarrow> json" where
  "resolve_value fmt (JString s) variables = resolve_string_as_value fmt s variables"
| "resolve_value fmt (JObject m) variables =
     JObject (obj_collect (map (\<lambda>(k, v). (k, resolve_value fmt v variables)) m) [])"
| "resolve_value fmt (JArray arr) variables = JArray (map (\<lambda>v. resolve_value fmt v variables) arr)"
| "resolve_value fmt other variables = other"

definition non_dialect_placeholders :: "string \<Rightarrow> string list" where
  "non_dialect_placeholders s =
     filter (\<lambda>inner. \<not> starts_with ''$'' inner \<and> inner \<noteq> ''value'') (map trim (captures s))"

section \<open>Matching\<close>

lemma lazy_close_first:
  assumes "CHR ''}'' \<notin> set e" "CHR 0x0A \<notin> set e"
  shows "lazy_close (e @ ''}}'' @ post) = Some (e, post)"
  using assms
proof (induction e)
  case Nil
  show ?case by simp
next
  case (Cons c e)
  then have "strip_prefix ''}}'' (c # e @ ''}}'' @ post) = None" by simp
  with Cons show ?case by auto
qed

lemma match_template_first:
  assumes "e \<noteq> []" "CHR ''}'' \<notin> set e" "CHR 0x0A \<notin> set e"
  shows "match_template (''{{'' @ e @ ''}}'' @ post) = Some (e, post)"
proof -
  obtain c r where e: "e = c # r" using assms(1) by (cases e) auto
  with assms lazy_close_first [of r post] show ?thesis by (auto simp: match_template_def)
qed

lemma match_template_none: "\<not> starts_with ''{{'' s \<Longrightarrow> match_template s = None"
  by (simp add: match_template_def starts_with_def)

lemma replace_all_skip:
  "\<not> starts_with ''{{'' (c # r) \<Longrightarrow> replace_all f (c # r) = c # replace_all f r"
  by (simp add: replace_all.simps [of f "c # r"] match_template_none)

lemma replace_all_nil [simp]: "replace_all f [] = []"
  by (simp add: replace_all.simps [of f "[]"] match_template_def)

lemma captures_nil [simp]: "captures [] = []"
  by (simp add: captures.simps [of "[]"] match_template_def)

lemma captures_skip: "\<not> starts_with ''{{'' (c # r) \<Longrightarrow> captures (c # r) = captures r"
  by (simp add: captures.simps [of "c # r"] match_template_none)

lemma captures_template:
  "e \<noteq> [] \<Longrightarrow> CHR ''}'' \<notin> set e \<Longrightarrow> CHR 0x0A \<notin> set e \<Longrightarrow>
    captures (''{{'' @ e @ ''}}'' @ post) = e # captures post"
  by (subst captures.simps) (simp add: match_template_first [simplified])

lemma brace_prefix: "starts_with ''{{'' (c # r) \<Longrightarrow> c = CHR ''{''"
  by (auto simp: starts_with_iff)

lemma replace_all_plain: "CHR ''{'' \<notin> set pre \<Longrightarrow> replace_all f (pre @ s) = pre @ replace_all f s"
proof (induction pre)
  case (Cons c pre)
  then have "\<not> starts_with ''{{'' (c # pre @ s)" using brace_prefix by fastforce
  with Cons show ?case by (simp add: replace_all_skip)
qed simp

lemma replace_all_id: "\<not> contains_str ''{{'' s \<Longrightarrow> replace_all f s = s"
  by (induction s) (simp_all add: replace_all_skip)

lemma replace_all_template:
  assumes "e \<noteq> []" "CHR ''}'' \<notin> set e" "CHR 0x0A \<notin> set e"
  shows "replace_all f (''{{'' @ e @ ''}}'' @ post) = f e @ replace_all f post"
  by (subst replace_all.simps) (simp add: match_template_first [OF assms, simplified])

text \<open>Replacement and capture walk the same matches, so equal functions on the captures suffice.\<close>

lemma replace_all_cong:
  "(\<And>inner. inner \<in> set (captures s) \<Longrightarrow> f inner = g inner) \<Longrightarrow> replace_all f s = replace_all g s"
proof (induction s rule: captures.induct)
  case (1 s)
  show ?case
  proof (cases "match_template s")
    case None
    show ?thesis
    proof (cases s)
      case (Cons c r)
      with 1(1) [OF None Cons] 1(3) None show ?thesis
        by (simp add: replace_all.simps [of _ "c # r"] captures.simps [of "c # r"])
    qed simp
  next
    case (Some p)
    obtain inner rest where p: "p = (inner, rest)" by (cases p)
    with 1(2) [OF Some p [symmetric]] 1(3) Some show ?thesis
      by (simp add: replace_all.simps [of _ s] captures.simps [of s])
  qed
qed

section \<open>Properties\<close>

text \<open>
  Interpolation: text before a placeholder is copied, a placeholder is replaced by the text of
  its trimmed expression, and resolution goes on after it; a template without an opening pair of
  braces is returned as it is.
\<close>

theorem resolve_interpolates:
  assumes "CHR ''{'' \<notin> set pre" "e \<noteq> []" "CHR ''}'' \<notin> set e" "CHR 0x0A \<notin> set e"
  shows "resolve fmt (pre @ ''{{'' @ e @ ''}}'' @ post) variables
      = pre @ resolve_expression_to_string fmt (trim e) variables @ resolve fmt post variables
    \<and> resolve fmt pre variables = pre"
proof -
  have "resolve fmt (pre @ ''{{'' @ e @ ''}}'' @ post) variables
      = pre @ resolve_expression_to_string fmt (trim e) variables @ resolve fmt post variables"
    unfolding resolve_def replace_all_plain [OF assms(1)] replace_all_template [OF assms(2-4)] ..
  moreover have "resolve fmt pre variables = pre"
    using replace_all_plain [OF assms(1), of _ "[]"] by (simp add: resolve_def)
  ultimately show ?thesis ..
qed

theorem resolve_interpolates_witness:
  "\<forall>fmt. resolve fmt ''id={{$.a}}!'' (JObject [(''a'', JString ''x'')]) = ''id=x!''"
proof
  fix fmt :: "json \<Rightarrow> string"
  let ?v = "JObject [(''a'', JString ''x'')]"
  have "resolve_expression_to_string fmt (trim ''$.a'') ?v = ''x''"
  proof -
    have "trim ''$.a'' = ''$.a''" by (rule trim_solid) (simp add: solid_def byte_def)
    moreover have "parse_expression ''$.a'' = Inr (Ref \<lparr>ref_root = RImplicit, ref_path = [Field ''a'']\<rparr>)"
      by code_simp
    ultimately show ?thesis
      by (simp add: resolve_expression_to_string_def build_dsl_context_def eval_reference_def
          resolve_root_def segment_select_def obj_get_def unwrap_selection_def value_to_string_def)
  qed
  moreover have "resolve fmt ''!'' ?v = ''!''"
    unfolding resolve_def by (rule replace_all_id) (simp add: starts_with_def)
  ultimately show "resolve fmt ''id={{$.a}}!'' (JObject [(''a'', JString ''x'')]) = ''id=x!''"
    using resolve_interpolates [of "''id=''" "''$.a''" fmt "''!''" ?v] by simp
qed

text \<open>
  Value preservation: a string that is one placeholder, with white space at most around it and
  inside it, resolves to the value of its expression with the value's own type, not to its text;
  a missing value resolves to the empty string.
\<close>

theorem single_template_keeps_type:
  assumes "trim s = ''{{'' @ inner @ ''}}''" "\<not> contains_str ''{{'' inner" "\<not> contains_str ''}}'' inner"
    and "trim inner \<noteq> ''value''" "parse_expression (trim inner) = Inr e"
  shows "resolve_value fmt (JString s) variables
    = (let v = eval_expression e (build_dsl_context variables) in if v = JNull then JString [] else v)"
proof -
  have "strip_suffix ''}}'' (inner @ ''}}'') = Some inner" by (rule strip_suffix_append)
  then have "single_template_expression s = Some (trim inner)"
    using assms(1-3) by (simp add: single_template_expression_def)
  with assms(4,5) show ?thesis by (simp add: resolve_string_as_value_def)
qed

theorem single_template_keeps_type_witness:
  "\<forall>fmt. resolve_value fmt (JString ''{{$.a}}'') (JObject [(''a'', JArray [JNull])]) = JArray [JNull]"
proof
  fix fmt :: "json \<Rightarrow> string"
  have "trim ''{{$.a}}'' = ''{{$.a}}''" by (rule trim_solid) (simp add: solid_def byte_def)
  then have 1: "trim ''{{$.a}}'' = ''{{'' @ ''$.a'' @ ''}}''" by simp
  have t: "trim ''$.a'' = ''$.a''" by (rule trim_solid) (simp add: solid_def byte_def)
  have p: "parse_expression ''$.a'' = Inr (Ref \<lparr>ref_root = RImplicit, ref_path = [Field ''a'']\<rparr>)"
    by code_simp
  let ?v = "JObject [(''a'', JArray [JNull])]"
  have e: "eval_expression (Ref \<lparr>ref_root = RImplicit, ref_path = [Field ''a'']\<rparr>) (build_dsl_context ?v)
      = JArray [JNull]"
    by (simp add: build_dsl_context_def eval_reference_def
        resolve_root_def segment_select_def obj_get_def unwrap_selection_def)
  have c: "\<not> contains_str ''{{'' ''$.a''" "\<not> contains_str ''}}'' ''$.a''"
    by (simp_all add: starts_with_def)
  have "parse_expression (trim ''$.a'')
      = Inr (Ref \<lparr>ref_root = RImplicit, ref_path = [Field ''a'']\<rparr>)" "trim ''$.a'' \<noteq> ''value''"
    unfolding t using p by simp_all
  from single_template_keeps_type [OF 1 c this(2,1), of fmt ?v] show "resolve_value fmt (JString ''{{$.a}}'') (JObject [(''a'', JArray [JNull])]) = JArray [JNull]"
    unfolding e by simp
qed

text \<open>
  The placeholders are all the resolver reads: two variable bags on which the expressions of a
  string's placeholders evaluate to the same text resolve the string to the same text, and a
  placeholder that is not an expression of the DSL is rendered as the empty string.
\<close>

theorem resolve_local:
  assumes "\<forall>inner\<in>set (captures s). resolve_expression_to_string fmt (trim inner) vs
      = resolve_expression_to_string fmt (trim inner) ws"
  shows "resolve fmt s vs = resolve fmt s ws
    \<and> (parse_expression x = Inl err \<and> x \<noteq> ''value'' \<longrightarrow> resolve_expression_to_string fmt x vs = [])"
proof
  show "resolve fmt s vs = resolve fmt s ws"
    unfolding resolve_def by (rule replace_all_cong) (use assms in blast)
qed (simp add: resolve_expression_to_string_def)

theorem resolve_local_witness:
  "\<forall>fmt. resolve fmt ''a{{config.x}}b'' (JBool True) = resolve fmt ''a{{config.x}}b'' JNull"
proof
  fix fmt :: "json \<Rightarrow> string"
  have p: "parse_expression ''config.x''
      = Inl (Fault (Unexpected (ExpectedExpression (TIdent ''config'')) 0))" by code_simp
  have t: "trim ''config.x'' = ''config.x''" by (rule trim_solid) (simp add: solid_def byte_def)
  have "captures ''a{{config.x}}b'' = [''config.x'']"
    using captures_template [of "''config.x''" "''b''"]
    by (simp add: captures_skip starts_with_def)
  moreover have "resolve_expression_to_string fmt ''config.x'' v = []" for v
    unfolding resolve_expression_to_string_def p by simp
  ultimately have "\<forall>inner\<in>set (captures ''a{{config.x}}b''). resolve_expression_to_string fmt (trim inner) (JBool True)
      = resolve_expression_to_string fmt (trim inner) JNull"
    using t by simp
  from resolve_local [OF this, of "[]"] show "resolve fmt ''a{{config.x}}b'' (JBool True) = resolve fmt ''a{{config.x}}b'' JNull" by blast
qed

end
