(* ===== verification/ExecState.thy ===== *)
theory ExecState
  imports Dispatch StepAccess Resolve
begin

text \<open>
  The state of one invocation: \<open>ExecutionState\<close> of \<open>src/kernel/host_api.rs\<close> with the operations on
  it. An \<open>IndexMap\<close> is a table in insertion order, a stack has its top first. The stream registry and
  the embedder's context are type parameters. The cancellation token is asked at numbered moments:
  \<open>es_task\<close> names the task (a forked task prefixes its slot) and \<open>es_polls\<close> counts its questions, so a
  function of both gives every possible behaviour of a token. The kernel back-reference holds what
  the step layer reads of \<open>Kernel\<close>; wasm modules, engine, deadline and telemetry are left out.
\<close>

section \<open>Loops\<close>

datatype foreach_items = Values "json list" | Count nat

definition items_len :: "foreach_items \<Rightarrow> nat" where
  "items_len items = (case items of Values v \<Rightarrow> length v | Count n \<Rightarrow> n)"

definition item_at :: "foreach_items \<Rightarrow> nat \<Rightarrow> json option" where
  "item_at items idx =
     (case items of
        Values v \<Rightarrow> (if idx < length v then Some (v ! idx) else None)
      | Count n \<Rightarrow> (if idx < n then Some (JNumber (PosInt (of_nat idx))) else None))"

record foreach_state =
  fe_items :: foreach_items
  fe_current_value :: "json option"
  fe_index :: nat
  fe_current :: "nat option"
  fe_results :: "json list"

section \<open>The state\<close>

record ('m, 'x) kernel =
  kn_registry :: "'m registry"
  kn_orchestrator :: "('m, 'x) orchestrator"
  kn_limits :: runtime_limits
  kn_secret_resolver :: "'x secret_resolver option"

record ('m, 'x, 's) execution_state =
  es_plugin_name :: string
  es_action :: action
  es_input :: json
  es_config :: json
  es_secrets :: json
  es_variables :: "(string, json) table"
  es_step_results :: "(string, json) table"
  es_step_metadata :: "(string, (string, json) table) table"
  es_first_step_id :: "string option"
  es_exec_ctx :: 'x
  es_last_error :: "string option"
  es_resource_violation :: "resource_violation option"
  es_step_results_bytes :: nat
  es_plugin_error :: "plugin_error_payload option"
  es_cancelled :: bool
  es_callee_error :: "callee_error option"
  es_foreach_stack :: "foreach_state list"
  es_error_stack :: "string list"
  es_streams :: 's
  es_invoke_depth :: nat
  es_dispatch_depth :: nat
  es_kernel :: "('m, 'x) kernel option"
  es_limits :: runtime_limits
  es_trigger :: "json option"
  es_fanout_overrides :: "(string, nat) table"
  es_task :: "nat list"
  es_polls :: nat
  es_current_step_idx :: "nat option"
  es_return_signal :: "json option"
  es_step_type_access :: step_type_access
  es_body_secrets :: "json option"
  es_secret_resolver :: "'x secret_resolver option"

abbreviation es_steps :: "('m, 'x, 's) execution_state \<Rightarrow> step_def list" where
  "es_steps s \<equiv> act_steps (es_action s)"

record ('m, 'x, 's) state_params =
  sp_plugin_name :: string
  sp_action :: action
  sp_input :: json
  sp_config :: json
  sp_secrets :: json
  sp_exec_ctx :: 'x
  sp_streams :: 's
  sp_invoke_depth :: nat
  sp_dispatch_depth :: nat
  sp_kernel :: "('m, 'x) kernel option"
  sp_trigger :: "json option"
  sp_limits :: runtime_limits
  sp_step_type_access :: step_type_access
  sp_secret_resolver :: "'x secret_resolver option"

definition execution_state_new :: "('m, 'x, 's) state_params \<Rightarrow> ('m, 'x, 's) execution_state" where
  "execution_state_new p =
     \<lparr>es_plugin_name = sp_plugin_name p, es_action = sp_action p, es_input = sp_input p,
      es_config = sp_config p, es_secrets = sp_secrets p, es_variables = [], es_step_results = [],
      es_step_metadata = [], es_first_step_id = None, es_exec_ctx = sp_exec_ctx p,
      es_last_error = None, es_resource_violation = None, es_step_results_bytes = 0,
      es_plugin_error = None, es_cancelled = False, es_callee_error = None, es_foreach_stack = [],
      es_error_stack = [], es_streams = sp_streams p, es_invoke_depth = sp_invoke_depth p,
      es_dispatch_depth = sp_dispatch_depth p, es_kernel = sp_kernel p, es_limits = sp_limits p,
      es_trigger = sp_trigger p, es_fanout_overrides = [], es_task = [], es_polls = 0,
      es_current_step_idx = None, es_return_signal = None,
      es_step_type_access = sp_step_type_access p, es_body_secrets = None,
      es_secret_resolver = sp_secret_resolver p\<rparr>"

section \<open>Views for resolution\<close>

definition branch_value :: "nat \<Rightarrow> json" where
  "branch_value branch = JNumber (PosInt (of_nat branch))"

definition overridden :: "('m, 'x, 's) execution_state \<Rightarrow> string \<Rightarrow> json \<Rightarrow> json" where
  "overridden s k v =
     (case table_get (es_fanout_overrides s) k of Some branch \<Rightarrow> branch_value branch | None \<Rightarrow> v)"

definition effective_step_result :: "('m, 'x, 's) execution_state \<Rightarrow> string \<Rightarrow> json option" where
  "effective_step_result s step_id =
     (case table_get (es_fanout_overrides s) step_id of
        Some branch \<Rightarrow> Some (branch_value branch)
      | None \<Rightarrow> table_get (es_step_results s) step_id)"

definition step_results_view :: "('m, 'x, 's) execution_state \<Rightarrow> (string, json) table option" where
  "step_results_view s =
     (if es_fanout_overrides s = [] then None
      else Some (map (\<lambda>(k, v). (k, overridden s k v)) (es_step_results s)))"

definition step_object :: "('m, 'x, 's) execution_state \<Rightarrow> string \<Rightarrow> json \<Rightarrow> json" where
  "step_object s k result =
     JObject (obj_insert ''result'' result
       (obj_collect (case table_get (es_step_metadata s) k of Some m \<Rightarrow> m | None \<Rightarrow> []) []))"

definition build_dsl_steps_view :: "('m, 'x, 's) execution_state \<Rightarrow> json" where
  "build_dsl_steps_view s =
     (let source = (case step_results_view s of Some base \<Rightarrow> base | None \<Rightarrow> es_step_results s)
      in JObject (obj_collect (map (\<lambda>(k, v). (k, step_object s k v)) source) []))"

definition vars_as_value :: "('m, 'x, 's) execution_state \<Rightarrow> json" where
  "vars_as_value s = JObject (obj_collect (es_variables s) [])"

definition current_item :: "('m, 'x, 's) execution_state \<Rightarrow> json option" where
  "current_item s = (case es_foreach_stack s of f # _ \<Rightarrow> fe_current_value f | [] \<Rightarrow> None)"

definition insert_some :: "string \<Rightarrow> json option \<Rightarrow> (string \<times> json) list \<Rightarrow> (string \<times> json) list" where
  "insert_some k v m = (case v of Some v \<Rightarrow> obj_insert k v m | None \<Rightarrow> m)"

definition resolution_context :: "('m, 'x, 's) execution_state \<Rightarrow> json" where
  "resolution_context s =
     (let ctx = (case as_object (es_input s) of Some m \<Rightarrow> obj_collect m [] | None \<Rightarrow> []);
          ctx = obj_insert ''config'' (es_config s) ctx;
          ctx = obj_insert ''secrets'' (es_secrets s) ctx;
          ctx = obj_insert ''vars'' (vars_as_value s) ctx;
          ctx = obj_insert ''steps''
            (JObject (obj_collect
              (map (\<lambda>(k, v). (k, step_object s k (overridden s k v))) (es_step_results s)) [])) ctx;
          ctx = insert_some ''item'' (current_item s) ctx;
          ctx = insert_some ''error''
            (case es_error_stack s of msg # _ \<Rightarrow> Some (JString msg) | [] \<Rightarrow> None) ctx;
          ctx = insert_some ''trigger'' (es_trigger s) ctx
      in JObject ctx)"

definition get_source_result :: "('m, 'x, 's) execution_state \<Rightarrow> string option \<Rightarrow> json option" where
  "get_source_result s source =
     (case source of
        Some k \<Rightarrow> table_get (es_step_results s) k
      | None \<Rightarrow>
          (case es_first_step_id s of Some k \<Rightarrow> table_get (es_step_results s) k | None \<Rightarrow> None))"

definition dsl_context :: "('m, 'x, 's) execution_state \<Rightarrow> json option \<Rightarrow> eval_context" where
  "dsl_context s implicit_source =
     \<lparr>ec_input = Some (es_input s), ec_steps = Some (build_dsl_steps_view s),
      ec_config = Some (es_config s), ec_secrets = Some (es_secrets s), ec_trigger = es_trigger s,
      ec_vars = Some (vars_as_value s), ec_item = current_item s,
      ec_implicit_source = implicit_source\<rparr>"

definition eval_path :: "('m, 'x, 's) execution_state \<Rightarrow> string \<Rightarrow> json option \<Rightarrow> json" where
  "eval_path s path implicit_source =
     (case parse_reference path of
        Inr r \<Rightarrow> eval_reference r (dsl_context s implicit_source)
      | Inl _ \<Rightarrow> JNull)"

section \<open>Capabilities\<close>

definition ungated :: "string \<Rightarrow> string" where
  "ungated what =
     ''cannot verify '' @ what @ '': no kernel back-reference (kernel not wrapped via ''
     @ ''Kernel::into_arc, or already dropped) '' @ long_dash @ '' failing closed''"

definition state_check_network_egress :: "('m, 'x, 's) execution_state \<Rightarrow> string \<Rightarrow> string + unit" where
  "state_check_network_egress s host =
     (case es_kernel s of
        None \<Rightarrow> Inl (ungated (''network:egress:'' @ host))
      | Some k \<Rightarrow>
          if is_granted (check_network_egress (permissions_for (kn_registry k) (es_plugin_name s)) host)
          then Inr ()
          else Inl (''plugin '' @ ticked (es_plugin_name s) @ '' lacks network:egress:'' @ host
                 @ '' permission''))"

definition state_check_blobs ::
  "('m, 'x, 's) execution_state \<Rightarrow> blob_op \<Rightarrow> string \<Rightarrow> string + unit" where
  "state_check_blobs s blob_op key =
     (let what = ''blobs:'' @ blob_op_text blob_op @ '':'' @ key in
      case es_kernel s of
        None \<Rightarrow> Inl (ungated what)
      | Some k \<Rightarrow>
          if is_granted (check_blobs (permissions_for (kn_registry k) (es_plugin_name s)) blob_op key)
          then Inr ()
          else Inl (''plugin '' @ ticked (es_plugin_name s) @ '' lacks '' @ what @ '' permission''))"

text \<open>\<open>None\<close> is no constraint; a definition without a flat schema allows no key.\<close>

definition declared_metadata_keys :: "('m, 'x, 's) execution_state \<Rightarrow> string \<Rightarrow> string list option" where
  "declared_metadata_keys s step_type =
     Option.bind (es_kernel s) (\<lambda>k.
     Option.bind (access_resolve (es_step_type_access s) step_type) (\<lambda>key.
     map_option (\<lambda>(_, d).
         case Option.bind (Option.bind (sd_metadata_schema d) (\<lambda>schema. json_get schema ''properties''))
                as_object of
           Some props \<Rightarrow> map fst props
         | None \<Rightarrow> [])
       (get_step_type_def (kn_registry k) key)))"

section \<open>Results\<close>

definition store_step_result ::
  "string \<Rightarrow> json \<Rightarrow> ('m, 'x, 's) execution_state \<Rightarrow> ('m, 'x, 's) execution_state" where
  "store_step_result step_id v s =
     (let s = (case es_first_step_id s of
                 None \<Rightarrow> s\<lparr>es_first_step_id := Some step_id\<rparr> | Some _ \<Rightarrow> s);
          limit = rl_max_step_results_bytes (es_limits s);
          incoming = approx_value_bytes v;
          replaced = (case table_get (es_step_results s) step_id of
                        Some old \<Rightarrow> approx_value_bytes old | None \<Rightarrow> 0);
          projected = saturating_add (es_step_results_bytes s - replaced) incoming
      in if projected > limit then s\<lparr>es_resource_violation := Some (ViolStepResults limit projected)\<rparr>
         else s\<lparr>es_step_results_bytes := projected,
                es_step_results := table_insert step_id v (es_step_results s)\<rparr>)"

lemma obj_get_size: "Some v = obj_get m k \<Longrightarrow> size v < size (JObject m)"
  by (rule size_obj_get) (rule obj_get_set, rule sym)

function extract_field_value ::
  "(json \<Rightarrow> string) \<Rightarrow> ('m, 'x, 's) execution_state \<Rightarrow> json \<Rightarrow> json \<Rightarrow> json" where
  "extract_field_value fmt s ctx spec =
     (case spec of
        JObject m \<Rightarrow>
          (case obj_get m ''literal'' of
             Some (JString str) \<Rightarrow> JString (resolve fmt str ctx)
           | Some other \<Rightarrow> resolve_value fmt other ctx
           | None \<Rightarrow>
               (case Option.bind (obj_get m ''template'') as_str of
                  Some tmpl \<Rightarrow> JString (resolve fmt tmpl ctx)
                | None \<Rightarrow>
                    (case Option.bind (obj_get m ''path'') as_str of
                       Some path \<Rightarrow>
                         (let source = Option.bind (obj_get m ''source'') as_str;
                              v = eval_path s path (get_source_result s source)
                          in case (v, obj_get m ''fallback'') of
                               (JNull, Some fallback) \<Rightarrow> extract_field_value fmt s ctx fallback
                             | _ \<Rightarrow> v)
                     | None \<Rightarrow>
                         JObject (obj_collect
                           (map (\<lambda>(k, v). (k, extract_field_value fmt s ctx v)) m) []))))
      | other \<Rightarrow> other)"
  by pat_completeness auto
termination
  by (relation "measure (\<lambda>(fmt, s, ctx, spec). size spec)")
    (auto dest: size_obj_get simp del: json.size simp: obj_get_size)

declare extract_field_value.simps [simp del]

definition apply_result_mapping :: "(json \<Rightarrow> string) \<Rightarrow> ('m, 'x, 's) execution_state \<Rightarrow> json" where
  "apply_result_mapping fmt s =
     JObject (obj_collect
       (map (\<lambda>(k, spec). (k, extract_field_value fmt s (resolution_context s) spec))
         (act_result_mapping (es_action s))) [])"

definition collect_output :: "(json \<Rightarrow> string) \<Rightarrow> ('m, 'x, 's) execution_state \<Rightarrow> json" where
  "collect_output fmt s =
     (if act_result_mapping (es_action s) \<noteq> [] then apply_result_mapping fmt s
      else case act_results_path (es_action s) of
        Some path \<Rightarrow> eval_path s path (get_source_result s None)
      | None \<Rightarrow> (if es_step_results s = [] then JNull else snd (last (es_step_results s))))"

section \<open>The budget\<close>

definition results_bytes :: "(string, json) table \<Rightarrow> nat" where
  "results_bytes t = sum_list (map (\<lambda>(k, v). approx_value_bytes v) t)"

text \<open>
  The counter never falls below what is held, and neither exceeds the limit. It may exceed what is
  held: a loop drops its inner results without giving their bytes back. The last conjunct keeps the
  saturating sum exact where it matters; a limit of \<open>usize::MAX\<close> is no limit.
\<close>

definition budget_ok :: "('m, 'x, 's) execution_state \<Rightarrow> bool" where
  "budget_ok s \<longleftrightarrow> distinct (map fst (es_step_results s))
     \<and> results_bytes (es_step_results s) \<le> es_step_results_bytes s
     \<and> es_step_results_bytes s \<le> rl_max_step_results_bytes (es_limits s)
     \<and> rl_max_step_results_bytes (es_limits s) < usize_bound"

lemma results_bytes_split:
  "distinct (map fst t) \<Longrightarrow>
    results_bytes t = results_bytes (AList.delete k t)
      + (case map_of t k of Some v \<Rightarrow> approx_value_bytes v | None \<Rightarrow> 0)"
proof (induction t)
  case (Cons e t)
  obtain k' v' where e: "e = (k', v')" by (cases e)
  show ?case
  proof (cases "k' = k")
    case True
    with Cons.prems have "map_of t k = None" by (auto simp: e map_of_eq_None_iff)
    with Cons True show ?thesis by (simp add: e results_bytes_def)
  next
    case False
    with Cons show ?thesis by (simp add: e results_bytes_def)
  qed
qed (simp add: results_bytes_def)

lemma results_bytes_update:
  "distinct (map fst t) \<Longrightarrow>
    results_bytes (AList.update k v t) = results_bytes (AList.delete k t) + approx_value_bytes v"
proof (induction t)
  case (Cons e t)
  obtain k' v' where e: "e = (k', v')" by (cases e)
  show ?case
  proof (cases "k' = k")
    case True
    with Cons.prems have "AList.delete k t = t" by (auto simp: e image_iff intro!: delete_id)
    with True show ?thesis by (simp add: e results_bytes_def)
  next
    case False
    with Cons show ?thesis by (simp add: e results_bytes_def)
  qed
qed (simp add: results_bytes_def)

lemma results_bytes_delete: "results_bytes (AList.delete k t) \<le> results_bytes t"
  by (induction t) (auto simp: results_bytes_def)

lemma budget_store:
  assumes "budget_ok s"
  shows "budget_ok (store_step_result step_id v s)"
proof -
  let ?t = "es_step_results s"
  from assms have d: "distinct (map fst ?t)" and b: "results_bytes ?t \<le> es_step_results_bytes s"
    by (simp_all add: budget_ok_def)
  let ?old = "case table_get ?t step_id of Some v \<Rightarrow> approx_value_bytes v | None \<Rightarrow> 0"
  have "results_bytes (table_insert step_id v ?t) + ?old = results_bytes ?t + approx_value_bytes v"
    by (simp add: table_insert_def table_get_def results_bytes_update [OF d]
        results_bytes_split [OF d, of step_id])
  with b have "results_bytes (table_insert step_id v ?t)
      \<le> es_step_results_bytes s - ?old + approx_value_bytes v" by linarith
  moreover have "distinct (map fst (table_insert step_id v ?t))"
    using d by (simp add: table_insert_def distinct_update)
  ultimately show ?thesis using assms
    by (auto simp: store_step_result_def budget_ok_def Let_def saturating_add_def split: option.splits)
qed

end
