(* ===== verification/Bodies.thy ===== *)
theory Bodies
  imports ExecState
begin

text \<open>
  Running one step's body: the adapter \<open>dispatch_trait_step_core\<close> of \<open>src/kernel/runtime.rs\<close>, and the
  \<open>let\<close>, \<open>throw_error\<close> and loop services of \<open>src/kernel/host_api.rs\<close>. A body other code supplies is
  a function. What it can change is its type, as in the sources: a plugin body sets variables
  and uses streams; an intrinsic body (only this crate can write one) records a resource violation
  and uses streams.
\<close>

section \<open>Bodies and their environment\<close>

datatype ('m, 'x, 's) step_body =
    PluginBody "('m, 'x, 's) execution_state \<Rightarrow> json \<Rightarrow>
      (step_error + step_output) \<times> (string \<times> json) list \<times> 's"
  | IntrinsicBody "('m, 'x, 's) execution_state \<Rightarrow> json \<Rightarrow>
      (step_error + step_output) \<times> resource_violation option \<times> 's"

text \<open>
  The linker maps import names to bodies; \<open>rt_fired\<close> is the token; \<open>rt_open_readable\<close> and
  \<open>rt_fan_out\<close> are the two operations of the stream registry the scheduler calls, the latter in its
  streaming (\<open>True\<close>) or draining variant.
\<close>

record ('m, 'x, 's) runtime_env =
  rt_formats :: "(parse_fault, name_error) formats"
  rt_linker :: "string \<Rightarrow> ('m, 'x, 's) step_body option"
  rt_fired :: "nat list \<Rightarrow> nat \<Rightarrow> bool"
  rt_open_readable :: "'s \<Rightarrow> nat \<Rightarrow> bool"
  rt_fan_out :: "bool \<Rightarrow> 's \<Rightarrow> nat \<Rightarrow> nat \<Rightarrow> (string + nat list) \<times> 's"

definition run_body ::
  "('m, 'x, 's) step_body \<Rightarrow> json \<Rightarrow> ('m, 'x, 's) execution_state \<Rightarrow>
    (step_error + step_output) \<times> ('m, 'x, 's) execution_state" where
  "run_body body params s =
     (case body of
        PluginBody f \<Rightarrow>
          (case f s params of (r, writes, streams) \<Rightarrow>
            (r, s\<lparr>es_variables := fold (\<lambda>(k, v). table_insert k v) writes (es_variables s),
                  es_streams := streams\<rparr>))
      | IntrinsicBody f \<Rightarrow>
          (case f s params of (r, violation, streams) \<Rightarrow>
            (r, s\<lparr>es_resource_violation :=
                    (case violation of Some v \<Rightarrow> Some v | None \<Rightarrow> es_resource_violation s),
                  es_streams := streams\<rparr>)))"

section \<open>The adapter\<close>

definition write_metadata ::
  "string \<Rightarrow> (string \<times> json) list \<Rightarrow> ('m, 'x, 's) execution_state \<Rightarrow> ('m, 'x, 's) execution_state" where
  "write_metadata step_id metadata s =
     s\<lparr>es_step_metadata := table_insert step_id
         (fold (\<lambda>(k, v). table_insert k v) metadata (table_bucket (es_step_metadata s) step_id))
         (es_step_metadata s)\<rparr>"

definition mirror_variable ::
  "step_def \<Rightarrow> ('m, 'x, 's) execution_state \<Rightarrow> ('m, 'x, 's) execution_state" where
  "mirror_variable step s =
     (case st_store_to_variable step of
        None \<Rightarrow> s
      | Some name \<Rightarrow>
          s\<lparr>es_variables := table_insert name
              (case table_get (es_step_results s) (st_id step) of Some v \<Rightarrow> v | None \<Rightarrow> JNull)
              (es_variables s)\<rparr>)"

definition undeclared_metadata :: "('m, 'x, 's) execution_state \<Rightarrow> step_def \<Rightarrow> (string \<times> json) list
    \<Rightarrow> (string list \<times> string) option" where
  "undeclared_metadata s step metadata =
     (case declared_metadata_keys s (st_type step) of
        None \<Rightarrow> None
      | Some allowed \<Rightarrow>
          map_option (\<lambda>bad. (allowed, bad)) (List.find (\<lambda>k. k \<notin> set allowed) (map fst metadata)))"

definition write_output ::
  "('pe, 'ne) formats \<Rightarrow> step_def \<Rightarrow> step_output \<Rightarrow> ('m, 'x, 's) execution_state \<Rightarrow>
    bool \<times> ('m, 'x, 's) execution_state" where
  "write_output fm step out s =
     (let s = store_step_result (st_id step) (so_value out) s;
          metadata = so_metadata out
      in if metadata = [] then (True, mirror_variable step s)
         else
           case undeclared_metadata s step metadata of
             Some (allowed, bad) \<Rightarrow>
               (False, s\<lparr>es_last_error := Some (''step '' @ ticked (st_id step) @ '' (type ''
                  @ ticked (st_type step) @ '') emitted undeclared metadata key '' @ ticked bad
                  @ ''; metadataSchema declares: '' @ fm_strings fm allowed)\<rparr>)
           | None \<Rightarrow> (True, mirror_variable step (write_metadata (st_id step) metadata s)))"

definition thrown_text :: "plugin_error_payload \<Rightarrow> string" where
  "thrown_text payload =
     (if pe_message payload = [] then ''PluginError '' @ pe_code payload
      else ''PluginError '' @ pe_code payload @ '': '' @ pe_message payload)"

definition write_error ::
  "step_def \<Rightarrow> step_error \<Rightarrow> ('m, 'x, 's) execution_state \<Rightarrow> ('m, 'x, 's) execution_state" where
  "write_error step err s =
     (case err of
        Failed msg \<Rightarrow> s\<lparr>es_last_error := Some msg\<rparr>
      | Thrown payload \<Rightarrow>
          s\<lparr>es_plugin_error := Some payload, es_last_error := Some (thrown_text payload)\<rparr>
      | StepCancelled \<Rightarrow>
          s\<lparr>es_last_error := Some (''step '' @ ticked (st_id step) @ '' cancelled''),
            es_cancelled := True\<rparr>
      | Callee plugin action source \<Rightarrow>
          s\<lparr>es_last_error := Some (''step '' @ ticked (st_id step) @ '' '' @ step_arrow @ '' '' @ plugin
              @ ''.'' @ action @ '' failed: '' @ kernel_error_text source),
            es_callee_error := Some \<lparr>ce_plugin = plugin, ce_action = action, ce_source = source\<rparr>\<rparr>)"

text \<open>The owner's view of secrets for a foreign body; \<open>None\<close> when the body is not foreign.\<close>

definition owner_view :: "('m, 'x, 's) execution_state \<Rightarrow> string \<Rightarrow> kernel_error + json option" where
  "owner_view s step_type =
     (case access_body_owner (es_step_type_access s) step_type of
        None \<Rightarrow> Inr None
      | Some owner \<Rightarrow>
          (case es_secret_resolver s of
             None \<Rightarrow> Inr (Some JNull)
           | Some resolver \<Rightarrow>
               map_sum id Some
                 (pull resolver (bo_identity owner) (es_plugin_name s) (bo_declared_keys owner)
                    (bo_overridable_keys owner) (es_exec_ctx s))))"

definition enter_body :: "json option \<Rightarrow> ('m, 'x, 's) execution_state \<Rightarrow> ('m, 'x, 's) execution_state" where
  "enter_body view s =
     s\<lparr>es_body_secrets := (case view of Some v \<Rightarrow> Some v | None \<Rightarrow> es_body_secrets s),
       es_cancelled := False, es_callee_error := None\<rparr>"

definition leave_body :: "('m, 'x, 's) execution_state \<Rightarrow> ('m, 'x, 's) execution_state" where
  "leave_body s = s\<lparr>es_body_secrets := None, es_current_step_idx := None\<rparr>"

definition dispatch_trait_step_core ::
  "('pe, 'ne) formats \<Rightarrow> nat \<Rightarrow> ('m, 'x, 's) step_body \<Rightarrow> ('m, 'x, 's) execution_state \<Rightarrow>
    bool \<times> ('m, 'x, 's) execution_state" where
  "dispatch_trait_step_core fm step_index body s =
     (if step_index \<ge> length (es_steps s) then
        (False, s\<lparr>es_last_error := Some (''Step index '' @ decimal step_index @ '' out of bounds'')\<rparr>)
      else
        let step = es_steps s ! step_index;
            s = s\<lparr>es_current_step_idx := Some step_index\<rparr>
        in case owner_view s (st_type step) of
             Inl e \<Rightarrow>
               (False, s\<lparr>es_current_step_idx := None,
                  es_last_error := Some (''step '' @ ticked (st_id step) @ '' ('' @ st_type step
                    @ ''): could not resolve the body owner's secrets: '' @ kernel_error_text e)\<rparr>)
           | Inr view \<Rightarrow>
               (case run_body body (st_params step) (enter_body view s) of (result, s) \<Rightarrow>
                 (case result of
                    Inr out \<Rightarrow> write_output fm step out (leave_body s)
                  | Inl err \<Rightarrow> (False, write_error step err (leave_body s)))))"

section \<open>The kernel's plugin bodies\<close>

definition step_throw_error ::
  "('pe, 'ne) formats \<Rightarrow> ('m, 'x, 's) execution_state \<Rightarrow> json \<Rightarrow>
    (step_error + step_output) \<times> (string \<times> json) list \<times> 's" where
  "step_throw_error fm s params =
     (let ctx = resolution_context s;
          code = (case Option.bind (json_get params ''code'') as_str of
                    Some t \<Rightarrow> resolve (fm_display fm) t ctx | None \<Rightarrow> ''PLUGIN_ERROR'');
          message = (case Option.bind (json_get params ''message'') as_str of
                       Some t \<Rightarrow> resolve (fm_display fm) t ctx | None \<Rightarrow> []);
          resolved = (case json_get params ''params'' of
                        Some v \<Rightarrow> resolve_value (fm_display fm) v ctx | None \<Rightarrow> JNull)
      in (Inl (Thrown \<lparr>pe_code = code, pe_message = message, pe_params = resolved\<rparr>), [], es_streams s))"

definition step_let ::
  "('pe, 'ne) formats \<Rightarrow> ('m, 'x, 's) execution_state \<Rightarrow> json \<Rightarrow>
    (step_error + step_output) \<times> (string \<times> json) list \<times> 's" where
  "step_let fm s params =
     (let v = (case json_get params ''value'' of
                 Some v \<Rightarrow> resolve_value (fm_display fm) v (resolution_context s) | None \<Rightarrow> JNull)
      in (Inr (step_output_from v), [], es_streams s))"

section \<open>Loop services\<close>

definition i32_max :: nat where "i32_max = 2147483647"

lemma i32_max_code [code_unfold]: "i32_max < n \<longleftrightarrow> 2147483647 < int n"
  by (simp add: i32_max_def)

definition as_i32 :: "nat \<Rightarrow> int" where
  "as_i32 n = sint (of_nat n :: 32 word)"

text \<open>\<open>str::parse::<u64>\<close>: an optional plus sign and digits.\<close>

definition digits_value :: "string \<Rightarrow> nat" where
  "digits_value ds = foldl (\<lambda>n c. 10 * n + (byte c - 48)) 0 ds"

definition parse_u64 :: "string \<Rightarrow> nat option" where
  "parse_u64 str =
     (let ds = (case str of c # r \<Rightarrow> if c = CHR ''+'' then r else str | [] \<Rightarrow> str) in
      if ds \<noteq> [] \<and> list_all is_digit ds \<and> digits_value ds < 2 ^ 64 then Some (digits_value ds) else None)"

definition host_step_success :: "('m, 'x, 's) execution_state \<Rightarrow> nat \<Rightarrow> bool" where
  "host_step_success s step_index =
     (step_index < length (es_steps s)
      \<and> (case table_get (es_step_results s) (st_id (es_steps s ! step_index)) of
            Some v \<Rightarrow> v \<noteq> JNull | None \<Rightarrow> False))"

definition push_foreach ::
  "foreach_items \<Rightarrow> ('m, 'x, 's) execution_state \<Rightarrow> ('m, 'x, 's) execution_state" where
  "push_foreach items s =
     s\<lparr>es_foreach_stack :=
         \<lparr>fe_items = items, fe_current_value = None, fe_index = 0, fe_current = None, fe_results = []\<rparr>
         # es_foreach_stack s\<rparr>"

definition foreach_values :: "json \<Rightarrow> json list" where
  "foreach_values v =
     (case v of JArray arr \<Rightarrow> arr | JNull \<Rightarrow> [] | JObject [] \<Rightarrow> [] | single \<Rightarrow> [single])"

definition host_begin_foreach ::
  "nat \<Rightarrow> ('m, 'x, 's) execution_state \<Rightarrow> int \<times> ('m, 'x, 's) execution_state" where
  "host_begin_foreach step_index s =
     (if step_index \<ge> length (es_steps s) then (0, s)
      else
        let params = st_params (es_steps s ! step_index);
            path = (case Option.bind (json_get params ''path'') as_str of Some p \<Rightarrow> p | None \<Rightarrow> ''$'');
            source = Option.bind (json_get params ''source'') as_str;
            items = foreach_values (eval_path s path (get_source_result s source))
        in (as_i32 (length items), push_foreach (Values items) s))"

definition host_next_foreach ::
  "('m, 'x, 's) execution_state \<Rightarrow> bool \<times> ('m, 'x, 's) execution_state" where
  "host_next_foreach s =
     (case es_foreach_stack s of
        [] \<Rightarrow> (False, s)
      | f # rest \<Rightarrow>
          if fe_index f < items_len (fe_items f) then
            (True, s\<lparr>es_foreach_stack :=
               f\<lparr>fe_current := Some (fe_index f), fe_current_value := item_at (fe_items f) (fe_index f),
                 fe_index := Suc (fe_index f)\<rparr> # rest\<rparr>)
          else
            (False, s\<lparr>es_foreach_stack := f\<lparr>fe_current := None, fe_current_value := None\<rparr> # rest\<rparr>))"

definition host_end_foreach ::
  "nat \<Rightarrow> ('m, 'x, 's) execution_state \<Rightarrow> ('m, 'x, 's) execution_state" where
  "host_end_foreach step_index s =
     (if step_index \<ge> length (es_steps s) then s
      else
        case es_foreach_stack s of
          [] \<Rightarrow> s
        | f # rest \<Rightarrow>
            store_step_result (st_id (es_steps s ! step_index)) (JArray (fe_results f))
              (s\<lparr>es_foreach_stack := rest\<rparr>))"

definition repeat_count :: "('pe, 'ne) formats \<Rightarrow> json \<Rightarrow> string + nat" where
  "repeat_count fm resolved =
     (case resolved of
        JNumber (PosInt w) \<Rightarrow> Inr (unat w)
      | JNumber (NegInt w) \<Rightarrow> Inl ''count must be a non-negative integer''
      | JString str \<Rightarrow>
          (case parse_u64 str of
             Some v \<Rightarrow> Inr v
           | None \<Rightarrow> Inl (''count string '' @ ticked str @ '' did not parse as a non-negative integer''))
      | other \<Rightarrow>
          Inl (''count must be an integer or a template resolving to one; got '' @ fm_debug fm other))"

definition host_begin_repeat ::
  "('pe, 'ne) formats \<Rightarrow> nat \<Rightarrow> ('m, 'x, 's) execution_state \<Rightarrow> int \<times> ('m, 'x, 's) execution_state" where
  "host_begin_repeat fm step_index s =
     (if step_index \<ge> length (es_steps s) then (0, s)
      else
        let step = es_steps s ! step_index;
            fail = (\<lambda>m. (- 1, s\<lparr>es_last_error := Some (''repeat step '' @ ticked (st_id step) @ '': '' @ m)\<rparr>));
            raw_count = (case json_get (st_params step) ''count'' of Some v \<Rightarrow> v | None \<Rightarrow> JNull)
        in case repeat_count fm (resolve_value (fm_display fm) raw_count (resolution_context s)) of
             Inl m \<Rightarrow> fail m
           | Inr n \<Rightarrow>
               if n > i32_max then
                 fail (''count '' @ decimal n @ '' exceeds i32::MAX '' @ long_dash @ '' refuse to expand'')
               else (int n, push_foreach (Count n) s))"

end
