(* ===== verification/Runtime.thy ===== *)
theory Runtime
  imports Bodies
begin

text \<open>
  The scheduler of \<open>src/kernel/runtime.rs\<close>: the control-flow steps, the dispatch of one step, and the
  waves of an action. The control-flow steps call \<open>run_step\<close> for their inner steps; here each takes
  it as its argument \<open>run\<close>, and \<open>run_step\<close> is the recursion that ties the knot, its fuel bounding the
  nesting of the parameters (\<open>OutOfFuel\<close> is never reached, \<open>RuntimeSpec\<close>). Concurrency is resolved as
  the code resolves it: forked tasks share nothing, and their states are merged in declaration order.
  A panicking task, the wallclock watchdog and the dataflow scheduler are not modelled.
\<close>

section \<open>Outcomes\<close>

datatype 's outcome = Ran bool 's | Erred kernel_error 's | OutOfFuel

type_synonym ('m, 'x, 's) runner =
  "step_def \<Rightarrow> nat \<Rightarrow> ('m, 'x, 's) execution_state \<Rightarrow> ('m, 'x, 's) execution_state outcome"

primrec map_outcome :: "('s \<Rightarrow> 't) \<Rightarrow> 's outcome \<Rightarrow> 't outcome" where
  "map_outcome f (Ran b s) = Ran b (f s)"
| "map_outcome f (Erred e s) = Erred e (f s)"
| "map_outcome f OutOfFuel = OutOfFuel"

primrec out_of_fuel :: "'s outcome \<Rightarrow> bool" where
  "out_of_fuel (Ran b s) = False"
| "out_of_fuel (Erred e s) = False"
| "out_of_fuel OutOfFuel = True"

text \<open>Continue after a body: an error unwinds (\<open>?\<close>), a boolean is passed on.\<close>

primrec continue_with :: "'s outcome \<Rightarrow> (bool \<Rightarrow> 's \<Rightarrow> 's outcome) \<Rightarrow> 's outcome" where
  "continue_with (Ran b s) k = k b s"
| "continue_with (Erred e s) k = Erred e s"
| "continue_with OutOfFuel k = OutOfFuel"

section \<open>Polls and failures\<close>

definition poll ::
  "('m, 'x, 's) runtime_env \<Rightarrow> ('m, 'x, 's) execution_state \<Rightarrow> bool \<times> ('m, 'x, 's) execution_state" where
  "poll env s = (rt_fired env (es_task s) (es_polls s), s\<lparr>es_polls := Suc (es_polls s)\<rparr>)"

definition check_cancelled ::
  "('m, 'x, 's) runtime_env \<Rightarrow> string \<Rightarrow> ('m, 'x, 's) execution_state \<Rightarrow>
    (kernel_error + unit) \<times> ('m, 'x, 's) execution_state" where
  "check_cancelled env step_id s =
     (case poll env s of (fired, s) \<Rightarrow> (if fired then Inl (Cancelled step_id) else Inr (), s))"

definition escape_if_cancelled :: "('m, 'x, 's) execution_state \<Rightarrow> string \<Rightarrow> kernel_error + unit" where
  "escape_if_cancelled s step_id = (if es_cancelled s then Inl (Cancelled step_id) else Inr ())"

definition escaping_violation :: "('m, 'x, 's) execution_state \<Rightarrow> kernel_error option" where
  "escaping_violation s =
     (case es_resource_violation s of
        Some v \<Rightarrow> if escapes_try v then Some (violation_error v) else None
      | None \<Rightarrow> None)"

definition step_failure_to_error :: "('m, 'x, 's) execution_state \<Rightarrow> step_def \<Rightarrow> kernel_error" where
  "step_failure_to_error s step =
     (case es_resource_violation s of
        Some v \<Rightarrow> violation_error v
      | None \<Rightarrow>
          if es_cancelled s then Cancelled (st_id step)
          else case es_callee_error s of
            Some c \<Rightarrow> CalleeFailed (st_id step) (ce_plugin c) (ce_action c) (ce_source c)
          | None \<Rightarrow>
              (case es_plugin_error s of
                 Some p \<Rightarrow> PluginError (pe_code p) (pe_message p) (pe_params p)
               | None \<Rightarrow>
                   Execution (case es_last_error s of
                     Some m \<Rightarrow> m | None \<Rightarrow> ''Step '' @ ticked (st_id step) @ '' failed'')))"

section \<open>Inner steps\<close>

definition array_to_steps :: "json option \<Rightarrow> step_def list" where
  "array_to_steps arr =
     (case Option.bind arr as_array of
        Some a \<Rightarrow> List.map_filter (\<lambda>v. case from_inner_value v of Inr s \<Rightarrow> Some s | Inl _ \<Rightarrow> None) a
      | None \<Rightarrow> [])"

text \<open>
  The loop over spliced steps, which \<open>run_try\<close> (three times), \<open>run_ifs\<close>, \<open>run_iteration\<close> and the
  branch tasks of \<open>run_parallel\<close> each write out. The second component is the last result, which
  only \<open>run_try\<close> and \<open>run_parallel\<close> keep.
\<close>

fun run_inner ::
  "('m, 'x, 's) runtime_env \<Rightarrow> ('m, 'x, 's) runner \<Rightarrow> step_def list \<Rightarrow> nat \<Rightarrow> json option \<Rightarrow>
    ('m, 'x, 's) execution_state \<Rightarrow> ('m, 'x, 's) execution_state outcome \<times> json option" where
  "run_inner env run [] idx last_result s = (Ran True s, last_result)"
| "run_inner env run (inner # rest) idx last_result s =
     (case check_cancelled env (st_id inner) s of
        (Inl e, s) \<Rightarrow> (Erred e s, last_result)
      | (Inr _, s) \<Rightarrow>
          (case run inner idx s of
             OutOfFuel \<Rightarrow> (OutOfFuel, last_result)
           | Erred e s \<Rightarrow> (Erred e s, last_result)
           | Ran b s \<Rightarrow>
               if \<not> b then
                 (case escape_if_cancelled s (st_id inner) of
                    Inl e \<Rightarrow> (Erred e s, last_result)
                  | Inr _ \<Rightarrow> (Ran False s, last_result))
               else
                 let last_result = table_get (es_step_results s) (st_id inner) in
                 if es_return_signal s \<noteq> None then (Ran True s, last_result)
                 else run_inner env run rest (Suc idx) last_result s))"

definition splice_steps :: "step_def list \<Rightarrow> ('m, 'x, 's) execution_state \<Rightarrow> ('m, 'x, 's) execution_state" where
  "splice_steps inner s = s\<lparr>es_action := (es_action s)\<lparr>act_steps := es_steps s @ inner\<rparr>\<rparr>"

definition unsplice_steps :: "nat \<Rightarrow> ('m, 'x, 's) execution_state \<Rightarrow> ('m, 'x, 's) execution_state" where
  "unsplice_steps n s = s\<lparr>es_action := (es_action s)\<lparr>act_steps := take n (es_steps s)\<rparr>\<rparr>"

definition run_spliced ::
  "('m, 'x, 's) runtime_env \<Rightarrow> ('m, 'x, 's) runner \<Rightarrow> step_def list \<Rightarrow>
    ('m, 'x, 's) execution_state \<Rightarrow> ('m, 'x, 's) execution_state outcome \<times> json option" where
  "run_spliced env run inner s =
     (let inner_offset = length (es_steps s) in
      map_prod (map_outcome (unsplice_steps inner_offset)) id
        (run_inner env run inner inner_offset None (splice_steps inner s)))"

section \<open>Expressions over the state\<close>

definition eval_dsl_expression ::
  "('m, 'x, 's) runtime_env \<Rightarrow> ('m, 'x, 's) execution_state \<Rightarrow> string \<Rightarrow> string \<Rightarrow> kernel_error + json" where
  "eval_dsl_expression env s expression context_label =
     (case parse_expression expression of
        Inl e \<Rightarrow>
          Inl (Execution (context_label @ '': expression '' @ ticked expression @ '' parse error: ''
            @ fm_parse_error (rt_formats env) e))
      | Inr expr \<Rightarrow> Inr (eval_expression expr (dsl_context s None)))"

definition eval_if_condition ::
  "('m, 'x, 's) runtime_env \<Rightarrow> ('m, 'x, 's) execution_state \<Rightarrow> string \<Rightarrow> kernel_error + bool" where
  "eval_if_condition env s condition =
     map_sum id is_truthy (eval_dsl_expression env s condition ''ifs step'')"

section \<open>try\<close>

definition clear_failure :: "('m, 'x, 's) execution_state \<Rightarrow> ('m, 'x, 's) execution_state" where
  "clear_failure s =
     s\<lparr>es_last_error := None, es_plugin_error := None, es_resource_violation := None,
       es_callee_error := None\<rparr>"

definition pop_error :: "('m, 'x, 's) execution_state \<Rightarrow> ('m, 'x, 's) execution_state" where
  "pop_error s = s\<lparr>es_error_stack := tl (es_error_stack s)\<rparr>"

text \<open>The catch block after a failed body: whether the failure stands, and the last result.\<close>

definition run_catch ::
  "('m, 'x, 's) runtime_env \<Rightarrow> ('m, 'x, 's) runner \<Rightarrow> step_def \<Rightarrow>
    ('m, 'x, 's) execution_state \<Rightarrow> ('m, 'x, 's) execution_state outcome \<times> json option" where
  "run_catch env run step s =
     (let catch_steps = array_to_steps (json_get (st_params step) ''catch'') in
      if json_get (st_params step) ''catch'' = None then (Ran False s, None)
      else if catch_steps = [] then (Ran True (clear_failure s), None)
      else
        let err_msg = (case es_last_error s of
                         Some m \<Rightarrow> m | None \<Rightarrow> ''step '' @ ticked (st_id step) @ '' failed'');
            s = clear_failure (s\<lparr>es_error_stack := err_msg # es_error_stack s\<rparr>)
        in map_prod (map_outcome pop_error) id (run_spliced env run catch_steps s))"

definition run_finally ::
  "('m, 'x, 's) runtime_env \<Rightarrow> ('m, 'x, 's) runner \<Rightarrow> step_def \<Rightarrow>
    ('m, 'x, 's) execution_state \<Rightarrow> ('m, 'x, 's) execution_state outcome" where
  "run_finally env run step s =
     (let finally_steps = array_to_steps (json_get (st_params step) ''finally'') in
      if finally_steps \<noteq> [] \<and> es_return_signal s = None
      then fst (run_spliced env run finally_steps s)
      else Ran True s)"

definition compose_result :: "json option \<Rightarrow> json option \<Rightarrow> json" where
  "compose_result last_catch_result last_try_result =
     (case last_catch_result of
        Some v \<Rightarrow> v
      | None \<Rightarrow> (case last_try_result of Some v \<Rightarrow> v | None \<Rightarrow> JNull))"

definition run_try ::
  "('m, 'x, 's) runtime_env \<Rightarrow> ('m, 'x, 's) runner \<Rightarrow> step_def \<Rightarrow>
    ('m, 'x, 's) execution_state \<Rightarrow> ('m, 'x, 's) execution_state outcome" where
  "run_try env run step s =
     (case run_spliced env run (array_to_steps (json_get (st_params step) ''try'')) s of
        (try_outcome, last_try_result) \<Rightarrow>
      continue_with try_outcome (\<lambda>try_ok s.
        if es_return_signal s \<noteq> None then Ran True s
        else
          case (if try_ok then (Ran True s, None) else run_catch env run step s) of
            (catch_outcome, last_catch_result) \<Rightarrow>
          continue_with catch_outcome (\<lambda>recovered s.
          continue_with (run_finally env run step s) (\<lambda>finally_ok s.
            if \<not> finally_ok then Ran False s
            else if recovered then
              Ran True (store_step_result (st_id step)
                (compose_result last_catch_result last_try_result) s)
            else Ran False s))))"

section \<open>ifs and return\<close>

text \<open>The first branch whose test holds; a branch without a test always matches.\<close>

fun choose_branch ::
  "('m, 'x, 's) runtime_env \<Rightarrow> ('m, 'x, 's) execution_state \<Rightarrow> json list \<Rightarrow> kernel_error + json list" where
  "choose_branch env s [] = Inr []"
| "choose_branch env s (branch # branches) =
     rbind (case Option.bind (json_get branch ''test'') as_str of
              Some cond_str \<Rightarrow> eval_if_condition env s cond_str
            | None \<Rightarrow> Inr True)
       (\<lambda>matched.
          if matched then
            Inr (case Option.bind (json_get branch ''then'') as_array of Some a \<Rightarrow> a | None \<Rightarrow> [])
          else choose_branch env s branches)"

definition run_ifs ::
  "('m, 'x, 's) runtime_env \<Rightarrow> ('m, 'x, 's) runner \<Rightarrow> step_def \<Rightarrow>
    ('m, 'x, 's) execution_state \<Rightarrow> ('m, 'x, 's) execution_state outcome" where
  "run_ifs env run step s =
     (case Option.bind (json_get (st_params step) ''ifs'') as_array of
        None \<Rightarrow> Ran True s
      | Some ifs_arr \<Rightarrow>
          (case choose_branch env s ifs_arr of
             Inl e \<Rightarrow> Erred e s
           | Inr inner_array \<Rightarrow>
               let inner_steps = array_to_steps (Some (JArray inner_array)) in
               if inner_steps = [] then Ran True s else fst (run_spliced env run inner_steps s)))"

definition run_return ::
  "('m, 'x, 's) runtime_env \<Rightarrow> step_def \<Rightarrow>
    ('m, 'x, 's) execution_state \<Rightarrow> ('m, 'x, 's) execution_state outcome" where
  "run_return env step s =
     (let raw_value = (case json_get (st_params step) ''value'' of Some v \<Rightarrow> v | None \<Rightarrow> JNull);
          resolved = resolve_value (fm_display (rt_formats env)) raw_value (resolution_context s)
      in Ran True ((store_step_result (st_id step) resolved s)\<lparr>es_return_signal := Some resolved\<rparr>))"

section \<open>for_each and repeat\<close>

definition clear_results :: "string list \<Rightarrow> ('m, 'x, 's) execution_state \<Rightarrow> ('m, 'x, 's) execution_state" where
  "clear_results ids s =
     s\<lparr>es_step_results := fold table_remove ids (es_step_results s),
       es_step_metadata := fold table_remove ids (es_step_metadata s)\<rparr>"

text \<open>One \<open>collect\<close>: the value is charged before it is kept.\<close>

definition collect_value ::
  "('m, 'x, 's) runtime_env \<Rightarrow> ('m, 'x, 's) execution_state \<Rightarrow> string \<Rightarrow> json list \<times> nat \<Rightarrow>
    kernel_error + json list \<times> nat" where
  "collect_value env s expr acc =
     rbind (eval_dsl_expression env s expr ''collect'') (\<lambda>v.
       let collected_bytes = saturating_add (snd acc) (approx_value_bytes v);
           limit = rl_max_step_results_bytes (es_limits s);
           projected = saturating_add (es_step_results_bytes s) collected_bytes
       in if projected > limit then Inl (violation_error (ViolStepResults limit projected))
          else Inr (fst acc @ [v], collected_bytes))"

text \<open>
  The loop. Its fuel is the number of items left and one for the last \<open>next_foreach\<close>; the pair is
  the accumulator with its size.
\<close>

fun iterate ::
  "nat \<Rightarrow> ('m, 'x, 's) runtime_env \<Rightarrow> ('m, 'x, 's) runner \<Rightarrow> step_def list \<Rightarrow> nat \<Rightarrow> string option \<Rightarrow>
    string option \<Rightarrow> json list \<times> nat \<Rightarrow> ('m, 'x, 's) execution_state \<Rightarrow>
    ('m, 'x, 's) execution_state outcome \<times> json list" where
  "iterate 0 env run inner_steps inner_offset collect_expr until_expr acc s = (OutOfFuel, fst acc)"
| "iterate (Suc n) env run inner_steps inner_offset collect_expr until_expr acc s =
     (case host_next_foreach s of
        (False, s) \<Rightarrow> (Ran True s, fst acc)
      | (True, s) \<Rightarrow>
          (case fst (run_inner env run inner_steps inner_offset None
                       (clear_results (map st_id inner_steps) s)) of
             OutOfFuel \<Rightarrow> (OutOfFuel, fst acc)
           | Erred e s \<Rightarrow> (Erred e s, fst acc)
           | Ran b s \<Rightarrow>
               if \<not> b then (Ran False s, fst acc)
               else if es_return_signal s \<noteq> None then (Ran True s, fst acc)
               else
                 case (case collect_expr of
                         Some expr \<Rightarrow> collect_value env s expr acc | None \<Rightarrow> Inr acc) of
                   Inl e \<Rightarrow> (Erred e s, fst acc)
                 | Inr acc \<Rightarrow>
                     (case (case until_expr of
                              Some expr \<Rightarrow> eval_if_condition env s expr | None \<Rightarrow> Inr False) of
                        Inl e \<Rightarrow> (Erred e s, fst acc)
                      | Inr stop \<Rightarrow>
                          if stop then (Ran True s, fst acc)
                          else iterate n env run inner_steps inner_offset collect_expr until_expr acc s)))"

datatype loop_kind = BeginForeach | BeginRepeat

definition begin_loop ::
  "('m, 'x, 's) runtime_env \<Rightarrow> loop_kind \<Rightarrow> nat \<Rightarrow> ('m, 'x, 's) execution_state \<Rightarrow>
    int \<times> ('m, 'x, 's) execution_state" where
  "begin_loop env begin_fn step_idx s =
     (case begin_fn of
        BeginForeach \<Rightarrow> host_begin_foreach step_idx s
      | BeginRepeat \<Rightarrow> host_begin_repeat (rt_formats env) step_idx s)"

text \<open>One question per item of the frame just pushed, and one that finds none.\<close>

definition loop_fuel :: "('m, 'x, 's) execution_state \<Rightarrow> nat" where
  "loop_fuel s = (case es_foreach_stack s of f # _ \<Rightarrow> Suc (items_len (fe_items f)) | [] \<Rightarrow> 1)"

definition loop_name :: "loop_kind \<Rightarrow> string" where
  "loop_name begin_fn = (case begin_fn of BeginForeach \<Rightarrow> ''begin_foreach'' | BeginRepeat \<Rightarrow> ''begin_repeat'')"

text \<open>The end of a loop: a failed body pops the frame, a finished one ends it and stores the results.\<close>

definition finish_loop ::
  "step_def \<Rightarrow> nat \<Rightarrow> bool \<Rightarrow> json list \<Rightarrow> bool \<Rightarrow>
    ('m, 'x, 's) execution_state \<Rightarrow> ('m, 'x, 's) execution_state outcome" where
  "finish_loop step step_idx collects collected b s =
     (if \<not> b then Ran False (s\<lparr>es_foreach_stack := tl (es_foreach_stack s)\<rparr>)
      else
        let s = host_end_foreach step_idx s in
        Ran True (if collects then store_step_result (st_id step) (JArray collected) s else s))"

definition run_iteration ::
  "('m, 'x, 's) runtime_env \<Rightarrow> ('m, 'x, 's) runner \<Rightarrow> step_def \<Rightarrow> nat \<Rightarrow> loop_kind \<Rightarrow>
    ('m, 'x, 's) execution_state \<Rightarrow> ('m, 'x, 's) execution_state outcome" where
  "run_iteration env run step step_idx begin_fn s =
     (let inner_steps = array_to_steps (json_get (st_params step) ''steps'') in
      case begin_loop env begin_fn step_idx s of (count, s) \<Rightarrow>
      if count < 0 then
        Erred (Execution (case es_last_error s of
          Some m \<Rightarrow> m | None \<Rightarrow> loop_name begin_fn @ '' returned negative count'')) s
      else
        let inner_offset = length (es_steps s);
            s = splice_steps inner_steps s;
            until_expr = (if begin_fn = BeginRepeat
                          then Option.bind (json_get (st_params step) ''until'') as_str else None);
            collect_expr = Option.bind (json_get (st_params step) ''collect'') as_str
        in case (if count > 0
                 then iterate (loop_fuel s) env run inner_steps inner_offset collect_expr
                        until_expr ([], 0) s
                 else (Ran True s, [])) of
             (body_outcome, collected) \<Rightarrow>
               continue_with (map_outcome (unsplice_steps inner_offset) body_outcome)
                 (finish_loop step step_idx (collect_expr \<noteq> None) collected))"

section \<open>parallel\<close>

definition branch_steps_of :: "step_def \<Rightarrow> step_def list list" where
  "branch_steps_of step =
     (case Option.bind (json_get (st_params step) ''branches'') as_array of
        Some arr \<Rightarrow> map (\<lambda>branch. array_to_steps (Some branch)) arr
      | None \<Rightarrow> [])"

text \<open>A fork is a copy; the slot names its task for the token.\<close>

definition fork :: "nat \<Rightarrow> ('m, 'x, 's) execution_state \<Rightarrow> ('m, 'x, 's) execution_state" where
  "fork slot s = s\<lparr>es_task := slot # es_polls s # es_task s, es_polls := 0\<rparr>"

text \<open>What a branch task returns: its state, last result, success and error.\<close>

type_synonym ('m, 'x, 's) branch_outcome =
  "('m, 'x, 's) execution_state \<times> json option \<times> bool \<times> kernel_error option"

definition run_branch ::
  "('m, 'x, 's) runtime_env \<Rightarrow> ('m, 'x, 's) runner \<Rightarrow> ('m, 'x, 's) execution_state \<Rightarrow> nat \<Rightarrow>
    step_def list \<Rightarrow> ('m, 'x, 's) branch_outcome option" where
  "run_branch env run s slot branch_steps =
     (let task_state = splice_steps branch_steps (fork slot s) in
      case run_inner env run branch_steps (length (es_steps s)) None task_state of
        (Ran b s, last_result) \<Rightarrow> Some (s, last_result, b, None)
      | (Erred e s, last_result) \<Rightarrow> Some (s, last_result, False, Some e)
      | (OutOfFuel, last_result) \<Rightarrow> None)"

definition merge_new ::
  "string list \<Rightarrow> (string \<Rightarrow> 'v \<Rightarrow> 't \<Rightarrow> 't) \<Rightarrow> (string, 'v) table \<Rightarrow> 't \<Rightarrow> 't" where
  "merge_new baseline ins entries t =
     fold (\<lambda>(k, v) t. if k \<in> set baseline then t else ins k v t) entries t"

definition keep_first :: "'a option \<Rightarrow> 'a option \<Rightarrow> 'a option" where
  "keep_first task canonical = (if task \<noteq> None \<and> canonical = None then task else canonical)"

definition merge_parallel_branch_state ::
  "('m, 'x, 's) execution_state \<Rightarrow> bool \<Rightarrow> string list \<Rightarrow> string list \<Rightarrow>
    ('m, 'x, 's) execution_state \<Rightarrow> ('m, 'x, 's) execution_state" where
  "merge_parallel_branch_state task takes_failure baseline_step_ids baseline_variables s =
     (let s = merge_new baseline_step_ids store_step_result (es_step_results task) s;
          s = s\<lparr>es_step_metadata :=
                merge_new baseline_step_ids table_insert (es_step_metadata task) (es_step_metadata s)\<rparr>;
          s = (if es_first_step_id s = None then s\<lparr>es_first_step_id := es_first_step_id task\<rparr> else s);
          s = s\<lparr>es_variables :=
                merge_new baseline_variables table_insert (es_variables task) (es_variables s)\<rparr>;
          s = (if takes_failure
               then s\<lparr>es_last_error := es_last_error task, es_plugin_error := es_plugin_error task,
                      es_callee_error := es_callee_error task\<rparr>
               else s)
      in s\<lparr>es_resource_violation := keep_first (es_resource_violation task) (es_resource_violation s),
           es_return_signal := keep_first (es_return_signal task) (es_return_signal s)\<rparr>)"

record ('m, 'x, 's) parallel_join =
  pj_state :: "('m, 'x, 's) execution_state"
  pj_results :: "json list"
  pj_any_failed :: bool
  pj_first_error :: "kernel_error option"

definition join_branch ::
  "string list \<Rightarrow> string list \<Rightarrow> ('m, 'x, 's) branch_outcome option \<Rightarrow>
    ('m, 'x, 's) parallel_join \<Rightarrow> ('m, 'x, 's) parallel_join" where
  "join_branch baseline_step_ids baseline_variables slot j =
     (case slot of
        None \<Rightarrow> j\<lparr>pj_results := pj_results j @ [JNull]\<rparr>
      | Some (task_state, last_result, branch_ok, run_err) \<Rightarrow>
          \<lparr>pj_state = merge_parallel_branch_state task_state (\<not> branch_ok \<and> \<not> pj_any_failed j)
              baseline_step_ids baseline_variables (pj_state j),
           pj_results = pj_results j @ [case last_result of Some v \<Rightarrow> v | None \<Rightarrow> JNull],
           pj_any_failed = (pj_any_failed j \<or> \<not> branch_ok),
           pj_first_error = (case pj_first_error j of Some e \<Rightarrow> Some e | None \<Rightarrow> run_err)\<rparr>)"

text \<open>An empty branch is not spawned: its slot stays empty.\<close>

definition branch_slots ::
  "('m, 'x, 's) runtime_env \<Rightarrow> ('m, 'x, 's) runner \<Rightarrow> ('m, 'x, 's) execution_state \<Rightarrow>
    step_def list list \<Rightarrow> ('m, 'x, 's) branch_outcome option option list" where
  "branch_slots env run s branches =
     map (\<lambda>(slot, steps).
         if steps = [] then Some None else map_option Some (run_branch env run s slot steps))
       (enumerate 0 branches)"

definition run_parallel ::
  "('m, 'x, 's) runtime_env \<Rightarrow> ('m, 'x, 's) runner \<Rightarrow> step_def \<Rightarrow>
    ('m, 'x, 's) execution_state \<Rightarrow> ('m, 'x, 's) execution_state outcome" where
  "run_parallel env run step s =
     (let branches = branch_steps_of step;
          max_branches = rl_max_parallel_branches (es_limits s)
      in if branches = [] then Ran True (store_step_result (st_id step) (JArray []) s)
         else if length branches > max_branches then
           Erred (Validation (''parallel step '' @ ticked (st_id step) @ '': ''
             @ decimal (length branches) @ '' branches exceeds the '' @ decimal max_branches
             @ ''-branch limit. Each branch forks the whole execution state, so width multiplies host ''
             @ ''memory; raise RuntimeLimits::max_parallel_branches if this fan-out is intended'')) s
         else
           let slots = branch_slots env run s branches;
               s' = s\<lparr>es_polls := Suc (es_polls s)\<rparr>
           in if list_ex (\<lambda>slot. slot = None) slots then OutOfFuel
              else
                let j = fold (join_branch (map fst (es_step_results s)) (map fst (es_variables s)))
                          (map the slots)
                          \<lparr>pj_state = s', pj_results = [], pj_any_failed = False, pj_first_error = None\<rparr>
                in case pj_first_error j of
                     Some err \<Rightarrow> Erred err (pj_state j)
                   | None \<Rightarrow>
                       Ran (\<not> pj_any_failed j)
                         (store_step_result (st_id step) (JArray (pj_results j)) (pj_state j)))"

section \<open>One step\<close>

definition run_direct ::
  "('m, 'x, 's) runtime_env \<Rightarrow> ('m, 'x, 's) runner" where
  "run_direct env step step_idx s =
     (case access_resolve (es_step_type_access s) (st_type step) of
        None \<Rightarrow>
          (let caller = es_plugin_name s;
               reason = (case es_kernel s of
                   Some k \<Rightarrow> explain_step_type_refusal (kn_registry k) caller (st_type step)
                 | None \<Rightarrow>
                     ''plugin '' @ ticked caller @ '' may not use step type '' @ ticked (st_type step)
                     @ ''. Add \"step_type:'' @ st_type step
                     @ ''\" to this manifest's `permissions`, or have the defining plugin mark its ''
                     @ ''`stepTypeDefs` entry \"freelyUsable\": true'')
           in Erred (Validation reason) (s\<lparr>es_last_error := Some reason\<rparr>))
      | Some key \<Rightarrow>
          (case rt_linker env (''step_'' @ key) of
             None \<Rightarrow> Erred (Runtime (''Host function '' @ ticked (''step_'' @ key) @ '' not registered'')) s
           | Some body \<Rightarrow>
               (case dispatch_trait_step_core (rt_formats env) step_idx body s of
                  (ret, s) \<Rightarrow> Ran ret s)))"

definition run_body_of ::
  "('m, 'x, 's) runtime_env \<Rightarrow> ('m, 'x, 's) runner \<Rightarrow> ('m, 'x, 's) runner" where
  "run_body_of env run step step_idx s =
     (if st_type step = ''for_each'' then run_iteration env run step step_idx BeginForeach s
      else if st_type step = ''repeat'' then run_iteration env run step step_idx BeginRepeat s
      else if st_type step = ''ifs'' then run_ifs env run step s
      else if st_type step = ''return'' then run_return env step s
      else if st_type step = ''try'' then run_try env run step s
      else if st_type step = ''parallel'' then run_parallel env run step s
      else run_direct env step step_idx s)"

definition raise_violation :: "bool \<Rightarrow> ('m, 'x, 's) execution_state \<Rightarrow> ('m, 'x, 's) execution_state outcome" where
  "raise_violation b s = (case escaping_violation s of Some err \<Rightarrow> Erred err s | None \<Rightarrow> Ran b s)"

primrec run_step :: "nat \<Rightarrow> ('m, 'x, 's) runtime_env \<Rightarrow> ('m, 'x, 's) runner" where
  "run_step 0 env = (\<lambda>step step_idx s. OutOfFuel)"
| "run_step (Suc n) env =
     (\<lambda>step step_idx s. continue_with (run_body_of env (run_step n env) step step_idx s) raise_violation)"

text \<open>The fuel that is always enough.\<close>

definition step_fuel :: "step_def \<Rightarrow> nat" where
  "step_fuel step = Suc (json_depth (st_params step))"

definition run_top :: "('m, 'x, 's) runtime_env \<Rightarrow> ('m, 'x, 's) runner" where
  "run_top env step step_idx s = run_step (step_fuel step) env step step_idx s"

section \<open>Fan-out of streams\<close>

type_synonym fanout = "(nat, nat list) table"

definition position :: "'a \<Rightarrow> 'a list \<Rightarrow> nat option" where
  "position x xs = map_option fst (List.find (\<lambda>(i, y). y = x) (enumerate 0 xs))"

definition fanout_overrides :: "dag_plan \<Rightarrow> action \<Rightarrow> nat \<Rightarrow> fanout \<Rightarrow> (string, nat) table" where
  "fanout_overrides plan action step_idx fanout =
     fold (\<lambda>dep_idx overrides.
         case table_get fanout dep_idx of
           None \<Rightarrow> overrides
         | Some branches \<Rightarrow>
             (case position step_idx (dp_consumers plan ! dep_idx) of
                None \<Rightarrow> overrides
              | Some pos \<Rightarrow>
                  if pos \<ge> length branches then overrides
                  else table_insert (st_id (act_steps action ! dep_idx)) (branches ! pos) overrides))
       (dp_deps plan ! step_idx) []"

definition stream_handle :: "('m, 'x, 's) execution_state \<Rightarrow> string \<Rightarrow> nat option" where
  "stream_handle s step_id =
     (case table_get (es_step_results s) step_id of
        Some (JNumber (PosInt w)) \<Rightarrow> (if 0 < unat w \<and> unat w < 2 ^ 32 then Some (unat w) else None)
      | _ \<Rightarrow> None)"

definition maybe_install_fanout ::
  "('m, 'x, 's) runtime_env \<Rightarrow> dag_plan \<Rightarrow> action \<Rightarrow> nat \<Rightarrow> fanout \<Rightarrow>
    ('m, 'x, 's) execution_state \<Rightarrow> (kernel_error + fanout) \<times> ('m, 'x, 's) execution_state" where
  "maybe_install_fanout env plan action step_idx fanout s =
     (let consumers = dp_consumers plan ! step_idx;
          step_id = st_id (act_steps action ! step_idx)
      in if length consumers < 2 then (Inr fanout, s)
         else case stream_handle s step_id of
           None \<Rightarrow> (Inr fanout, s)
         | Some handle \<Rightarrow>
             if \<not> rt_open_readable env (es_streams s) handle then (Inr fanout, s)
             else case rt_fan_out env (act_parallel_waves action) (es_streams s) handle (length consumers) of
               (branches, streams) \<Rightarrow>
                 (case branches of
                    Inl e \<Rightarrow> Inl (Execution (''Internal: stream fan-out setup failed for step ''
                               @ ticked step_id @ '': '' @ e))
                  | Inr branches \<Rightarrow> Inr (table_insert step_idx branches fanout),
                  s\<lparr>es_streams := streams\<rparr>))"

section \<open>Waves\<close>

fun vars_tmpl_match :: "string \<Rightarrow> bool" where
  "vars_tmpl_match [] = False"
| "vars_tmpl_match (c # r) =
     ((case strip_prefix ''{{'' (c # r) of
         Some rest \<Rightarrow> starts_with ''vars.'' (trim_start rest) | None \<Rightarrow> False)
      \<or> vars_tmpl_match r)"

fun params_references_vars :: "json \<Rightarrow> bool" where
  "params_references_vars (JString str) = (vars_tmpl_match str \<or> contains_str ''$vars.'' str)"
| "params_references_vars (JArray arr) = list_ex params_references_vars arr"
| "params_references_vars (JObject m) = list_ex (\<lambda>(k, v). params_references_vars v) m"
| "params_references_vars v = False"

definition wave_requires_sequential :: "nat list \<Rightarrow> action \<Rightarrow> bool" where
  "wave_requires_sequential wave action =
     list_ex (\<lambda>idx.
         let step = act_steps action ! idx in
         st_store_to_variable step \<noteq> None
         \<or> st_type step \<in> {''for_each'', ''repeat'', ''ifs''}
         \<or> params_references_vars (st_params step)) wave"

text \<open>What a wave leaves: the fan-outs so far, or the error that ends the action.\<close>

type_synonym ('m, 'x, 's) wave_outcome = "((kernel_error + fanout) \<times> ('m, 'x, 's) execution_state) option"

fun run_wave_sequential ::
  "('m, 'x, 's) runtime_env \<Rightarrow> dag_plan \<Rightarrow> action \<Rightarrow> nat list \<Rightarrow> fanout \<Rightarrow>
    ('m, 'x, 's) execution_state \<Rightarrow> ('m, 'x, 's) wave_outcome" where
  "run_wave_sequential env plan action [] fanout s = Some (Inr fanout, s)"
| "run_wave_sequential env plan action (step_idx # wave) fanout s =
     (let step = act_steps action ! step_idx in
      case check_cancelled env (st_id step) s of
        (Inl e, s) \<Rightarrow> Some (Inl e, s)
      | (Inr _, s) \<Rightarrow>
          (case run_top env step step_idx
                  (s\<lparr>es_fanout_overrides := fanout_overrides plan action step_idx fanout\<rparr>) of
             OutOfFuel \<Rightarrow> None
           | Erred e s \<Rightarrow> Some (Inl e, s)
           | Ran b s \<Rightarrow>
               if \<not> b then Some (Inl (step_failure_to_error s step), s)
               else case maybe_install_fanout env plan action step_idx fanout s of
                 (Inl e, s) \<Rightarrow> Some (Inl e, s)
               | (Inr fanout, s) \<Rightarrow>
                   if es_return_signal s \<noteq> None then Some (Inr fanout, s)
                   else run_wave_sequential env plan action wave fanout s))"

definition merge_task_state ::
  "('m, 'x, 's) execution_state \<Rightarrow> string \<Rightarrow> string list \<Rightarrow>
    ('m, 'x, 's) execution_state \<Rightarrow> ('m, 'x, 's) execution_state" where
  "merge_task_state task step_id baseline_variables s =
     (let s = (case table_get (es_step_results task) step_id of
                 Some v \<Rightarrow> store_step_result step_id v s | None \<Rightarrow> s);
          s = (case table_get (es_step_metadata task) step_id of
                 Some m \<Rightarrow> s\<lparr>es_step_metadata := table_insert step_id m (es_step_metadata s)\<rparr> | None \<Rightarrow> s);
          s = s\<lparr>es_variables :=
                merge_new baseline_variables table_insert (es_variables task) (es_variables s)\<rparr>
      in s\<lparr>es_last_error := keep_first (es_last_error task) (es_last_error s),
           es_plugin_error := keep_first (es_plugin_error task) (es_plugin_error s),
           es_resource_violation := keep_first (es_resource_violation task) (es_resource_violation s),
           es_return_signal := keep_first (es_return_signal task) (es_return_signal s)\<rparr>)"

text \<open>The state, outcome and error of one wave task, its step beside it.\<close>

definition wave_tasks ::
  "('m, 'x, 's) runtime_env \<Rightarrow> dag_plan \<Rightarrow> action \<Rightarrow> nat list \<Rightarrow> fanout \<Rightarrow>
    ('m, 'x, 's) execution_state \<Rightarrow> (step_def \<times> ('m, 'x, 's) execution_state outcome) list" where
  "wave_tasks env plan action wave fanout s =
     map (\<lambda>(slot, step_idx).
         let step = act_steps action ! step_idx;
             task_state = (fork slot s)\<lparr>es_fanout_overrides := fanout_overrides plan action step_idx fanout\<rparr>
         in (step, run_top env step step_idx task_state))
       (enumerate 0 wave)"

definition merge_wave_task ::
  "string list \<Rightarrow> step_def \<times> ('m, 'x, 's) execution_state outcome \<Rightarrow>
    ('m, 'x, 's) execution_state \<times> kernel_error option \<Rightarrow>
    ('m, 'x, 's) execution_state \<times> kernel_error option" where
  "merge_wave_task baseline_variables task acc =
     (case (task, acc) of ((step, outcome), (s, first_error)) \<Rightarrow>
        case outcome of
          OutOfFuel \<Rightarrow> acc
        | Ran b t \<Rightarrow>
            (merge_task_state t (st_id step) baseline_variables s,
             case first_error of
               Some e \<Rightarrow> Some e | None \<Rightarrow> if b then None else Some (step_failure_to_error t step))
        | Erred e t \<Rightarrow>
            (merge_task_state t (st_id step) baseline_variables s,
             case first_error of Some e' \<Rightarrow> Some e' | None \<Rightarrow> Some e))"

fun install_fanouts ::
  "('m, 'x, 's) runtime_env \<Rightarrow> dag_plan \<Rightarrow> action \<Rightarrow> nat list \<Rightarrow> fanout \<Rightarrow>
    ('m, 'x, 's) execution_state \<Rightarrow> (kernel_error + fanout) \<times> ('m, 'x, 's) execution_state" where
  "install_fanouts env plan action [] fanout s = (Inr fanout, s)"
| "install_fanouts env plan action (step_idx # wave) fanout s =
     (case maybe_install_fanout env plan action step_idx fanout s of
        (Inl e, s) \<Rightarrow> (Inl e, s)
      | (Inr fanout, s) \<Rightarrow> install_fanouts env plan action wave fanout s)"

text \<open>
  The token is asked before the tasks are spawned, and by the biased select while they are joined:
  it may fire at any moment up to the last join, which is one question.
\<close>

definition run_wave_parallel ::
  "('m, 'x, 's) runtime_env \<Rightarrow> dag_plan \<Rightarrow> action \<Rightarrow> nat list \<Rightarrow> fanout \<Rightarrow>
    ('m, 'x, 's) execution_state \<Rightarrow> ('m, 'x, 's) wave_outcome" where
  "run_wave_parallel env plan action wave fanout s =
     (let first = (case wave of i # _ \<Rightarrow> st_id (act_steps action ! i) | [] \<Rightarrow> []) in
      case check_cancelled env first s of
        (Inl e, s) \<Rightarrow> Some (Inl e, s)
      | (Inr _, s) \<Rightarrow>
          let tasks = wave_tasks env plan action wave fanout s in
          if list_ex (\<lambda>(step, outcome). out_of_fuel outcome) tasks then None
          else case check_cancelled env first s of
            (Inl e, s) \<Rightarrow> Some (Inl e, s)
          | (Inr _, s) \<Rightarrow>
              (case fold (merge_wave_task (map fst (es_variables s))) tasks (s, None) of
                 (s, Some err) \<Rightarrow> Some (Inl err, s)
               | (s, None) \<Rightarrow>
                   (case escaping_violation s of
                      Some err \<Rightarrow> Some (Inl err, s)
                    | None \<Rightarrow> Some (install_fanouts env plan action wave fanout s))))"

fun run_waves ::
  "('m, 'x, 's) runtime_env \<Rightarrow> dag_plan \<Rightarrow> action \<Rightarrow> nat list list \<Rightarrow> fanout \<Rightarrow>
    ('m, 'x, 's) execution_state \<Rightarrow> ((kernel_error + unit) \<times> ('m, 'x, 's) execution_state) option" where
  "run_waves env plan action [] fanout s = Some (Inr (), s)"
| "run_waves env plan action (wave # waves) fanout s =
     (let parallelize = length wave > 1 \<and> act_parallel_waves action
                        \<and> \<not> wave_requires_sequential wave action
      in case (if parallelize then run_wave_parallel env plan action wave fanout s
               else run_wave_sequential env plan action wave fanout s) of
           None \<Rightarrow> None
         | Some (Inl e, s) \<Rightarrow> Some (Inl e, s)
         | Some (Inr fanout, s) \<Rightarrow>
             if es_return_signal s \<noteq> None then Some (Inr (), s)
             else run_waves env plan action waves fanout s)"

section \<open>An action\<close>

record action_result =
  re_output :: json
  re_variables :: "(string, json) table"
  re_step_results :: "(string, json) table"

definition finish_action ::
  "('m, 'x, 's) runtime_env \<Rightarrow> ('m, 'x, 's) execution_state \<Rightarrow> action_result" where
  "finish_action env s =
     \<lparr>re_output = (case es_return_signal s of
        Some v \<Rightarrow> v | None \<Rightarrow> collect_output (fm_display (rt_formats env)) s),
      re_variables = es_variables s, re_step_results = es_step_results s\<rparr>"

text \<open>
  The action of a non-dataflow invocation. The second argument is the other scheduler; \<open>drain\<close> is
  the registry's operation of that name, run when the invocation owns its registry.
\<close>

definition execute_dag ::
  "('m, 'x, 's) runtime_env \<Rightarrow>
    (('m, 'x, 's) state_params \<Rightarrow> dag_plan \<Rightarrow> (kernel_error + action_result) \<times> 's) \<Rightarrow>
    ('s \<Rightarrow> 's) \<Rightarrow> bool \<Rightarrow> dag_plan \<Rightarrow> ('m, 'x, 's) state_params \<Rightarrow>
    ((kernel_error + action_result) \<times> 's) option" where
  "execute_dag env dataflow drain drain_streams plan params =
     (if act_dataflow (sp_action params) then Some (dataflow params plan)
      else
        case run_waves env plan (sp_action params) (dp_waves plan) [] (execution_state_new params) of
          None \<Rightarrow> None
        | Some (Inl e, s) \<Rightarrow> Some (Inl e, es_streams s)
        | Some (Inr _, s) \<Rightarrow>
            Some (Inr (finish_action env s),
                  if drain_streams \<and> es_invoke_depth s = 0 then drain (es_streams s) else es_streams s))"

end
