(* ===== verification/RuntimeSpec.thy ===== *)
theory RuntimeSpec
  imports Runtime
begin

text \<open>
  What the scheduler keeps. \<open>keeps\<close> is the contract of running something from a state: it ends, it
  leaves the invocation's own data alone and the result budget in order, and unless it ends in an
  error it puts the spliced steps, the loop stack and the error stack back. The locale
  \<open>step_runner\<close> is the interface between \<open>run_step\<close> and the control-flow steps: given a runner that
  keeps the contract on shallower steps, every control-flow step keeps it; the interpretation on
  \<open>run_step\<close> closes the recursion.
\<close>

named_theorems kept_simps

section \<open>The contract\<close>

text \<open>What no step changes.\<close>

definition frozen where
  "frozen s = (es_plugin_name s, es_input s, es_config s, es_secrets s, es_exec_ctx s,
     (es_invoke_depth s, es_dispatch_depth s, es_kernel s, es_limits s),
     (es_trigger s, es_fanout_overrides s, es_task s, es_step_type_access s, es_secret_resolver s))"

definition kept :: "('m, 'x, 's) execution_state \<Rightarrow> ('m, 'x, 's) execution_state \<Rightarrow> bool" where
  "kept s t \<longleftrightarrow> frozen t = frozen s \<and> (budget_ok s \<longrightarrow> budget_ok t)
     \<and> es_body_secrets t \<in> {None, es_body_secrets s}"

definition framed :: "('m, 'x, 's) execution_state \<Rightarrow> ('m, 'x, 's) execution_state \<Rightarrow> bool" where
  "framed s t \<longleftrightarrow> es_action t = es_action s \<and> es_foreach_stack t = es_foreach_stack s
     \<and> es_error_stack t = es_error_stack s"

primrec keeps :: "('m, 'x, 's) execution_state \<Rightarrow> ('m, 'x, 's) execution_state outcome \<Rightarrow> bool" where
  "keeps s (Ran b t) \<longleftrightarrow> kept s t \<and> framed s t"
| "keeps s (Erred e t) \<longleftrightarrow> kept s t"
| "keeps s OutOfFuel \<longleftrightarrow> False"

lemma kept_refl [simp, intro]: "kept s s"
  by (simp add: kept_def)

lemma kept_trans: "kept s t \<Longrightarrow> kept t u \<Longrightarrow> kept s u"
  by (auto simp: kept_def)

lemma framed_refl [simp, intro]: "framed s s"
  by (simp add: framed_def)

lemma framed_trans: "framed s t \<Longrightarrow> framed t u \<Longrightarrow> framed s u"
  by (simp add: framed_def)

lemma keeps_trans: "kept s t \<Longrightarrow> framed s t \<Longrightarrow> keeps t u \<Longrightarrow> keeps s u"
  by (cases u) (auto intro: kept_trans framed_trans)

lemma keeps_continue:
  assumes "keeps s r" "\<And>b t. r = Ran b t \<Longrightarrow> keeps t (k b t)"
  shows "keeps s (continue_with r k)"
  using assms by (cases r) (auto intro: keeps_trans)

text \<open>An update of fields outside \<open>frozen\<close> and the results keeps the state.\<close>

lemma kept_update:
  "frozen t = frozen s \<Longrightarrow> es_step_results t = es_step_results s \<Longrightarrow>
    es_step_results_bytes t = es_step_results_bytes s \<Longrightarrow>
    es_body_secrets t = es_body_secrets s \<or> es_body_secrets t = None \<Longrightarrow> kept s t"
  by (auto simp: kept_def budget_ok_def frozen_def)

lemma store_frozen: "frozen (store_step_result k v s) = frozen s"
  by (simp add: store_step_result_def frozen_def Let_def split: option.split)

lemma kept_store: "kept s (store_step_result k v s)"
proof -
  have "es_body_secrets (store_step_result k v s) = es_body_secrets s"
    by (simp add: store_step_result_def Let_def split: option.split)
  then show ?thesis by (simp add: kept_def store_frozen budget_store)
qed

lemma framed_store: "framed s (store_step_result k v s)"
  by (simp add: store_step_result_def framed_def Let_def split: option.split)

lemma fold_remove_le:
  "results_bytes (fold table_remove ids t) \<le> results_bytes t
   \<and> (distinct (map fst t) \<longrightarrow> distinct (map fst (fold table_remove ids t)))"
proof (induction ids arbitrary: t)
  case (Cons i ids)
  have "results_bytes (table_remove i t) \<le> results_bytes t"
    by (simp add: table_remove_def results_bytes_delete)
  moreover have "distinct (map fst t) \<longrightarrow> distinct (map fst (table_remove i t))"
    by (simp add: table_remove_def distinct_delete)
  ultimately show ?case using Cons [of "table_remove i t"] by (auto intro: le_trans)
qed simp

lemma kept_clear: "kept s (clear_results ids s)"
  using fold_remove_le [of ids "es_step_results s"]
  by (auto simp: kept_def clear_results_def frozen_def budget_ok_def)

lemma framed_clear: "framed s (clear_results ids s)"
  by (simp add: framed_def clear_results_def)

text \<open>The small state changes of the scheduler, all of them outside the contract's fields.\<close>

lemma small_kept [kept_simps]:
  "kept s (splice_steps inner s)" "kept s (unsplice_steps n s)" "kept s (clear_failure s)" "kept s (pop_error s)"
  "kept s (s\<lparr>es_polls := p\<rparr>)" "kept s (s\<lparr>es_error_stack := es\<rparr>)" "kept s (s\<lparr>es_foreach_stack := fs\<rparr>)"
  "kept s (s\<lparr>es_return_signal := rs\<rparr>)" "kept s (s\<lparr>es_last_error := le\<rparr>)" "kept s (push_foreach items s)"
  "kept s (leave_body s)" "kept s (write_error step err s)"
  "kept s (write_metadata k md s)" "kept s (mirror_variable step s)"
  "kept s (s\<lparr>es_current_step_idx := c\<rparr>)" "kept s (s\<lparr>es_current_step_idx := c, es_last_error := le\<rparr>)"
  by (auto intro!: kept_update simp: splice_steps_def unsplice_steps_def clear_failure_def pop_error_def
      push_foreach_def leave_body_def write_error_def write_metadata_def
      mirror_variable_def frozen_def split: option.split step_error.split)

lemma small_framed [kept_simps]:
  "framed s (clear_failure s)" "framed s (s\<lparr>es_polls := p\<rparr>)" "framed s (s\<lparr>es_return_signal := rs\<rparr>)"
  "framed s (s\<lparr>es_last_error := le\<rparr>)" "framed s (leave_body s)" "framed s (enter_body view s)"
  "framed s (write_error step err s)" "framed s (write_metadata k md s)" "framed s (mirror_variable step s)"
  "framed s (s\<lparr>es_current_step_idx := c\<rparr>)" "framed s (s\<lparr>es_current_step_idx := c, es_last_error := le\<rparr>)"
  by (simp_all add: clear_failure_def leave_body_def enter_body_def write_error_def write_metadata_def
      mirror_variable_def framed_def split: option.split step_error.split)

lemma check_cancelled_keeps:
  assumes "check_cancelled env i s = (r, t)"
  shows "kept s t" "framed s t"
  using assms by (auto simp: check_cancelled_def poll_def intro: kept_simps)

section \<open>Running a body keeps the contract\<close>

text \<open>A body runs with its owner's secrets in view; leaving it takes them back.\<close>

lemma body_keeps:
  assumes "run_body body params (enter_body view s) = (r, t)"
  shows "kept s (leave_body t)" "framed s (leave_body t)"
  using assms by (auto simp: run_body_def enter_body_def leave_body_def framed_def frozen_def
      intro!: kept_update split: step_body.splits prod.splits)

lemma write_output_keeps:
  assumes "write_output fm step out s = (b, t)"
  shows "kept s t \<and> framed s t"
proof -
  let ?s = "store_step_result (st_id step) (so_value out) s"
  have "kept ?s t \<and> framed ?s t"
    using assms by (auto simp: write_output_def Let_def split: if_splits option.splits
        intro: kept_simps kept_trans framed_trans)
  with kept_store framed_store show ?thesis by (meson kept_trans framed_trans)
qed

lemma dispatch_keeps:
  assumes "dispatch_trait_step_core fm idx body s = (b, t)"
  shows "kept s t \<and> framed s t"
proof (cases "idx < length (es_steps s)")
  case False
  with assms show ?thesis by (auto simp: dispatch_trait_step_core_def intro: kept_simps)
next
  case True
  let ?step = "es_steps s ! idx" and ?s = "s\<lparr>es_current_step_idx := Some idx\<rparr>"
  have s: "kept s ?s" "framed s ?s" by (rule kept_simps)+
  show ?thesis
  proof (cases "owner_view ?s (st_type ?step)")
    case (Inl e)
    with assms True have "t = ?s\<lparr>es_current_step_idx := None, es_last_error := es_last_error t\<rparr>"
      by (auto simp: dispatch_trait_step_core_def Let_def)
    with s show ?thesis by (metis kept_simps kept_trans framed_trans)
  next
    case (Inr view)
    obtain r u where u: "run_body body (st_params ?step) (enter_body view ?s) = (r, u)" by force
    from body_keeps [OF u] s have k: "kept s (leave_body u)" "framed s (leave_body u)"
      by (meson kept_trans framed_trans)+
    show ?thesis
    proof (cases r)
      case (Inl err)
      with assms True Inr u have "t = write_error ?step err (leave_body u)"
        by (auto simp: dispatch_trait_step_core_def Let_def)
      with k show ?thesis by (meson kept_simps kept_trans framed_trans)
    next
      case (Inr out)
      with assms True \<open>owner_view ?s (st_type ?step) = Inr view\<close> u
      have "write_output fm ?step out (leave_body u) = (b, t)"
        by (auto simp: dispatch_trait_step_core_def Let_def)
      with k write_output_keeps show ?thesis by (meson kept_trans framed_trans)
    qed
  qed
qed

lemma run_direct_keeps: "keeps s (run_direct env step idx s)"
  by (auto simp: run_direct_def Let_def intro: kept_simps dest: dispatch_keeps
      split: option.splits prod.splits)

lemma run_return_keeps: "keeps s (run_return env step s)"
proof -
  have "kept s ((store_step_result k v s)\<lparr>es_return_signal := rs\<rparr>)"
    "framed s ((store_step_result k v s)\<lparr>es_return_signal := rs\<rparr>)" for k v rs
    by (rule kept_trans [OF kept_store] framed_trans [OF framed_store]; rule kept_simps)+
  then show ?thesis by (simp add: run_return_def Let_def)
qed

section \<open>Inner steps\<close>

lemma inner_of:
  assumes "inner \<in> set (array_to_steps arr)"
  obtains a v where "arr = Some (JArray a)" "v \<in> set a" "from_inner_value v = Inr inner"
proof -
  from assms obtain a where a: "Option.bind arr as_array = Some a"
    and i: "inner \<in> set (List.map_filter (\<lambda>v. case from_inner_value v of Inr s \<Rightarrow> Some s | Inl _ \<Rightarrow> None) a)"
    by (cases "Option.bind arr as_array") (simp_all add: array_to_steps_def)
  from a have "arr = Some (JArray a)"
    by (cases arr) (auto simp: as_array_def split: json.splits)
  moreover from i obtain v where "v \<in> set a" "from_inner_value v = Inr inner"
    by (auto simp: List.map_filter_def split: sum.splits)
  ultimately show thesis by (rule that)
qed

lemma inner_depth:
  assumes "inner \<in> set (array_to_steps arr)" "arr = json_get params k"
  shows "json_depth (st_params inner) < json_depth params"
proof -
  from assms(1) obtain a v where a: "arr = Some (JArray a)" "v \<in> set a" "from_inner_value v = Inr inner"
    by (rule inner_of)
  from a(1) assms(2) obtain m where "params = JObject m" "(k, JArray a) \<in> set m"
    by (auto simp: json_get_def split: json.splits dest: obj_get_set)
  then have "json_depth (JArray a) < json_depth params" by (simp add: depth_object_entry del: json_depth.simps)
  with depth_inner_step [OF a(3)] depth_array_elem [OF a(2)] show ?thesis by linarith
qed

lemma branch_depth:
  assumes "inner \<in> set (array_to_steps (Some arr))" "json_depth arr \<le> d"
  shows "json_depth (st_params inner) < d"
  using assms by (auto elim!: inner_of dest!: depth_inner_step depth_array_elem simp del: json_depth.simps)

lemma run_spliced_keeps:
  assumes "keeps (splice_steps inner s) (fst (run_inner env run inner (length (es_steps s)) None (splice_steps inner s)))"
  shows "keeps s (fst (run_spliced env run inner s))"
proof -
  have fr: "framed s (unsplice_steps (length (es_steps s)) t)" if "framed (splice_steps inner s) t" for t
    using that by (simp add: framed_def splice_steps_def unsplice_steps_def)
  have "kept s (unsplice_steps n t)" if "kept (splice_steps inner s) t" for n t
    using that kept_simps(1,2) by (meson kept_trans)
  with assms fr show ?thesis
    by (cases "fst (run_inner env run inner (length (es_steps s)) None (splice_steps inner s))")
      (auto simp: run_spliced_def Let_def)
qed

section \<open>Branches and loops\<close>

lemma choose_branch_in:
  "choose_branch env s arr = Inr a \<Longrightarrow> a = [] \<or> (\<exists>branch\<in>set arr. json_get branch ''then'' = Some (JArray a))"
proof (induction arr)
  case (Cons branch arr)
  define test where "test = (case Option.bind (json_get branch ''test'') as_str of
      Some c \<Rightarrow> eval_if_condition env s c | None \<Rightarrow> Inr True)"
  show ?case
  proof (cases test)
    case (Inr matched)
    show ?thesis
    proof (cases matched)
      case True
      with Inr Cons.prems have "a = (case Option.bind (json_get branch ''then'') as_array of
          Some a \<Rightarrow> a | None \<Rightarrow> [])" by (simp add: test_def [symmetric] rbind_def)
      then show ?thesis
        by (cases "json_get branch ''then''") (auto simp: as_array_def split: json.split)
    next
      case False
      with Inr Cons show ?thesis by (auto simp: test_def [symmetric] rbind_def)
    qed
  qed (use Cons.prems in \<open>simp add: test_def [symmetric] rbind_def\<close>)
qed simp

lemma array_in_params:
  assumes "Option.bind (json_get params k) as_array = Some a" "v \<in> set a"
  shows "json_depth v < json_depth params"
proof -
  from assms(1) have "json_get params k = Some (JArray a)"
    by (cases "json_get params k") (auto simp: as_array_def split: json.splits)
  then obtain m where "params = JObject m" "(k, JArray a) \<in> set m"
    by (auto simp: json_get_def split: json.splits dest: obj_get_set)
  then have "json_depth (JArray a) < json_depth params" by (simp add: depth_object_entry del: json_depth.simps)
  with depth_array_elem [OF assms(2)] show ?thesis by linarith
qed

text \<open>A loop changes the top of its stack only.\<close>

definition looped :: "('m, 'x, 's) execution_state \<Rightarrow> ('m, 'x, 's) execution_state \<Rightarrow> bool" where
  "looped s t \<longleftrightarrow> es_action t = es_action s \<and> es_error_stack t = es_error_stack s
     \<and> (\<exists>f g rest. es_foreach_stack s = f # rest \<and> es_foreach_stack t = g # rest)"

primrec keeps_loop :: "('m, 'x, 's) execution_state \<Rightarrow> ('m, 'x, 's) execution_state outcome \<Rightarrow> bool" where
  "keeps_loop s (Ran b t) \<longleftrightarrow> kept s t \<and> looped s t"
| "keeps_loop s (Erred e t) \<longleftrightarrow> kept s t"
| "keeps_loop s OutOfFuel \<longleftrightarrow> False"

lemma looped_trans: "looped s t \<Longrightarrow> looped t u \<Longrightarrow> looped s u"
  by (auto simp: looped_def)

lemma looped_framed: "looped s t \<Longrightarrow> framed t u \<Longrightarrow> looped s u"
  by (auto simp: looped_def framed_def)

lemma keeps_loop_trans: "kept s t \<Longrightarrow> looped s t \<Longrightarrow> keeps_loop t u \<Longrightarrow> keeps_loop s u"
  by (cases u) (auto intro: kept_trans looped_trans)

lemma next_foreach_keeps:
  assumes "host_next_foreach s = (b, t)" "es_foreach_stack s = f # rest"
  shows "kept s t" "looped s t"
    "b \<Longrightarrow> \<exists>g. es_foreach_stack t = g # rest \<and> fe_items g = fe_items f \<and> fe_index g = Suc (fe_index f)
        \<and> fe_index f < items_len (fe_items f)"
  using assms by (auto simp: host_next_foreach_def looped_def split: if_splits intro: kept_simps)

lemma host_end_foreach_simps:
  "length (es_steps s) \<le> idx \<Longrightarrow> host_end_foreach idx s = s"
  "idx < length (es_steps s) \<Longrightarrow> es_foreach_stack s = f # rest \<Longrightarrow>
    host_end_foreach idx s = store_step_result (st_id (es_steps s ! idx)) (JArray (fe_results f))
      (s\<lparr>es_foreach_stack := rest\<rparr>)"
  by (simp_all add: host_end_foreach_def)

text \<open>A loop begins by refusing, by finding no step, or by pushing its frame.\<close>

lemma begin_loop_cases:
  assumes "begin_loop env k idx s = (c, t)"
  obtains "c < 0" "kept s t"
    | "c = 0" "t = s" "length (es_steps s) \<le> idx"
    | items where "t = push_foreach items s" "idx < length (es_steps s)"
proof (cases "idx < length (es_steps s)")
  case True
  show thesis
  proof (cases k)
    case BeginForeach
    with True assms that(3) show ?thesis
      by (auto simp: begin_loop_def host_begin_foreach_def Let_def)
  next
    case BeginRepeat
    with True assms that(1,3) show ?thesis
      by (auto simp: begin_loop_def host_begin_repeat_def Let_def kept_simps split: sum.splits if_splits)
  qed
next
  case False
  with assms that(2) show thesis
    by (auto simp: begin_loop_def host_begin_foreach_def host_begin_repeat_def split: loop_kind.splits)
qed

text \<open>Every step a control-flow step runs is shallower than it.\<close>

lemma nested_shallow:
  "json_depth (st_params step) \<le> D \<Longrightarrow>
    \<forall>inner\<in>set (array_to_steps (json_get (st_params step) k)). json_depth (st_params inner) < D"
  by (blast dest: inner_depth [OF _ refl] intro: less_le_trans)

lemma chosen_shallow:
  assumes "json_depth (st_params step) \<le> D" "Option.bind (json_get (st_params step) ''ifs'') as_array = Some arr"
    "choose_branch env s arr = Inr a"
  shows "\<forall>inner\<in>set (array_to_steps (Some (JArray a))). json_depth (st_params inner) < D"
proof
  fix inner
  assume i: "inner \<in> set (array_to_steps (Some (JArray a)))"
  then have "a \<noteq> []" by (auto elim: inner_of)
  with choose_branch_in [OF assms(3)] obtain branch
    where b: "branch \<in> set arr" "json_get branch ''then'' = Some (JArray a)" by blast
  from inner_depth [OF i b(2) [symmetric]] array_in_params [OF assms(2) b(1)] assms(1)
  show "json_depth (st_params inner) < D" by linarith
qed

lemma parallel_shallow:
  assumes "json_depth (st_params step) \<le> D" "branch \<in> set (branch_steps_of step)"
  shows "\<forall>inner\<in>set branch. json_depth (st_params inner) < D"
proof
  fix inner
  assume i: "inner \<in> set branch"
  from assms(2) obtain arr v
    where a: "Option.bind (json_get (st_params step) ''branches'') as_array = Some arr" "v \<in> set arr"
      "branch = array_to_steps (Some v)"
    by (cases "Option.bind (json_get (st_params step) ''branches'') as_array")
      (auto simp: branch_steps_of_def)
  with branch_depth [OF _ order_refl] i have "json_depth (st_params inner) < json_depth v" by blast
  with array_in_params [OF a(1,2)] assms(1) show "json_depth (st_params inner) < D" by linarith
qed

section \<open>Merging branches\<close>

lemma merge_new_keeps:
  "kept s (merge_new baseline store_step_result entries s)
   \<and> framed s (merge_new baseline store_step_result entries s)"
  unfolding merge_new_def
proof (induction entries arbitrary: s)
  case (Cons e entries)
  obtain k v where e: "e = (k, v)" by force
  note Cons [of "store_step_result k v s"] Cons [of s]
  then show ?case
    using kept_trans [OF kept_store [of s k v]] framed_trans [OF framed_store [of s k v]]
    by (simp add: e)
qed simp

lemma merge_branch_keeps:
  "kept s (merge_parallel_branch_state task takes ids vars s)
   \<and> framed s (merge_parallel_branch_state task takes ids vars s)"
proof -
  let ?m = "merge_new ids store_step_result (es_step_results task) s"
  have "kept ?m (merge_parallel_branch_state task takes ids vars s)"
    by (rule kept_update) (simp_all add: merge_parallel_branch_state_def Let_def frozen_def)
  moreover have "framed ?m (merge_parallel_branch_state task takes ids vars s)"
    by (simp add: merge_parallel_branch_state_def Let_def framed_def)
  ultimately show ?thesis using merge_new_keeps by (meson kept_trans framed_trans)
qed

lemma join_keeps:
  "kept (pj_state j) (pj_state (fold (join_branch ids vars) slots j))
   \<and> framed (pj_state j) (pj_state (fold (join_branch ids vars) slots j))"
proof (induction slots arbitrary: j)
  case (Cons slot slots)
  have "kept (pj_state j) (pj_state (join_branch ids vars slot j))
      \<and> framed (pj_state j) (pj_state (join_branch ids vars slot j))"
    by (simp add: join_branch_def merge_branch_keeps split: option.split prod.split)
  with Cons [of "join_branch ids vars slot j"] show ?case by (auto intro: kept_trans framed_trans)
qed simp

section \<open>The control-flow steps keep the contract\<close>

text \<open>
  The interface between one step and the steps inside it: a runner that keeps the contract on the
  steps whose parameters nest less than \<open>D\<close> deep.
\<close>

locale step_runner =
  fixes run :: "('m, 'x, 's) runner" and D :: nat
  assumes run_keeps: "json_depth (st_params step) < D \<Longrightarrow> keeps s (run step idx s)"
begin

lemma run_inner_keeps:
  "\<forall>inner\<in>set inners. json_depth (st_params inner) < D \<Longrightarrow>
    keeps s (fst (run_inner env run inners idx l s))"
proof (induction inners arbitrary: idx l s)
  case (Cons inner rest)
  obtain r t where t: "check_cancelled env (st_id inner) s = (r, t)" by force
  note k = check_cancelled_keeps [OF t]
  have run: "keeps t (run inner idx t)" using Cons.prems by (simp add: run_keeps)
  show ?case
  proof (cases r)
    case (Inr u)
    show ?thesis
    proof (cases "run inner idx t")
      case (Ran b u')
      with run k have "kept s u'" "framed s u'" by (auto intro: kept_trans framed_trans)
      with Cons Ran Inr t show ?thesis
        by (auto simp: Let_def intro: keeps_trans split: sum.split)
    qed (use run k t Inr in \<open>auto intro: kept_trans\<close>)
  qed (simp add: t k)
qed simp

lemma spliced_keeps:
  "\<forall>inner\<in>set inners. json_depth (st_params inner) < D \<Longrightarrow> keeps s (fst (run_spliced env run inners s))"
  by (rule run_spliced_keeps) (rule run_inner_keeps)

lemma nested_keeps:
  "json_depth (st_params step) \<le> D \<Longrightarrow>
    keeps s (fst (run_spliced env run (array_to_steps (json_get (st_params step) k)) s))"
  by (rule spliced_keeps) (rule nested_shallow)

lemma run_finally_keeps:
  "json_depth (st_params step) \<le> D \<Longrightarrow> keeps s (run_finally env run step s)"
  by (simp add: run_finally_def Let_def nested_keeps)

lemma run_catch_keeps:
  assumes "json_depth (st_params step) \<le> D"
  shows "keeps s (fst (run_catch env run step s))"
proof -
  let ?inner = "array_to_steps (json_get (st_params step) ''catch'')"
  have popped: "keeps s (map_outcome pop_error
      (fst (run_spliced env run ?inner (clear_failure (s\<lparr>es_error_stack := m # es_error_stack s\<rparr>)))))" for m
  proof -
    let ?t = "clear_failure (s\<lparr>es_error_stack := m # es_error_stack s\<rparr>)"
    have t: "kept s ?t" by (rule kept_trans; rule kept_simps)
    have "keeps ?t (fst (run_spliced env run ?inner ?t))" using assms by (rule nested_keeps)
    moreover have "framed s (pop_error u)" if "framed ?t u" for u
      using that by (simp add: framed_def clear_failure_def pop_error_def)
    moreover have "kept s (pop_error u)" if "kept ?t u" for u
      using that t kept_simps(4) by (meson kept_trans)
    ultimately show ?thesis by (cases "fst (run_spliced env run ?inner ?t)") simp_all
  qed
  show ?thesis by (simp add: run_catch_def Let_def kept_simps popped)
qed

lemma run_try_keeps:
  assumes d: "json_depth (st_params step) \<le> D"
  shows "keeps s (run_try env run step s)"
proof -
  let ?tried = "run_spliced env run (array_to_steps (json_get (st_params step) ''try'')) s"
  let ?catch = "\<lambda>b t. if b then (Ran True t, None) else run_catch env run step t"
  have "keeps t (case ?catch b t of (c, l) \<Rightarrow>
      continue_with c (\<lambda>r u. continue_with (run_finally env run step u) (\<lambda>f w.
        if \<not> f then Ran False w
        else if r then Ran True (store_step_result (st_id step) (compose_result l (snd ?tried)) w)
        else Ran False w)))" for b t
  proof -
    have "keeps t (fst (?catch b t))" by (simp add: run_catch_keeps [OF d])
    then show ?thesis
      by (cases "?catch b t") (auto intro!: keeps_continue run_finally_keeps [OF d]
          simp: kept_store framed_store)
  qed
  then show ?thesis
    by (auto simp: run_try_def case_prod_beta intro!: keeps_continue nested_keeps [OF d])
qed

lemma run_ifs_keeps:
  assumes "json_depth (st_params step) \<le> D"
  shows "keeps s (run_ifs env run step s)"
proof (cases "Option.bind (json_get (st_params step) ''ifs'') as_array")
  case (Some arr)
  show ?thesis
  proof (cases "choose_branch env s arr")
    case (Inr a)
    have "keeps s (fst (run_spliced env run (array_to_steps (Some (JArray a))) s))"
      by (rule spliced_keeps) (rule chosen_shallow [OF assms Some Inr])
    with Some Inr show ?thesis by (simp add: run_ifs_def Let_def)
  qed (simp add: run_ifs_def Some)
qed (simp add: run_ifs_def)

lemma iterate_keeps:
  assumes "\<forall>inner\<in>set inners. json_depth (st_params inner) < D"
  shows "es_foreach_stack s = f # rest \<Longrightarrow> items_len (fe_items f) - fe_index f < n \<Longrightarrow>
    keeps_loop s (fst (iterate n env run inners off ce ue acc s))"
proof (induction n arbitrary: s f acc)
  case (Suc n)
  obtain b t where t: "host_next_foreach s = (b, t)" by force
  note nf = next_foreach_keeps [OF t Suc.prems(1)]
  show ?case
  proof (cases b)
    case True
    from nf(3) [OF True] obtain g where g: "es_foreach_stack t = g # rest"
      "items_len (fe_items g) - fe_index g < n" using Suc.prems(2) by auto
    let ?u = "clear_results (map st_id inners) t"
    have u: "kept s ?u" "looped s ?u"
      using nf(1,2) kept_clear framed_clear by (blast intro: kept_trans looped_framed)+
    have inner: "keeps ?u (fst (run_inner env run inners off None ?u))" using assms by (rule run_inner_keeps)
    show ?thesis
    proof (cases "fst (run_inner env run inners off None ?u)")
      case (Ran b' w)
      with inner u have w: "kept s w" "looped s w" by (auto intro: kept_trans looped_framed)
      from inner Ran g have gw: "es_foreach_stack w = g # rest" by (simp add: framed_def clear_results_def)
      have "keeps_loop s (fst (iterate n env run inners off ce ue acc' w))" for acc'
        using w Suc.IH [OF gw g(2)] by (rule keeps_loop_trans)
      with w Ran show ?thesis by (simp add: t True Let_def split: sum.split option.split)
    qed (use inner u in \<open>auto simp: t True intro: kept_trans\<close>)
  next
    case False
    with nf(1,2) show ?thesis by (simp add: t)
  qed
qed simp

lemma run_iteration_keeps:
  assumes "json_depth (st_params step) \<le> D"
  shows "keeps s (run_iteration env run step idx k s)"
proof -
  let ?inners = "array_to_steps (json_get (st_params step) ''steps'')"
  let ?off = "length (es_steps s)"
  note inners = nested_shallow [OF assms, of "''steps''"]
  obtain c t where t: "begin_loop env k idx s = (c, t)" by force
  from t show ?thesis
  proof (cases rule: begin_loop_cases)
    case 1
    then show ?thesis by (simp add: run_iteration_def t)
  next
    case 2
    have same: "unsplice_steps ?off (splice_steps ?inners s) = s"
      by (simp add: unsplice_steps_def splice_steps_def)
    have "keeps s (finish_loop step idx x y True s)" for x y
      using 2 by (simp add: finish_loop_def host_end_foreach_simps kept_store framed_store)
    with 2 same show ?thesis by (simp add: run_iteration_def t Let_def)
  next
    case (3 items)
    let ?u = "splice_steps ?inners t"
    obtain f where f: "es_foreach_stack ?u = f # es_foreach_stack s" "fe_items f = items" "fe_index f = 0"
      by (simp add: 3 push_foreach_def splice_steps_def)
    have u: "kept s ?u" unfolding 3 by (rule kept_trans; rule kept_simps)
    from f have uu: "looped ?u ?u" by (simp add: looped_def)
    have leave: "keeps s (continue_with (map_outcome (unsplice_steps ?off) r) (finish_loop step idx x y))"
      if r: "keeps_loop ?u r" for r x y
    proof (cases r)
      case (Ran b w)
      let ?w = "unsplice_steps ?off w"
      from r Ran u f have w: "kept s w" "looped ?u w" by (auto intro: kept_trans)
      from w(2) f obtain g where g: "es_foreach_stack ?w = g # es_foreach_stack s"
        "es_action ?w = es_action s" "es_error_stack ?w = es_error_stack s"
        by (auto simp: looped_def unsplice_steps_def splice_steps_def 3 push_foreach_def)
      have w': "kept s (?w\<lparr>es_foreach_stack := es_foreach_stack s\<rparr>)"
        by (rule kept_trans [OF w(1)], rule kept_trans; rule kept_simps)
      have "framed s (?w\<lparr>es_foreach_stack := es_foreach_stack s\<rparr>)" using g by (simp add: framed_def)
      with w' g 3(2) Ran show ?thesis
        by (auto simp: finish_loop_def host_end_foreach_simps Let_def
            intro: kept_trans [OF _ kept_store] framed_trans [OF _ framed_store])
    next
      case (Erred e w)
      with r u have "kept s w" by (auto intro: kept_trans)
      then show ?thesis using Erred kept_simps(2) by (auto intro: kept_trans)
    qed (use r in simp)
    have loop: "keeps_loop ?u (fst (iterate (loop_fuel ?u) env run ?inners off ce ue acc ?u))"
      for off ce ue acc
      by (rule iterate_keeps [OF inners f(1)]) (simp add: loop_fuel_def f)
    have off: "length (es_steps t) = ?off" by (simp add: 3 push_foreach_def)
    have stay: "keeps s (continue_with (map_outcome (unsplice_steps ?off) (Ran True ?u)) (finish_loop step idx x y))"
      for x y by (rule leave) (simp add: uu)
    show ?thesis
    proof (cases "c < 0")
      case True
      then show ?thesis using kept_simps(10) by (simp add: run_iteration_def t 3)
    next
      case False
      then show ?thesis using leave [OF loop] stay
        by (simp add: run_iteration_def t Let_def off case_prod_beta)
    qed
  qed
qed

lemma run_parallel_keeps:
  assumes d: "json_depth (st_params step) \<le> D"
  shows "keeps s (run_parallel env run step s)"
proof -
  have "run_branch env run s slot branch \<noteq> None" if "branch \<in> set (branch_steps_of step)" for slot branch
  proof -
    let ?t = "splice_steps branch (fork slot s)"
    have "keeps ?t (fst (run_inner env run branch (length (es_steps s)) None ?t))"
      by (rule run_inner_keeps) (rule parallel_shallow [OF d that])
    then show ?thesis by (auto simp: run_branch_def split: prod.splits outcome.splits)
  qed
  note ran = this
  have slots: "\<not> list_ex (\<lambda>slot. slot = None) (branch_slots env run s (branch_steps_of step))"
  proof
    assume "list_ex (\<lambda>slot. slot = None) (branch_slots env run s (branch_steps_of step))"
    then obtain i where "i < length (branch_steps_of step)"
      "run_branch env run s i (branch_steps_of step ! i) = None"
      by (auto simp: list_ex_iff branch_slots_def in_set_enumerate_eq split: if_splits)
    with ran [OF nth_mem] show False by blast
  qed
  let ?s = "s\<lparr>es_polls := Suc (es_polls s)\<rparr>"
  let ?j = "fold (join_branch (map fst (es_step_results s)) (map fst (es_variables s)))
      (map the (branch_slots env run s (branch_steps_of step)))
      \<lparr>pj_state = ?s, pj_results = [], pj_any_failed = False, pj_first_error = None\<rparr>"
  have "kept s ?s" "framed s ?s" by (rule kept_simps)+
  then have j: "kept s (pj_state ?j)" "framed s (pj_state ?j)"
    using join_keeps [of "\<lparr>pj_state = ?s, pj_results = [], pj_any_failed = False, pj_first_error = None\<rparr>"]
    by (auto intro: kept_trans framed_trans)
  then have "kept s (store_step_result k v (pj_state ?j))" "framed s (store_step_result k v (pj_state ?j))" for k v
    using kept_store framed_store by (blast intro: kept_trans framed_trans)+
  with j slots show ?thesis
    by (simp add: run_parallel_def Let_def kept_store framed_store split: option.split)
qed

lemma run_body_of_keeps:
  "json_depth (st_params step) \<le> D \<Longrightarrow> keeps s (run_body_of env run step idx s)"
  by (simp add: run_body_of_def run_iteration_keeps run_ifs_keeps run_try_keeps run_parallel_keeps
      run_return_keeps run_direct_keeps)

end

section \<open>Running a step\<close>

lemma raise_keeps: "keeps s (raise_violation b s)"
  by (simp add: raise_violation_def split: option.split)

lemma run_step_keeps: "json_depth (st_params step) < n \<Longrightarrow> keeps s (run_step n env step idx s)"
proof (induction n arbitrary: step idx s)
  case (Suc n)
  have "step_runner (run_step n env) n" by unfold_locales (rule Suc.IH)
  then have "keeps s (run_body_of env (run_step n env) step idx s)"
    by (rule step_runner.run_body_of_keeps) (use Suc.prems in linarith)
  then show ?case by (simp add: keeps_continue raise_keeps)
qed simp

interpretation stepper: step_runner "run_step n env" n for n env
  by unfold_locales (rule run_step_keeps)

lemma run_top_keeps: "keeps s (run_top env step idx s)"
  unfolding run_top_def step_fuel_def by (rule run_step_keeps) simp

end
