(* ===== verification/StepSpec.thy ===== *)
theory StepSpec
  imports RuntimeSpec
begin

text \<open>
  What one step does. The fuel of \<open>run_step\<close> does not matter once it covers the nesting of the
  parameters; the frame, the budget and the refusals of \<open>RuntimeSpec\<close> are stated for the step and for
  an action; the branches of \<open>try\<close>, \<open>ifs\<close>, \<open>parallel\<close> and the loops are given on the state.
\<close>

section \<open>A small invocation\<close>

text \<open>
  An engine with the two kernel bodies, a body that fails and a token that never fires, for the
  examples below. Its texts are empty where the formatting is not the code's own.
\<close>

definition small_formats :: "(parse_fault, name_error) formats" where
  "small_formats = \<lparr>fm_display = (\<lambda>v. []), fm_debug = (\<lambda>v. []), fm_strings = (\<lambda>v. []),
     fm_parse_error = (\<lambda>e. []), fm_name_error = (\<lambda>e. [])\<rparr>"

definition small_env :: "(unit, unit, unit) runtime_env" where
  "small_env =
     \<lparr>rt_formats = small_formats,
      rt_linker = (\<lambda>name.
        if name = ''step_let'' then Some (PluginBody (step_let small_formats))
        else if name = ''step_throw_error'' then Some (PluginBody (step_throw_error small_formats))
        else None),
      rt_fired = (\<lambda>task n. False), rt_open_readable = (\<lambda>s h. False),
      rt_fan_out = (\<lambda>k s h n. (Inr [], s))\<rparr>"

definition small_params :: "nat \<Rightarrow> step_def list \<Rightarrow> (unit, unit, unit) state_params" where
  "small_params max_bytes todo =
     \<lparr>sp_plugin_name = ''app'', sp_action = action_new todo, sp_input = empty_object,
      sp_config = JNull, sp_secrets = JNull, sp_exec_ctx = (), sp_streams = (), sp_invoke_depth = 0,
      sp_dispatch_depth = 0, sp_kernel = None, sp_trigger = None,
      sp_limits =
        \<lparr>rl_fuel_budget = 1, rl_max_memory_bytes = 1, rl_max_table_elements = 1, rl_max_instances = 1,
         rl_max_tables = 1, rl_max_memories = 1, rl_default_wallclock_ms = 1, rl_max_wallclock_ms = None,
         rl_max_parallel_branches = 4, rl_max_step_results_bytes = max_bytes,
         rl_dataflow_events_capacity = 1\<rparr>,
      sp_step_type_access = step_type_access_default, sp_secret_resolver = None\<rparr>"

definition let_step :: "string \<Rightarrow> json \<Rightarrow> step_def" where
  "let_step i v = step_def_new i ''let'' (JObject [(''value'', v)])"

definition throw_step :: "string \<Rightarrow> step_def" where
  "throw_step i = step_def_new i ''throw_error'' (JObject [(''code'', JString ''E'')])"

section \<open>Two runners that agree\<close>

lemma linker_polls [simp]: "check_cancelled (env\<lparr>rt_linker := L\<rparr>) i s = check_cancelled env i s"
  by (simp add: check_cancelled_def poll_def)

lemma linker_eval [simp]: "eval_dsl_expression (env\<lparr>rt_linker := L\<rparr>) s e l = eval_dsl_expression env s e l"
  by (simp add: eval_dsl_expression_def split: sum.split)

lemma linker_condition [simp]: "eval_if_condition (env\<lparr>rt_linker := L\<rparr>) s c = eval_if_condition env s c"
  by (simp add: eval_if_condition_def)

lemma linker_collect [simp]: "collect_value (env\<lparr>rt_linker := L\<rparr>) s e acc = collect_value env s e acc"
  by (simp add: collect_value_def)

lemma linker_begin [simp]: "begin_loop (env\<lparr>rt_linker := L\<rparr>) k idx s = begin_loop env k idx s"
  by (simp add: begin_loop_def split: loop_kind.split)

lemma linker_return [simp]: "run_return (env\<lparr>rt_linker := L\<rparr>) step s = run_return env step s"
  by (simp add: run_return_def)

lemma linker_branch [simp]: "choose_branch (env\<lparr>rt_linker := L\<rparr>) s bs = choose_branch env s bs"
  by (induction bs) (simp_all split: option.split cong: if_cong)

text \<open>What a body's behaviour may be compared on: the access set and the invoke depth, both constant.\<close>

definition scope :: "('m, 'x, 's) execution_state \<Rightarrow> step_type_access \<times> nat" where
  "scope s = (es_step_type_access s, es_invoke_depth s)"

lemma same_scope: "kept s t \<Longrightarrow> scope t = scope s"
  by (simp add: kept_def frozen_def scope_def)

lemma small_scope [simp]:
  "scope (splice_steps inner s) = scope s"
  "scope (unsplice_steps n s) = scope s"
  "scope (clear_failure s) = scope s"
  "scope (clear_results ids s) = scope s"
  "scope (fork slot s) = scope s"
  "scope (enter_body view s) = scope s"
  "scope (s\<lparr>es_current_step_idx := i\<rparr>) = scope s"
  "scope (s\<lparr>es_error_stack := es\<rparr>) = scope s"
  by (simp_all add: scope_def splice_steps_def unsplice_steps_def clear_failure_def clear_results_def
      fork_def enter_body_def)

lemma next_scope: "host_next_foreach s = (b, t) \<Longrightarrow> scope t = scope s"
  by (auto simp: host_next_foreach_def scope_def split: list.splits if_splits)

lemma begin_scope: "begin_loop env k idx s = (c, t) \<Longrightarrow> scope t = scope s"
  by (erule begin_loop_cases) (simp_all add: same_scope push_foreach_def, simp add: scope_def)

definition same_body :: "nat \<Rightarrow> ('m, 'x, 's) step_body \<Rightarrow> ('m, 'x, 's) step_body \<Rightarrow> bool" where
  "same_body d b b' \<longleftrightarrow> (\<forall>s params. es_invoke_depth s = d \<longrightarrow> run_body b params s = run_body b' params s)"

lemma same_body_refl [simp]: "same_body d b b"
  by (simp add: same_body_def)

lemma dispatch_same:
  assumes "same_body d b b'" "es_invoke_depth s = d"
  shows "dispatch_trait_step_core fm idx b s = dispatch_trait_step_core fm idx b' s"
proof -
  have "run_body b p (enter_body view (s\<lparr>es_current_step_idx := i\<rparr>))
      = run_body b' p (enter_body view (s\<lparr>es_current_step_idx := i\<rparr>))" for p view i
    using assms by (simp add: same_body_def enter_body_def)
  then show ?thesis by (simp add: dispatch_trait_step_core_def Let_def split: sum.split)
qed

text \<open>
  Two runners under linkers that may differ: they agree on shallow steps in the invocations whose
  scope lies in \<open>A\<close>, and the linkers agree on what those access sets resolve to.
\<close>

locale agreeing_runners = step_runner run D for run :: "('m, 'x, 's) runner" and D +
  fixes run' :: "('m, 'x, 's) runner" and A :: "(step_type_access \<times> nat) set"
    and env :: "('m, 'x, 's) runtime_env" and L :: "string \<Rightarrow> ('m, 'x, 's) step_body option"
  assumes agree: "json_depth (st_params step) < D \<Longrightarrow> scope s \<in> A \<Longrightarrow>
      run step idx s = run' step idx s"
    and linked: "(a, d) \<in> A \<Longrightarrow> access_resolve a ty = Some key \<Longrightarrow>
      rel_option (same_body d) (rt_linker env (''step_'' @ key)) (L (''step_'' @ key))"
begin

abbreviation "env' \<equiv> env\<lparr>rt_linker := L\<rparr>"

lemma run_inner_agree:
  "\<forall>inner\<in>set inners. json_depth (st_params inner) < D \<Longrightarrow> scope s \<in> A \<Longrightarrow>
    run_inner env run inners idx l s = run_inner env' run' inners idx l s"
proof (induction inners arbitrary: idx l s)
  case (Cons inner rest)
  obtain r t where t: "check_cancelled env (st_id inner) s = (r, t)" by force
  from check_cancelled_keeps(1) [OF t] Cons.prems(2) have at: "scope t \<in> A"
    by (simp add: same_scope)
  have eq: "run inner idx t = run' inner idx t" using Cons.prems(1) at by (simp add: agree)
  have "run_inner env run rest i k u = run_inner env' run' rest i k u" if "run' inner idx t = Ran b u" for i k b u
  proof (rule Cons.IH)
    from that run_keeps [of inner t idx] Cons.prems(1) eq have "kept t u" by auto
    with at show "scope u \<in> A" by (simp add: same_scope)
  qed (use Cons.prems in simp)
  with eq t show ?case by (simp add: Let_def split: sum.split outcome.split)
qed simp

lemma spliced_agree:
  "\<forall>inner\<in>set inners. json_depth (st_params inner) < D \<Longrightarrow> scope s \<in> A \<Longrightarrow>
    run_spliced env run inners s = run_spliced env' run' inners s"
  by (simp add: run_spliced_def run_inner_agree)

lemma nested_agree:
  "json_depth (st_params step) \<le> D \<Longrightarrow> scope s \<in> A \<Longrightarrow>
    run_spliced env run (array_to_steps (json_get (st_params step) k)) s
    = run_spliced env' run' (array_to_steps (json_get (st_params step) k)) s"
  by (rule spliced_agree) (rule nested_shallow)

lemma run_catch_agree:
  "json_depth (st_params step) \<le> D \<Longrightarrow> scope s \<in> A \<Longrightarrow>
    run_catch env run step s = run_catch env' run' step s"
  by (simp add: run_catch_def nested_agree Let_def)

lemma run_finally_agree:
  "json_depth (st_params step) \<le> D \<Longrightarrow> scope s \<in> A \<Longrightarrow>
    run_finally env run step s = run_finally env' run' step s"
  by (simp add: run_finally_def nested_agree Let_def)

lemma continue_agree:
  "keeps s r \<Longrightarrow> scope s \<in> A \<Longrightarrow>
    (\<And>b t. scope t \<in> A \<Longrightarrow> k b t = k' b t) \<Longrightarrow> continue_with r k = continue_with r k'"
  by (cases r) (auto simp: same_scope)

lemma run_try_agree:
  assumes d: "json_depth (st_params step) \<le> D" and s: "scope s \<in> A"
  shows "run_try env run step s = run_try env' run' step s"
proof -
  let ?X = "\<lambda>b t. if b then (Ran True t, None) else run_catch env run step t"
  have rest: "continue_with (fst (?X b t)) (\<lambda>r u. continue_with (run_finally env run step u) (f r))
      = continue_with (fst (?X b t)) (\<lambda>r u. continue_with (run_finally env' run' step u) (f r))"
    if t: "scope t \<in> A" for b t f
  proof (rule continue_agree [OF _ t])
    show "keeps t (fst (?X b t))" by (simp add: run_catch_keeps [OF d])
  qed (simp add: run_finally_agree [OF d])
  show ?thesis
    unfolding run_try_def case_prod_beta nested_agree [OF d s, symmetric]
  proof (rule continue_agree [OF nested_keeps [OF d] s])
    fix b and t :: "('m, 'x, 's) execution_state"
    assume t: "scope t \<in> A"
    have X: "(if b then (Ran True t, None) else run_catch env' run' step t) = ?X b t"
      by (simp add: run_catch_agree [OF d t])
    show "(if es_return_signal t \<noteq> None then Ran True t
        else continue_with (fst (?X b t)) (\<lambda>r u. continue_with (run_finally env run step u) (\<lambda>fo w.
          if \<not> fo then Ran False w
          else if r then Ran True (store_step_result (st_id step) (compose_result (snd (?X b t))
            (snd (run_spliced env run (array_to_steps (json_get (st_params step) ''try'')) s))) w)
          else Ran False w)))
      = (if es_return_signal t \<noteq> None then Ran True t
        else continue_with (fst (if b then (Ran True t, None) else run_catch env' run' step t))
          (\<lambda>r u. continue_with (run_finally env' run' step u) (\<lambda>fo w.
          if \<not> fo then Ran False w
          else if r then Ran True (store_step_result (st_id step)
            (compose_result (snd (if b then (Ran True t, None) else run_catch env' run' step t))
            (snd (run_spliced env run (array_to_steps (json_get (st_params step) ''try'')) s))) w)
          else Ran False w)))"
      unfolding X rest [OF t] by (rule refl)
  qed
qed

lemma run_ifs_agree:
  assumes "json_depth (st_params step) \<le> D" "scope s \<in> A"
  shows "run_ifs env run step s = run_ifs env' run' step s"
proof (cases "Option.bind (json_get (st_params step) ''ifs'') as_array")
  case (Some arr)
  show ?thesis
  proof (cases "choose_branch env s arr")
    case (Inr a)
    with Some assms show ?thesis
      by (simp add: run_ifs_def Let_def spliced_agree [OF chosen_shallow])
  qed (simp add: run_ifs_def Some)
qed (simp add: run_ifs_def)

lemma iterate_agree:
  assumes "\<forall>inner\<in>set inners. json_depth (st_params inner) < D"
  shows "scope s \<in> A \<Longrightarrow>
    iterate n env run inners off ce ue acc s = iterate n env' run' inners off ce ue acc s"
proof (induction n arbitrary: acc s)
  case (Suc n)
  obtain b t where t: "host_next_foreach s = (b, t)" by force
  let ?u = "clear_results (map st_id inners) t"
  have u: "scope ?u \<in> A" using Suc.prems next_scope [OF t] by simp
  note eq = run_inner_agree [OF assms u, of off None]
  have "iterate n env run inners off ce ue a w = iterate n env' run' inners off ce ue a w"
    if "fst (run_inner env' run' inners off None ?u) = Ran b' w" for a b' w
  proof (rule Suc.IH)
    from that run_inner_keeps [OF assms, of ?u env off None] eq have "kept ?u w" by simp
    with u show "scope w \<in> A" by (simp add: same_scope)
  qed
  with eq t show ?case by (cases b) (simp_all split: outcome.split sum.split option.split)
qed simp

lemma run_iteration_agree:
  assumes "json_depth (st_params step) \<le> D" "scope s \<in> A"
  shows "run_iteration env run step idx k s = run_iteration env' run' step idx k s"
proof -
  obtain c t where t: "begin_loop env k idx s = (c, t)" by force
  have "scope (splice_steps inner t) \<in> A" for inner
    using begin_scope [OF t] assms(2) by simp
  note iterate_agree [OF nested_shallow [OF assms(1)] this]
  then show ?thesis by (simp add: run_iteration_def t Let_def)
qed

lemma run_parallel_agree:
  assumes "json_depth (st_params step) \<le> D" "scope s \<in> A"
  shows "run_parallel env run step s = run_parallel env' run' step s"
proof -
  have "branch_slots env run s (branch_steps_of step) = branch_slots env' run' s (branch_steps_of step)"
    using run_inner_agree [OF parallel_shallow [OF assms(1) nth_mem]] assms(2)
    by (auto simp: branch_slots_def run_branch_def in_set_enumerate_eq Let_def)
  then show ?thesis by (simp add: run_parallel_def Let_def)
qed

lemma run_direct_agree:
  assumes "scope s \<in> A"
  shows "run_direct env step idx s = run_direct env' step idx s"
proof (cases "access_resolve (es_step_type_access s) (st_type step)")
  case (Some key)
  with linked assms have "rel_option (same_body (es_invoke_depth s)) (rt_linker env (''step_'' @ key)) (L (''step_'' @ key))"
    by (simp add: scope_def)
  with Some show ?thesis
    by (cases "rt_linker env (''step_'' @ key)"; cases "L (''step_'' @ key)")
      (simp_all add: run_direct_def dispatch_same [of "es_invoke_depth s"])
qed (simp add: run_direct_def)

lemma run_body_of_agree:
  "json_depth (st_params step) \<le> D \<Longrightarrow> scope s \<in> A \<Longrightarrow>
    run_body_of env run step idx s = run_body_of env' run' step idx s"
  using run_direct_agree run_iteration_agree run_ifs_agree run_try_agree run_parallel_agree
  by (simp add: run_body_of_def)

end

lemma run_step_agree:
  assumes linked: "\<And>a d ty key. (a, d) \<in> A \<Longrightarrow> access_resolve a ty = Some key \<Longrightarrow>
    rel_option (same_body d) (rt_linker env (''step_'' @ key)) (L (''step_'' @ key))"
  shows "json_depth (st_params step) < n \<Longrightarrow> n \<le> n' \<Longrightarrow> scope s \<in> A \<Longrightarrow>
    run_step n env step idx s = run_step n' (env\<lparr>rt_linker := L\<rparr>) step idx s"
proof (induction n arbitrary: n' step idx s)
  case (Suc n)
  then obtain k where k: "n' = Suc k" "n \<le> k" by (cases n') simp_all
  have "agreeing_runners (run_step n env) n (run_step k (env\<lparr>rt_linker := L\<rparr>)) A env L"
    by unfold_locales (rule run_step_keeps Suc.IH [OF _ k(2)] linked; assumption)+
  then have "run_body_of env (run_step n env) step idx s
      = run_body_of (env\<lparr>rt_linker := L\<rparr>) (run_step k (env\<lparr>rt_linker := L\<rparr>)) step idx s"
    by (rule agreeing_runners.run_body_of_agree) (use Suc.prems in linarith, rule Suc.prems)
  then show ?case by (simp add: k)
qed simp

interpretation fuelled: agreeing_runners "run_step n env" n "run_step (n + k) env" UNIV env "rt_linker env"
  for n k env
  by unfold_locales (use run_step_agree [where A = UNIV and L = "rt_linker env" and env = env] in \<open>simp_all add: option.rel_refl\<close>)

section \<open>A step returns, and leaves its frame\<close>

lemma run_top_ends: "run_top env step idx s \<noteq> OutOfFuel" "\<not> out_of_fuel (run_top env step idx s)"
  using run_top_keeps [of s env step idx] by (cases "run_top env step idx s"; simp)+

text \<open>
  Running a step always returns: fuel for the nesting of its own parameters is enough, more fuel
  changes nothing, whatever bodies, token and streams do.
\<close>

theorem step_returns:
  "run_top env step idx s \<noteq> OutOfFuel
   \<and> run_step (step_fuel step + k) env step idx s = run_top env step idx s"
proof
  show "run_top env step idx s \<noteq> OutOfFuel" by (rule run_top_ends(1))
  show "run_step (step_fuel step + k) env step idx s = run_top env step idx s"
    using run_step_agree [where A = UNIV and L = "rt_linker env" and env = env and step = step
      and n = "step_fuel step" and n' = "step_fuel step + k" and s = s and idx = idx]
    by (simp add: run_top_def step_fuel_def option.rel_refl)
qed

text \<open>
  C13. A step that ends, well or failed, puts the interpreter's frame back: the inner steps it spliced
  onto the action are gone, the loop stack and the error stack are as they were. Whatever the
  outcome, it has not touched what belongs to the invocation (identity, input, config, secrets,
  depths, kernel, limits, step-type access), and no body's secrets stay in view.
\<close>

theorem step_restores_frame:
  "case run_top env step idx s of
     Ran b t \<Rightarrow> frozen t = frozen s \<and> es_action t = es_action s
       \<and> es_foreach_stack t = es_foreach_stack s \<and> es_error_stack t = es_error_stack s
       \<and> es_body_secrets t \<in> {None, es_body_secrets s}
   | Erred e t \<Rightarrow> frozen t = frozen s \<and> es_body_secrets t \<in> {None, es_body_secrets s}
   | OutOfFuel \<Rightarrow> False"
  using run_top_keeps [of s env step idx]
  by (auto simp: kept_def framed_def split: outcome.split)

section \<open>What try cannot catch\<close>

lemma raise_clean: "raise_violation b s = Ran b' t \<Longrightarrow> escaping_violation t = None"
  by (simp add: raise_violation_def split: option.splits)

lemma run_step_clean: "run_step n env step idx s = Ran b t \<Longrightarrow> escaping_violation t = None"
  by (cases n; cases "run_body_of env (run_step (n - 1) env) step idx s") (auto dest: raise_clean)

lemma run_inner_failed:
  "fst (run_inner env (run_step n env) inners idx l s) = Ran False t \<Longrightarrow>
    \<not> es_cancelled t \<and> escaping_violation t = None"
proof (induction inners arbitrary: idx l s)
  case (Cons inner rest)
  obtain r u where u: "check_cancelled env (st_id inner) s = (r, u)" by force
  show ?case
  proof (cases "run_step n env inner idx u")
    case (Ran b w)
    show ?thesis
    proof (cases b)
      case True
      with Cons Ran u show ?thesis by (auto simp: Let_def split: sum.splits if_splits)
    next
      case False
      with Cons.prems Ran u show ?thesis
        by (auto simp: escape_if_cancelled_def dest: run_step_clean split: sum.splits if_splits)
    qed
  qed (use Cons.prems u in \<open>auto split: sum.splits\<close>)
qed simp

text \<open>
  C14. \<open>try\<close> cannot be used to survive a cancellation or an exhausted result budget: when a body of
  inner steps reports failure (the only way a catch block comes to run), no cancellation was
  reported and no violation that escapes \<open>try\<close> is recorded.
\<close>

theorem try_catches_failures_only:
  assumes "fst (run_spliced env (run_step n env) inners s) = Ran False t"
  shows "\<not> es_cancelled t \<and> escaping_violation t = None"
proof -
  let ?r = "fst (run_inner env (run_step n env) inners (length (es_steps s)) None (splice_steps inners s))"
  from assms have "Runtime.map_outcome (unsplice_steps (length (es_steps s))) ?r = Ran False t"
    by (simp add: run_spliced_def Let_def)
  then obtain u where "?r = Ran False u" "t = unsplice_steps (length (es_steps s)) u"
    by (cases ?r) auto
  with run_inner_failed show ?thesis
    by (fastforce simp: unsplice_steps_def escaping_violation_def)
qed

lemma run_spliced_Nil: "run_spliced env run [] s = (Ran True s, None)"
  by (simp add: run_spliced_def splice_steps_def unsplice_steps_def)

text \<open>
  \<open>catch: []\<close> swallows: a \<open>try\<close> with an empty catch block and no \<open>finally\<close> never fails. It
  succeeds, or an error that ends the invocation unwinds through it.
\<close>

theorem empty_catch_never_fails:
  assumes "json_get (st_params step) ''catch'' = Some (JArray [])"
    and "json_get (st_params step) ''finally'' = None"
  shows "run_try env run step s \<noteq> Ran False t"
proof -
  have "array_to_steps (Some (JArray [])) = []" "array_to_steps None = []"
    by (simp_all add: array_to_steps_def as_array_def map_filter_simps)
  with assms have "fst (run_catch env run step u) = Ran True (clear_failure u)"
    and "run_finally env run step u = Ran True u" for u
    by (simp_all add: run_catch_def run_finally_def Let_def)
  then show ?thesis
    by (cases "fst (run_spliced env run (array_to_steps (json_get (st_params step) ''try'')) s)")
      (auto simp: run_try_def case_prod_beta split: if_splits)
qed

section \<open>An action\<close>

text \<open>What a wave keeps: the budget and the limits always, no violation when it succeeds.\<close>

definition wave_keeps ::
  "('m, 'x, 's) execution_state \<Rightarrow> kernel_error + 'f \<Rightarrow> ('m, 'x, 's) execution_state \<Rightarrow> bool" where
  "wave_keeps s r t \<longleftrightarrow> (budget_ok s \<longrightarrow> budget_ok t) \<and> es_limits t = es_limits s
     \<and> (escaping_violation s = None \<longrightarrow> isl r \<or> escaping_violation t = None)"

lemma wave_keeps_trans:
  "wave_keeps s (Inr x) t \<Longrightarrow> wave_keeps t r u \<Longrightarrow> wave_keeps s r u"
  by (auto simp: wave_keeps_def)

lemma wave_keeps_result: "wave_keeps s (Inr x) t \<Longrightarrow> wave_keeps s r t"
  by (auto simp: wave_keeps_def)

lemma wave_keeps_refl [simp]: "wave_keeps s r s"
  by (simp add: wave_keeps_def)

lemma wave_keeps_outside:
  "es_step_results t = es_step_results s \<Longrightarrow> es_step_results_bytes t = es_step_results_bytes s \<Longrightarrow>
    es_limits t = es_limits s \<Longrightarrow> es_resource_violation t = es_resource_violation s \<Longrightarrow> wave_keeps s r t"
  by (simp add: wave_keeps_def budget_ok_def escaping_violation_def)

lemma check_cancelled_wave: "check_cancelled env i s = (r, t) \<Longrightarrow> wave_keeps s r' t"
  by (rule wave_keeps_outside) (auto simp: check_cancelled_def poll_def)

lemma install_wave: "maybe_install_fanout env plan action idx fanout s = (r, t) \<Longrightarrow> wave_keeps s r' t"
  by (rule wave_keeps_outside)
    (auto simp: maybe_install_fanout_def Let_def split: if_splits option.splits prod.splits)

lemma installs_wave: "install_fanouts env plan action wave fanout s = (r, t) \<Longrightarrow> wave_keeps s r' t"
proof (induction wave arbitrary: fanout s)
  case (Cons idx wave)
  obtain x u where u: "maybe_install_fanout env plan action idx fanout s = (x, u)" by force
  show ?case
  proof (cases x)
    case (Inl e)
    with Cons.prems u install_wave [OF u] show ?thesis by simp
  next
    case (Inr f)
    with Cons.prems u have "install_fanouts env plan action wave f u = (r, t)" by simp
    with Cons.IH install_wave [OF u, of "Inr ()"] show ?thesis by (blast intro: wave_keeps_trans)
  qed
qed simp

lemma run_top_wave:
  "run_top env step idx s = Ran b t \<Longrightarrow> wave_keeps s r t"
  "run_top env step idx s = Erred e t \<Longrightarrow> wave_keeps s (Inl e) t"
  using run_top_keeps [of s env step idx] run_step_clean [of "step_fuel step" env step idx s]
  by (simp_all add: run_top_def wave_keeps_def kept_def frozen_def)

lemma sequential_keeps:
  "\<exists>r t. run_wave_sequential env plan action wave fanout s = Some (r, t) \<and> wave_keeps s r t"
proof (induction wave arbitrary: fanout s)
  case (Cons idx wave)
  let ?step = "act_steps action ! idx"
  obtain r u where u: "check_cancelled env (st_id ?step) s = (r, u)" by force
  let ?u = "u\<lparr>es_fanout_overrides := fanout_overrides plan action idx fanout\<rparr>"
  have "wave_keeps u (Inr ()) ?u" by (rule wave_keeps_outside) simp_all
  with check_cancelled_wave [OF u] have ku: "wave_keeps s r' ?u" for r' :: "kernel_error + fanout"
    by (blast intro: wave_keeps_trans wave_keeps_result)
  show ?case
  proof (cases r)
    case (Inl e)
    with check_cancelled_wave [OF u] u show ?thesis by (auto simp: Let_def)
  next
    case (Inr x)
    show ?thesis
    proof (cases "run_top env ?step idx ?u")
      case (Ran b w)
      obtain f v where v: "maybe_install_fanout env plan action idx fanout w = (f, v)" by force
      have kw: "wave_keeps s r' w" for r' :: "kernel_error + fanout"
        by (rule wave_keeps_trans [OF ku run_top_wave(1) [OF Ran]])
      have kv: "wave_keeps s r' v" for r' :: "kernel_error + fanout"
        by (rule wave_keeps_trans [OF kw install_wave [OF v]])
      show ?thesis
      proof (cases "b \<and> (\<exists>g. f = Inr g \<and> es_return_signal v = None)")
        case True
        then obtain g where g: "f = Inr g" "es_return_signal v = None" b by blast
        from Cons obtain r' t where "run_wave_sequential env plan action wave g v = Some (r', t)"
          "wave_keeps v r' t" by blast
        with wave_keeps_trans [OF kv] g u Inr Ran v show ?thesis by (auto simp: Let_def)
      next
        case False
        with kv kw u Inr Ran v show ?thesis by (cases f) (auto simp: Let_def)
      qed
    next
      case (Erred e w)
      with wave_keeps_trans [OF ku run_top_wave(2) [OF Erred]] u Inr show ?thesis by (simp add: Let_def)
    next
      case OutOfFuel
      with run_top_ends show ?thesis by blast
    qed
  qed
qed simp

lemma merge_task_budget:
  "(budget_ok s \<longrightarrow> budget_ok (merge_task_state task i vars s))
   \<and> es_limits (merge_task_state task i vars s) = es_limits s"
proof -
  define u where "u = (case table_get (es_step_results task) i of
      Some v \<Rightarrow> store_step_result i v s | None \<Rightarrow> s)"
  have u: "kept s u" by (simp add: u_def kept_store split: option.split)
  have "kept u (merge_task_state task i vars s)"
    by (rule kept_update)
      (auto simp: merge_task_state_def Let_def u_def [symmetric] frozen_def split: option.split)
  with u have "kept s (merge_task_state task i vars s)" by (rule kept_trans)
  then show ?thesis by (simp add: kept_def frozen_def)
qed

lemma merge_tasks_budget:
  "fold (merge_wave_task vars) tasks (s, fe) = (t, fe') \<Longrightarrow>
    (budget_ok s \<longrightarrow> budget_ok t) \<and> es_limits t = es_limits s"
proof (induction tasks arbitrary: s fe)
  case (Cons task tasks)
  obtain u fe1 where u: "merge_wave_task vars task (s, fe) = (u, fe1)" by force
  then have "(budget_ok s \<longrightarrow> budget_ok u) \<and> es_limits u = es_limits s"
    using merge_task_budget [of s] by (auto simp: merge_wave_task_def split: prod.splits outcome.splits)
  moreover from Cons.prems u have "fold (merge_wave_task vars) tasks (u, fe1) = (t, fe')" by simp
  ultimately show ?case using Cons.IH by fastforce
qed simp

lemma parallel_keeps:
  "\<exists>r t. run_wave_parallel env plan action wave fanout s = Some (r, t) \<and> wave_keeps s r t"
proof -
  let ?first = "case wave of i # _ \<Rightarrow> st_id (act_steps action ! i) | [] \<Rightarrow> []"
  obtain r u where u: "check_cancelled env ?first s = (r, u)" by force
  let ?tasks = "wave_tasks env plan action wave fanout u"
  have tasks: "\<not> list_ex (\<lambda>(step, outcome). out_of_fuel outcome) ?tasks"
    by (auto simp: wave_tasks_def list_ex_iff Let_def run_top_ends)
  obtain r2 w where w: "check_cancelled env ?first u = (r2, w)" by force
  obtain v fe where v: "fold (merge_wave_task (map fst (es_variables w))) ?tasks (w, None) = (v, fe)" by force
  have kw: "wave_keeps s r' w" for r' :: "kernel_error + fanout"
    by (rule wave_keeps_trans [OF check_cancelled_wave [OF u] check_cancelled_wave [OF w]])
  have bv: "wave_keeps s (Inl e) v" for e :: kernel_error
    using kw [of "Inl e"] merge_tasks_budget [OF v] by (auto simp: wave_keeps_def)
  show ?thesis
  proof (cases "isl r \<or> isl r2 \<or> fe \<noteq> None \<or> escaping_violation v \<noteq> None")
    case True
    with check_cancelled_wave [OF u] kw bv tasks show ?thesis
      by (cases r; cases r2; cases fe) (auto simp: run_wave_parallel_def Let_def u w v)
  next
    case False
    then obtain x y where x: "r = Inr x" "r2 = Inr y" by (cases r; cases r2) auto
    obtain f t where t: "install_fanouts env plan action wave fanout v = (f, t)" by force
    from False bv have "wave_keeps s (Inr ()) v" by (simp add: wave_keeps_def)
    from wave_keeps_trans [OF this installs_wave [OF t]] False tasks x show ?thesis
      by (simp add: run_wave_parallel_def Let_def u w v t)
  qed
qed

lemma waves_keep:
  "\<exists>r t. run_waves env plan action waves fanout s = Some (r, t) \<and> wave_keeps s r t"
proof (induction waves arbitrary: fanout s)
  case (Cons wave waves)
  let ?run = "if length wave > 1 \<and> act_parallel_waves action \<and> \<not> wave_requires_sequential wave action
    then run_wave_parallel env plan action wave fanout s
    else run_wave_sequential env plan action wave fanout s"
  obtain r t where t: "?run = Some (r, t)" "wave_keeps s r t"
    using parallel_keeps sequential_keeps by (metis (full_types))
  show ?case
  proof (cases r)
    case (Inl e)
    with t show ?thesis by (auto simp: wave_keeps_def)
  next
    case (Inr f)
    obtain r' u where u: "run_waves env plan action waves f t = Some (r', u)" "wave_keeps t r' u"
      using Cons by blast
    from t Inr have kt: "wave_keeps s r'' t" for r'' :: "kernel_error + unit" by (auto simp: wave_keeps_def)
    show ?thesis
    proof (cases "es_return_signal t")
      case None
      with t Inr u wave_keeps_trans [OF kt u(2)] show ?thesis by (auto simp: Let_def)
    next
      case (Some v)
      with t Inr kt show ?thesis by (auto simp: Let_def)
    qed
  qed
qed simp

lemma budget_new:
  "rl_max_step_results_bytes (sp_limits p) < usize_bound \<Longrightarrow> budget_ok (execution_state_new p)"
  by (simp add: budget_ok_def execution_state_new_def results_bytes_def)

text \<open>
  C25. Running an action returns: every invocation of the wave scheduler ends in a result or an
  error, for any plan, steps, bodies and token.
\<close>

theorem action_returns: "execute_dag env dataflow drain owns plan p \<noteq> None"
  using waves_keep [of env plan "sp_action p" "dp_waves plan" "[]" "execution_state_new p"]
  by (auto simp: execute_dag_def split: sum.split)


text \<open>
  An exhausted result budget is never reported as success: when the waves of an action complete,
  no violation that escapes \<open>try\<close> is recorded, so no result was silently dropped.
\<close>

theorem success_has_no_violation:
  assumes "run_waves env plan action waves fanout (execution_state_new p) = Some (Inr (), t)"
  shows "escaping_violation t = None"
proof -
  have "escaping_violation (execution_state_new p) = None"
    by (simp add: escaping_violation_def execution_state_new_def)
  with waves_keep [of env plan action waves fanout "execution_state_new p"] assms
  show ?thesis by (auto simp: wave_keeps_def)
qed

text \<open>
  C2. A body a plugin may not use is out of reach, at any nesting: if two linkers agree on the
  kernel's own steps and on what the caller's access admits, every step runs the same under both.
  What is registered behind any other name cannot be observed, let alone run.
\<close>

theorem refused_bodies_unreachable:
  assumes "es_step_type_access s = step_type_access_for r plugin"
    and "\<And>key. key \<in> set reserved_step_type_names
        \<or> (\<exists>ty. admitted r plugin (step_type_access_for r plugin) ty key) \<Longrightarrow>
        L (''step_'' @ key) = rt_linker env (''step_'' @ key)"
  shows "run_top (env\<lparr>rt_linker := L\<rparr>) step idx s = run_top env step idx s"
  unfolding run_top_def
proof (rule run_step_agree [where A = "{step_type_access_for r plugin} \<times> UNIV", symmetric])
  fix a ty key and d :: nat
  assume "(a, d) \<in> {step_type_access_for r plugin} \<times> UNIV" "access_resolve a ty = Some key"
  then have "key \<in> set reserved_step_type_names
      \<or> (\<exists>ty. admitted r plugin (step_type_access_for r plugin) ty key)"
    using resolve_admitted [of r plugin ty key] by auto
  then have "L (''step_'' @ key) = rt_linker env (''step_'' @ key)" by (rule assms(2))
  then show "rel_option (same_body d) (rt_linker env (''step_'' @ key)) (L (''step_'' @ key))"
    by (simp add: option.rel_refl)
qed (simp_all add: step_fuel_def scope_def assms(1))

theorem refused_bodies_unreachable_witness:
  "let s = execution_state_new (small_params 200 [let_step ''a'' JNull]);
       try_it = step_def_new ''t'' ''try'' (JObject [(''catch'', JArray []), (''try'', JArray
         [JObject [(''id'', JString ''x''), (''type'', JString ''wipe'')]])])
   in run_top (small_env\<lparr>rt_linker := (rt_linker small_env)(''step_wipe'' :=
        Some (PluginBody (\<lambda>s p. (Inr (step_output_from JNull), [], ()))))\<rparr>) try_it 0 s
      = run_top small_env try_it 0 s"
proof -
  have none: "\<not> admitted (registry_new :: unit registry) ''app'' (step_type_access_for registry_new ''app'') ty key"
    for ty key
    by (simp add: admitted_def registry_new_def step_type_defs_iter_def step_type_aliases_iter_def)
  have "step_type_access_for (registry_new :: unit registry) ''app'' = step_type_access_default"
    by code_simp
  then have a: "es_step_type_access (execution_state_new (small_params 200 [let_step ''a'' JNull]))
      = step_type_access_for (registry_new :: unit registry) ''app''"
    by (simp add: execution_state_new_def small_params_def)
  show ?thesis
    unfolding Let_def
    by (rule refused_bodies_unreachable [OF a])
      (use none in \<open>auto simp: reserved_step_type_names_def\<close>)
qed

section \<open>The properties at work\<close>

abbreviation "small_state \<equiv> execution_state_new (small_params 200 [])"

lemma thrown_spliced:
  "case fst (run_spliced small_env (run_step 3 small_env) [throw_step ''x''] small_state) of
     Ran b t \<Rightarrow> \<not> b \<and> es_last_error t = Some ''PluginError E'' | _ \<Rightarrow> False"
  by code_simp

theorem try_catches_failures_only_witness:
  "\<exists>t. fst (run_spliced small_env (run_step 3 small_env) [throw_step ''x''] small_state) = Ran False t
     \<and> \<not> es_cancelled t"
proof -
  from thrown_spliced obtain t
    where t: "fst (run_spliced small_env (run_step 3 small_env) [throw_step ''x''] small_state) = Ran False t"
    by (auto split: outcome.splits)
  from try_catches_failures_only [OF t] t show ?thesis by blast
qed

definition swallow_step :: step_def where
  "swallow_step = step_def_new ''t'' ''try'' (JObject
     [(''catch'', JArray []),
      (''try'', JArray
        [JObject [(''id'', JString ''a''), (''params'', JObject [(''value'', JBool True)]), (''type'', JString ''let'')],
         JObject [(''id'', JString ''x''), (''type'', JString ''throw_error'')]])])"

theorem empty_catch_never_fails_witness:
  "run_try small_env (run_step 3 small_env) swallow_step small_state \<noteq> Ran False small_state"
  by (rule empty_catch_never_fails; code_simp)

text \<open>
  Three values of 48 bytes fit a budget of 150. Two do not fit 90: the second step ends
  the action with the violation, although a \<open>try\<close> with an empty catch surrounds it.
\<close>

definition two_results :: "step_def list" where
  "two_results = [let_step ''a'' (JArray [JNull, JNull]),
     step_def_new ''t'' ''try'' (JObject [(''catch'', JArray []), (''try'', JArray
       [JObject [(''id'', JString ''b''), (''params'', JObject [(''value'', JArray [JNull, JNull])]),
          (''type'', JString ''let'')]])])]"

definition small_run :: "nat \<Rightarrow> step_def list \<Rightarrow> ((kernel_error + action_result) \<times> unit) option" where
  "small_run max_bytes todo =
     execute_dag small_env (\<lambda>p q. (Inl (Runtime []), ())) id True
       \<lparr>dp_waves = map (\<lambda>i. [i]) [0..<length todo], dp_deps = map (\<lambda>x. []) todo,
        dp_consumers = map (\<lambda>x. []) todo\<rparr>
       (small_params max_bytes todo)"

lemma two_results_run:
  "case small_run 150 two_results of
     Some (Inr res, _) \<Rightarrow> map fst (re_step_results res) = [''a'', ''b'', ''t''] | _ \<Rightarrow> False"
  "map_option fst (small_run 90 two_results) = Some (Inl (StepResultsLimitExceeded 90 96))"
  by code_simp+


theorem success_has_no_violation_witness:
  "\<exists>t. run_waves small_env \<lparr>dp_waves = [[0]], dp_deps = [[]], dp_consumers = [[]]\<rparr> (action_new [swallow_step])
       [[0]] [] (execution_state_new (small_params 200 [swallow_step])) = Some (Inr (), t)
     \<and> escaping_violation t = None"
proof -
  have "case run_waves small_env \<lparr>dp_waves = [[0]], dp_deps = [[]], dp_consumers = [[]]\<rparr> (action_new [swallow_step])
       [[0]] [] (execution_state_new (small_params 200 [swallow_step])) of
      Some (r, t) \<Rightarrow> r = Inr () | None \<Rightarrow> False" by code_simp
  then obtain t where t: "run_waves small_env \<lparr>dp_waves = [[0]], dp_deps = [[]], dp_consumers = [[]]\<rparr>
      (action_new [swallow_step]) [[0]] [] (execution_state_new (small_params 200 [swallow_step])) = Some (Inr (), t)"
    by (auto split: option.splits)
  with success_has_no_violation [OF t] show ?thesis by blast
qed

end
