(* ===== verification/FlowSpec.thy ===== *)
theory FlowSpec
  imports StepSpec
begin

text \<open>
  What the control-flow steps compute: which branch \<open>ifs\<close> takes, what a collecting loop collects,
  what \<open>parallel\<close> returns and when it fails, that cancellation stops them, and, on small programs,
  where the code and its comments differ.
\<close>

section \<open>ifs\<close>

definition branch_test ::
  "('m, 'x, 's) runtime_env \<Rightarrow> ('m, 'x, 's) execution_state \<Rightarrow> json \<Rightarrow> kernel_error + bool" where
  "branch_test env s branch =
     (case Option.bind (json_get branch ''test'') as_str of
        Some c \<Rightarrow> eval_if_condition env s c | None \<Rightarrow> Inr True)"

definition branch_body :: "json \<Rightarrow> json list" where
  "branch_body branch =
     (case Option.bind (json_get branch ''then'') as_array of Some a \<Rightarrow> a | None \<Rightarrow> [])"

lemma choose_branch_Cons:
  "choose_branch env s (branch # branches) =
     (case branch_test env s branch of
        Inl e \<Rightarrow> Inl e
      | Inr True \<Rightarrow> Inr (branch_body branch)
      | Inr False \<Rightarrow> choose_branch env s branches)"
  unfolding choose_branch.simps branch_test_def [symmetric] branch_body_def [symmetric]
  by (simp add: rbind_def split: sum.split bool.split)

text \<open>
  \<open>ifs\<close> takes the first branch whose test is not false, and no later test is asked: that branch's
  body if the test holds, the error if the test is one. With no such branch the body is empty.
\<close>

theorem ifs_first_match:
  "choose_branch env s branches =
     (case List.find (\<lambda>branch. branch_test env s branch \<noteq> Inr False) branches of
        None \<Rightarrow> Inr []
      | Some branch \<Rightarrow> map_sum id (\<lambda>_. branch_body branch) (branch_test env s branch))"
proof (induction branches)
  case (Cons branch branches)
  then show ?case
    by (cases "branch_test env s branch")
      (simp_all add: choose_branch_Cons del: choose_branch.simps(2) split: bool.split)
qed simp

section \<open>Results that were kept\<close>

lemma store_kept:
  "escaping_violation (store_step_result k v s) = None \<Longrightarrow>
    table_get (es_step_results (store_step_result k v s)) k = Some v"
  by (auto simp: store_step_result_def escaping_violation_def escapes_try_def Let_def table_get_insert
      split: option.splits if_splits)

lemma run_top_body:
  assumes "run_top env step idx s = Ran b t"
  shows "run_body_of env (run_step (json_depth (st_params step)) env) step idx s = Ran b t"
    "escaping_violation t = None"
proof -
  from assms have c: "continue_with (run_body_of env (run_step (json_depth (st_params step)) env) step idx s)
      raise_violation = Ran b t" by (simp add: run_top_def step_fuel_def)
  then show "escaping_violation t = None"
    using run_step_clean [of "step_fuel step" env step idx s] by (simp add: step_fuel_def)
  from c show "run_body_of env (run_step (json_depth (st_params step)) env) step idx s = Ran b t"
    by (cases "run_body_of env (run_step (json_depth (st_params step)) env) step idx s")
      (auto simp: raise_violation_def split: option.splits)
qed

section \<open>parallel\<close>

text \<open>What one branch of a \<open>parallel\<close> leaves: it runs on its own copy of the state.\<close>

definition branch_run ::
  "('m, 'x, 's) runtime_env \<Rightarrow> ('m, 'x, 's) runner \<Rightarrow> ('m, 'x, 's) execution_state \<Rightarrow> nat \<Rightarrow> step_def list \<Rightarrow>
    ('m, 'x, 's) execution_state outcome \<times> json option" where
  "branch_run env run s slot inner =
     run_inner env run inner (length (es_steps s)) None (splice_steps inner (fork slot s))"

definition branch_value_of :: "'a outcome \<times> json option \<Rightarrow> json" where
  "branch_value_of r = (case snd r of Some v \<Rightarrow> v | None \<Rightarrow> JNull)"

primrec succeeded :: "'a outcome \<Rightarrow> bool" where
  "succeeded (Ran b s) = b"
| "succeeded (Erred e s) = False"
| "succeeded OutOfFuel = False"

text \<open>The same, read off what the join receives.\<close>

definition slot_value :: "('m, 'x, 's) branch_outcome option \<Rightarrow> json" where
  "slot_value slot =
     (case slot of Some (_, Some v, _) \<Rightarrow> v | _ \<Rightarrow> JNull)"

definition slot_ok :: "('m, 'x, 's) branch_outcome option \<Rightarrow> bool" where
  "slot_ok slot = (case slot of Some (_, _, good, _) \<Rightarrow> good | None \<Rightarrow> True)"

lemma join_results:
  "pj_results (fold (join_branch ids vars) slots j) = pj_results j @ map slot_value slots"
proof (induction slots arbitrary: j)
  case (Cons slot slots)
  have "pj_results (join_branch ids vars slot j) = pj_results j @ [slot_value slot]"
    by (simp add: join_branch_def slot_value_def split: option.split prod.split)
  with Cons show ?case by simp
qed simp

lemma join_failed:
  "pj_any_failed (fold (join_branch ids vars) slots j) \<longleftrightarrow> pj_any_failed j \<or> \<not> list_all slot_ok slots"
proof (induction slots arbitrary: j)
  case (Cons slot slots)
  have "pj_any_failed (join_branch ids vars slot j) \<longleftrightarrow> pj_any_failed j \<or> \<not> slot_ok slot"
    by (auto simp: join_branch_def slot_ok_def split: option.split prod.split)
  with Cons show ?case by simp
qed simp

definition branch_runs ::
  "('m, 'x, 's) runtime_env \<Rightarrow> ('m, 'x, 's) runner \<Rightarrow> ('m, 'x, 's) execution_state \<Rightarrow> step_def \<Rightarrow>
    (('m, 'x, 's) execution_state outcome \<times> json option) list" where
  "branch_runs env run s step =
     map (\<lambda>(slot, inner). if inner = [] then (Ran True s, None) else branch_run env run s slot inner)
       (enumerate 0 (branch_steps_of step))"

lemma run_branch_slot:
  assumes "run_branch env run s slot inner = Some x"
  shows "slot_value (Some x) = branch_value_of (branch_run env run s slot inner)"
    "slot_ok (Some x) = succeeded (fst (branch_run env run s slot inner))"
  using assms
  by (auto simp: run_branch_def branch_run_def slot_value_def slot_ok_def branch_value_of_def Let_def
      split: prod.splits outcome.splits option.split)

lemma slots_runs:
  assumes "\<not> list_ex (\<lambda>slot. slot = None) (branch_slots env run s (branch_steps_of step))"
  shows "map (slot_value \<circ> the) (branch_slots env run s (branch_steps_of step))
      = map branch_value_of (branch_runs env run s step)"
    "list_all (slot_ok \<circ> the) (branch_slots env run s (branch_steps_of step))
      = list_all (\<lambda>r. succeeded (fst r)) (branch_runs env run s step)"
proof -
  let ?slot = "\<lambda>(slot, inner). if inner = [] then Some None else map_option Some (run_branch env run s slot inner)"
  let ?run = "\<lambda>(slot, inner). if inner = [] then (Ran True s, None) else branch_run env run s slot inner"
  have e: "slot_value (the (?slot p)) = branch_value_of (?run p)" "slot_ok (the (?slot p)) = succeeded (fst (?run p))"
    if "p \<in> set (enumerate 0 (branch_steps_of step))" for p
  proof -
    obtain slot inner where p: "p = (slot, inner)" by (cases p)
    have "?slot p \<noteq> None"
    proof
      assume "?slot p = None"
      with that have "None \<in> set (branch_slots env run s (branch_steps_of step))"
        unfolding branch_slots_def by (metis (no_types, lifting) image_eqI list.set_map)
      with assms show False by (auto simp: list_ex_iff)
    qed
    then show "slot_value (the (?slot p)) = branch_value_of (?run p)" "slot_ok (the (?slot p)) = succeeded (fst (?run p))"
      by (auto simp: p run_branch_slot split: if_splits) (simp_all add: slot_value_def slot_ok_def branch_value_of_def)
  qed
  then show "map (slot_value \<circ> the) (branch_slots env run s (branch_steps_of step))
      = map branch_value_of (branch_runs env run s step)"
    by (simp add: branch_slots_def branch_runs_def)
  from e(2) show "list_all (slot_ok \<circ> the) (branch_slots env run s (branch_steps_of step))
      = list_all (\<lambda>r. succeeded (fst r)) (branch_runs env run s step)"
    by (simp add: branch_slots_def branch_runs_def list_all_iff)
qed


section \<open>Collecting loops\<close>

lemma collect_grows: "collect_value env s e acc = Inr acc' \<Longrightarrow> length (fst acc') = Suc (length (fst acc))"
  by (auto simp: collect_value_def rbind_def Let_def split: sum.splits if_splits)

lemma iterate_collects:
  assumes d: "\<forall>inner\<in>set inners. json_depth (st_params inner) < n"
  shows "es_foreach_stack s = f # rest \<Longrightarrow> fe_index f \<le> items_len (fe_items f) \<Longrightarrow>
    iterate m env (run_step n env) inners off (Some e) None acc s = (Ran True t, vs) \<Longrightarrow>
    es_return_signal t = None \<Longrightarrow> length vs = length (fst acc) + (items_len (fe_items f) - fe_index f)"
proof (induction m arbitrary: s f acc)
  case (Suc m)
  obtain b u where u: "host_next_foreach s = (b, u)" by force
  show ?case
  proof (cases b)
    case True
    from next_foreach_keeps(3) [OF u Suc.prems(1) True] obtain g
      where g: "es_foreach_stack u = g # rest" "fe_items g = fe_items f" "fe_index g = Suc (fe_index f)"
        "fe_index f < items_len (fe_items f)" by blast
    let ?u = "clear_results (map st_id inners) u"
    have k: "keeps ?u (fst (run_inner env (run_step n env) inners off None ?u))"
      using d by (rule stepper.run_inner_keeps)
    from Suc.prems(3,4) u True obtain w acc'
      where w: "fst (run_inner env (run_step n env) inners off None ?u) = Ran True w"
        "collect_value env w e acc = Inr acc'"
        "iterate m env (run_step n env) inners off (Some e) None acc' w = (Ran True t, vs)"
      by (auto split: outcome.splits sum.splits if_splits)
    from k w(1) g(1) have "es_foreach_stack w = g # rest" by (simp add: framed_def clear_results_def)
    from Suc.IH [OF this _ w(3) Suc.prems(4)] g collect_grows [OF w(2)] show ?thesis by simp
  next
    case False
    with Suc.prems u show ?thesis by (auto simp: host_next_foreach_def split: if_splits)
  qed
qed simp

lemma return_signal_outside:
  "es_return_signal (unsplice_steps n s) = es_return_signal s"
  "es_return_signal (store_step_result k v s) = es_return_signal s"
  by (simp_all add: unsplice_steps_def store_step_result_def Let_def split: option.split)

lemma return_signal_end: "es_return_signal (host_end_foreach idx s) = es_return_signal s"
  by (simp add: host_end_foreach_def return_signal_outside split: list.split)

lemma loop_collects:
  assumes begun: "begin_loop env k idx s = (c, push_foreach items s)" "0 \<le> c" "0 < c \<or> items_len items = 0"
    and until: "k = BeginRepeat \<longrightarrow> json_get (st_params step) ''until'' = None"
    and collect: "Option.bind (json_get (st_params step) ''collect'') as_str = Some e"
    and ran: "run_iteration env (run_step (json_depth (st_params step)) env) step idx k s = Ran True t"
      "es_return_signal t = None" "escaping_violation t = None"
  shows "\<exists>vs. table_get (es_step_results t) (st_id step) = Some (JArray vs) \<and> length vs = items_len items"
proof -
  let ?run = "run_step (json_depth (st_params step)) env"
  let ?inners = "array_to_steps (json_get (st_params step) ''steps'')"
  let ?u = "splice_steps ?inners (push_foreach items s)"
  let ?off = "length (es_steps (push_foreach items s))"
  define it where "it = (if 0 < c then iterate (loop_fuel ?u) env ?run ?inners ?off (Some e) None ([], 0) ?u
      else (Ran True ?u, []))"
  have ue: "(if k = BeginRepeat then Option.bind (json_get (st_params step) ''until'') as_str else None) = None"
    using until by simp
  from ran(1) begun(2) have "continue_with (Runtime.map_outcome (unsplice_steps ?off) (fst it))
      (finish_loop step idx True (snd it)) = Ran True t"
    unfolding it_def run_iteration_def begun(1)
    by (simp add: Let_def collect ue case_prod_beta split: if_splits)
  then obtain b w where w: "fst it = Ran b w" "finish_loop step idx True (snd it) b (unsplice_steps ?off w) = Ran True t"
    by (cases "fst it") auto
  from w(2) have t: b "t = store_step_result (st_id step) (JArray (snd it)) (host_end_foreach idx (unsplice_steps ?off w))"
    by (auto simp: finish_loop_def Let_def split: if_splits)
  with ran(2) have none: "es_return_signal w = None" by (simp add: return_signal_outside return_signal_end)
  have "length (snd it) = items_len items"
  proof (cases "0 < c")
    case True
    have "iterate (loop_fuel ?u) env ?run ?inners ?off (Some e) None ([], 0) ?u = (Ran True w, snd it)"
      using True w(1) t(1) by (cases it) (simp add: it_def)
    from iterate_collects [OF nested_shallow [OF order_refl] _ _ this none]
    show ?thesis by (simp add: splice_steps_def push_foreach_def)
  next
    case False
    with begun(3) show ?thesis by (simp add: it_def)
  qed
  moreover have "table_get (es_step_results t) (st_id step) = Some (JArray (snd it))"
    using ran(3) store_kept unfolding t(2) by blast
  ultimately show ?thesis by blast
qed

lemma as_i32_small: "n < 2 ^ 31 \<Longrightarrow> as_i32 n = int n"
  unfolding as_i32_def signed_of_nat by (simp add: signed_take_bit_int_eq_self)


text \<open>
  The same for \<open>repeat\<close> without \<open>until\<close>: a count of \<open>n\<close> that the code accepts makes exactly \<open>n\<close> passes,
  one collected value each.
\<close>

theorem repeat_collects_every_pass:
  assumes "st_type step = ''repeat''" "es_steps s ! idx = step" "idx < length (es_steps s)"
    and "Option.bind (json_get (st_params step) ''collect'') as_str = Some e"
    and "json_get (st_params step) ''until'' = None"
    and "json_get (st_params step) ''count'' = Some raw"
    and "repeat_count (rt_formats env)
          (resolve_value (fm_display (rt_formats env)) raw (resolution_context s)) = Inr n"
    and "run_top env step idx s = Ran True t" "es_return_signal t = None"
  shows "n \<le> i32_max
    \<and> (\<exists>vs. table_get (es_step_results t) (st_id step) = Some (JArray vs) \<and> length vs = n)"
proof -
  have it: "run_iteration env (run_step (json_depth (st_params step)) env) step idx BeginRepeat s = Ran True t"
    using run_top_body(1) [OF assms(8)] assms(1) by (simp add: run_body_of_def)
  have n: "n \<le> i32_max"
  proof (rule ccontr)
    assume "\<not> n \<le> i32_max"
    with assms(2,3,6,7) obtain u where "begin_loop env BeginRepeat idx s = (- 1, u)"
      by (simp add: begin_loop_def host_begin_repeat_def Let_def)
    with it show False by (simp add: run_iteration_def)
  qed
  with assms(2,3,6,7) have "begin_loop env BeginRepeat idx s = (int n, push_foreach (Count n) s)"
    by (simp add: begin_loop_def host_begin_repeat_def Let_def)
  with n it show ?thesis
    using loop_collects [of env BeginRepeat idx s "int n" "Count n" step e t]
      assms(4,5,9) run_top_body(2) [OF assms(8)]
    by (auto simp: items_len_def)
qed

section \<open>Cancellation\<close>

text \<open>
  C24. Once the token has fired nothing more runs: a body of inner steps ends cancelled at its first
  step, and an action ends cancelled at the first step of its next wave, parallel or not, each with
  no change of state but the question asked.
\<close>

theorem cancellation_is_prompt:
  assumes "rt_fired env (es_task s) (es_polls s)"
  shows "fst (run_inner env run (inner # rest) idx last_result s)
      = Erred (Cancelled (st_id inner)) (s\<lparr>es_polls := Suc (es_polls s)\<rparr>)
    \<and> run_waves env plan action ((i # wave) # waves) fanout s
      = Some (Inl (Cancelled (st_id (act_steps action ! i))), s\<lparr>es_polls := Suc (es_polls s)\<rparr>)"
  using assms by (simp_all add: check_cancelled_def poll_def run_wave_parallel_def Let_def)

theorem cancellation_is_prompt_witness:
  "run_waves (small_env\<lparr>rt_fired := (\<lambda>task n. n \<ge> 3)\<rparr>) \<lparr>dp_waves = [[0]], dp_deps = [[]], dp_consumers = [[]]\<rparr>
     (action_new [swallow_step]) [[0]] [] (small_state\<lparr>es_polls := 3\<rparr>)
   = Some (Inl (Cancelled ''t''), small_state\<lparr>es_polls := 4\<rparr>)"
  using cancellation_is_prompt [of "small_env\<lparr>rt_fired := (\<lambda>task n. n \<ge> 3)\<rparr>" "small_state\<lparr>es_polls := 3\<rparr>" _ "let_step ''a'' JNull" "[]" 0 None
      "\<lparr>dp_waves = [[0]], dp_deps = [[]], dp_consumers = [[]]\<rparr>" "action_new [swallow_step]" 0 "[]" "[]" "[]"]
  by (simp add: action_new_def swallow_step_def step_def_new_def)

section \<open>Small programs\<close>

definition inner_let :: "string \<Rightarrow> json \<Rightarrow> (string \<times> json) list \<Rightarrow> json" where
  "inner_let i v extra = JObject ([(''id'', JString i), (''params'', JObject [(''value'', v)])] @ extra
     @ [(''type'', JString ''let'')])"

definition final_state ::
  "((kernel_error + unit) \<times> (unit, unit, unit) execution_state) option \<Rightarrow> (unit, unit, unit) execution_state" where
  "final_state r = snd (the r)"

definition run_small ::
  "bool \<Rightarrow> step_def list \<Rightarrow> nat list list \<Rightarrow> ((kernel_error + unit) \<times> (unit, unit, unit) execution_state) option" where
  "run_small parallel_waves todo waves =
     (let action = (action_new todo)\<lparr>act_parallel_waves := parallel_waves\<rparr> in
      run_waves small_env
        \<lparr>dp_waves = waves, dp_deps = map (\<lambda>x. []) todo, dp_consumers = map (\<lambda>x. []) todo\<rparr> action waves []
        (execution_state_new ((small_params 400 todo)\<lparr>sp_action := action\<rparr>)))"

text \<open>
  The comment on \<open>run_try\<close> says a swallowing \<open>try\<close> composes to null. When a step of the failed body
  had succeeded, the code keeps that step's result.
\<close>

lemma swallow_keeps_try_result:
  "table_get (es_step_results (final_state (run_small False [swallow_step] [[0]]))) ''t'' = Some (JBool True)"
  by code_simp

text \<open>
  The comment says that two things skip \<open>finally\<close>, a \<open>return\<close> and an error that ends the invocation
  (a cancellation, a violation that escapes). A \<open>repeat\<close> whose count is not a number, inside the
  body, also skips both the catch block and \<open>finally\<close>.
\<close>

definition bad_count :: step_def where
  "bad_count = step_def_new ''t'' ''try'' (JObject
     [(''catch'', JArray []), (''finally'', JArray [inner_let ''f'' JNull []]),
      (''try'', JArray [JObject [(''id'', JString ''r''), (''params'', JObject [(''count'', JBool True)]),
         (''type'', JString ''repeat'')]])])"

lemma bad_count_skips_finally:
  "(case run_small False [bad_count] [[0]] of
      Some (Inl (Execution m), t) \<Rightarrow> table_get (es_step_results t) ''f'' = None \<and> table_get (es_step_results t) ''t'' = None
    | _ \<Rightarrow> False)"
  by code_simp

text \<open>
  The counter of the result budget is documented as the running total of the stored results. What a
  loop does between two passes, dropping its inner results, leaves the counter: the second pass over
  a null is charged again, 32 bytes for the 16 held. A long loop ends its action this way although
  it holds one result at a time.
\<close>

lemma loop_overcounts:
  "let s = store_step_result ''x'' JNull (clear_results [''x''] (store_step_result ''x'' JNull small_state))
   in (es_step_results_bytes s, results_bytes (es_step_results s)) = (32, 16)"
  by code_simp

section \<open>Parallel waves\<close>

lemma merge_new_baseline:
  "k \<in> set baseline \<Longrightarrow> table_get (merge_new baseline table_insert entries t) k = table_get t k"
  unfolding merge_new_def by (induction entries arbitrary: t) (auto simp: table_get_insert)

lemma merge_task_variables:
  "k \<in> set baseline \<Longrightarrow>
    table_get (es_variables (merge_task_state task i baseline s)) k = table_get (es_variables s) k"
  by (simp add: merge_task_state_def Let_def merge_new_baseline store_step_result_def
      split: option.split)

lemma store_other:
  "k \<noteq> i \<Longrightarrow> table_get (es_step_results (store_step_result i v s)) k = table_get (es_step_results s) k"
  by (simp add: store_step_result_def Let_def table_get_insert split: option.split)

lemma merge_task_results:
  "k \<noteq> i \<Longrightarrow>
    table_get (es_step_results (merge_task_state task i baseline s)) k = table_get (es_step_results s) k"
  by (simp add: merge_task_state_def Let_def store_other split: option.split)

lemma merge_tasks_outside:
  "(\<forall>k\<in>set baseline. table_get (es_variables (fst (fold (merge_wave_task baseline) tasks acc))) k
      = table_get (es_variables (fst acc)) k)
   \<and> (\<forall>k. k \<notin> (st_id \<circ> fst) ` set tasks \<longrightarrow>
      table_get (es_step_results (fst (fold (merge_wave_task baseline) tasks acc))) k
      = table_get (es_step_results (fst acc)) k)"
proof (induction tasks arbitrary: acc)
  case (Cons task tasks)
  let ?acc = "merge_wave_task baseline task acc"
  have "k \<in> set baseline \<Longrightarrow> table_get (es_variables (fst ?acc)) k = table_get (es_variables (fst acc)) k"
    and "k \<noteq> st_id (fst task) \<Longrightarrow> table_get (es_step_results (fst ?acc)) k = table_get (es_step_results (fst acc)) k"
    for k
    by (auto simp: merge_wave_task_def merge_task_variables merge_task_results
        split: prod.split outcome.split)
  with Cons [of ?acc] show ?case by simp
qed simp

text \<open>
  C22. A parallel wave is closed: whatever its steps do in their own copies, the wave leaves every
  variable that existed before it as it was, and adds results for its own steps only.
\<close>

theorem parallel_wave_closed:
  assumes "run_wave_parallel env plan action wave fanout s = Some (r, t)"
  shows "(table_get (es_variables s) v \<noteq> None \<longrightarrow> table_get (es_variables t) v = table_get (es_variables s) v)
    \<and> (k \<notin> (\<lambda>i. st_id (act_steps action ! i)) ` set wave \<longrightarrow>
        table_get (es_step_results t) k = table_get (es_step_results s) k)"
proof -
  let ?first = "case wave of i # _ \<Rightarrow> st_id (act_steps action ! i) | [] \<Rightarrow> []"
  obtain x u where u: "check_cancelled env ?first s = (x, u)" by force
  obtain y w where w: "check_cancelled env ?first u = (y, w)" by force
  let ?tasks = "wave_tasks env plan action wave fanout u"
  obtain m fe where m: "fold (merge_wave_task (map fst (es_variables w))) ?tasks (w, None) = (m, fe)" by force
  have same: "es_variables u = es_variables s" "es_step_results u = es_step_results s"
    "es_variables w = es_variables s" "es_step_results w = es_step_results s"
    using u w by (auto simp: check_cancelled_def poll_def)
  have ids: "(st_id \<circ> fst) ` set ?tasks = (\<lambda>i. st_id (act_steps action ! i)) ` set wave"
  proof -
    have "map (st_id \<circ> fst) ?tasks = map (\<lambda>i. st_id (act_steps action ! i)) wave"
      by (simp add: wave_tasks_def case_prod_beta Let_def comp_def)
        (metis (mono_tags, lifting) map_eq_conv map_map map_snd_enumerate comp_apply)
    then show ?thesis by (metis list.set_map)
  qed
  have inst: "es_variables q = es_variables p \<and> es_step_results q = es_step_results p"
    if "install_fanouts env plan action wave f p = (z, q)" for f p q z
    using that
  proof (induction wave arbitrary: f p)
    case (Cons i wave)
    obtain z' q' where q': "maybe_install_fanout env plan action i f p = (z', q')" by force
    then have "es_variables q' = es_variables p \<and> es_step_results q' = es_step_results p"
      by (auto simp: maybe_install_fanout_def Let_def split: if_splits option.splits prod.splits)
    with Cons q' show ?case by (cases z') auto
  qed simp
  have "t = u \<or> t = w \<or> t = m \<or> (\<exists>f z. install_fanouts env plan action wave f m = (z, t))"
    using assms by (auto simp: run_wave_parallel_def Let_def u w m split: sum.splits if_splits option.splits)
  then have t: "(es_variables t = es_variables s \<and> es_step_results t = es_step_results s)
      \<or> (es_variables t = es_variables m \<and> es_step_results t = es_step_results m)"
    using inst same by (elim disjE) auto
  have "v \<in> set (map fst (es_variables s))" if "table_get (es_variables s) v \<noteq> None"
    using that by (force simp: table_get_def dest: map_of_SomeD)
  with merge_tasks_outside [of "map fst (es_variables s)" ?tasks "(w, None)"] m same
  have "(table_get (es_variables s) v \<noteq> None \<longrightarrow> table_get (es_variables m) v = table_get (es_variables s) v)
      \<and> (k \<notin> (st_id \<circ> fst) ` set ?tasks \<longrightarrow> table_get (es_step_results m) k = table_get (es_step_results s) k)"
    by (auto simp del: image_comp)
  with t show ?thesis unfolding ids by auto
qed

text \<open>
  The comment on \<open>wave_requires_sequential\<close> says that a variable writer always forces its own wave
  sequential. A writer inside a \<open>try\<close> does not, so its write is one the parallel wave drops.
\<close>

lemma nested_writer_parallel:
  "wave_requires_sequential [0, 1] (action_new
     [step_def_new ''t'' ''try'' (JObject [(''try'', JArray
        [inner_let ''b'' (JBool True) [(''storeToVariable'', JString ''v'')]])]),
      let_step ''c'' JNull]) = False"
  by code_simp

section \<open>The properties at work\<close>

definition two_branches :: step_def where
  "two_branches = step_def_new ''p'' ''parallel'' (JObject [(''branches'', JArray
     [JArray [inner_let ''a'' (JBool True) []], JArray []])])"

lemma two_branches_run:
  "case run_top small_env two_branches 0 small_state of Ran b t \<Rightarrow> b | _ \<Rightarrow> False"
  by code_simp


definition each_item :: step_def where
  "each_item = step_def_new ''l'' ''for_each'' (JObject [(''collect'', JString ''$item''), (''path'', JString ''$input''),
     (''steps'', JArray [])])"

definition item_state :: "(unit, unit, unit) execution_state" where
  "item_state = (execution_state_new (small_params 200 [each_item]))\<lparr>es_input := JArray [JNull, JNull]\<rparr>"

lemma each_item_run:
  "case run_top small_env each_item 0 item_state of
     Ran b t \<Rightarrow> b \<and> es_return_signal t = None | _ \<Rightarrow> False"
  by code_simp


definition each_pass :: step_def where
  "each_pass = step_def_new ''l'' ''repeat'' (JObject [(''collect'', JString ''$item''),
     (''count'', JNumber (PosInt 2)), (''steps'', JArray [])])"

definition pass_state :: "(unit, unit, unit) execution_state" where
  "pass_state = execution_state_new (small_params 200 [each_pass])"

lemma each_pass_run:
  "case run_top small_env each_pass 0 pass_state of
     Ran b t \<Rightarrow> b \<and> es_return_signal t = None | _ \<Rightarrow> False"
  by code_simp

theorem repeat_collects_every_pass_witness:
  "\<exists>t vs. run_top small_env each_pass 0 pass_state = Ran True t
     \<and> table_get (es_step_results t) ''l'' = Some (JArray vs) \<and> length vs = 2"
proof -
  from each_pass_run obtain t where t: "run_top small_env each_pass 0 pass_state = Ran True t"
    "es_return_signal t = None"
    by (auto split: outcome.splits)
  have "st_type each_pass = ''repeat''" "es_steps pass_state ! 0 = each_pass" "0 < length (es_steps pass_state)"
    by (simp_all add: each_pass_def step_def_new_def pass_state_def execution_state_new_def small_params_def
        action_new_def)
  moreover have "Option.bind (json_get (st_params each_pass) ''collect'') as_str = Some ''$item''"
    "json_get (st_params each_pass) ''until'' = None"
    "json_get (st_params each_pass) ''count'' = Some (JNumber (PosInt 2))"
    "repeat_count (rt_formats small_env) (resolve_value (fm_display (rt_formats small_env))
       (JNumber (PosInt 2)) (resolution_context pass_state)) = Inr 2"
    by code_simp+
  ultimately have "2 \<le> i32_max \<and> (\<exists>vs. table_get (es_step_results t) (st_id each_pass) = Some (JArray vs)
      \<and> length vs = 2)"
    by (rule repeat_collects_every_pass [OF _ _ _ _ _ _ _ t])
  with t show ?thesis by (auto simp: each_pass_def step_def_new_def)
qed

theorem parallel_wave_closed_witness:
  "\<exists>r t. run_wave_parallel small_env \<lparr>dp_waves = [[0, 1]], dp_deps = [[], []], dp_consumers = [[], []]\<rparr>
       (action_new [let_step ''a'' JNull, let_step ''b'' JNull]) [0, 1] []
       (small_state\<lparr>es_variables := [(''v'', JBool False)]\<rparr>) = Some (r, t)
     \<and> table_get (es_variables t) ''v'' = Some (JBool False)"
proof -
  obtain r t where t: "run_wave_parallel small_env \<lparr>dp_waves = [[0, 1]], dp_deps = [[], []], dp_consumers = [[], []]\<rparr>
       (action_new [let_step ''a'' JNull, let_step ''b'' JNull]) [0, 1] []
       (small_state\<lparr>es_variables := [(''v'', JBool False)]\<rparr>) = Some (r, t)"
    using parallel_keeps by blast
  with parallel_wave_closed [OF t, of "''v''" "[]"] show ?thesis by (simp add: table_get_def)
qed

end
