(* ===== verification/Invocation.thy ===== *)
theory Invocation
  imports Runtime
begin

text \<open>
  From a step to another plugin's action: the entry points of \<open>Kernel\<close> in \<open>src/kernel/mod.rs\<close>, the \<open>run\<close>
  terminal of \<open>src/kernel/execute_request.rs\<close>, and the \<open>invoke\<close> and alias steps of
  \<open>src/kernel/host_api.rs\<close>. The bodies that call back into the kernel take the call as an argument;
  \<open>execute_invoked\<close> ties the knot, its fuel bounding the chain of callers. The watchdogs are part of
  the token; the backstop that drops a future past its deadline is not modelled.
\<close>

section \<open>Orchestration\<close>

definition invoke_max_depth :: nat where "invoke_max_depth = 16"

definition dispatch_max_depth :: nat where "dispatch_max_depth = 16"

definition grant_hint :: string where
  "grant_hint = '' permission (add it to the manifest's `permissions` list)''"

definition refusal_text :: "refusal \<Rightarrow> string" where
  "refusal_text r =
     (case r of
        LacksGrant caller requested \<Rightarrow>
          ''plugin '' @ ticked caller @ '' lacks '' @ requested @ grant_hint
      | OffChain caller target \<Rightarrow>
          ''plugin '' @ ticked caller @ '' may not dispatch to '' @ ticked target
          @ '': a plugin may only dispatch within its own namespace or into one enclosing it, never ''
          @ ''into a sibling or a descendant, and no permission grants passage otherwise''
      | LacksInvoke caller target redirect \<Rightarrow>
          ''plugin '' @ ticked caller @ '' lacks invoke:plugin:'' @ target @ '' permission''
          @ (case redirect of
               NoRedirect \<Rightarrow> []
             | PluginRedirect plugin resolved \<Rightarrow>
                 '' (the dispatch orchestrator resolved the request for '' @ ticked plugin @ '' to ''
                 @ ticked resolved @ '')''
             | RoleRedirect role resolved \<Rightarrow>
                 '' (role '' @ ticked role @ '' resolved to '' @ ticked resolved @ '')'')
          @ '' (add it to the manifest's `permissions` list)'')"

definition prepare_dispatch_via_orchestrator ::
  "('m, 'x) kernel \<Rightarrow> dispatch_request \<Rightarrow> 'x \<Rightarrow> string option \<Rightarrow> json \<Rightarrow> kernel_error + dispatch_plan" where
  "prepare_dispatch_via_orchestrator k request exec_ctx caller_plugin caller_config =
     (let candidates = (case request of
            ByRole role _ _ _ \<Rightarrow> role_candidates (kn_registry k) caller_plugin role | _ \<Rightarrow> []);
          ctx = \<lparr>dc_registry = kn_registry k, dc_exec_ctx = exec_ctx, dc_caller_plugin = caller_plugin,
                 dc_caller_config = caller_config, dc_role_candidates = candidates\<rparr>
      in case kn_orchestrator k request ctx of
           Inr plan \<Rightarrow> Inr plan
         | Inl (RoleUnbound m) \<Rightarrow> Inl (NotFound m)
         | Inl (SelectionFailed m) \<Rightarrow> Inl (Execution m)
         | Inl (ConfigResolutionFailed m) \<Rightarrow> Inl (Execution m))"

definition pull_secrets ::
  "('m, 'x) kernel \<Rightarrow> string \<Rightarrow> 'x secret_resolver option \<Rightarrow> 'x \<Rightarrow> kernel_error + json" where
  "pull_secrets k plugin_name resolver exec_ctx =
     (case resolver of
        None \<Rightarrow> Inr JNull
      | Some resolver \<Rightarrow>
          (case get_manifest (kn_registry k) plugin_name of
             Some m \<Rightarrow> pull resolver plugin_name plugin_name (declared_secret_keys m)
                         (overridable_secret_keys m) exec_ctx
           | None \<Rightarrow> pull resolver plugin_name plugin_name [] [] exec_ctx))"

section \<open>Wallclock bounds\<close>

text \<open>Durations and instants in milliseconds; \<open>now\<close> is the instant of the call.\<close>

definition effective_wallclock_timeout :: "runtime_limits \<Rightarrow> action \<Rightarrow> nat option" where
  "effective_wallclock_timeout limits a =
     (let requested =
        (case act_wallclock_timeout_ms a of
           Some ms \<Rightarrow> Some (unat ms)
         | None \<Rightarrow> if act_dataflow a then None else Some (rl_default_wallclock_ms limits))
      in case (requested, rl_max_wallclock_ms limits) of
           (_, None) \<Rightarrow> requested
         | (None, Some cap) \<Rightarrow> Some cap
         | (Some asked, Some cap) \<Rightarrow> Some (min asked cap))"

record wallclock_cap =
  wc_deadline :: nat
  wc_timeout_ms :: nat

definition cap_after :: "nat \<Rightarrow> nat \<Rightarrow> wallclock_cap" where
  "cap_after now timeout = \<lparr>wc_deadline = now + timeout, wc_timeout_ms = timeout\<rparr>"

definition cap_ending_at :: "nat \<Rightarrow> nat \<Rightarrow> wallclock_cap" where
  "cap_ending_at now deadline = \<lparr>wc_deadline = deadline, wc_timeout_ms = deadline - now\<rparr>"

definition wallclock_cap_of :: "nat \<Rightarrow> runtime_limits \<Rightarrow> action \<Rightarrow> wallclock_cap option" where
  "wallclock_cap_of now limits a = map_option (cap_after now) (effective_wallclock_timeout limits a)"

datatype callee_cap = OwnCap wallclock_cap | InheritedCap wallclock_cap | Uncapped

definition callee_deadline :: "callee_cap \<Rightarrow> nat option" where
  "callee_deadline c =
     (case c of OwnCap cap \<Rightarrow> Some (wc_deadline cap) | InheritedCap cap \<Rightarrow> Some (wc_deadline cap) | Uncapped \<Rightarrow> None)"

definition callee_wallclock :: "nat \<Rightarrow> runtime_limits \<Rightarrow> action \<Rightarrow> nat option \<Rightarrow> callee_cap" where
  "callee_wallclock now limits a caller_deadline =
     (case caller_deadline of
        None \<Rightarrow>
          (case wallclock_cap_of now limits a of Some cap \<Rightarrow> OwnCap cap | None \<Rightarrow> Uncapped)
      | Some deadline \<Rightarrow>
          (case map_option (\<lambda>ms. cap_after now (unat ms)) (act_wallclock_timeout_ms a) of
             Some own \<Rightarrow>
               if wc_deadline own \<le> deadline then OwnCap own else InheritedCap (cap_ending_at now deadline)
           | None \<Rightarrow> InheritedCap (cap_ending_at now deadline)))"

section \<open>Running an action for a caller\<close>

text \<open>
  What a call carries. \<open>ca_task\<close> places the caller's task at the moment of the call, so that the
  callee's token is a child of the caller's.
\<close>

record 'x call =
  ca_plugin :: string
  ca_action :: string
  ca_input :: json
  ca_config :: json
  ca_secret_resolver :: "'x secret_resolver option"
  ca_exec_ctx :: 'x
  ca_depth :: nat
  ca_task :: "nat list"

type_synonym ('m, 'x) execute = "('m, 'x) kernel \<Rightarrow> 'x call \<Rightarrow> kernel_error + action_result"

definition no_action :: "string \<Rightarrow> string \<Rightarrow> kernel_error" where
  "no_action plugin_name action_name =
     NotFound (''No action '' @ ticked action_name @ '' on plugin '' @ ticked plugin_name)"

definition callee_params ::
  "('m, 'x) kernel \<Rightarrow> 's \<Rightarrow> 'x call \<Rightarrow> action \<Rightarrow> json \<Rightarrow> ('m, 'x, 's) state_params" where
  "callee_params k streams c a secrets =
     \<lparr>sp_plugin_name = ca_plugin c, sp_action = a, sp_input = ca_input c, sp_config = ca_config c,
      sp_secrets = secrets, sp_exec_ctx = ca_exec_ctx c, sp_streams = streams,
      sp_invoke_depth = ca_depth c + 1, sp_dispatch_depth = 0, sp_kernel = Some k, sp_trigger = None,
      sp_limits = kn_limits k,
      sp_step_type_access = step_type_access_for (kn_registry k) (ca_plugin c),
      sp_secret_resolver = ca_secret_resolver c\<rparr>"

definition execute_action_invoked ::
  "'s \<Rightarrow> (dag_plan \<Rightarrow> ('m, 'x, 's) state_params \<Rightarrow> kernel_error + action_result) \<Rightarrow>
    ('m, 'x) kernel \<Rightarrow> 'x call \<Rightarrow> kernel_error + action_result" where
  "execute_action_invoked streams run k c =
     (case get_action (kn_registry k) (ca_plugin c) (ca_action c) of
        None \<Rightarrow> Inl (no_action (ca_plugin c) (ca_action c))
      | Some registration \<Rightarrow>
          rbind (pull_secrets k (ca_plugin c) (ca_secret_resolver c) (ca_exec_ctx c)) (\<lambda>secrets.
            run (ar_plan registration) (callee_params k streams c (ar_action registration) secrets)))"

text \<open>The call a body makes from its state.\<close>

definition call_from :: "('m, 'x, 's) execution_state \<Rightarrow> dispatch_plan \<Rightarrow> json \<Rightarrow> 'x call" where
  "call_from s plan input =
     \<lparr>ca_plugin = pl_plugin plan, ca_action = pl_action plan, ca_input = input,
      ca_config = pl_config plan, ca_secret_resolver = es_secret_resolver s,
      ca_exec_ctx = es_exec_ctx s, ca_depth = es_invoke_depth s, ca_task = es_polls s # es_task s\<rparr>"

definition finish_call ::
  "('m, 'x) execute \<Rightarrow> ('m, 'x) kernel \<Rightarrow> 'x call \<Rightarrow> step_error + step_output" where
  "finish_call execute k c =
     (case execute k c of
        Inr result \<Rightarrow> Inr (step_output_from (re_output result))
      | Inl e \<Rightarrow> Inl (from_callee (ca_plugin c) (ca_action c) e))"

section \<open>The invoke and alias steps\<close>

definition current_step :: "('m, 'x, 's) execution_state \<Rightarrow> step_def option" where
  "current_step s =
     (case es_current_step_idx s of
        Some idx \<Rightarrow> if idx < length (es_steps s) then Some (es_steps s ! idx) else None
      | None \<Rightarrow> None)"

definition current_step_id :: "('m, 'x, 's) execution_state \<Rightarrow> string" where
  "current_step_id s = (case current_step s of Some step \<Rightarrow> st_id step | None \<Rightarrow> [])"

definition current_step_type :: "('m, 'x, 's) execution_state \<Rightarrow> string" where
  "current_step_type s = (case current_step s of Some step \<Rightarrow> st_type step | None \<Rightarrow> [])"

definition cap_text :: "string \<Rightarrow> string \<Rightarrow> string" where
  "cap_text where_at step_id =
     ''invoke recursion cap ('' @ decimal invoke_max_depth @ '') exceeded at '' @ where_at @ ticked step_id"

text \<open>The target as written, resolved: exactly one of \<open>plugin\<close> and \<open>role\<close>, and an \<open>action\<close>.\<close>

definition resolve_field :: "('pe, 'ne) formats \<Rightarrow> json \<Rightarrow> json \<Rightarrow> string \<Rightarrow> string option" where
  "resolve_field fm params ctx key =
     Option.bind (json_get params key) (\<lambda>raw. as_str (resolve_value (fm_display fm) raw ctx))"

definition param_or_null :: "json \<Rightarrow> string \<Rightarrow> json" where
  "param_or_null params key = (case json_get params key of Some v \<Rightarrow> v | None \<Rightarrow> JNull)"

definition named_target ::
  "('pe, 'ne) formats \<Rightarrow> string \<Rightarrow> json \<Rightarrow> json \<Rightarrow> string + (string + string) \<times> string" where
  "named_target fm step_id params ctx =
     (case resolve_field fm params ctx ''action'' of
        None \<Rightarrow> Inl (''invoke step '' @ ticked step_id @ '' missing required `action`'')
      | Some action_name \<Rightarrow>
          (case (resolve_field fm params ctx ''plugin'', resolve_field fm params ctx ''role'') of
             (Some _, Some _) \<Rightarrow>
               Inl (''invoke step '' @ ticked step_id @ '' specifies both `plugin` and `role`; use exactly one'')
           | (None, None) \<Rightarrow>
               Inl (''invoke step '' @ ticked step_id @ '' specifies neither `plugin` nor `role`'')
           | (Some p, None) \<Rightarrow> Inr (Inl p, action_name)
           | (None, Some r) \<Rightarrow> Inr (Inr r, action_name)))"

definition invoke_request ::
  "(name_error \<Rightarrow> string) \<Rightarrow> 'm registry \<Rightarrow> string \<Rightarrow> string \<Rightarrow> (string + string) \<times> string \<Rightarrow> json \<Rightarrow> json \<Rightarrow>
    string + dispatch_request" where
  "invoke_request show_name_error r caller_plugin step_id target input hints =
     (case target of
        (Inl raw, action_name) \<Rightarrow>
          (case resolve_plugin_reference r caller_plugin raw of
             Inl e \<Rightarrow> Inl (''invoke step '' @ ticked step_id @ '': '' @ show_name_error e)
           | Inr p \<Rightarrow> Inr (ByPlugin p action_name input hints))
      | (Inr role, action_name) \<Rightarrow> Inr (ByRole role action_name input hints))"

text \<open>The gate, the orchestrator, and the gate again on what it chose.\<close>

definition invoke_plan ::
  "('m, 'x) kernel \<Rightarrow> ('m, 'x, 's) execution_state \<Rightarrow> string \<Rightarrow> dispatch_request \<Rightarrow> string + dispatch_plan" where
  "invoke_plan k s step_id request =
     (case check_invoke_grant (kn_registry k) (es_plugin_name s) request of
        Inl reason \<Rightarrow> Inl (''invoke step '' @ ticked step_id @ '': '' @ refusal_text reason)
      | Inr _ \<Rightarrow>
          (case prepare_dispatch_via_orchestrator k request (es_exec_ctx s) (Some (es_plugin_name s)) (es_config s) of
             Inl (NotFound m) \<Rightarrow>
               Inl (case request of
                      ByRole role _ _ _ \<Rightarrow>
                        ''invoke step '' @ ticked step_id @ '' role '' @ ticked role @ '' has no registered plugin''
                    | _ \<Rightarrow> ''invoke step '' @ ticked step_id @ '': '' @ m)
           | Inl e \<Rightarrow> Inl (''invoke step '' @ ticked step_id @ '' dispatch policy: '' @ kernel_error_text e)
           | Inr plan \<Rightarrow>
               (case authorize_resolved_dispatch (kn_registry k) (es_plugin_name s) request plan None of
                  Inl reason \<Rightarrow> Inl (''invoke step '' @ ticked step_id @ '': '' @ refusal_text reason)
                | Inr _ \<Rightarrow> Inr plan)))"

definition step_invoke ::
  "(parse_fault, name_error) formats \<Rightarrow> ('m, 'x) execute \<Rightarrow> ('m, 'x, 's) execution_state \<Rightarrow> json \<Rightarrow>
    step_error + step_output" where
  "step_invoke fm execute s params =
     (let step_id = current_step_id s in
      if es_invoke_depth s \<ge> invoke_max_depth then Inl (Failed (cap_text ''step '' step_id))
      else case es_kernel s of
        None \<Rightarrow>
          Inl (Failed (''invoke step requires a kernel constructed via Kernel::into_arc; ''
            @ ''this kernel was never wrapped''))
      | Some k \<Rightarrow>
          let ctx = resolution_context s in
          case named_target fm step_id params ctx of
            Inl m \<Rightarrow> Inl (Failed m)
          | Inr target \<Rightarrow>
              let input = resolve_value (fm_display fm) (param_or_null params ''input'') ctx;
                  hints = resolve_value (fm_display fm) (param_or_null params ''hints'') ctx
              in case invoke_request (fm_name_error fm) (kn_registry k) (es_plugin_name s) step_id target input hints of
                   Inl m \<Rightarrow> Inl (Failed m)
                 | Inr request \<Rightarrow>
                     (case invoke_plan k s step_id request of
                        Inl m \<Rightarrow> Inl (Failed m)
                      | Inr plan \<Rightarrow> finish_call execute k (call_from s plan input)))"

definition step_alias_dispatch ::
  "(parse_fault, name_error) formats \<Rightarrow> ('m, 'x) execute \<Rightarrow> ('m, 'x, 's) execution_state \<Rightarrow> json \<Rightarrow>
    step_error + step_output" where
  "step_alias_dispatch fm execute s params =
     (let step_id = current_step_id s in
      if es_invoke_depth s \<ge> invoke_max_depth then Inl (Failed (cap_text ''alias step '' step_id))
      else case es_kernel s of
        None \<Rightarrow>
          Inl (Failed (''alias step '' @ ticked step_id @ '' requires a kernel constructed via ''
            @ ''Kernel::into_arc; this kernel was never wrapped''))
      | Some k \<Rightarrow>
          let step_type = current_step_type s;
              unknown = ''alias step '' @ ticked step_id @ '' resolves to unknown step type '' @ ticked step_type;
              this_step = ''alias step '' @ ticked step_id
          in case access_resolve (es_step_type_access s) step_type of
               None \<Rightarrow> Inl (Failed unknown)
             | Some key \<Rightarrow>
                 (case step_type_alias_candidates (kn_registry k) key of
                    [] \<Rightarrow> Inl (Failed unknown)
                  | (plugin_name, action_name) # _ \<Rightarrow>
                      let input = resolve_value (fm_display fm) params (resolution_context s);
                          caller = es_plugin_name s;
                          request = ByPlugin plugin_name action_name input JNull
                      in if plugin_name \<noteq> caller
                            \<and> \<not> is_granted (check_step_type (permissions_for (kn_registry k) caller) step_type)
                         then Inl (Failed (this_step @ '': plugin '' @ ticked caller @ '' lacks step_type:''
                                @ step_type @ grant_hint))
                         else
                           case prepare_dispatch_via_orchestrator k request (es_exec_ctx s) (Some caller) (es_config s) of
                             Inl e \<Rightarrow>
                               Inl (Failed (this_step @ '' ('' @ ticked step_type @ '') dispatch policy: ''
                                 @ kernel_error_text e))
                           | Inr plan \<Rightarrow>
                               (case authorize_resolved_dispatch (kn_registry k) caller request plan (Some plugin_name) of
                                  Inl reason \<Rightarrow>
                                    Inl (Failed (this_step @ '' ('' @ ticked step_type @ ''): '' @ refusal_text reason))
                                | Inr _ \<Rightarrow> finish_call execute k (call_from s plan input))))"

text \<open>\<open>dispatch_role\<close>, the seam for native bodies. It answers with the kernel's error, not a step's.\<close>

definition dispatch_role_inner ::
  "('m, 'x) execute \<Rightarrow> ('m, 'x) kernel \<Rightarrow> string \<Rightarrow> string \<Rightarrow> json \<Rightarrow> json \<Rightarrow> ('m, 'x, 's) execution_state \<Rightarrow>
    kernel_error + action_result" where
  "dispatch_role_inner execute k role action_name input hints s =
     (let request = ByRole role action_name input hints;
          caller = es_plugin_name s
      in case check_invoke_grant (kn_registry k) caller request of
           Inl reason \<Rightarrow> Inl (Validation (refusal_text reason))
         | Inr _ \<Rightarrow>
             if es_invoke_depth s \<ge> invoke_max_depth then
               Inl (Validation (''invoke recursion cap ('' @ decimal invoke_max_depth @ '') exceeded: ''
                 @ ticked caller @ '' dispatching role '' @ ticked role))
             else
               rbind (prepare_dispatch_via_orchestrator k request (es_exec_ctx s) (Some caller) (es_config s)) (\<lambda>plan.
                 case authorize_resolved_dispatch (kn_registry k) caller request plan None of
                   Inl reason \<Rightarrow> Inl (Validation (refusal_text reason))
                 | Inr _ \<Rightarrow> execute k (call_from s plan input)))"

section \<open>Entry points of the embedder\<close>

text \<open>\<open>wrapped\<close> is the back-reference, which only a kernel turned into an \<open>Arc\<close> has.\<close>

definition top_params ::
  "('m, 'x) kernel \<Rightarrow> bool \<Rightarrow> 's \<Rightarrow> string \<Rightarrow> action \<Rightarrow> json \<Rightarrow> json \<Rightarrow> json \<Rightarrow> 'x \<Rightarrow> ('m, 'x, 's) state_params" where
  "top_params k wrapped streams plugin_name a input config secrets exec_ctx =
     \<lparr>sp_plugin_name = plugin_name, sp_action = a, sp_input = input, sp_config = config,
      sp_secrets = secrets, sp_exec_ctx = exec_ctx, sp_streams = streams, sp_invoke_depth = 0,
      sp_dispatch_depth = 0, sp_kernel = (if wrapped then Some k else None), sp_trigger = None,
      sp_limits = kn_limits k, sp_step_type_access = step_type_access_for (kn_registry k) plugin_name,
      sp_secret_resolver = kn_secret_resolver k\<rparr>"

text \<open>The \<open>run\<close> terminal of a request.\<close>

definition execute_run ::
  "(dag_plan \<Rightarrow> ('m, 'x, 's) state_params \<Rightarrow> kernel_error + action_result) \<Rightarrow> ('m, 'x) kernel \<Rightarrow> bool \<Rightarrow> 's \<Rightarrow>
    string \<Rightarrow> string \<Rightarrow> json \<Rightarrow> json \<Rightarrow> 'x \<Rightarrow> kernel_error + action_result" where
  "execute_run run k wrapped streams plugin_name action_name input config exec_ctx =
     (case get_action (kn_registry k) plugin_name action_name of
        None \<Rightarrow> Inl (no_action plugin_name action_name)
      | Some registration \<Rightarrow>
          rbind (pull_secrets k plugin_name (kn_secret_resolver k) exec_ctx) (\<lambda>secrets.
            run (ar_plan registration)
              (top_params k wrapped streams plugin_name (ar_action registration) input config secrets exec_ctx)))"

definition execute_by_role ::
  "(string \<Rightarrow> string \<Rightarrow> kernel_error + action_result) \<Rightarrow> ('m, 'x) kernel \<Rightarrow> string \<Rightarrow> string \<Rightarrow>
    kernel_error + action_result" where
  "execute_by_role execute k role action_name =
     (case role_candidates (kn_registry k) None role of
        [] \<Rightarrow> Inl (NotFound (''No plugin registered for role '' @ ticked role))
      | plugin_name # _ \<Rightarrow> execute plugin_name action_name)"

definition execute_action_event_dispatched ::
  "(dag_plan \<Rightarrow> ('m, 'x, 's) state_params \<Rightarrow> kernel_error + action_result) \<Rightarrow> ('m, 'x) kernel \<Rightarrow> bool \<Rightarrow> 's \<Rightarrow>
    dispatch_plan \<Rightarrow> json \<Rightarrow> 'x \<Rightarrow> nat \<Rightarrow> kernel_error + action_result" where
  "execute_action_event_dispatched run k wrapped streams plan trigger exec_ctx parent_dispatch_depth =
     (case get_action (kn_registry k) (pl_plugin plan) (pl_action plan) of
        None \<Rightarrow> Inl (no_action (pl_plugin plan) (pl_action plan))
      | Some registration \<Rightarrow>
          rbind (pull_secrets k (pl_plugin plan) (kn_secret_resolver k) exec_ctx) (\<lambda>secrets.
            run (ar_plan registration)
              ((top_params k wrapped streams (pl_plugin plan) (ar_action registration) JNull (pl_config plan)
                  secrets exec_ctx)
                \<lparr>sp_dispatch_depth := parent_dispatch_depth + 1, sp_trigger := Some trigger\<rparr>)))"

record dispatched_action_result =
  da_plugin :: string
  da_action :: string
  da_result :: "kernel_error + action_result"

definition dispatch_event ::
  "(dag_plan \<Rightarrow> ('m, 'x, 's) state_params \<Rightarrow> kernel_error + action_result) \<Rightarrow> ('m, 'x) kernel \<Rightarrow> bool \<Rightarrow> 's \<Rightarrow>
    string \<Rightarrow> json \<Rightarrow> json \<Rightarrow> 'x \<Rightarrow> nat \<Rightarrow> dispatched_action_result list" where
  "dispatch_event run k wrapped streams event_type payload config exec_ctx parent_dispatch_depth =
     (if parent_dispatch_depth \<ge> dispatch_max_depth then []
      else
        map (\<lambda>(plugin_name, action_name).
            \<lparr>da_plugin = plugin_name, da_action = action_name,
             da_result = rbind
               (prepare_dispatch_via_orchestrator k (ByPlugin plugin_name action_name payload JNull)
                  exec_ctx None config)
               (\<lambda>plan. execute_action_event_dispatched run k wrapped streams plan payload exec_ctx
                  parent_dispatch_depth)\<rparr>)
          (subscribers_for (kn_registry k) event_type))"

text \<open>
  The checks before a streaming callee is spawned: the one step whose output becomes the caller's
  stream. \<open>join_with\<close> is \<open>join\<close> of the step ids.
\<close>

fun long_running_ids :: "dag_plan \<Rightarrow> nat \<Rightarrow> step_def list \<Rightarrow> string + string list" where
  "long_running_ids plan i [] = Inr []"
| "long_running_ids plan i (step # rest) =
     (if st_long_running step then
        (if dp_consumers plan ! i \<noteq> [] then Inl (st_id step)
         else rbind (long_running_ids plan (Suc i) rest) (\<lambda>ids. Inr (st_id step # ids)))
      else long_running_ids plan (Suc i) rest)"

definition streaming_producer ::
  "('m, 'x) kernel \<Rightarrow> string \<Rightarrow> string \<Rightarrow> kernel_error + string" where
  "streaming_producer k plugin_name action_name =
     (let name = plugin_name @ ''.'' @ action_name in
      case get_action (kn_registry k) plugin_name action_name of
        None \<Rightarrow> Inl (no_action plugin_name action_name)
      | Some registration \<Rightarrow>
          if \<not> act_dataflow (ar_action registration) then
            Inl (Validation (''io.invoke_streaming: action '' @ name @ '' is not declared `dataflow: true`; ''
              @ ''use io.invoke for non-streaming calls''))
          else case long_running_ids (ar_plan registration) 0 (act_steps (ar_action registration)) of
            Inl i \<Rightarrow>
              Inl (Validation (''io.invoke_streaming: action '' @ name @ '' long-running step '' @ ticked i
                @ '' has in-action consumer(s); the output must flow to the parent, not a sibling step''))
          | Inr [one] \<Rightarrow> Inr one
          | Inr [] \<Rightarrow>
              Inl (Validation (''io.invoke_streaming: action '' @ name @ '' declares `dataflow: true` but has no ''
                @ ''`long_running` step '' @ long_dash @ '' nothing to stream from''))
          | Inr many \<Rightarrow>
              Inl (Validation (''io.invoke_streaming: action '' @ name @ '' has '' @ decimal (length many)
                @ '' long-running steps ('' @ join_strings '', '' many @ ''); exactly one is required so the ''
                @ ''parent stream destination is unambiguous'')))"

section \<open>The engine\<close>

text \<open>
  An import of the linker: a body supplied by other code, the kernel's \<open>invoke\<close>, or the dispatcher
  registered for an alias. The token of a callee sits under the place of its caller.
\<close>

datatype ('m, 'x, 's) import = Supplied "('m, 'x, 's) step_body" | InvokeStep | AliasStep

record ('m, 'x, 's) engine =
  en_formats :: "(parse_fault, name_error) formats"
  en_imports :: "string \<Rightarrow> ('m, 'x, 's) import option"
  en_fired :: "nat list \<Rightarrow> nat \<Rightarrow> bool"
  en_open_readable :: "'s \<Rightarrow> nat \<Rightarrow> bool"
  en_fan_out :: "bool \<Rightarrow> 's \<Rightarrow> nat \<Rightarrow> nat \<Rightarrow> (string + nat list) \<times> 's"
  en_dataflow :: "('m, 'x, 's) state_params \<Rightarrow> dag_plan \<Rightarrow> (kernel_error + action_result) \<times> 's"
  en_drain :: "'s \<Rightarrow> 's"
  en_streams :: 's

text \<open>An intrinsic body that only calls: it records no violation and leaves the caller's streams.\<close>

definition calling ::
  "(('m, 'x, 's) execution_state \<Rightarrow> json \<Rightarrow> step_error + step_output) \<Rightarrow> ('m, 'x, 's) step_body" where
  "calling f = IntrinsicBody (\<lambda>s params. (f s params, None, es_streams s))"

definition import_body ::
  "(parse_fault, name_error) formats \<Rightarrow> ('m, 'x) execute \<Rightarrow> ('m, 'x, 's) import \<Rightarrow> ('m, 'x, 's) step_body" where
  "import_body fm execute i =
     (case i of
        Supplied body \<Rightarrow> body
      | InvokeStep \<Rightarrow> calling (step_invoke fm execute)
      | AliasStep \<Rightarrow> calling (step_alias_dispatch fm execute))"

definition below :: "nat list \<Rightarrow> ('m, 'x) execute \<Rightarrow> ('m, 'x) execute" where
  "below path execute k c = execute k (c\<lparr>ca_task := ca_task c @ path\<rparr>)"

definition engine_env ::
  "('m, 'x, 's) engine \<Rightarrow> nat list \<Rightarrow> ('m, 'x) execute \<Rightarrow> ('m, 'x, 's) runtime_env" where
  "engine_env e path execute =
     \<lparr>rt_formats = en_formats e,
      rt_linker = (\<lambda>name. map_option (import_body (en_formats e) (below path execute)) (en_imports e name)),
      rt_fired = (\<lambda>task n. en_fired e (task @ path) n),
      rt_open_readable = en_open_readable e, rt_fan_out = en_fan_out e\<rparr>"

text \<open>\<open>execute_dag\<close> always returns (\<open>StepSpec\<close>), so the last case is not reached.\<close>

definition run_action ::
  "('m, 'x, 's) engine \<Rightarrow> nat list \<Rightarrow> ('m, 'x) execute \<Rightarrow> bool \<Rightarrow> dag_plan \<Rightarrow> ('m, 'x, 's) state_params \<Rightarrow>
    kernel_error + action_result" where
  "run_action e path execute drain_streams plan p =
     (case execute_dag (engine_env e path execute) (en_dataflow e) (en_drain e) drain_streams plan p of
        Some (r, _) \<Rightarrow> r
      | None \<Rightarrow> Inl (Execution []))"

primrec execute_invoked :: "nat \<Rightarrow> ('m, 'x, 's) engine \<Rightarrow> ('m, 'x) execute" where
  "execute_invoked 0 e = (\<lambda>k c. Inl (Execution []))"
| "execute_invoked (Suc n) e =
     (\<lambda>k c. execute_action_invoked (en_streams e)
        (run_action e (ca_task c) (execute_invoked n e) False) k c)"

text \<open>A top-level run, with fuel for the longest chain the cap allows.\<close>

definition execute_top ::
  "('m, 'x, 's) engine \<Rightarrow> ('m, 'x) kernel \<Rightarrow> bool \<Rightarrow> string \<Rightarrow> string \<Rightarrow> json \<Rightarrow> json \<Rightarrow> 'x \<Rightarrow>
    kernel_error + action_result" where
  "execute_top e k wrapped plugin_name action_name input config exec_ctx =
     execute_run (run_action e [] (execute_invoked invoke_max_depth e) True)
       k wrapped (en_streams e) plugin_name action_name input config exec_ctx"

end
