(* ===== verification/InvocationSpec.thy ===== *)
theory InvocationSpec
  imports StepSpec Invocation "HOL-Library.Multiset"
begin

text \<open>
  What holds between plugins: no body reaches an action its plugin may not call, whatever
  orchestrator the embedder installs; a callee runs as itself; the chain of callers is no deeper than
  the cap, so every top-level run ends; deadlines only shrink down a chain. The locale
  \<open>faithful_orchestrator\<close> states what the default orchestrator promises, under which the second
  authorisation never refuses what the first one admitted.
\<close>

section \<open>Which calls can happen\<close>

text \<open>
  A call is within bounds for a state: it is made at the state's own depth, below the cap, to a
  plugin whose namespace encloses the caller's, which is the caller itself, or one it may invoke by
  name, by some role, or through an alias it may use.
\<close>

definition may_reach :: "('m, 'x) kernel \<Rightarrow> string \<Rightarrow> string \<Rightarrow> bool" where
  "may_reach k caller target \<longleftrightarrow>
     target = caller
     \<or> is_granted (check_invoke_plugin (kn_registry k) caller target)
     \<or> (\<exists>role. is_granted (check_invoke_role (permissions_for (kn_registry k) caller) role))
     \<or> (\<exists>key ty action. (target, action) \<in> set (step_type_alias_candidates (kn_registry k) key)
          \<and> is_granted (check_step_type (permissions_for (kn_registry k) caller) ty))"

definition within_bounds ::
  "('m, 'x) kernel \<Rightarrow> ('m, 'x, 's) execution_state \<Rightarrow> 'x call \<Rightarrow> bool" where
  "within_bounds k s c \<longleftrightarrow>
     ca_depth c = es_invoke_depth s \<and> es_invoke_depth s < invoke_max_depth
     \<and> ca_secret_resolver c = es_secret_resolver s \<and> ca_exec_ctx c = es_exec_ctx s
     \<and> encloses (namespace_of (ca_plugin c)) (namespace_of (es_plugin_name s))
     \<and> may_reach k (es_plugin_name s) (ca_plugin c)"

lemma on_chain_encloses: "is_on_chain t c \<longleftrightarrow> encloses (namespace_of t) (namespace_of c)"
  by (simp add: is_on_chain_above ns_chain.above_def ancestor_iff)

lemma authorized_reach:
  assumes "authorize_resolved_dispatch (kn_registry k) caller request plan None = Inr ()"
  shows "encloses (namespace_of (pl_plugin plan)) (namespace_of caller) \<and> may_reach k caller (pl_plugin plan)"
  using assms
  by (auto simp: authorize_resolved_dispatch_def on_chain_encloses may_reach_def
      split: if_splits dispatch_request.splits)

lemma finish_call_cong: "execute k c = execute' k c \<Longrightarrow> finish_call execute k c = finish_call execute' k c"
  by (simp add: finish_call_def)

lemma call_from_simps [simp]:
  "ca_plugin (call_from s plan input) = pl_plugin plan" "ca_depth (call_from s plan input) = es_invoke_depth s"
  "ca_secret_resolver (call_from s plan input) = es_secret_resolver s"
  "ca_exec_ctx (call_from s plan input) = es_exec_ctx s"
  by (simp_all add: call_from_def)

lemma invoke_plan_bounds:
  assumes "invoke_plan k s step_id request = Inr plan" "es_invoke_depth s < invoke_max_depth"
  shows "within_bounds k s (call_from s plan input)"
proof -
  from assms(1) have "authorize_resolved_dispatch (kn_registry k) (es_plugin_name s) request plan None = Inr ()"
    by (auto simp: invoke_plan_def split: sum.splits kernel_error.splits)
  from authorized_reach [OF this] assms(2) show ?thesis by (simp add: within_bounds_def)
qed

lemma step_invoke_bounded:
  assumes "\<And>k c. within_bounds k s c \<Longrightarrow> execute k c = execute' k c"
  shows "step_invoke fm execute s params = step_invoke fm execute' s params"
proof (cases "es_invoke_depth s < invoke_max_depth")
  case True
  have "finish_call execute k (call_from s plan input) = finish_call execute' k (call_from s plan input)"
    if "invoke_plan k s step_id request = Inr plan" for k step_id request plan input
    using assms invoke_plan_bounds [OF that True] by (blast intro: finish_call_cong)
  then show ?thesis by (simp add: step_invoke_def Let_def split: option.split sum.split)
qed (simp add: step_invoke_def Let_def)

lemma alias_authorized:
  assumes "authorize_resolved_dispatch (kn_registry k) caller request plan (Some owner) = Inr ()"
    and "owner = caller \<or> is_granted (check_step_type (permissions_for (kn_registry k) caller) ty)"
    and "(owner, action) \<in> set (step_type_alias_candidates (kn_registry k) key)"
  shows "encloses (namespace_of (pl_plugin plan)) (namespace_of caller) \<and> may_reach k caller (pl_plugin plan)"
  using assms
  by (auto simp: authorize_resolved_dispatch_def on_chain_encloses may_reach_def
      split: if_splits dispatch_request.splits)

lemma step_alias_bounded:
  assumes "\<And>k c. within_bounds k s c \<Longrightarrow> execute k c = execute' k c"
  shows "step_alias_dispatch fm execute s params = step_alias_dispatch fm execute' s params"
proof (cases "es_invoke_depth s < invoke_max_depth")
  case True
  have "finish_call execute k (call_from s plan input) = finish_call execute' k (call_from s plan input)"
    if "authorize_resolved_dispatch (kn_registry k) (es_plugin_name s) request plan (Some owner) = Inr ()"
      "owner = es_plugin_name s
        \<or> is_granted (check_step_type (permissions_for (kn_registry k) (es_plugin_name s)) ty)"
      "step_type_alias_candidates (kn_registry k) key = (owner, action) # rest"
    for k request plan owner ty key action rest input
  proof (rule finish_call_cong, rule assms)
    from that(3) have "(owner, action) \<in> set (step_type_alias_candidates (kn_registry k) key)" by simp
    from alias_authorized [OF that(1,2) this] True
    show "within_bounds k s (call_from s plan input)" by (simp add: within_bounds_def)
  qed
  then show ?thesis
    by (simp add: step_alias_dispatch_def Let_def split: option.split list.split sum.split) blast
qed (simp add: step_alias_dispatch_def Let_def)

lemma dispatch_role_bounded:
  assumes "\<And>c. within_bounds k s c \<Longrightarrow> execute k c = execute' k c"
  shows "dispatch_role_inner execute k role action input hints s
    = dispatch_role_inner execute' k role action input hints s"
proof -
  have "execute k (call_from s plan input) = execute' k (call_from s plan input)"
    if "authorize_resolved_dispatch (kn_registry k) (es_plugin_name s) request plan None = Inr ()"
      "es_invoke_depth s < invoke_max_depth" for request plan
    using assms authorized_reach [OF that(1)] that(2) by (simp add: within_bounds_def)
  then show ?thesis by (simp add: dispatch_role_inner_def Let_def rbind_def split: sum.split)
qed


section \<open>Resolution and the default orchestrator\<close>

text \<open>
  The interface an orchestrator keeps when it selects and does not redirect: a request by plugin goes
  to that plugin, a request by role to one of the candidates the kernel computed.
\<close>

locale faithful_orchestrator =
  fixes orch :: "('m, 'x) orchestrator"
  assumes by_plugin: "orch (ByPlugin p a i h) ctx = Inr plan \<Longrightarrow> pl_plugin plan = p"
    and by_role: "orch (ByRole r a i h) ctx = Inr plan \<Longrightarrow> pl_plugin plan \<in> set (dc_role_candidates ctx)"
begin

lemma selects:
  assumes "kn_orchestrator k = orch"
    "prepare_dispatch_via_orchestrator k request x caller config = Inr plan"
  shows "case request of
      ByPlugin p _ _ _ \<Rightarrow> pl_plugin plan = p
    | ByRole role _ _ _ \<Rightarrow> pl_plugin plan \<in> set (role_candidates (kn_registry k) caller role)"
  using assms(2)
  by (cases request) (auto simp: prepare_dispatch_via_orchestrator_def Let_def assms(1)
      split: sum.splits dispatch_error.splits dest: by_plugin by_role)

end

interpretation default: faithful_orchestrator default_orchestrator
  by unfold_locales (auto simp: default_orchestrator_def rbind_def split: list.splits)

lemma role_levels_in:
  "c \<in> set (role_levels r caller role nss) \<Longrightarrow>
    is_on_chain c caller \<and> (\<exists>ns\<in>set nss. c \<in> set (plugins_for_role r (qualify ns role)))"
  by (induction nss) (auto simp: Let_def split: if_splits)

lemma resolved_on_chain:
  assumes "resolve_plugin_reference r caller reference = Inr target"
  shows "is_on_chain target caller"
proof -
  from assms obtain cs where cs: "plugin_reference_candidates caller reference = Inr cs"
    and t: "target = (case List.find (has_plugin r) cs of Some c \<Rightarrow> c | None \<Rightarrow> hd cs)"
    by (auto simp: resolve_plugin_reference_def rbind_Inr_iff)
  from candidates_on_chain [OF cs] have "cs \<noteq> []" by (auto simp: ancestor_iff)
    (metis ancestor_iff encloses_def list.set_cases neq_Nil_conv set_empty)
  with t have "target \<in> set cs" by (auto simp: find_Some_iff split: option.splits)
  with candidates_on_chain [OF cs] show ?thesis by blast
qed

text \<open>
  Under the default orchestrator the second authorisation of an \<open>invoke\<close> never refuses: what a
  reference or a role resolves to is on the caller's chain and covered by the grant the request
  needed.
\<close>

theorem default_orchestrator_authorized:
  assumes "kn_orchestrator k = default_orchestrator"
    and "invoke_request show (kn_registry k) (es_plugin_name s) step_id target input hints = Inr request"
    and "check_invoke_grant (kn_registry k) (es_plugin_name s) request = Inr ()"
    and "prepare_dispatch_via_orchestrator k request (es_exec_ctx s) (Some (es_plugin_name s)) (es_config s) = Inr plan"
  shows "authorize_resolved_dispatch (kn_registry k) (es_plugin_name s) request plan None = Inr ()"
proof (cases request)
  case (ByPlugin p a i h)
  from default.selects [OF assms(1,4)] ByPlugin have p: "pl_plugin plan = p" by simp
  from assms(2) ByPlugin obtain raw where "resolve_plugin_reference (kn_registry k) (es_plugin_name s) raw = Inr p"
    by (auto simp: invoke_request_def split: prod.splits sum.splits)
  then have "is_on_chain p (es_plugin_name s)" by (rule resolved_on_chain)
  with assms(3) ByPlugin p show ?thesis
    by (auto simp: authorize_resolved_dispatch_def check_invoke_grant_def Let_def is_granted_def
        split: permission_check.splits if_splits)
next
  case (ByRole role a i h)
  from default.selects [OF assms(1,4)] ByRole
  have "pl_plugin plan \<in> set (role_candidates (kn_registry k) (Some (es_plugin_name s)) role)" by simp
  then have "is_on_chain (pl_plugin plan) (es_plugin_name s)"
    by (auto simp: role_candidates_def Let_def dest: role_levels_in)
  with assms(3) ByRole show ?thesis
    by (auto simp: authorize_resolved_dispatch_def check_invoke_grant_def Let_def is_granted_def
        split: permission_check.splits if_splits)
qed

text \<open>
  A role reaches the nearest level of the caller's chain that has a fulfiller the caller may see:
  the candidates are the fulfillers bound to that level's contract and on the caller's chain, no
  level below it has one, and among them a plugin nearer the caller never comes after one further up.
\<close>

theorem role_candidates_nearest:
  assumes "role_candidates r caller role = cs" "cs \<noteq> []"
  shows "\<exists>lower ns upper. let c = (case caller of Some c \<Rightarrow> c | None \<Rightarrow> []);
      visible = (\<lambda>ns. filter (\<lambda>t. encloses (namespace_of t) (namespace_of c)) (plugins_for_role r (qualify ns role)))
    in ancestor_namespaces (namespace_of c) = lower @ ns # upper
       \<and> list_all (\<lambda>l. visible l = []) lower \<and> mset cs = mset (visible ns)
       \<and> sorted_wrt (\<lambda>a b. chain_depth b \<le> chain_depth a) cs"
proof -
  define c where "c = (case caller of Some c \<Rightarrow> c | None \<Rightarrow> [])"
  define visible where
    "visible = (\<lambda>ns. filter (\<lambda>t. encloses (namespace_of t) (namespace_of c)) (plugins_for_role r (qualify ns role)))"
  have vis: "filter (\<lambda>t. is_on_chain t c) (plugins_for_role r (qualify ns role)) = visible ns" for ns
    by (simp add: visible_def on_chain_encloses)
  have "\<exists>lower ns upper. nss = lower @ ns # upper \<and> list_all (\<lambda>l. visible l = []) lower
      \<and> mset cs = mset (visible ns) \<and> sorted_wrt (\<lambda>a b. chain_depth b \<le> chain_depth a) cs"
    if "role_levels r c role nss = cs" for nss
    using that
  proof (induction nss)
    case (Cons ns nss)
    show ?case
    proof (cases "visible ns = []")
      case True
      with Cons obtain lower ns' upper where "nss = lower @ ns' # upper" "list_all (\<lambda>l. visible l = []) lower"
        "mset cs = mset (visible ns')" "sorted_wrt (\<lambda>a b. chain_depth b \<le> chain_depth a) cs"
        by (auto simp: vis Let_def)
      with True show ?thesis
        by - (rule exI [of _ "ns # lower"], rule exI [of _ ns'], rule exI [of _ upper], simp)
    next
      case False
      with Cons.prems have cs: "cs = sort_key (\<lambda>c. - int (chain_depth c)) (visible ns)"
        by (simp add: vis Let_def)
      have "sorted (map (\<lambda>c. - int (chain_depth c)) cs)" by (simp add: cs)
      then have "sorted_wrt (\<lambda>a b. chain_depth b \<le> chain_depth a) cs" by (simp add: sorted_map)
      with cs show ?thesis by - (rule exI [of _ "[]"], rule exI [of _ ns], rule exI [of _ nss], simp)
    qed
  qed (use assms(2) in simp)
  from this [of "ancestor_namespaces (namespace_of c)"] assms(1) show ?thesis
    by (simp add: role_candidates_def c_def [symmetric] visible_def Let_def)
qed

section \<open>A callee runs as itself\<close>

definition declared_keys :: "('m, 'x) kernel \<Rightarrow> string \<Rightarrow> string list" where
  "declared_keys k plugin =
     (case get_manifest (kn_registry k) plugin of Some m \<Rightarrow> declared_secret_keys m | None \<Rightarrow> [])"

text \<open>Parameters under the plugin's own identity, access set and declared secrets.\<close>

definition own_invocation :: "('m, 'x) kernel \<Rightarrow> string \<Rightarrow> ('m, 'x, 's) state_params \<Rightarrow> bool" where
  "own_invocation k plugin p \<longleftrightarrow>
     sp_plugin_name p = plugin \<and> sp_limits p = kn_limits k
     \<and> sp_step_type_access p = step_type_access_for (kn_registry k) plugin
     \<and> (\<exists>name a. get_action (kn_registry k) plugin name = Some a \<and> sp_action p = ar_action a)
     \<and> (sp_secrets p = JNull
        \<or> (\<exists>m. sp_secrets p = JObject m \<and> {key. obj_get m key \<noteq> None} \<subseteq> set (declared_keys k plugin)))"

lemma pulled_declared:
  assumes "pull_secrets k plugin resolver x = Inr v"
  shows "v = JNull \<or> (\<exists>m. v = JObject m \<and> {key. obj_get m key \<noteq> None} \<subseteq> set (declared_keys k plugin))"
proof (cases resolver)
  case (Some r)
  with assms obtain over where p: "pull r plugin plugin (declared_keys k plugin) over x = Inr v"
    by (auto simp: pull_secrets_def declared_keys_def split: option.splits)
  then consider "v = JNull" | a where "v = intersect_declared a (declared_keys k plugin)"
    by (auto simp: pull_def split: if_splits sum.splits)
  then show ?thesis
  proof cases
    case 2
    then show ?thesis
      by (cases a) (auto simp: intersect_declared_def obj_get_intersect split: if_splits)
  qed simp
qed (use assms in \<open>simp add: pull_secrets_def\<close>)


text \<open>
  The two depths are documented as breaking cycles of their own kind. Each entry resets the other:
  a callee starts at event depth 0, an event subscriber at invoke depth 0. A cycle that alternates an
  event and an \<open>invoke\<close> therefore meets neither cap.
\<close>

lemma depths_reset_each_other:
  "sp_dispatch_depth (callee_params k streams c a v) = 0"
  "sp_invoke_depth ((top_params k wrapped streams plugin a JNull config v x)
     \<lparr>sp_dispatch_depth := d + 1, sp_trigger := Some trigger\<rparr>) = 0"
  by (simp_all add: callee_params_def top_params_def)

section \<open>Deadlines\<close>

text \<open>A chain of callers: the instant and the action of each call, and the deadline it leaves.\<close>

definition chain_deadline :: "runtime_limits \<Rightarrow> (nat \<times> action) list \<Rightarrow> nat option \<Rightarrow> nat option" where
  "chain_deadline limits calls deadline =
     foldl (\<lambda>deadline (now, a). callee_deadline (callee_wallclock now limits a deadline)) deadline calls"

lemma callee_deadline_shrinks:
  "\<exists>d'. callee_deadline (callee_wallclock now limits a (Some d)) = Some d' \<and> d' \<le> d"
  by (auto simp: callee_deadline_def callee_wallclock_def cap_ending_at_def split: option.split)

lemma chain_deadline_shrinks: "\<exists>d'. chain_deadline limits calls (Some d) = Some d' \<and> d' \<le> d"
proof (induction calls arbitrary: d)
  case (Cons call calls)
  obtain now a where call: "call = (now, a)" by force
  obtain d1 where d1: "callee_deadline (callee_wallclock now limits a (Some d)) = Some d1" "d1 \<le> d"
    using callee_deadline_shrinks by blast
  obtain d2 where "chain_deadline limits calls (Some d1) = Some d2" "d2 \<le> d1" using Cons by blast
  with d1 show ?case by (auto simp: chain_deadline_def call)
qed (simp add: chain_deadline_def)

text \<open>
  C35. No chain of callers outlives its first invocation, and the operator's ceiling holds all the way
  down: with a ceiling, an invocation started at \<open>now\<close> has a deadline no later than \<open>now\<close> plus the
  ceiling, whatever it and its callees declare and however deep they call.
\<close>

theorem deadlines_only_shrink:
  "(\<exists>d'. chain_deadline limits calls (Some d) = Some d' \<and> d' \<le> d)
   \<and> (case rl_max_wallclock_ms limits of
        None \<Rightarrow> True
      | Some limit \<Rightarrow>
          (case chain_deadline limits calls (map_option wc_deadline (wallclock_cap_of now limits a)) of
             Some d' \<Rightarrow> d' \<le> now + limit | None \<Rightarrow> False))"
proof
  show "case rl_max_wallclock_ms limits of None \<Rightarrow> True
      | Some limit \<Rightarrow>
          (case chain_deadline limits calls (map_option wc_deadline (wallclock_cap_of now limits a)) of
             Some d' \<Rightarrow> d' \<le> now + limit | None \<Rightarrow> False)"
  proof (cases "rl_max_wallclock_ms limits")
    case (Some limit)
    then obtain t where t: "effective_wallclock_timeout limits a = Some t" "t \<le> limit"
      by (cases "act_wallclock_timeout_ms a"; cases "act_dataflow a")
        (simp_all add: effective_wallclock_timeout_def)
    obtain d' where "chain_deadline limits calls (Some (now + t)) = Some d'" "d' \<le> now + t"
      using chain_deadline_shrinks by blast
    with t Some show ?thesis by (simp add: wallclock_cap_of_def cap_after_def)
  qed simp
qed (rule chain_deadline_shrinks)

section \<open>Streaming callees\<close>

lemma long_running_exact:
  "long_running_ids plan i ss = Inr ids \<longleftrightarrow>
     (\<forall>j<length ss. st_long_running (ss ! j) \<longrightarrow> dp_consumers plan ! (i + j) = [])
     \<and> ids = map st_id (filter st_long_running ss)"
proof (induction ss arbitrary: i ids)
  case (Cons step ss)
  have all: "(\<forall>j<length (step # ss). P j) \<longleftrightarrow> P 0 \<and> (\<forall>j<length ss. P (Suc j))" for P
    by (auto simp: less_Suc_eq_0_disj)
  show ?case unfolding all by (auto simp: Cons.IH rbind_Inr_iff)
qed auto

text \<open>
  A streaming call names its producer exactly when that is unambiguous: the action exists, is
  declared \<open>dataflow\<close>, and has one long-running step, whose output no other step of the action reads.
\<close>

theorem streaming_producer_exact:
  "streaming_producer k plugin name = Inr i \<longleftrightarrow>
     (\<exists>reg. get_action (kn_registry k) plugin name = Some reg \<and> act_dataflow (ar_action reg)
        \<and> map st_id (filter st_long_running (act_steps (ar_action reg))) = [i]
        \<and> list_all (\<lambda>j. dp_consumers (ar_plan reg) ! j = [])
            (filter (\<lambda>j. st_long_running (act_steps (ar_action reg) ! j)) [0..<length (act_steps (ar_action reg))]))"
proof (cases "get_action (kn_registry k) plugin name")
  case (Some reg)
  let ?ss = "act_steps (ar_action reg)"
  let ?quiet = "\<forall>j<length ?ss. st_long_running (?ss ! j) \<longrightarrow> dp_consumers (ar_plan reg) ! j = []"
  have "streaming_producer k plugin name = Inr i \<longleftrightarrow>
      act_dataflow (ar_action reg) \<and> long_running_ids (ar_plan reg) 0 ?ss = Inr [i]"
    by (simp add: streaming_producer_def Some Let_def split: sum.split list.split)
  also have "\<dots> \<longleftrightarrow> act_dataflow (ar_action reg) \<and> ?quiet \<and> map st_id (filter st_long_running ?ss) = [i]"
    by (auto simp: long_running_exact)
  finally show ?thesis using Some by (auto simp: list_all_iff)
qed (simp add: streaming_producer_def)

section \<open>Waves under two linkers\<close>

lemma small_scope_wave [simp]:
  "scope (s\<lparr>es_fanout_overrides := f\<rparr>) = scope s"
  "scope (execution_state_new p) = (sp_step_type_access p, sp_invoke_depth p)"
  by (simp_all add: scope_def execution_state_new_def)

lemma poll_scope: "check_cancelled env i s = (r, t) \<Longrightarrow> scope t = scope s"
  by (auto dest!: check_cancelled_keeps(1) same_scope)

lemma install_scope: "maybe_install_fanout env plan action idx fanout s = (r, t) \<Longrightarrow> scope t = scope s"
  by (auto simp: maybe_install_fanout_def Let_def scope_def split: if_splits option.splits prod.splits)

lemma installs_scope: "install_fanouts env plan action wave fanout s = (r, t) \<Longrightarrow> scope t = scope s"
proof (induction wave arbitrary: fanout s)
  case (Cons idx wave)
  obtain x u where u: "maybe_install_fanout env plan action idx fanout s = (x, u)" by force
  with Cons install_scope [OF u] show ?case by (cases x) auto
qed simp

lemma top_scope:
  "run_top env step idx s = Ran b t \<Longrightarrow> scope t = scope s"
  "run_top env step idx s = Erred e t \<Longrightarrow> scope t = scope s"
  using run_top_keeps [of s env step idx] by (auto simp: same_scope)

lemma merge_task_scope: "scope (merge_task_state t i vars s) = scope s"
proof -
  have "scope (store_step_result i v s) = scope s" for v by (rule same_scope) (rule kept_store)
  then show ?thesis by (simp add: merge_task_state_def Let_def scope_def split: option.split)
qed

lemma merge_tasks_scope:
  "scope (fst (fold (merge_wave_task vars) tasks acc)) = scope (fst acc)"
proof (induction tasks arbitrary: acc)
  case (Cons task tasks)
  have "scope (fst (merge_wave_task vars task acc)) = scope (fst acc)"
    by (simp add: merge_wave_task_def merge_task_scope split: prod.split outcome.split)
  with Cons show ?case by simp
qed simp

lemma sequential_scope:
  "run_wave_sequential env plan action wave fanout s = Some (r, t) \<Longrightarrow> scope t = scope s"
proof (induction wave arbitrary: fanout s)
  case (Cons idx wave)
  let ?step = "act_steps action ! idx"
  obtain r1 u where u: "check_cancelled env (st_id ?step) s = (r1, u)" by force
  let ?u = "u\<lparr>es_fanout_overrides := fanout_overrides plan action idx fanout\<rparr>"
  show ?case
  proof (cases r1)
    case (Inr x)
    show ?thesis
    proof (cases "run_top env ?step idx ?u")
      case (Ran b w)
      obtain f v where v: "maybe_install_fanout env plan action idx fanout w = (f, v)" by force
      have "scope v = scope s" "scope w = scope s"
        using install_scope [OF v] top_scope(1) [OF Ran] poll_scope [OF u] by simp_all
      with Cons Ran u v Inr show ?thesis
        by (cases f) (auto simp: Let_def split: if_splits dest: Cons.IH)
    qed (use Cons.prems u Inr poll_scope [OF u] in \<open>auto simp: Let_def dest: top_scope(2)\<close>)
  qed (use Cons.prems u poll_scope [OF u] in \<open>auto simp: Let_def\<close>)
qed simp

lemma parallel_scope:
  assumes "run_wave_parallel env plan action wave fanout s = Some (r, t)"
  shows "scope t = scope s"
proof -
  let ?first = "case wave of i # _ \<Rightarrow> st_id (act_steps action ! i) | [] \<Rightarrow> []"
  obtain x u where u: "check_cancelled env ?first s = (x, u)" by force
  obtain y w where w: "check_cancelled env ?first u = (y, w)" by force
  let ?tasks = "wave_tasks env plan action wave fanout u"
  obtain m fe where m: "fold (merge_wave_task (map fst (es_variables w))) ?tasks (w, None) = (m, fe)" by force
  have "scope u = scope s" "scope w = scope s" using poll_scope u w by metis+
  moreover from m have "scope m = scope w"
    using merge_tasks_scope [of "map fst (es_variables w)" ?tasks "(w, None)"] by simp
  ultimately show ?thesis
    using assms
    by (auto simp: run_wave_parallel_def Let_def u w m split: sum.splits if_splits option.splits
        dest!: installs_scope)
qed

locale linked_envs =
  fixes env :: "('m, 'x, 's) runtime_env" and L :: "string \<Rightarrow> ('m, 'x, 's) step_body option"
    and A :: "(step_type_access \<times> nat) set"
  assumes linked: "(a, d) \<in> A \<Longrightarrow> access_resolve a ty = Some key \<Longrightarrow>
      rel_option (same_body d) (rt_linker env (''step_'' @ key)) (L (''step_'' @ key))"
begin

lemma top_agree:
  "scope s \<in> A \<Longrightarrow> run_top env step idx s = run_top (env\<lparr>rt_linker := L\<rparr>) step idx s"
  unfolding run_top_def by (rule run_step_agree [OF linked]) (simp_all add: step_fuel_def)

lemma install_agree:
  "maybe_install_fanout (env\<lparr>rt_linker := L\<rparr>) plan action idx fanout s
     = maybe_install_fanout env plan action idx fanout s"
  by (simp add: maybe_install_fanout_def Let_def split: option.split)

lemma installs_agree:
  "install_fanouts (env\<lparr>rt_linker := L\<rparr>) plan action wave fanout s
     = install_fanouts env plan action wave fanout s"
  by (induction wave arbitrary: fanout s) (simp_all add: install_agree split: sum.split prod.split)

lemma sequential_agree:
  "scope s \<in> A \<Longrightarrow> run_wave_sequential env plan action wave fanout s
     = run_wave_sequential (env\<lparr>rt_linker := L\<rparr>) plan action wave fanout s"
proof (induction wave arbitrary: fanout s)
  case (Cons idx wave)
  let ?step = "act_steps action ! idx"
  obtain r u where u: "check_cancelled env (st_id ?step) s = (r, u)" by force
  let ?u = "u\<lparr>es_fanout_overrides := fanout_overrides plan action idx fanout\<rparr>"
  have a: "scope ?u \<in> A" using Cons.prems poll_scope [OF u] by simp
  have "run_wave_sequential env plan action wave f v
      = run_wave_sequential (env\<lparr>rt_linker := L\<rparr>) plan action wave f v"
    if "run_top env ?step idx ?u = Ran b w" "maybe_install_fanout env plan action idx fanout w = (x, v)"
    for b w x f v
    using Cons.IH a top_scope(1) [OF that(1)] install_scope [OF that(2)] by simp
  then show ?case
    by (simp add: u top_agree [OF a, symmetric] install_agree Let_def split: sum.split outcome.split prod.split)
qed simp

lemma parallel_agree:
  assumes "scope s \<in> A"
  shows "run_wave_parallel env plan action wave fanout s
     = run_wave_parallel (env\<lparr>rt_linker := L\<rparr>) plan action wave fanout s"
proof -
  let ?first = "case wave of i # _ \<Rightarrow> st_id (act_steps action ! i) | [] \<Rightarrow> []"
  obtain r u where u: "check_cancelled env ?first s = (r, u)" by force
  have "scope u \<in> A" using assms poll_scope [OF u] by simp
  then have "wave_tasks env plan action wave fanout u = wave_tasks (env\<lparr>rt_linker := L\<rparr>) plan action wave fanout u"
    by (simp add: wave_tasks_def Let_def case_prod_beta top_agree)
  then show ?thesis
    by (simp add: run_wave_parallel_def u Let_def installs_agree split: sum.split prod.split option.split)
qed

lemma waves_agree:
  "scope s \<in> A \<Longrightarrow> run_waves env plan action waves fanout s
     = run_waves (env\<lparr>rt_linker := L\<rparr>) plan action waves fanout s"
proof (induction waves arbitrary: fanout s)
  case (Cons wave waves)
  have rest: "run_waves env plan action waves f t = run_waves (env\<lparr>rt_linker := L\<rparr>) plan action waves f t"
    if "scope t = scope s" for f t
    using Cons.IH Cons.prems that by simp
  have "run_waves env plan action waves f t = run_waves (env\<lparr>rt_linker := L\<rparr>) plan action waves f t"
    if "run_wave_parallel env plan action wave fanout s = Some (Inr f, t)" for f t
    using rest parallel_scope [OF that] by simp
  moreover have "run_waves env plan action waves f t = run_waves (env\<lparr>rt_linker := L\<rparr>) plan action waves f t"
    if "run_wave_sequential env plan action wave fanout s = Some (Inr f, t)" for f t
    using rest sequential_scope [OF that] by simp
  ultimately show ?case
    by (auto simp: Let_def Cons.prems parallel_agree [symmetric] sequential_agree [symmetric]
        split: option.split sum.split prod.split)
qed simp

lemma finish_agree: "finish_action (env\<lparr>rt_linker := L\<rparr>) s = finish_action env s"
  by (simp add: finish_action_def split: option.split)

lemma dag_agree:
  assumes "(sp_step_type_access p, sp_invoke_depth p) \<in> A"
  shows "execute_dag env dataflow drain owns plan p = execute_dag (env\<lparr>rt_linker := L\<rparr>) dataflow drain owns plan p"
  using waves_agree [of "execution_state_new p" plan "sp_action p" "dp_waves plan" "[]"] assms
  by (simp add: execute_dag_def finish_agree split: option.split sum.split prod.split)

end

section \<open>Chains of calls\<close>

text \<open>
  Two ways of executing calls give an action one environment each. They agree on its steps as soon as
  they agree on the calls a body of its depth may make.
\<close>

lemma calling_cong: "f s p = g s p \<Longrightarrow> run_body (calling f) p s = run_body (calling g) p s"
  by (simp add: calling_def run_body_def)

lemma engine_linked:
  assumes "\<And>k c. ca_depth c \<in> D \<Longrightarrow> ca_depth c < invoke_max_depth \<Longrightarrow> execute k c = execute' k c"
  shows "linked_envs (engine_env e path execute) (rt_linker (engine_env e path execute')) {(a, d). d \<in> D}"
proof (unfold_locales)
  fix a d ty key assume "(a, d) \<in> {(a, d). d \<in> D}"
  then have d: "d \<in> D" by simp
  have "same_body d (import_body fm (below path execute) i) (import_body fm (below path execute') i)" for fm i
  proof -
    have "below path execute k c = below path execute' k c"
      if "within_bounds k s c" "es_invoke_depth s = d" for k c s
      using assms that d by (simp add: below_def within_bounds_def)
    then show ?thesis
      by (auto simp: same_body_def import_body_def split: import.split
          intro!: calling_cong step_invoke_bounded step_alias_bounded)
  qed
  then show "rel_option (same_body d) (rt_linker (engine_env e path execute) (''step_'' @ key))
      (rt_linker (engine_env e path execute') (''step_'' @ key))"
    by (cases "en_imports e (''step_'' @ key)") (simp_all add: engine_env_def)
qed

lemma run_action_cong:
  assumes "\<And>k c. ca_depth c = sp_invoke_depth p \<Longrightarrow> ca_depth c < invoke_max_depth \<Longrightarrow> execute k c = execute' k c"
  shows "run_action e path execute drains plan p = run_action e path execute' drains plan p"
proof -
  have same: "(engine_env e path execute)\<lparr>rt_linker := rt_linker (engine_env e path execute')\<rparr>
      = engine_env e path execute'" by (simp add: engine_env_def)
  have "linked_envs (engine_env e path execute) (rt_linker (engine_env e path execute'))
      {(a, d). d \<in> {sp_invoke_depth p}}"
    by (rule engine_linked) (simp add: assms)
  from linked_envs.dag_agree [OF this] show ?thesis by (simp add: run_action_def same)
qed

lemma fuel_irrelevant:
  "invoke_max_depth \<le> n + ca_depth c \<Longrightarrow> ca_depth c < invoke_max_depth \<Longrightarrow>
    execute_invoked (n + j) e k c = execute_invoked n e k c"
proof (induction n arbitrary: k c)
  case (Suc n)
  have "run_action e path (execute_invoked (n + j) e) False plan p = run_action e path (execute_invoked n e) False plan p"
    if "sp_invoke_depth p = ca_depth c + 1" for path plan and p
    by (rule run_action_cong) (use Suc that in simp)
  then show ?case
    by (simp add: execute_action_invoked_def rbind_def callee_params_def split: option.split sum.split)
qed simp

text \<open>What a body calls with the fuel left: the two environments of an invocation are linked.\<close>

interpretation chain: linked_envs
  "engine_env e path (execute_invoked n e)" "rt_linker (engine_env e path (execute_invoked (n + j) e))"
  "{(a, d). d \<in> {invoke_max_depth - n..}}"
  for e path n j
  by (rule engine_linked) (simp add: fuel_irrelevant)

lemma run_action_fuel:
  assumes "invoke_max_depth \<le> n + sp_invoke_depth p"
  shows "run_action e path (execute_invoked (n + j) e) drains plan p
    = run_action e path (execute_invoked n e) drains plan p"
proof -
  have "(engine_env e path (execute_invoked n e))\<lparr>rt_linker := rt_linker (engine_env e path (execute_invoked (n + j) e))\<rparr>
      = engine_env e path (execute_invoked (n + j) e)" by (simp add: engine_env_def)
  with chain.dag_agree [where p = p and n = n and j = j and e = e and path = path] assms
  show ?thesis by (simp add: run_action_def)
qed

text \<open>
  C5. A run of the embedder does not depend on the fuel of the call chain. \<open>execute_top\<close> gives the chain of
  nested \<open>invoke\<close> and alias calls \<open>invoke_max_depth\<close> levels; with any more the result is the same, whatever
  the plugins, their actions and the orchestrator are, because every body refuses to call at the cap.
\<close>

theorem call_chains_bounded:
  "execute_run (run_action e [] (execute_invoked (invoke_max_depth + j) e) True)
     k wrapped (en_streams e) plugin_name action_name input config exec_ctx
   = execute_top e k wrapped plugin_name action_name input config exec_ctx"
  by (simp add: execute_top_def execute_run_def rbind_def run_action_fuel split: option.split sum.split)

text \<open>
  Below the cap the engine satisfies the code's own recursion: a call runs the callee's action with
  bodies whose calls are again served by the engine, with no fuel in the equation.
\<close>

theorem calls_unfold:
  assumes "ca_depth c < invoke_max_depth"
  shows "execute_invoked invoke_max_depth e k c
    = execute_action_invoked (en_streams e)
        (run_action e (ca_task c) (execute_invoked invoke_max_depth e) False) k c"
  using fuel_irrelevant [of invoke_max_depth c 1 e k] assms by simp

section \<open>The properties at work\<close>

text \<open>
  A store at the root and one inside the namespace \<open>a\<close>, both filling the role \<open>store\<close>, and an
  application in \<open>a\<close> that may invoke the role.
\<close>

definition store_registry :: "unit registry" where
  "store_registry =
     fold (\<lambda>f r. f r)
       [register_manifest (plugin_manifest_new ''disk''), register_manifest (plugin_manifest_new ''a/disk''),
        register_role ''store'' ''disk'', register_role ''a/store'' ''a/disk'',
        register_action ''a/disk'' ''get'' (action_new []) \<lparr>dp_waves = [], dp_deps = [], dp_consumers = []\<rparr>,
        set_permissions ''a/app'' [InvokeRole (NExact ''store'')]] registry_new"

definition store_kernel :: "(unit, unit) kernel" where
  "store_kernel =
     \<lparr>kn_registry = store_registry, kn_orchestrator = default_orchestrator,
      kn_limits = sp_limits (small_params 200 []), kn_secret_resolver = None\<rparr>"

definition store_state :: "(unit, unit, unit) execution_state" where
  "store_state = small_state\<lparr>es_plugin_name := ''a/app'', es_kernel := Some store_kernel\<rparr>"

definition store_engine :: "(unit, unit, unit) engine" where
  "store_engine =
     \<lparr>en_formats = small_formats,
      en_imports = (\<lambda>name. if name = ''step_invoke'' then Some InvokeStep else None),
      en_fired = (\<lambda>task n. False), en_open_readable = (\<lambda>s h. False),
      en_fan_out = (\<lambda>k s h n. (Inr [], s)), en_dataflow = (\<lambda>p plan. (Inl (Validation []), ())),
      en_drain = id, en_streams = ()\<rparr>"

definition get_call :: "unit call" where
  "get_call = \<lparr>ca_plugin = ''a/disk'', ca_action = ''get'', ca_input = JNull, ca_config = JNull,
     ca_secret_resolver = None, ca_exec_ctx = (), ca_depth = 0, ca_task = [0]\<rparr>"


theorem default_orchestrator_authorized_witness:
  "authorize_resolved_dispatch store_registry ''a/app'' (ByRole ''store'' ''get'' JNull JNull)
     \<lparr>pl_plugin = ''a/disk'', pl_action = ''get'', pl_config = JNull\<rparr> None = Inr ()"
proof -
  have s: "es_plugin_name store_state = ''a/app''" "es_config store_state = JNull" by code_simp+
  have k: "kn_registry store_kernel = store_registry" "kn_orchestrator store_kernel = default_orchestrator"
    by (simp_all add: store_kernel_def)
  have plan: "prepare_dispatch_via_orchestrator store_kernel (ByRole ''store'' ''get'' JNull JNull)
      (es_exec_ctx store_state) (Some ''a/app'') JNull
    = Inr \<lparr>pl_plugin = ''a/disk'', pl_action = ''get'', pl_config = JNull\<rparr>" by code_simp
  have grant: "check_invoke_grant store_registry ''a/app'' (ByRole ''store'' ''get'' JNull JNull) = Inr ()"
    by code_simp
  have request: "invoke_request (\<lambda>e. []) store_registry ''a/app'' ''s'' (Inr ''store'', ''get'') JNull JNull
      = Inr (ByRole ''store'' ''get'' JNull JNull)" by (simp add: invoke_request_def)
  from default_orchestrator_authorized [of store_kernel "\<lambda>e. []" store_state "''s''" "(Inr ''store'', ''get'')" JNull JNull]
    plan grant request show ?thesis by (simp add: s k)
qed

theorem role_candidates_nearest_witness:
  "role_candidates store_registry (Some ''a/app'') ''store'' = [''a/disk'']
   \<and> sorted_wrt (\<lambda>a b. chain_depth b \<le> chain_depth a) [''a/disk'']"
proof -
  have cs: "role_candidates store_registry (Some ''a/app'') ''store'' = [''a/disk'']" by code_simp
  from role_candidates_nearest [OF cs] cs show ?thesis by (simp add: Let_def)
qed


theorem calls_unfold_witness:
  "execute_invoked invoke_max_depth store_engine store_kernel get_call
     = execute_action_invoked () (run_action store_engine [0] (execute_invoked invoke_max_depth store_engine) False)
         store_kernel get_call"
  using calls_unfold [of get_call store_engine store_kernel]
  by (simp add: get_call_def store_engine_def invoke_max_depth_def)

end
