(* ===== verification/StepShapes.thy ===== *)
theory StepShapes
  imports StepAccess
begin

text \<open>
  What registration checks of the names and the steps of a manifest before anything is stored:
  \<open>validate_manifest_names\<close>, \<open>validate_step_type_alias\<close>, \<open>validate_step_shapes\<close> and their helpers in
  \<open>src/kernel/mod.rs\<close>. Messages are constructors with the values they print.
\<close>

section \<open>Names\<close>

datatype manifest_name_error =
    BadPluginName name_error
  | BadDeclaredName string name_error

definition check_impl_names :: "(name_error \<Rightarrow> manifest_name_error) \<Rightarrow> step_type_impl \<Rightarrow> manifest_name_error + unit" where
  "check_impl_names named decl =
     rbind (map_err named (validate_step_type_reference (si_step_type decl))) (\<lambda>_.
       case si_matches decl of
         Some selector \<Rightarrow> map_err named (validate_name KStepTypeSelector selector)
       | None \<Rightarrow> Inr ())"

definition validate_manifest_names :: "plugin_manifest \<Rightarrow> bool \<Rightarrow> manifest_name_error + unit" where
  "validate_manifest_names m kernel_owned =
     (let named = BadDeclaredName (pm_name m) in
      rbind (map_err BadPluginName (validate_name KPlugin (pm_name m))) (\<lambda>_.
      rbind (rfold (\<lambda>role _. map_err named (validate_name KRole role)) (pm_roles m) ()) (\<lambda>_.
      rbind (rfold (\<lambda>d _. map_err named (validate_step_type_name (sd_name d) (pm_name m) kernel_owned))
               (pm_step_type_defs m) ()) (\<lambda>_.
      rfold (\<lambda>decl _. check_impl_names named decl) (pm_step_type_impls m) ()))))"

datatype alias_name_error = BadAliasName name_error | ReservedAlias string

definition validate_step_type_alias :: "string \<Rightarrow> string \<Rightarrow> bool \<Rightarrow> alias_name_error + unit" where
  "validate_step_type_alias alias_name declaring_plugin kernel_owned =
     rbind (map_err BadAliasName (validate_step_type_name alias_name declaring_plugin kernel_owned)) (\<lambda>_.
       if alias_name \<in> set reserved_step_type_names then Inl (ReservedAlias alias_name) else Inr ())"

section \<open>Steps\<close>

datatype body_path = KeyPath string | ThenPath nat | BranchPath nat

datatype json_kind = AnObject | AnArray | AString | ANumber | ABoolean | ANull

definition json_kind :: "json \<Rightarrow> json_kind" where
  "json_kind v =
     (case v of
        JObject _ \<Rightarrow> AnObject | JArray _ \<Rightarrow> AnArray | JString _ \<Rightarrow> AString
      | JNumber _ \<Rightarrow> ANumber | JBool _ \<Rightarrow> ABoolean | JNull \<Rightarrow> ANull)"

text \<open>Each message names the action and, but for the first, the step it speaks of.\<close>

datatype shape_error =
    BadStepId string name_error
  | BadInvokeReference string string name_error
  | NoLanguage string string
  | UnsupportedLanguage string string string "string list"
  | MalformedNested string string body_path nat step_parse_error
  | NotStepArray string string body_path json_kind
  | NoBranches string string
  | BranchesNotList string string json_kind
  | NotABranch string string nat json_kind
  | UntestedNotFinal string string nat nat
  | TestNotString string string nat json_kind
  | SharedStepId string string string nat nat
  | SharedVariable string string string nat nat
  | ParallelNotList string string json_kind
  | BranchNotList string string nat

text \<open>\<open>collect_step_field_recursive\<close>: the values of a field in a step and in every step of its bodies.\<close>

definition array_entries :: "json option \<Rightarrow> json list" where
  "array_entries v = (case Option.bind v as_array of Some arr \<Rightarrow> arr | None \<Rightarrow> [])"

definition nested_entries :: "string \<Rightarrow> json \<Rightarrow> json list" where
  "nested_entries step_type params =
     (if step_type = ''for_each'' \<or> step_type = ''repeat'' then array_entries (json_get params ''steps'')
      else if step_type = ''ifs'' then
        concat (map (\<lambda>branch. array_entries (json_get branch ''then'')) (get_array params ''ifs''))
      else if step_type = ''try'' then
        concat (map (\<lambda>key. array_entries (json_get params key)) [''try'', ''catch'', ''finally''])
      else if step_type = ''parallel'' then
        concat (map (\<lambda>branch. array_entries (Some branch)) (get_array params ''branches''))
      else [])"

lemma array_entries_size: "v \<in> set (array_entries (Some x)) \<Longrightarrow> size v < size x"
  by (cases x) (auto simp: array_entries_def as_array_def dest: size_list_estimation' [of _ _ "size v" size, OF _ order_refl])

lemma array_entries_get: "v \<in> set (array_entries (json_get x k)) \<Longrightarrow> size v < size x"
  using array_entries_size json_get_size by (cases "json_get x k") (fastforce simp: array_entries_def)+

lemma nested_entries_size:
  assumes "v \<in> set (nested_entries t params)"
  shows "size v < size params"
proof -
  have "size v < size params" if "b \<in> set (get_array params k)" "v \<in> set (array_entries (json_get b k'))" for b k k'
    using array_entries_get [OF that(2)] get_array_size [OF that(1)] by simp
  moreover have "size v < size params" if "b \<in> set (get_array params k)" "v \<in> set (array_entries (Some b))" for b k
    using array_entries_size [OF that(2)] get_array_size [OF that(1)] by simp
  ultimately show ?thesis using assms
    by (auto simp: nested_entries_def dest: array_entries_get split: if_splits)
qed

function collect_step_field :: "string \<Rightarrow> json \<Rightarrow> string list" where
  "collect_step_field field step =
     (case Option.bind (json_get step ''type'') as_str of
        None \<Rightarrow> []
      | Some step_type \<Rightarrow>
          (case Option.bind (json_get step field) as_str of Some v \<Rightarrow> [v] | None \<Rightarrow> [])
          @ (case json_get step ''params'' of
               None \<Rightarrow> []
             | Some params \<Rightarrow> concat (map (collect_step_field field) (nested_entries step_type params))))"
  by pat_completeness auto
termination
  by (relation "measure (\<lambda>(field, step). size step)") (auto dest!: nested_entries_size json_get_size)

declare collect_step_field.simps [simp del]

text \<open>The two collision checks: the branch that first claimed each value, and the first clash.\<close>

definition claim_values ::
  "(string \<Rightarrow> nat \<Rightarrow> nat \<Rightarrow> shape_error) \<Rightarrow> nat \<Rightarrow> string list \<Rightarrow> (string, nat) table \<Rightarrow>
    shape_error + (string, nat) table" where
  "claim_values clash branch_idx values seen =
     rfold (\<lambda>v seen.
         case table_get seen v of
           Some prev \<Rightarrow> if prev \<noteq> branch_idx then Inl (clash v prev branch_idx) else Inr seen
         | None \<Rightarrow> Inr (table_insert v branch_idx seen))
       values seen"

definition check_branches ::
  "(string \<Rightarrow> nat \<Rightarrow> nat \<Rightarrow> shape_error) \<Rightarrow> string \<Rightarrow> json list \<Rightarrow> shape_error + (string, nat) table" where
  "check_branches clash field branches =
     rfold (\<lambda>(branch_idx, branch) seen.
         claim_values clash branch_idx (concat (map (collect_step_field field) (array_entries (Some branch)))) seen)
       (List.enumerate 0 branches) []"

definition require_array :: "string \<Rightarrow> string \<Rightarrow> body_path \<Rightarrow> json option \<Rightarrow> shape_error + json list option" where
  "require_array action_name step_id path v =
     (case v of
        None \<Rightarrow> Inr None
      | Some (JArray arr) \<Rightarrow> Inr (Some arr)
      | Some other \<Rightarrow> Inl (NotStepArray action_name step_id path (json_kind other)))"

definition parse_inner :: "string \<Rightarrow> string \<Rightarrow> body_path \<Rightarrow> json list \<Rightarrow> shape_error + step_def list" where
  "parse_inner action_name step_id path arr =
     traverse (\<lambda>(i, v). map_err (MalformedNested action_name step_id path i) (from_inner_value v))
       (List.enumerate 0 arr)"

definition check_invoke_literal :: "string \<Rightarrow> step_def \<Rightarrow> shape_error + unit" where
  "check_invoke_literal action_name step =
     (if st_type step = ''invoke'' then
        (case Option.bind (json_get (st_params step) ''plugin'') as_str of
           Some target \<Rightarrow>
             if is_templated target then Inr ()
             else map_err (BadInvokeReference action_name (st_id step)) (validate_reference KPlugin target)
         | None \<Rightarrow> Inr ())
      else Inr ())"

definition language_has_impl :: "'m registry \<Rightarrow> step_type_impl list \<Rightarrow> string \<Rightarrow> bool" where
  "language_has_impl r local_impls lang \<longleftrightarrow>
     step_type_impl_candidates r ''script'' (Some lang) \<noteq> []
     \<or> list_ex (\<lambda>i. si_step_type i = ''script'' \<and> si_matches i = Some lang) local_impls"

definition supported_languages :: "'m registry \<Rightarrow> step_type_impl list \<Rightarrow> string list" where
  "supported_languages r local_impls =
     remdups_adj (sort (step_type_impl_matches r ''script''
       @ List.map_filter (\<lambda>i. if si_step_type i = ''script'' then si_matches i else None) local_impls))"

definition check_language ::
  "string \<Rightarrow> 'm registry \<Rightarrow> step_type_impl list \<Rightarrow> step_def \<Rightarrow> shape_error + unit" where
  "check_language action_name r local_impls step =
     (if st_type step = ''script'' then
        (case Option.bind (json_get (st_params step) ''language'') as_str of
           None \<Rightarrow> Inl (NoLanguage action_name (st_id step))
         | Some language \<Rightarrow>
             if language_has_impl r local_impls language then Inr ()
             else Inl (UnsupportedLanguage action_name (st_id step) language (supported_languages r local_impls)))
      else Inr ())"

text \<open>One entry of an \<open>ifs\<close>; \<open>last_idx\<close> is the index of the last.\<close>

definition check_branch :: "string \<Rightarrow> string \<Rightarrow> nat \<Rightarrow> nat \<Rightarrow> json \<Rightarrow> shape_error + unit" where
  "check_branch action_name step_id last_idx branch_idx branch =
     (if as_object branch = None then Inl (NotABranch action_name step_id branch_idx (json_kind branch))
      else case json_get branch ''test'' of
             None \<Rightarrow>
               if branch_idx \<noteq> last_idx
               then Inl (UntestedNotFinal action_name step_id branch_idx (last_idx - branch_idx)) else Inr ()
           | Some JNull \<Rightarrow>
               if branch_idx \<noteq> last_idx
               then Inl (UntestedNotFinal action_name step_id branch_idx (last_idx - branch_idx)) else Inr ()
           | Some (JString _) \<Rightarrow> Inr ()
           | Some other \<Rightarrow> Inl (TestNotString action_name step_id branch_idx (json_kind other)))"

lemma require_array_Some: "require_array a i path v = Inr (Some arr) \<longleftrightarrow> v = Some (JArray arr)"
  by (auto simp: require_array_def split: option.splits json.splits)

lemma traverse_enumerate:
  "traverse (\<lambda>(i, v). map_err (e i) (f v)) (List.enumerate k xs) = Inr ys \<longleftrightarrow> traverse f xs = Inr ys"
  by (induction xs arbitrary: k ys) (auto simp: rbind_Inr_iff map_err_def split: sum.splits)

lemma parse_inner_Inr: "parse_inner a i path arr = Inr parsed \<longleftrightarrow> traverse from_inner_value arr = Inr parsed"
  unfolding parse_inner_def by (rule traverse_enumerate)

lemma require_array_size:
  "require_array a i path (json_get x k) = Inr (Some arr) \<Longrightarrow> size_list size arr < size x"
  using json_get_size [of x k "JArray arr"] by (simp add: require_array_Some)

lemma listed_size:
  assumes "json_get x k = Some v" "as_array v = Some xs" "(n, b) \<in> set (List.enumerate 0 xs)"
  shows "size b < size x"
proof -
  from assms(3) have "b \<in> set xs" by (metis enumerate_eq_zip set_zip_rightD)
  then have "size b < Suc (size_list size xs)" by (simp add: size_list_estimation' less_Suc_eq_le)
  with array_size [OF assms(2)] json_get_size [OF assms(1)] show ?thesis by simp
qed

lemma then_size:
  "json_get x k = Some v \<Longrightarrow> as_array v = Some xs \<Longrightarrow> (n, b) \<in> set (List.enumerate 0 xs) \<Longrightarrow>
    require_array a i path (json_get b k') = Inr (Some arr) \<Longrightarrow> size_list size arr < size x"
  using listed_size require_array_size by (blast intro: less_trans)

lemma branch_size:
  "json_get x k = Some v \<Longrightarrow> as_array v = Some xs \<Longrightarrow> (n, b) \<in> set (List.enumerate 0 xs) \<Longrightarrow>
    as_array b = Some arr \<Longrightarrow> size_list size arr < size x"
  using listed_size [of x k v xs n b] array_size [of b arr] by simp

function walk_step :: "string \<Rightarrow> 'm registry \<Rightarrow> step_type_impl list \<Rightarrow> step_def \<Rightarrow> shape_error + unit"
  and walk_array :: "string \<Rightarrow> 'm registry \<Rightarrow> step_type_impl list \<Rightarrow> string \<Rightarrow> body_path \<Rightarrow> json list \<Rightarrow> shape_error + unit"
  and walk_steps :: "string \<Rightarrow> 'm registry \<Rightarrow> step_type_impl list \<Rightarrow> step_def list \<Rightarrow> shape_error + unit" where
  "walk_step a r impls step =
     (let t = st_type step; params = st_params step; i = st_id step in
      rbind (map_err (BadStepId a) (validate_name KStepId i)) (\<lambda>_.
      rbind (check_invoke_literal a step) (\<lambda>_.
      rbind (check_language a r impls step) (\<lambda>_.
        if t = ''for_each'' \<or> t = ''repeat'' then
          rbind (require_array a i (KeyPath ''steps'') (json_get params ''steps'')) (\<lambda>inner.
            case inner of Some arr \<Rightarrow> walk_array a r impls i (KeyPath ''steps'') arr | None \<Rightarrow> Inr ())
        else if t = ''ifs'' then
          (case json_get params ''ifs'' of
             None \<Rightarrow> Inl (NoBranches a i)
           | Some ifs \<Rightarrow>
               (case as_array ifs of
                  None \<Rightarrow> Inl (BranchesNotList a i (json_kind ifs))
                | Some ifs_arr \<Rightarrow>
                    rfold (\<lambda>(branch_idx, branch) _.
                        rbind (check_branch a i (length ifs_arr - 1) branch_idx branch) (\<lambda>_.
                        rbind (require_array a i (ThenPath branch_idx) (json_get branch ''then'')) (\<lambda>then_arr.
                          case then_arr of
                            Some arr \<Rightarrow> walk_array a r impls i (ThenPath branch_idx) arr
                          | None \<Rightarrow> Inr ())))
                      (List.enumerate 0 ifs_arr) ()))
        else if t = ''try'' then
          rfold (\<lambda>key _.
              rbind (require_array a i (KeyPath key) (json_get params key)) (\<lambda>inner.
                case inner of Some arr \<Rightarrow> walk_array a r impls i (KeyPath key) arr | None \<Rightarrow> Inr ()))
            [''try'', ''catch'', ''finally''] ()
        else if t = ''parallel'' then
          (case json_get params ''branches'' of
             None \<Rightarrow> Inr ()
           | Some branches_val \<Rightarrow>
               (case as_array branches_val of
                  None \<Rightarrow> Inl (ParallelNotList a i (json_kind branches_val))
                | Some branches \<Rightarrow>
                    rbind (check_branches (SharedStepId a i) ''id'' branches) (\<lambda>_.
                    rbind (check_branches (SharedVariable a i) ''storeToVariable'' branches) (\<lambda>_.
                      rfold (\<lambda>(branch_idx, branch) _.
                          case as_array branch of
                            None \<Rightarrow> Inl (BranchNotList a i branch_idx)
                          | Some arr \<Rightarrow> walk_array a r impls i (BranchPath branch_idx) arr)
                        (List.enumerate 0 branches) ()))))
        else Inr ()))))"
| "walk_array a r impls step_id path arr =
     rbind (parse_inner a step_id path arr) (\<lambda>parsed. walk_steps a r impls parsed)"
| "walk_steps a r impls sts = rfold (\<lambda>step _. walk_step a r impls step) sts ()"
  by pat_completeness auto
termination
proof (relation "measures
    [\<lambda>x. case x of
        Inl (_, _, _, step) \<Rightarrow> size (st_params step)
      | Inr (Inl (_, _, _, _, _, inner)) \<Rightarrow> size_list size inner
      | Inr (Inr (_, _, _, sts)) \<Rightarrow> sum_list (map (\<lambda>s. Suc (size (st_params s))) sts),
     \<lambda>x. case x of Inl _ \<Rightarrow> 2 | Inr (Inl _) \<Rightarrow> 1 | Inr (Inr _) \<Rightarrow> 0]", goal_cases)
  case (6 a r impls step_id path arr parsed)
  then have "sum_list (map (\<lambda>s. Suc (size (st_params s))) parsed) \<le> size_list size arr"
    by (intro parsed_size [of from_inner_value]) (auto simp: parse_inner_Inr intro: params_le)
  then show ?case by simp linarith
next
  case (7 a r impls sts step s)
  with sum_list_member [of step sts "\<lambda>s. Suc (size (st_params s))"] show ?case by simp
qed (auto dest: require_array_size then_size branch_size)

declare walk_step.simps [simp del] walk_array.simps [simp del] walk_steps.simps [simp del]

definition validate_step_shapes ::
  "string \<Rightarrow> step_def list \<Rightarrow> 'm registry \<Rightarrow> step_type_impl list \<Rightarrow> shape_error + unit" where
  "validate_step_shapes action_name sts r local_impls = walk_steps action_name r local_impls sts"

end
