(* ===== verification/ShapesSpec.thy ===== *)
theory ShapesSpec
  imports StepSpec StepShapes
begin

text \<open>
  What an accepted manifest guarantees the scheduler. The bodies the runtime reads out of a step drop
  entries that do not parse and treat a wrong type as empty; \<open>validate_step_shapes\<close> is what makes that
  harmless. And the branches of a \<open>parallel\<close>, which run on forks of one state, write disjoint results
  and variables.
\<close>

section \<open>The steps the runtime reaches\<close>

text \<open>The arrays the scheduler reads a step's bodies from.\<close>

definition step_bodies :: "step_def \<Rightarrow> json option list" where
  "step_bodies step =
     (let params = st_params step in
      if st_type step = ''for_each'' \<or> st_type step = ''repeat'' then [json_get params ''steps'']
      else if st_type step = ''ifs'' then map (\<lambda>branch. json_get branch ''then'') (get_array params ''ifs'')
      else if st_type step = ''try'' then map (json_get params) [''try'', ''catch'', ''finally'']
      else if st_type step = ''parallel'' then map Some (get_array params ''branches'')
      else [])"

definition nested_steps :: "step_def \<Rightarrow> step_def list" where
  "nested_steps step = concat (map array_to_steps (step_bodies step))"

definition nested :: "(step_def \<times> step_def) set" where
  "nested = {(step, inner). inner \<in> set (nested_steps step)}"

lemma nested_iff: "(step, inner) \<in> nested \<longleftrightarrow> (\<exists>body\<in>set (step_bodies step). inner \<in> set (array_to_steps body))"
  by (simp add: nested_def nested_steps_def)

lemma entries_steps: "array_to_steps body = List.map_filter (\<lambda>v. case from_inner_value v of Inr s \<Rightarrow> Some s | Inl _ \<Rightarrow> None) (array_entries body)"
  by (simp add: array_to_steps_def array_entries_def map_filter_simps split: option.split)

lemma in_entries: "s \<in> set (array_to_steps body) \<longleftrightarrow> (\<exists>v\<in>set (array_entries body). from_inner_value v = Inr s)"
proof -
  have "(case from_inner_value v of Inr s \<Rightarrow> Some s | Inl _ \<Rightarrow> None) = Some s \<longleftrightarrow> from_inner_value v = Inr s" for v
    by (simp split: sum.split)
  then show ?thesis by (simp add: entries_steps map_filter_set)
qed

lemma nested_entries_bodies: "nested_entries (st_type step) (st_params step) = concat (map array_entries (step_bodies step))"
  by (simp add: nested_entries_def step_bodies_def Let_def comp_def)

lemma complete_entries:
  "traverse from_inner_value vs = Inr parsed \<Longrightarrow>
    List.map_filter (\<lambda>v. case from_inner_value v of Inr s \<Rightarrow> Some s | Inl _ \<Rightarrow> None) vs = parsed"
  by (induction vs arbitrary: parsed) (auto simp: rbind_Inr_iff)

section \<open>Nothing is dropped\<close>

definition complete :: "json option \<Rightarrow> bool" where
  "complete body \<longleftrightarrow> traverse from_inner_value (array_entries body) = Inr (array_to_steps body)"

lemma completeI: "traverse from_inner_value (array_entries body) = Inr parsed \<Longrightarrow> complete body"
  using complete_entries by (auto simp: complete_def entries_steps)

definition script_supported :: "'m registry \<Rightarrow> step_type_impl list \<Rightarrow> step_def \<Rightarrow> bool" where
  "script_supported r impls step \<longleftrightarrow>
     (\<exists>language. json_get (st_params step) ''language'' = Some (JString language) \<and> language_has_impl r impls language)"

text \<open>What the walk has checked of one step.\<close>

definition step_checked :: "'m registry \<Rightarrow> step_type_impl list \<Rightarrow> step_def \<Rightarrow> bool" where
  "step_checked r impls step \<longleftrightarrow>
     validate_name KStepId (st_id step) = Inr () \<and> list_all complete (step_bodies step)
     \<and> (st_type step = ''script'' \<longrightarrow> script_supported r impls step)
     \<and> (st_type step = ''parallel'' \<longrightarrow>
          (\<forall>field \<in> {''id'', ''storeToVariable''}.
             \<exists>clash seen. check_branches clash field (get_array (st_params step) ''branches'') = Inr seen))"

lemma rfold_unit_Inr: "rfold f xs () = Inr () \<longleftrightarrow> (\<forall>x\<in>set xs. f x () = Inr ())"
  by (induction xs) (auto simp: rbind_Inr_iff)

lemma checked_array:
  assumes "walk_array a r impls i path arr = Inr ()"
  obtains parsed where "traverse from_inner_value arr = Inr parsed" "walk_steps a r impls parsed = Inr ()"
  using assms by (auto simp: walk_array.simps rbind_Inr_iff parse_inner_Inr)

lemma checked_body:
  assumes "rbind (require_array a i path body) (\<lambda>inner.
      case inner of Some arr \<Rightarrow> walk_array a r impls i path' arr | None \<Rightarrow> Inr ()) = Inr ()"
  shows "complete body \<and> walk_steps a r impls (array_to_steps body) = Inr ()"
proof (cases body)
  case None
  then show ?thesis
    by (simp add: complete_def array_entries_def array_to_steps_def walk_steps.simps)
next
  case (Some v)
  with assms obtain arr where arr: "v = JArray arr" "walk_array a r impls i path' arr = Inr ()"
    by (auto simp: rbind_Inr_iff require_array_def split: option.splits json.splits)
  with arr Some show ?thesis
    using completeI complete_entries
    by (auto elim!: checked_array simp: array_entries_def entries_steps as_array_def complete_def)
qed

lemma checked_list:
  assumes "as_array v = Some arr" "walk_array a r impls i path arr = Inr ()"
  shows "complete (Some v) \<and> walk_steps a r impls (array_to_steps (Some v)) = Inr ()"
  using assms completeI complete_entries
  by (auto elim!: checked_array simp: array_entries_def entries_steps as_array_def complete_def split: json.splits)

text \<open>An accepted step is checked, and so are the steps of its bodies.\<close>

lemma enumerated: "x \<in> set xs \<Longrightarrow> \<exists>n. (n, x) \<in> set (List.enumerate k xs)"
  by (metis enumerate_eq_zip in_set_conv_nth in_set_enumerate_eq length_enumerate nth_enumerate_eq)

lemma walk_checked:
  assumes "walk_step a r impls step = Inr ()"
  shows "step_checked r impls step \<and> list_all (\<lambda>body. walk_steps a r impls (array_to_steps body) = Inr ()) (step_bodies step)"
proof -
  let ?t = "st_type step" and ?params = "st_params step"
  note walked = assms [unfolded walk_step.simps Let_def, simplified rbind_Inr_iff]
  have id: "validate_name KStepId (st_id step) = Inr ()"
    using walked by (auto simp: map_err_def split: sum.splits)
  have script: "script_supported r impls step" if "?t = ''script''"
    using walked that by (auto simp: check_language_def script_supported_def bind_eq_Some_conv as_str_def split: option.splits if_splits json.splits)
  have bodies: "\<forall>body\<in>set (step_bodies step). complete body \<and> walk_steps a r impls (array_to_steps body) = Inr ()"
  proof -
    have "step_bodies step = []" if "?t \<notin> {''for_each'', ''repeat'', ''ifs'', ''try'', ''parallel''}"
      using that by (simp add: step_bodies_def Let_def)
    then consider "?t = ''for_each'' \<or> ?t = ''repeat''" | "?t = ''ifs''" | "?t = ''try''" | "?t = ''parallel''"
      | "step_bodies step = []" by blast
    then show ?thesis
    proof cases
      case 1
      with walked have "rbind (require_array a (st_id step) (KeyPath ''steps'') (json_get ?params ''steps'')) (\<lambda>inner.
          case inner of Some arr \<Rightarrow> walk_array a r impls (st_id step) (KeyPath ''steps'') arr | None \<Rightarrow> Inr ()) = Inr ()"
        by (auto simp: rbind_Inr_iff)
      from checked_body [OF this] 1 show ?thesis by (auto simp: step_bodies_def Let_def)
    next
      case 2
      with walked obtain ifs arr where arr: "json_get ?params ''ifs'' = Some ifs" "as_array ifs = Some arr"
        "rfold (\<lambda>(n, branch) _. rbind (check_branch a (st_id step) (length arr - 1) n branch) (\<lambda>_.
            rbind (require_array a (st_id step) (ThenPath n) (json_get branch ''then'')) (\<lambda>inner.
              case inner of Some arr \<Rightarrow> walk_array a r impls (st_id step) (ThenPath n) arr | None \<Rightarrow> Inr ())))
          (List.enumerate 0 arr) () = Inr ()"
        by (auto split: option.splits)
      have "complete (json_get b ''then'') \<and> walk_steps a r impls (array_to_steps (json_get b ''then'')) = Inr ()"
        if b: "b \<in> set arr" for b
      proof -
        from enumerated [OF b] obtain n where "(n, b) \<in> set (List.enumerate 0 arr)" by blast
        with arr(3) show ?thesis
          by (intro checked_body) (fastforce simp: rfold_unit_Inr rbind_Inr_iff)
      qed
      with 2 arr show ?thesis by (auto simp: step_bodies_def Let_def get_array_def)
    next
      case 3
      with walked have "\<forall>key\<in>{''try'', ''catch'', ''finally''}.
          rbind (require_array a (st_id step) (KeyPath key) (json_get ?params key)) (\<lambda>inner.
            case inner of Some arr \<Rightarrow> walk_array a r impls (st_id step) (KeyPath key) arr | None \<Rightarrow> Inr ()) = Inr ()"
        by (auto simp: rbind_Inr_iff)
      with 3 show ?thesis by (auto simp: step_bodies_def Let_def dest!: checked_body)
    next
      case 4
      show ?thesis
      proof (cases "json_get ?params ''branches''")
        case (Some v)
        with walked 4 obtain arr where arr: "as_array v = Some arr"
          "rfold (\<lambda>(n, branch) _. case as_array branch of
              None \<Rightarrow> Inl (BranchNotList a (st_id step) n)
            | Some arr \<Rightarrow> walk_array a r impls (st_id step) (BranchPath n) arr)
            (List.enumerate 0 arr) () = Inr ()"
          by (auto simp: rbind_Inr_iff split: option.splits)
        have "complete (Some b) \<and> walk_steps a r impls (array_to_steps (Some b)) = Inr ()" if b: "b \<in> set arr" for b
        proof -
          from enumerated [OF b] obtain n where "(n, b) \<in> set (List.enumerate 0 arr)" by blast
          with arr(2) obtain inner where "as_array b = Some inner" "walk_array a r impls (st_id step) (BranchPath n) inner = Inr ()"
            by (fastforce simp: rfold_unit_Inr split: option.splits)
          then show ?thesis by (rule checked_list)
        qed
        with 4 arr Some show ?thesis by (auto simp: step_bodies_def Let_def get_array_def)
      qed (use 4 in \<open>simp add: step_bodies_def Let_def get_array_def\<close>)
    qed simp
  qed
  have "\<exists>clash seen. check_branches clash field (get_array ?params ''branches'') = Inr seen"
    if "?t = ''parallel''" "field \<in> {''id'', ''storeToVariable''}" for field
  proof (cases "json_get ?params ''branches''")
    case None
    then show ?thesis by (simp add: get_array_def check_branches_def)
  next
    case (Some v)
    with walked that obtain arr where "as_array v = Some arr"
      "\<exists>seen. check_branches (SharedStepId a (st_id step)) ''id'' arr = Inr seen"
      "\<exists>seen. check_branches (SharedVariable a (st_id step)) ''storeToVariable'' arr = Inr seen"
      by (auto simp: rbind_Inr_iff split: option.splits)
    with Some that(2) show ?thesis by (auto simp: get_array_def)
  qed
  with id script bodies show ?thesis
    by (auto simp: step_checked_def list_all_iff)
qed

lemma walked_reach:
  assumes "walk_steps a r impls sts = Inr ()" "first \<in> set sts" "(first, step) \<in> nested\<^sup>*"
  shows "walk_step a r impls step = Inr ()"
  using assms(3)
proof (induction rule: rtrancl_induct)
  case base
  from assms(1,2) show ?case by (simp add: walk_steps.simps rfold_unit_Inr)
next
  case (step y z)
  then obtain body where "body \<in> set (step_bodies y)" "z \<in> set (array_to_steps body)" by (auto simp: nested_iff)
  with walk_checked [OF step.IH] show ?case by (auto simp: list_all_iff walk_steps.simps rfold_unit_Inr)
qed


section \<open>Branches of a parallel step\<close>

lemma claim_values_Inr:
  "claim_values clash i vs seen = Inr seen' \<Longrightarrow>
    (\<forall>v\<in>set vs. table_get seen' v = Some i) \<and> (\<forall>v n. table_get seen v = Some n \<longrightarrow> table_get seen' v = Some n)"
proof (induction vs arbitrary: seen)
  case (Cons v vs)
  then obtain mid where mid: "claim_values clash i vs mid = Inr seen'"
    "mid = (case table_get seen v of Some _ \<Rightarrow> seen | None \<Rightarrow> table_insert v i seen)"
    "table_get seen v \<in> {None, Some i}"
    by (auto simp: claim_values_def rbind_Inr_iff split: option.splits if_splits)
  from mid(2,3) have "table_get mid v = Some i" "\<forall>w n. table_get seen w = Some n \<longrightarrow> table_get mid w = Some n"
    by (auto simp: table_get_insert split: option.splits)
  with Cons.IH [OF mid(1)] show ?case by auto
qed (simp add: claim_values_def)

lemma check_branches_Inr:
  assumes "check_branches clash field branches = Inr seen" "i < length branches"
    "v \<in> set (concat (map (collect_step_field field) (array_entries (Some (branches ! i)))))"
  shows "table_get seen v = Some i"
proof -
  let ?vals = "\<lambda>b. concat (map (collect_step_field field) (array_entries (Some b)))"
  have "rfold (\<lambda>(n, b) seen. claim_values clash n (?vals b) seen) ibs before = Inr seen' \<Longrightarrow>
      (\<forall>(n, b)\<in>set ibs. \<forall>v\<in>set (?vals b). table_get seen' v = Some n)
      \<and> (\<forall>v n. table_get before v = Some n \<longrightarrow> table_get seen' v = Some n)" for ibs before seen'
  proof (induction ibs arbitrary: before)
    case (Cons ib ibs)
    obtain n b where ib: "ib = (n, b)" by force
    with Cons.prems obtain mid where mid: "claim_values clash n (?vals b) before = Inr mid"
      "rfold (\<lambda>(n, b) seen. claim_values clash n (?vals b) seen) ibs mid = Inr seen'"
      by (auto simp: rbind_Inr_iff)
    from claim_values_Inr [OF mid(1)] Cons.IH [OF mid(2)] show ?case by (auto simp: ib)
  qed simp
  from this [OF assms(1) [unfolded check_branches_def]]
  have "\<forall>(n, b)\<in>set (List.enumerate 0 branches). \<forall>v\<in>set (?vals b). table_get seen v = Some n" by (rule conjunct1)
  moreover have "(i, branches ! i) \<in> set (List.enumerate 0 branches)"
    using assms(2) by (simp add: in_set_enumerate_eq)
  ultimately have "\<forall>v\<in>set (?vals (branches ! i)). table_get seen v = Some i" by fast
  with assms(3) show ?thesis by blast
qed

text \<open>What a parsed step's object says of its strings.\<close>

lemma visit_fields_string:
  assumes "\<And>k' v f g. visit_field k' v f = Inr g \<Longrightarrow> k' \<noteq> k \<Longrightarrow> pr g = pr f"
    and "\<And>v f g x. visit_field k v f = Inr g \<Longrightarrow> pr g = Some x \<Longrightarrow> as_str v = Some x"
  shows "visit_fields m f = Inr g \<Longrightarrow> distinct (map fst m) \<Longrightarrow> pr f = None \<Longrightarrow> pr g = Some x \<Longrightarrow>
    Option.bind (map_of m k) as_str = Some x"
proof -
  have keep: "visit_fields m f = Inr g \<Longrightarrow> k \<notin> fst ` set m \<Longrightarrow> pr g = pr f" for m f
    by (induction m arbitrary: f) (auto simp: rbind_Inr_iff assms(1))
  show "visit_fields m f = Inr g \<Longrightarrow> distinct (map fst m) \<Longrightarrow> pr f = None \<Longrightarrow> pr g = Some x \<Longrightarrow>
    Option.bind (map_of m k) as_str = Some x"
  proof (induction m arbitrary: f)
    case (Cons e m)
    obtain k' v where e: "e = (k', v)" by force
    with Cons.prems(1) obtain h where h: "visit_field k' v f = Inr h" "visit_fields m h = Inr g"
      by (auto simp: rbind_Inr_iff)
    show ?case
    proof (cases "k' = k")
      case True
      with Cons.prems e have "pr g = pr h" by (intro keep [OF h(2)]) simp
      with True e h(1) Cons.prems(4) assms(2) show ?thesis by simp
    next
      case False
      with h e Cons.prems assms(1) [OF h(1)] show ?thesis using Cons.IH [OF h(2)] by simp
    qed
  qed simp
qed

lemma visit_id:
  "visit_field k v f = Inr g \<Longrightarrow> k \<noteq> ''id'' \<Longrightarrow> fi_id g = fi_id f"
  "visit_field ''id'' v f = Inr g \<Longrightarrow> fi_id g = Some x \<Longrightarrow> as_str v = Some x"
  by (auto simp: visit_field_def as_str_def split: if_splits json.splits option.splits)

lemma visit_type:
  "visit_field k v f = Inr g \<Longrightarrow> k \<noteq> ''type'' \<Longrightarrow> fi_type g = fi_type f"
  "visit_field ''type'' v f = Inr g \<Longrightarrow> fi_type g = Some x \<Longrightarrow> as_str v = Some x"
  by (auto simp: visit_field_def as_str_def split: if_splits json.splits option.splits)

lemma visit_store:
  "visit_field k v f = Inr g \<Longrightarrow> k \<noteq> ''storeToVariable'' \<Longrightarrow> fi_store g = fi_store f"
  "visit_field ''storeToVariable'' v f = Inr g \<Longrightarrow> fi_store g = Some x \<Longrightarrow> as_str v = Some x"
  by (auto simp: visit_field_def as_str_def split: if_splits json.splits option.splits)

lemma parsed_strings:
  assumes "from_inner_value v = Inr s" "json_wf v"
  shows "Option.bind (json_get v ''id'') as_str = Some (st_id s)"
    "Option.bind (json_get v ''type'') as_str = Some (st_type s)"
    "st_store_to_variable s = Some x \<Longrightarrow> Option.bind (json_get v ''storeToVariable'') as_str = Some x"
proof -
  obtain m f0 where m: "v = JObject m" and f0: "visit_fields m no_fields = Inr f0"
    using assms(1) by (auto elim: from_inner_object)
  define f where "f = f0"
  have f: "visit_fields m no_fields = Inr f" "fi_id f = Some (st_id s)" "fi_type f = Some (st_type s)"
    "fi_store f = st_store_to_variable s"
    using assms(1) by (auto simp: m f0 f_def from_inner_value_def split: option.splits)
  from assms(2) have d: "distinct (map fst m)" by (simp add: m keys_sorted_distinct)
  show "Option.bind (json_get v ''id'') as_str = Some (st_id s)"
    using visit_fields_string [of "''id''" fi_id, OF visit_id f(1) d _ f(2)]
    by (simp add: m json_get_def obj_get_def no_fields_def)
  show "Option.bind (json_get v ''type'') as_str = Some (st_type s)"
    using visit_fields_string [of "''type''" fi_type, OF visit_type f(1) d _ f(3)]
    by (simp add: m json_get_def obj_get_def no_fields_def)
  show "Option.bind (json_get v ''storeToVariable'') as_str = Some x" if "st_store_to_variable s = Some x"
    using visit_fields_string [of "''storeToVariable''" fi_store, OF visit_store f(1) d _ f(4) [unfolded that]]
    by (simp add: m json_get_def obj_get_def no_fields_def)
qed

lemma member_wf: "json_wf v \<Longrightarrow> json_get v k = Some w \<Longrightarrow> json_wf w"
  by (cases v) (auto simp: json_get_def list_all_iff dest!: obj_get_set)

lemma element_wf: "json_wf v \<Longrightarrow> as_array v = Some xs \<Longrightarrow> w \<in> set xs \<Longrightarrow> json_wf w"
  by (cases v) (auto simp: as_array_def list_all_iff)

lemma entries_wf: "(\<And>w. v = Some w \<Longrightarrow> json_wf w) \<Longrightarrow> x \<in> set (array_entries v) \<Longrightarrow> json_wf x"
  by (cases v) (auto simp: array_entries_def dest: element_wf [OF _ sym] split: option.splits)

lemma listed_wf: "json_wf v \<Longrightarrow> w \<in> set (get_array v k) \<Longrightarrow> json_wf w"
  by (cases "Option.bind (json_get v k) as_array")
    (auto simp: get_array_def bind_eq_Some_conv intro: element_wf member_wf)

lemma body_wf:
  assumes "json_wf (st_params step)" "body \<in> set (step_bodies step)" "v \<in> set (array_entries body)"
  shows "json_wf v"
proof (rule entries_wf [OF _ assms(3)])
  fix w assume "body = Some w"
  with assms(1,2) show "json_wf w"
    by (auto simp: step_bodies_def Let_def dest: member_wf [OF _ sym] listed_wf split: if_splits)
qed

lemma parsed_params:
  assumes "from_inner_value v = Inr s" "json_wf v"
  shows "st_params s = (case json_get v ''params'' of Some p \<Rightarrow> p | None \<Rightarrow> empty_object)" "json_wf (st_params s)"
proof -
  obtain m where m: "v = JObject m" using assms(1) by (auto elim: from_inner_object)
  with assms show p: "st_params s = (case json_get v ''params'' of Some p \<Rightarrow> p | None \<Rightarrow> empty_object)"
    using inner_step_params [of m s] by (simp add: json_get_def)
  show "json_wf (st_params s)"
    using member_wf [OF assms(2)] by (auto simp: p empty_object_def keys_sorted_def split: option.split)
qed

lemma reached_fields:
  assumes "(s, x) \<in> nested\<^sup>*" "from_inner_value e = Inr s" "json_wf e"
  shows "st_id x \<in> set (collect_step_field ''id'' e)
    \<and> (\<forall>w. st_store_to_variable x = Some w \<longrightarrow> w \<in> set (collect_step_field ''storeToVariable'' e))"
  using assms
proof (induction arbitrary: e rule: converse_rtrancl_induct)
  case base
  then show ?case using parsed_strings [OF base] by (auto simp: collect_step_field.simps [of _ e])
next
  case (step s t)
  then obtain body v where v: "body \<in> set (step_bodies s)" "v \<in> set (array_entries body)" "from_inner_value v = Inr t"
    by (auto simp: nested_iff in_entries)
  have "json_wf v" using body_wf [OF parsed_params(2) [OF step.prems] v(1,2)] .
  with step.IH v(3) have IH: "st_id x \<in> set (collect_step_field ''id'' v)"
    "\<forall>w. st_store_to_variable x = Some w \<longrightarrow> w \<in> set (collect_step_field ''storeToVariable'' v)" by blast+
  have in_entries: "v \<in> set (nested_entries (st_type s) (st_params s))"
    using v(1,2) by (auto simp: nested_entries_bodies)
  then have "st_params s \<noteq> empty_object"
    by (auto simp: nested_entries_def empty_object_def get_array_def array_entries_def json_get_def obj_get_def
        split: if_splits)
  with parsed_params(1) [OF step.prems] obtain p where "json_get e ''params'' = Some p" "st_params s = p"
    by (auto split: option.splits)
  with in_entries parsed_strings(2) [OF step.prems]
  have "set (collect_step_field field v) \<subseteq> set (collect_step_field field e)" for field
    by (auto simp: collect_step_field.simps [of field e])
  with IH show ?case by blast
qed


section \<open>The properties at work\<close>

definition fork_step :: step_def where
  "fork_step = step_def_new ''f'' ''parallel'' (JObject [(''branches'', JArray
     [JArray [JObject [(''id'', JString ''x''), (''type'', JString ''let'')]],
      JArray [JObject [(''id'', JString ''y''), (''type'', JString ''let'')]]])])"

lemma fork_accepted: "validate_step_shapes ''a'' [fork_step] (registry_new :: unit registry) [] = Inr ()"
  unfolding validate_step_shapes_def by code_simp



end
