(* ===== verification/Spi.thy ===== *)
theory Spi
  imports Dispatch
begin

text \<open>
  Role contracts: the definitions of \<open>src/spi/definition.rs\<close>, the registry of
  \<open>src/spi/loader.rs\<close> and the validator of \<open>src/spi/validator.rs\<close>. Reading a definition from its JSON
  text is serde's, an argument of \<open>spi_register\<close>; a derived \<open>PartialEq\<close> is equality of the records,
  except that maps compare by content (\<open>same_map\<close>).
\<close>

section \<open>Definitions\<close>

record spi_action =
  sa_description :: "string option"
  sa_input :: json
  sa_output :: json
  sa_optional :: bool

record spi_definition =
  sp_format_version :: "32 word option"
  sp_name :: string
  sp_display_name :: "string option"
  sp_version :: "string option"
  sp_description :: "string option"
  sp_actions :: "(string \<times> spi_action) list"
  sp_definitions :: "(string \<times> json) list"
  sp_stream_event_shape :: "json option"

text \<open>\<open>IndexMap\<close> equality ignores the order of the entries.\<close>

definition same_map :: "('k \<times> 'v) list \<Rightarrow> ('k \<times> 'v) list \<Rightarrow> bool" where
  "same_map m m' \<longleftrightarrow>
     length m = length m' \<and> list_all (\<lambda>(k, v). map_of m' k = Some v) m"

definition same_definition :: "spi_definition \<Rightarrow> spi_definition \<Rightarrow> bool" where
  "same_definition d d' \<longleftrightarrow>
     sp_format_version d = sp_format_version d' \<and> sp_name d = sp_name d'
     \<and> sp_display_name d = sp_display_name d' \<and> sp_version d = sp_version d'
     \<and> sp_description d = sp_description d' \<and> same_map (sp_actions d) (sp_actions d')
     \<and> same_map (sp_definitions d) (sp_definitions d')
     \<and> sp_stream_event_shape d = sp_stream_event_shape d'"

section \<open>The registry\<close>

type_synonym spi_registry = "(string, spi_definition) table"

datatype spi_error = Unreadable string string | Conflicting string

definition spi_register ::
  "(string \<Rightarrow> string + spi_definition) \<Rightarrow> string \<Rightarrow> string \<Rightarrow> spi_registry \<Rightarrow> (spi_error + unit) \<times> spi_registry" where
  "spi_register read_spi role json r =
     (case read_spi json of
        Inl e \<Rightarrow> (Inl (Unreadable role e), r)
      | Inr d \<Rightarrow>
          (case table_get r role of
             Some existing \<Rightarrow>
               if same_definition existing d then (Inr (), r) else (Inl (Conflicting role), r)
           | None \<Rightarrow> (Inr (), table_insert role d r)))"

definition spi_resolve :: "spi_registry \<Rightarrow> string \<Rightarrow> string \<Rightarrow> (string \<times> spi_definition) option" where
  "spi_resolve r namespace role =
     (let keys = map (\<lambda>ns. qualify ns role) (ancestor_namespaces namespace)
      in map_option (\<lambda>key. (key, the (table_get r key))) (List.find (\<lambda>key. table_get r key \<noteq> None) keys))"

definition spi_roles :: "spi_registry \<Rightarrow> string list" where
  "spi_roles r = map fst r"

definition spi_unregister :: "string \<Rightarrow> spi_registry \<Rightarrow> bool \<times> spi_registry" where
  "spi_unregister role r = (table_get r role \<noteq> None, table_remove role r)"

section \<open>The validator\<close>

datatype validation_error = MissingAction string string

datatype validation_warning = UnknownRole string

record validation_result =
  va_plugin_name :: string
  va_errors :: "validation_error list"
  va_warnings :: "validation_warning list"
  va_extra_actions :: "string list"

definition is_valid :: "validation_result \<Rightarrow> bool" where
  "is_valid v \<longleftrightarrow> va_errors v = []"

definition check_required_actions :: "plugin_manifest \<Rightarrow> string \<Rightarrow> spi_definition \<Rightarrow> validation_error list" where
  "check_required_actions m role spi =
     List.map_filter (\<lambda>(name, a).
         if sa_optional a then None
         else if map_of (pm_actions m) name \<noteq> None then None
         else Some (MissingAction role name))
       (sp_actions spi)"

definition extra_actions :: "plugin_manifest \<Rightarrow> spi_definition list \<Rightarrow> string list" where
  "extra_actions m resolved =
     (if resolved = [] then []
      else filter (\<lambda>name. \<not> list_ex (\<lambda>spi. map_of (sp_actions spi) name \<noteq> None) resolved)
             (map fst (pm_actions m)))"

text \<open>The loop over the roles, with its three vectors.\<close>

fun validate_roles ::
  "plugin_manifest \<Rightarrow> string \<Rightarrow> spi_registry \<Rightarrow> string list \<Rightarrow>
    validation_error list \<times> validation_warning list \<times> spi_definition list \<Rightarrow>
    validation_error list \<times> validation_warning list \<times> spi_definition list" where
  "validate_roles m namespace r [] acc = acc"
| "validate_roles m namespace r (role # roles) (errors, warnings, resolved) =
     (case spi_resolve r namespace role of
        Some (_, spi) \<Rightarrow>
          validate_roles m namespace r roles
            (errors @ check_required_actions m role spi, warnings, resolved @ [spi])
      | None \<Rightarrow> validate_roles m namespace r roles (errors, warnings @ [UnknownRole role], resolved))"

definition validate_manifest :: "plugin_manifest \<Rightarrow> string \<Rightarrow> spi_registry \<Rightarrow> validation_result" where
  "validate_manifest m namespace r =
     (case validate_roles m namespace r (pm_roles m) ([], [], []) of
        (errors, warnings, resolved) \<Rightarrow>
          \<lparr>va_plugin_name = pm_name m, va_errors = errors, va_warnings = warnings,
           va_extra_actions = extra_actions m resolved\<rparr>)"

section \<open>Properties\<close>

text \<open>A role resolves to the nearest definition up the chain of the namespace.\<close>

lemma spi_resolve_iff:
  "spi_resolve r namespace role = Some (key, d) \<longleftrightarrow>
     (\<exists>lower ns upper. ancestor_namespaces namespace = lower @ ns # upper \<and> key = qualify ns role
        \<and> table_get r key = Some d \<and> (\<forall>l\<in>set lower. table_get r (qualify l role) = None))"
proof -
  have "map_option (\<lambda>key. (key, the (table_get r key)))
      (List.find (\<lambda>key. table_get r key \<noteq> None) (map (\<lambda>ns. qualify ns role) nss)) = Some (key, d)
    \<longleftrightarrow> (\<exists>lower ns upper. nss = lower @ ns # upper \<and> key = qualify ns role
        \<and> table_get r key = Some d \<and> (\<forall>l\<in>set lower. table_get r (qualify l role) = None))" (is "?find nss \<longleftrightarrow> ?near nss")
    for nss
  proof (induction nss)
    case (Cons n nss)
    show ?case
    proof (cases "table_get r (qualify n role)")
      case None
      have "?near (n # nss) \<longleftrightarrow> ?near nss"
      proof
        assume "?near (n # nss)"
        then obtain lower ns upper where *: "n # nss = lower @ ns # upper" "key = qualify ns role"
          "table_get r key = Some d" "\<forall>l\<in>set lower. table_get r (qualify l role) = None" by blast
        with None obtain l where "lower = n # l" by (cases lower) auto
        with * show "?near nss" by auto
      next
        assume "?near nss"
        then obtain lower ns upper where *: "nss = lower @ ns # upper" "key = qualify ns role"
          "table_get r key = Some d" "\<forall>l\<in>set lower. table_get r (qualify l role) = None" by blast
        with None show "?near (n # nss)"
          by (intro exI [of _ "n # lower"] exI [of _ ns] exI [of _ upper]) simp
      qed
      with Cons None show ?thesis by simp
    next
      case (Some d')
      have "?near (n # nss) \<longleftrightarrow> key = qualify n role \<and> d = d'"
      proof
        assume "?near (n # nss)"
        then obtain lower ns upper where *: "n # nss = lower @ ns # upper" "key = qualify ns role"
          "table_get r key = Some d" "\<forall>l\<in>set lower. table_get r (qualify l role) = None" by blast
        with Some have "lower = []" by (cases lower) auto
        with * Some show "key = qualify n role \<and> d = d'" by simp
      next
        assume "key = qualify n role \<and> d = d'"
        with Some show "?near (n # nss)"
          by (intro exI [of _ "[]"] exI [of _ n] exI [of _ nss]) simp
      qed
      with Some show ?thesis by auto
    qed
  qed simp
  then show ?thesis by (simp add: spi_resolve_def)
qed

lemma validate_roles_app:
  "validate_roles m namespace r roles (es, ws, ds) =
     (es @ concat (map (\<lambda>role. case spi_resolve r namespace role of
            Some (_, spi) \<Rightarrow> check_required_actions m role spi | None \<Rightarrow> []) roles),
      ws @ map UnknownRole (filter (\<lambda>role. spi_resolve r namespace role = None) roles),
      ds @ List.map_filter (\<lambda>role. map_option snd (spi_resolve r namespace role)) roles)"
  by (induction roles arbitrary: es ws ds)
    (auto simp: List.map_filter_def split: option.splits)

lemma in_resolved:
  "x \<in> set (case found of Some (_, d) \<Rightarrow> f d | None \<Rightarrow> []) \<longleftrightarrow> (\<exists>key d. found = Some (key, d) \<and> x \<in> set (f d))"
  by (cases found) auto

lemma required_missing:
  "MissingAction role' name \<in> set (check_required_actions m role spi) \<longleftrightarrow>
     role' = role \<and> (\<exists>a. (name, a) \<in> set (sp_actions spi) \<and> \<not> sa_optional a) \<and> map_of (pm_actions m) name = None"
  by (force simp: check_required_actions_def List.map_filter_def split: if_splits)


end
