(* ===== verification/Registration.thy ===== *)
theory Registration
  imports Spi StepShapes
begin

text \<open>
  Registering a plugin: \<open>Kernel::register_plugin_in_as\<close> of \<open>src/kernel/mod.rs\<close> with
  \<open>prepare_step_types\<close> and the gates on step type slots and native bodies, and the import table of
  \<open>src/kernel/runtime.rs\<close>. Every check comes first (\<open>prepare_registration\<close>), then the commit, which
  cannot fail. Decoding base64, compiling wasm and the order of a hash map's keys are arguments.
\<close>

section \<open>State\<close>

datatype ('b, 'i) linker_import = NativeImport 'b | IntrinsicImport 'i | AliasDispatcher

record native_impl_binding =
  nb_binder :: string
  nb_impl_ref :: string

datatype manifest_payload = SpiPayload string | PluginPayload plugin_manifest

record manifest_record =
  mr_identifier :: string
  mr_namespace :: string
  mr_payload :: manifest_payload
  mr_immutable :: bool

text \<open>The fields of \<open>Kernel\<close> that the manifest lifecycle reads or changes, and the runtime's imports.\<close>

record ('m, 'b, 'i) catalogue =
  ct_registry :: "'m registry"
  ct_spi :: spi_registry
  ct_native :: "(string, 'b) table"
  ct_intrinsic :: "(string, 'i) table"
  ct_trusted :: "string list"
  ct_bindings :: "native_impl_binding list"
  ct_categories :: "app_permission_category list"
  ct_next_id :: "64 word"
  ct_manifests :: "(64 word, manifest_record) table"
  ct_role_users :: "(string, 64 word list) table"
  ct_import_owners :: "(string, string) table"
  ct_imports :: "(string, ('b, 'i) linker_import) table"

record 'm toolchain =
  tc_key_order :: "adjacency \<Rightarrow> node_ref list"
  tc_base64 :: "string \<Rightarrow> string + 8 word list"
  tc_compile :: "8 word list \<Rightarrow> string + 'm"

section \<open>Errors\<close>

text \<open>The first string is the plugin; then the values its message prints, in order.\<close>

datatype registration_error =
    BadNamespace name_error
  | UnsupportedFormat string "32 word"
  | BadNames manifest_name_error
  | DuplicateSecret string string
  | NamespacedOverride string string string
  | AlreadyRegistered string
  | ContractBroken string "validation_error list"
  | BadPermission string permission_parse_error
  | BadAlias string alias_name_error
  | AliasTarget string string string
  | AliasTaken string string string string
  | ImportTaken string string string
  | ImportTwice string string
  | DataflowAndContinuous string string
  | DataflowWithoutProducer string string
  | LongRunningOutside string string string
  | ZeroTimeout string string
  | BadPlan string string dag_error
  | BadShape string shape_error
  | BadBase64 string string string
  | PathModuleGiven string string
  | CompileFailed string string string
  | BadInvoke string invoke_cycle_error
  | BadReference string declared_reference_error
  | CycleCheckPanicked
  | ReservedResult string string
  | DefTaken string string string
  | DefTwice string string
  | NoContract string string
  | ClaimUndeclared string string "string option" "string option"
  | ClaimUntrusted string string "string option" "string option"
  | SlotTwice string string "string option"
  | NoWasmModule string string
  | WasmWithImplRef string string
  | UndeclaredModule string string string
  | SlotTaken string string "string option" string string
  | NoImplRef string string step_type_impl_kind
  | ImplRefWithModule string string step_type_impl_kind
  | ImplRefWithMatches string string step_type_impl_kind
  | BindUndeclared string string string "string option"
  | BindUnauthorised string string string "string option"
  | NoNativeBody string string string
  | NoIntrinsicBody string string string

section \<open>The import table\<close>

definition import_name :: "string \<Rightarrow> string" where
  "import_name key = ''step_'' @ key"

text \<open>\<open>upsert_import\<close> replaces in place or appends, which is what \<open>table_insert\<close> does.\<close>

definition upsert_import ::
  "string \<Rightarrow> ('b, 'i) linker_import \<Rightarrow> (string, ('b, 'i) linker_import) table \<Rightarrow> (string, ('b, 'i) linker_import) table" where
  "upsert_import key body t = table_insert (import_name key) body t"

definition remove_step_type ::
  "string \<Rightarrow> (string, ('b, 'i) linker_import) table \<Rightarrow> (string, ('b, 'i) linker_import) table" where
  "remove_step_type key t = table_remove (import_name key) t"

section \<open>Gates on the manifest\<close>

definition supported_format_version :: "32 word" where "supported_format_version = 1"

definition check_format :: "plugin_manifest \<Rightarrow> registration_error + unit" where
  "check_format m =
     (case pm_format_version m of
        Some v \<Rightarrow> if v \<noteq> supported_format_version then Inl (UnsupportedFormat (pm_name m) v) else Inr ()
      | None \<Rightarrow> Inr ())"

fun first_repeated :: "string list \<Rightarrow> string list \<Rightarrow> string option" where
  "first_repeated seen [] = None"
| "first_repeated seen (k # ks) = (if k \<in> set seen then Some k else first_repeated (k # seen) ks)"

definition check_uses_secrets :: "string \<Rightarrow> plugin_manifest \<Rightarrow> registration_error + unit" where
  "check_uses_secrets namespace m =
     (case first_repeated [] (map se_key (pm_uses_secrets m)) of
        Some dup \<Rightarrow> Inl (DuplicateSecret (pm_name m) dup)
      | None \<Rightarrow>
          (case (if namespace \<noteq> [] then List.find se_overridable (pm_uses_secrets m) else None) of
             Some marked \<Rightarrow> Inl (NamespacedOverride (pm_name m) (se_key marked) namespace)
           | None \<Rightarrow> Inr ()))"

definition check_alias ::
  "('m, 'b, 'i) catalogue \<Rightarrow> plugin_manifest \<Rightarrow> string \<Rightarrow> bool \<Rightarrow> string \<times> string \<Rightarrow> registration_error + unit" where
  "check_alias c m local_name kernel_owned entry =
     (case entry of (alias_name, target) \<Rightarrow>
        rbind (map_err (BadAlias (pm_name m)) (validate_step_type_alias alias_name local_name kernel_owned)) (\<lambda>_.
          if map_of (pm_actions m) target = None then Inl (AliasTarget (pm_name m) alias_name target)
          else case step_type_alias_candidates (ct_registry c) (step_type_key (pm_name m) alias_name) of
                 (owner, owner_action) # _ \<Rightarrow> Inl (AliasTaken (pm_name m) alias_name owner owner_action)
               | [] \<Rightarrow> Inr ()))"

text \<open>Native and intrinsic implementations and aliases, the step types that take a linker import.\<close>

definition linked_names :: "plugin_manifest \<Rightarrow> string list" where
  "linked_names m =
     map si_step_type (filter (\<lambda>d. si_kind d \<noteq> WasmImpl) (pm_step_type_impls m)) @ map fst (pm_step_types m)"

definition check_imports :: "('m, 'b, 'i) catalogue \<Rightarrow> plugin_manifest \<Rightarrow> registration_error + string list" where
  "check_imports c m =
     rfold (\<lambda>name pending.
         let key = step_type_key (pm_name m) name
         in case table_get (ct_import_owners c) key of
              Some owner \<Rightarrow>
                if owner \<noteq> pm_name m then Inl (ImportTaken (pm_name m) name owner)
                else if key \<in> set pending then Inl (ImportTwice (pm_name m) name)
                else Inr (key # pending)
            | None \<Rightarrow>
                if key \<in> set pending then Inl (ImportTwice (pm_name m) name) else Inr (key # pending))
       (linked_names m) []"

definition check_flags :: "string \<Rightarrow> string \<times> action \<Rightarrow> registration_error + unit" where
  "check_flags plugin entry =
     (case entry of (action_name, a) \<Rightarrow>
        if act_dataflow a \<and> act_continuous a then Inl (DataflowAndContinuous plugin action_name)
        else if act_dataflow a \<and> \<not> list_ex st_long_running (act_steps a)
        then Inl (DataflowWithoutProducer plugin action_name)
        else case (if act_dataflow a then None else List.find st_long_running (act_steps a)) of
               Some step \<Rightarrow> Inl (LongRunningOutside plugin action_name (st_id step))
             | None \<Rightarrow>
                 if act_wallclock_timeout_ms a = Some 0 then Inl (ZeroTimeout plugin action_name) else Inr ())"

definition plan_actions :: "plugin_manifest \<Rightarrow> registration_error + (string \<times> action \<times> dag_plan) list" where
  "plan_actions m =
     traverse (\<lambda>(action_name, a).
         rbind (map_err (BadPlan (pm_name m) action_name) (build_plan a)) (\<lambda>plan. Inr (action_name, a, plan)))
       (pm_actions m)"

definition check_shapes :: "('m, 'b, 'i) catalogue \<Rightarrow> plugin_manifest \<Rightarrow> registration_error + unit" where
  "check_shapes c m =
     rfold (\<lambda>(action_name, a) _.
         map_err (BadShape (pm_name m))
           (validate_step_shapes action_name (act_steps a) (ct_registry c) (pm_step_type_impls m)))
       (pm_actions m) ()"

definition compile_modules :: "'m toolchain \<Rightarrow> plugin_manifest \<Rightarrow> registration_error + (string \<times> 'm) list" where
  "compile_modules tc m =
     traverse (\<lambda>(module_name, spec).
         case spec of
           PathModule _ \<Rightarrow> Inl (PathModuleGiven (pm_name m) module_name)
         | InlineModule encoded \<Rightarrow>
             rbind (map_err (BadBase64 (pm_name m) module_name) (tc_base64 tc encoded)) (\<lambda>bytes.
             rbind (map_err (CompileFailed (pm_name m) module_name) (tc_compile tc bytes)) (\<lambda>compiled.
               Inr (module_name, compiled))))
       (pm_wasm_modules m)"

section \<open>The invoke graph of the new plugin\<close>

definition manifest_aliases :: "('m, 'b, 'i) catalogue \<Rightarrow> plugin_manifest \<Rightarrow> alias_resolver" where
  "manifest_aliases c m alias_name =
     (case map_of (pm_step_types m) alias_name of
        Some target \<Rightarrow> Some (pm_name m, target)
      | None \<Rightarrow>
          if step_type_separator \<notin> set alias_name then None
          else
            (case concat (map (\<lambda>ns. step_type_alias_candidates (ct_registry c) (qualify ns alias_name))
                     (ancestor_namespaces (namespace_of (pm_name m)))) of
               found # _ \<Rightarrow> Some found
             | [] \<Rightarrow> None))"

text \<open>A later definition of one name replaces an earlier one in the map built from the list.\<close>

definition manifest_defs :: "('m, 'b, 'i) catalogue \<Rightarrow> plugin_manifest \<Rightarrow> string \<Rightarrow> step_type_def option" where
  "manifest_defs c m step_type =
     (case map_of (rev (map (\<lambda>d. (sd_name d, d)) (pm_step_type_defs m))) step_type of
        Some d \<Rightarrow> Some d
      | None \<Rightarrow> map_option snd (get_step_type_def (ct_registry c) step_type))"

definition manifest_action_exists :: "('m, 'b, 'i) catalogue \<Rightarrow> plugin_manifest \<Rightarrow> string \<Rightarrow> string \<Rightarrow> bool" where
  "manifest_action_exists c m target_plugin target_action \<longleftrightarrow>
     (if target_plugin = pm_name m then map_of (pm_actions m) target_action \<noteq> None
      else get_action (ct_registry c) target_plugin target_action \<noteq> None)"

definition manifest_edges ::
  "('m, 'b, 'i) catalogue \<Rightarrow> plugin_manifest \<Rightarrow> (string \<times> action \<times> dag_plan) list \<Rightarrow>
    registration_error + invoke_edge list" where
  "manifest_edges c m planned =
     rbind (rfold (\<lambda>(action_name, a, _) edges.
         rbind (map_err (BadInvoke (pm_name m)) (collect_edges (pm_name m) action_name a (manifest_aliases c m)))
           (\<lambda>new. Inr (edges @ new))) planned [])
       (\<lambda>edges.
          rfold (\<lambda>(action_name, a, _) edges.
              rbind (map_err (BadReference (pm_name m))
                  (collect_declared_references (pm_name m) action_name a (manifest_defs c m)
                     (\<lambda>name. name = pm_name m \<or> has_plugin (ct_registry c) name) (manifest_action_exists c m)))
                (\<lambda>new. Inr (edges @ new))) planned edges)"

definition check_graph ::
  "'m toolchain \<Rightarrow> ('m, 'b, 'i) catalogue \<Rightarrow> plugin_manifest \<Rightarrow> invoke_edge list \<Rightarrow> registration_error + unit" where
  "check_graph tc c m new_edges =
     (case check_acyclic (tc_key_order tc) (rg_invoke_edges (ct_registry c)) new_edges of
        Some r \<Rightarrow> map_err (BadInvoke (pm_name m)) r
      | None \<Rightarrow> Inl CycleCheckPanicked)"

section \<open>Step types\<close>

definition check_native_impl_binding ::
  "('m, 'b, 'i) catalogue \<Rightarrow> string \<Rightarrow> string \<Rightarrow> string \<Rightarrow> permission list \<Rightarrow> registration_error + unit" where
  "check_native_impl_binding c plugin step_type impl_ref permissions =
     (let owns_by_name = (impl_ref_owner impl_ref = Some (local_name_of plugin)) in
      if owns_by_name \<and> namespace_of plugin = [] then Inr ()
      else if \<not> list_ex (\<lambda>p. p = BindNativeImpl impl_ref) permissions
      then Inl (BindUndeclared plugin step_type impl_ref (impl_ref_owner impl_ref))
      else if \<not> list_ex (\<lambda>b. nb_binder b = plugin \<and> nb_impl_ref b = impl_ref) (ct_bindings c)
      then Inl (BindUnauthorised plugin step_type impl_ref (impl_ref_owner impl_ref))
      else Inr ())"

definition check_step_type_impl_claim ::
  "('m, 'b, 'i) catalogue \<Rightarrow> string \<Rightarrow> string \<Rightarrow> string option \<Rightarrow> bool \<Rightarrow> permission list \<Rightarrow>
    registration_error + unit" where
  "check_step_type_impl_claim c plugin step_type matches defines_locally permissions =
     (let owner = map_option fst (get_step_type_def (ct_registry c) (step_type_key plugin step_type)) in
      if defines_locally then Inr ()
      else if \<not> list_ex (\<lambda>p. p = ProvideStepType step_type matches) permissions
      then Inl (ClaimUndeclared plugin step_type matches owner)
      else if plugin \<notin> set (ct_trusted c) then Inl (ClaimUntrusted plugin step_type matches owner)
      else Inr ())"

definition require_impl_ref :: "string \<Rightarrow> step_type_impl \<Rightarrow> registration_error + string" where
  "require_impl_ref plugin decl =
     (case si_impl_ref decl of
        None \<Rightarrow> Inl (NoImplRef plugin (si_step_type decl) (si_kind decl))
      | Some impl_ref \<Rightarrow>
          if si_wasm_module decl \<noteq> None then Inl (ImplRefWithModule plugin (si_step_type decl) (si_kind decl))
          else if si_matches decl \<noteq> None then Inl (ImplRefWithMatches plugin (si_step_type decl) (si_kind decl))
          else Inr impl_ref)"

datatype ('b, 'i) prepared_impl =
    PreparedWasm string "string option" string
  | PreparedNative string 'b
  | PreparedIntrinsic string 'i

definition prepare_wasm ::
  "('m, 'b, 'i) catalogue \<Rightarrow> plugin_manifest \<Rightarrow> step_type_impl \<Rightarrow> registration_error + ('b, 'i) prepared_impl" where
  "prepare_wasm c m decl =
     (let plugin = pm_name m; step_type = si_step_type decl; matches = si_matches decl in
      case si_wasm_module decl of
        None \<Rightarrow> Inl (NoWasmModule plugin step_type)
      | Some wasm_module \<Rightarrow>
          if si_impl_ref decl \<noteq> None then Inl (WasmWithImplRef plugin step_type)
          else if map_of (pm_wasm_modules m) wasm_module = None
          then Inl (UndeclaredModule plugin step_type wasm_module)
          else case step_type_impl_owner (ct_registry c) (step_type_key plugin step_type) matches of
                 Some (owner, owner_module) \<Rightarrow> Inl (SlotTaken plugin step_type matches owner owner_module)
               | None \<Rightarrow> Inr (PreparedWasm step_type matches wasm_module))"

definition prepare_native ::
  "('m, 'b, 'i) catalogue \<Rightarrow> plugin_manifest \<Rightarrow> permission list \<Rightarrow> step_type_impl \<Rightarrow>
    registration_error + ('b, 'i) prepared_impl" where
  "prepare_native c m permissions decl =
     rbind (require_impl_ref (pm_name m) decl) (\<lambda>impl_ref.
     rbind (check_native_impl_binding c (pm_name m) (si_step_type decl) impl_ref permissions) (\<lambda>_.
       case table_get (ct_native c) impl_ref of
         Some body \<Rightarrow> Inr (PreparedNative (si_step_type decl) body)
       | None \<Rightarrow> Inl (NoNativeBody (pm_name m) (si_step_type decl) impl_ref)))"

definition prepare_intrinsic ::
  "('m, 'b, 'i) catalogue \<Rightarrow> plugin_manifest \<Rightarrow> step_type_impl \<Rightarrow> registration_error + ('b, 'i) prepared_impl" where
  "prepare_intrinsic c m decl =
     rbind (require_impl_ref (pm_name m) decl) (\<lambda>impl_ref.
       case table_get (ct_intrinsic c) impl_ref of
         Some body \<Rightarrow> Inr (PreparedIntrinsic (si_step_type decl) body)
       | None \<Rightarrow> Inl (NoIntrinsicBody (pm_name m) (si_step_type decl) impl_ref))"

definition declares_result :: "step_type_def \<Rightarrow> bool" where
  "declares_result d \<longleftrightarrow>
     (case Option.bind (Option.bind (sd_metadata_schema d) (\<lambda>schema. json_get schema ''properties'')) as_object of
        Some props \<Rightarrow> obj_get props ''result'' \<noteq> None
      | None \<Rightarrow> False)"

text \<open>The two loops, each with the names or slots its own manifest has used so far.\<close>

definition prepare_def ::
  "('m, 'b, 'i) catalogue \<Rightarrow> string \<Rightarrow> step_type_def \<Rightarrow> string list \<Rightarrow> registration_error + string list" where
  "prepare_def c plugin d local_defs =
     (if declares_result d then Inl (ReservedResult plugin (sd_name d))
      else case get_step_type_def (ct_registry c) (step_type_key plugin (sd_name d)) of
             Some (owner, _) \<Rightarrow> Inl (DefTaken plugin (sd_name d) owner)
           | None \<Rightarrow>
               if sd_name d \<in> set local_defs then Inl (DefTwice plugin (sd_name d))
               else Inr (sd_name d # local_defs))"

type_synonym ('b, 'i) impl_loop = "(string \<times> string option) list \<times> ('b, 'i) prepared_impl list"

definition prepare_impl ::
  "('m, 'b, 'i) catalogue \<Rightarrow> plugin_manifest \<Rightarrow> permission list \<Rightarrow> string list \<Rightarrow> step_type_impl \<Rightarrow>
    ('b, 'i) impl_loop \<Rightarrow> registration_error + ('b, 'i) impl_loop" where
  "prepare_impl c m permissions local_defs decl acc =
     (let plugin = pm_name m; step_type = si_step_type decl; matches = si_matches decl;
          defines_locally = (step_type \<in> set local_defs)
      in if \<not> defines_locally \<and> get_step_type_def (ct_registry c) (step_type_key plugin step_type) = None
         then Inl (NoContract plugin step_type)
         else
           rbind (check_step_type_impl_claim c plugin step_type matches defines_locally permissions) (\<lambda>_.
             if (step_type, matches) \<in> set (fst acc) then Inl (SlotTwice plugin step_type matches)
             else
               rbind (case si_kind decl of
                        WasmImpl \<Rightarrow> prepare_wasm c m decl
                      | NativeImpl \<Rightarrow> prepare_native c m permissions decl
                      | IntrinsicImpl \<Rightarrow> prepare_intrinsic c m decl)
                 (\<lambda>prepared. Inr ((step_type, matches) # fst acc, snd acc @ [prepared]))))"

definition prepare_step_types ::
  "('m, 'b, 'i) catalogue \<Rightarrow> plugin_manifest \<Rightarrow> permission list \<Rightarrow>
    registration_error + step_type_def list \<times> ('b, 'i) prepared_impl list" where
  "prepare_step_types c m permissions =
     rbind (rfold (prepare_def c (pm_name m)) (pm_step_type_defs m) []) (\<lambda>local_defs.
     rbind (rfold (prepare_impl c m permissions local_defs) (pm_step_type_impls m) ([], [])) (\<lambda>acc.
       Inr (pm_step_type_defs m, snd acc)))"

section \<open>Checks, then the commit\<close>

record ('m, 'b, 'i) prepared_plugin =
  pp_manifest :: plugin_manifest
  pp_permissions :: "permission list"
  pp_planned :: "(string \<times> action \<times> dag_plan) list"
  pp_modules :: "(string \<times> 'm) list"
  pp_edges :: "invoke_edge list"
  pp_defs :: "step_type_def list"
  pp_impls :: "('b, 'i) prepared_impl list"

definition check_names ::
  "('m, 'b, 'i) catalogue \<Rightarrow> string \<Rightarrow> plugin_manifest \<Rightarrow> bool \<Rightarrow> registration_error + unit" where
  "check_names c namespace m kernel_owned =
     rbind (map_err BadNamespace (validate_namespace namespace)) (\<lambda>_.
     rbind (check_format m) (\<lambda>_.
     rbind (map_err BadNames (validate_manifest_names m kernel_owned)) (\<lambda>_.
     rbind (check_uses_secrets namespace m) (\<lambda>_.
       if get_manifest (ct_registry c) (qualify namespace (pm_name m)) \<noteq> None
       then Inl (AlreadyRegistered (qualify namespace (pm_name m))) else Inr ()))))"

text \<open>From here the manifest's name is its identity.\<close>

definition check_contract ::
  "('m, 'b, 'i) catalogue \<Rightarrow> string \<Rightarrow> plugin_manifest \<Rightarrow> registration_error + permission list" where
  "check_contract c namespace m =
     (let validation = validate_manifest m namespace (ct_spi c) in
      if \<not> is_valid validation then Inl (ContractBroken (pm_name m) (va_errors validation))
      else map_err (BadPermission (pm_name m)) (parse_manifest_permissions (pm_permissions m) (ct_categories c)))"

definition check_claims ::
  "('m, 'b, 'i) catalogue \<Rightarrow> plugin_manifest \<Rightarrow> string \<Rightarrow> bool \<Rightarrow> registration_error + unit" where
  "check_claims c m local_name kernel_owned =
     rbind (rfold (\<lambda>entry _. check_alias c m local_name kernel_owned entry) (pm_step_types m) ()) (\<lambda>_.
     rbind (check_imports c m) (\<lambda>_.
       rfold (\<lambda>entry _. check_flags (pm_name m) entry) (pm_actions m) ()))"

definition prepare_registration ::
  "'m toolchain \<Rightarrow> ('m, 'b, 'i) catalogue \<Rightarrow> string \<Rightarrow> plugin_manifest \<Rightarrow> bool \<Rightarrow>
    registration_error + ('m, 'b, 'i) prepared_plugin" where
  "prepare_registration tc c namespace local_manifest kernel_owned =
     rbind (check_names c namespace local_manifest kernel_owned) (\<lambda>_.
       let m = local_manifest\<lparr>pm_name := qualify namespace (pm_name local_manifest)\<rparr> in
       rbind (check_contract c namespace m) (\<lambda>permissions.
       rbind (check_claims c m (pm_name local_manifest) kernel_owned) (\<lambda>_.
       rbind (plan_actions m) (\<lambda>planned.
       rbind (check_shapes c m) (\<lambda>_.
       rbind (compile_modules tc m) (\<lambda>modules.
       rbind (manifest_edges c m planned) (\<lambda>edges.
       rbind (check_graph tc c m edges) (\<lambda>_.
       rbind (prepare_step_types c m permissions) (\<lambda>(defs, impls).
         Inr \<lparr>pp_manifest = m, pp_permissions = permissions, pp_planned = planned, pp_modules = modules,
              pp_edges = edges, pp_defs = defs, pp_impls = impls\<rparr>)))))))))"

text \<open>A claim of a linker import: the owner and the body, under one key.\<close>

definition claim_import ::
  "string \<Rightarrow> string \<Rightarrow> ('b, 'i) linker_import \<Rightarrow> ('m, 'b, 'i) catalogue \<Rightarrow> ('m, 'b, 'i) catalogue" where
  "claim_import plugin step_type body c =
     (let key = step_type_key plugin step_type in
      c\<lparr>ct_import_owners := table_insert key plugin (ct_import_owners c),
        ct_imports := upsert_import key body (ct_imports c)\<rparr>)"

definition on_registry ::
  "('m registry \<Rightarrow> 'm registry) \<Rightarrow> ('m, 'b, 'i) catalogue \<Rightarrow> ('m, 'b, 'i) catalogue" where
  "on_registry f c = c\<lparr>ct_registry := f (ct_registry c)\<rparr>"

definition commit_impl ::
  "string \<Rightarrow> ('b, 'i) prepared_impl \<Rightarrow> ('m, 'b, 'i) catalogue \<Rightarrow> ('m, 'b, 'i) catalogue" where
  "commit_impl plugin prepared =
     (case prepared of
        PreparedWasm step_type matches wasm_module \<Rightarrow>
          on_registry (commit_step_type_impl plugin step_type matches wasm_module)
      | PreparedNative step_type body \<Rightarrow> claim_import plugin step_type (NativeImport body)
      | PreparedIntrinsic step_type body \<Rightarrow> claim_import plugin step_type (IntrinsicImport body))"

definition commit_alias ::
  "string \<Rightarrow> string \<times> string \<Rightarrow> ('m, 'b, 'i) catalogue \<Rightarrow> ('m, 'b, 'i) catalogue" where
  "commit_alias plugin entry =
     (case entry of (alias_name, target) \<Rightarrow>
        claim_import plugin alias_name AliasDispatcher
        \<circ> on_registry (commit_step_type_alias alias_name plugin target))"

fun role_keys_of :: "spi_registry \<Rightarrow> string \<Rightarrow> string list \<Rightarrow> string list \<Rightarrow> string list" where
  "role_keys_of spi namespace [] keys = keys"
| "role_keys_of spi namespace (role # roles) keys =
     (let key = (case spi_resolve spi namespace role of
                   Some (key, _) \<Rightarrow> key | None \<Rightarrow> qualify namespace role)
      in role_keys_of spi namespace roles (if key \<in> set keys then keys else keys @ [key]))"

definition role_keys_for :: "('m, 'b, 'i) catalogue \<Rightarrow> string \<Rightarrow> string list \<Rightarrow> string list" where
  "role_keys_for c namespace roles = role_keys_of (ct_spi c) namespace roles []"

definition register_subscriptions :: "string \<Rightarrow> (string \<times> action) list \<Rightarrow> 'm registry \<Rightarrow> 'm registry" where
  "register_subscriptions plugin actions =
     fold (\<lambda>(action_name, a). fold (\<lambda>event_type. register_subscription event_type plugin action_name)
         (act_subscribes_to a)) actions"

definition commit_registration ::
  "string \<Rightarrow> ('m, 'b, 'i) prepared_plugin \<Rightarrow> ('m, 'b, 'i) catalogue \<Rightarrow> ('m, 'b, 'i) catalogue" where
  "commit_registration namespace p c =
     (let m = pp_manifest p; plugin = pm_name m;
          c = on_registry (fold (\<lambda>(action_name, a, plan). register_action plugin action_name a plan) (pp_planned p)) c;
          c = on_registry (fold (\<lambda>(module_name, w). register_plugin_wasm_module plugin module_name w) (pp_modules p)) c;
          c = on_registry (fold (commit_step_type_def plugin) (pp_defs p)) c;
          c = fold (commit_impl plugin) (pp_impls p) c;
          c = on_registry (extend_invoke_edges (pp_edges p)) c;
          c = on_registry (register_manifest m) c;
          c = on_registry (fold (\<lambda>key. register_role key plugin) (role_keys_for c namespace (pm_roles m))) c;
          c = on_registry (set_permissions plugin (pp_permissions p)) c;
          c = fold (commit_alias plugin) (pm_step_types m) c
      in on_registry (register_subscriptions plugin (pm_actions m)) c)"

definition register_plugin_in_as ::
  "'m toolchain \<Rightarrow> string \<Rightarrow> plugin_manifest \<Rightarrow> bool \<Rightarrow> ('m, 'b, 'i) catalogue \<Rightarrow>
    (registration_error + unit) \<times> ('m, 'b, 'i) catalogue" where
  "register_plugin_in_as tc namespace m kernel_owned c =
     (case prepare_registration tc c namespace m kernel_owned of
        Inl e \<Rightarrow> (Inl e, c)
      | Inr p \<Rightarrow> (Inr (), commit_registration namespace p c))"

definition register_plugin_in ::
  "'m toolchain \<Rightarrow> string \<Rightarrow> plugin_manifest \<Rightarrow> ('m, 'b, 'i) catalogue \<Rightarrow>
    (registration_error + unit) \<times> ('m, 'b, 'i) catalogue" where
  "register_plugin_in tc namespace m = register_plugin_in_as tc namespace m False"

definition register_plugin ::
  "'m toolchain \<Rightarrow> plugin_manifest \<Rightarrow> ('m, 'b, 'i) catalogue \<Rightarrow>
    (registration_error + unit) \<times> ('m, 'b, 'i) catalogue" where
  "register_plugin tc m = register_plugin_in tc [] m"

definition release_step_imports ::
  "string \<Rightarrow> plugin_manifest \<Rightarrow> ('m, 'b, 'i) catalogue \<Rightarrow> ('m, 'b, 'i) catalogue" where
  "release_step_imports plugin m =
     fold (\<lambda>name c.
         let key = step_type_key plugin name
         in if table_get (ct_import_owners c) key = Some plugin
            then c\<lparr>ct_import_owners := table_remove key (ct_import_owners c),
                   ct_imports := remove_step_type key (ct_imports c)\<rparr>
            else c)
       (linked_names m)"

text \<open>\<open>script_runtimes\<close>: the interpreters an invocation starts with, by language.\<close>

definition script_runtimes :: "'m registry \<Rightarrow> (string, 'm) table" where
  "script_runtimes r =
     fold (\<lambda>lang out.
         case step_type_impl_candidates r ''script'' (Some lang) of
           [] \<Rightarrow> out
         | entry # _ \<Rightarrow>
             (case get_plugin_wasm_module r (ie_plugin entry) (ie_wasm_module entry) of
                Some w \<Rightarrow> table_insert lang w out
              | None \<Rightarrow> out))
       (step_type_impl_matches r ''script'') []"

end
