(* ===== verification/NativeImpls.thy ===== *)
theory NativeImpls
  imports Registry
begin

text \<open>
  Collecting the compiled step bodies: the tables of \<open>src/kernel/native_impls.rs\<close>. The inventory, the
  entries the linked crates submitted, is an argument; a body, a function of the host, is a type parameter.
\<close>

section \<open>Entries\<close>

record 'b native_step_impl_entry =
  ne_name :: string
  ne_impl :: 'b
  ne_kernel_owned :: bool

definition kernel_impl_ref_prefix :: string where "kernel_impl_ref_prefix = ''gwead.''"

definition native_entry_new :: "string \<Rightarrow> 'b \<Rightarrow> 'b native_step_impl_entry" where
  "native_entry_new name body = \<lparr>ne_name = name, ne_impl = body, ne_kernel_owned = False\<rparr>"

definition native_entry_kernel :: "string \<Rightarrow> 'b \<Rightarrow> 'b native_step_impl_entry" where
  "native_entry_kernel name body = \<lparr>ne_name = name, ne_impl = body, ne_kernel_owned = True\<rparr>"

datatype native_impl_collision = DuplicateImpl string | ReservedImpl string

definition check_reservation :: "string \<Rightarrow> bool \<Rightarrow> native_impl_collision + unit" where
  "check_reservation name kernel_owned =
     (if starts_with kernel_impl_ref_prefix name \<and> \<not> kernel_owned then Inl (ReservedImpl name) else Inr ())"

section \<open>The native table\<close>

text \<open>
  An insert replaces before the collision is noticed, so \<open>native_insert\<close> returns the changed table with
  its error.
\<close>

definition native_insert ::
  "string \<Rightarrow> 'b \<Rightarrow> (string, 'b) table \<Rightarrow> (native_impl_collision + unit) \<times> (string, 'b) table" where
  "native_insert name body t =
     (case check_reservation name False of
        Inl e \<Rightarrow> (Inl e, t)
      | Inr _ \<Rightarrow>
          ((if table_get t name \<noteq> None then Inl (DuplicateImpl name) else Inr ()), table_insert name body t))"

definition take_entry ::
  "'b native_step_impl_entry \<Rightarrow> (string, 'b) table \<Rightarrow> native_impl_collision + (string, 'b) table" where
  "take_entry e t =
     rbind (check_reservation (ne_name e) (ne_kernel_owned e)) (\<lambda>_.
       if table_get t (ne_name e) \<noteq> None then Inl (DuplicateImpl (ne_name e))
       else Inr (table_insert (ne_name e) (ne_impl e) t))"

definition native_from_entries :: "'b native_step_impl_entry list \<Rightarrow> native_impl_collision + (string, 'b) table" where
  "native_from_entries entries = rfold take_entry entries []"

text \<open>\<open>ensure_from_entries\<close> changes the table as it goes, up to the entry it refuses.\<close>

fun native_ensure ::
  "'b native_step_impl_entry list \<Rightarrow> (string, 'b) table \<Rightarrow> (native_impl_collision + unit) \<times> (string, 'b) table" where
  "native_ensure [] t = (Inr (), t)"
| "native_ensure (e # es) t =
     (case check_reservation (ne_name e) (ne_kernel_owned e) of
        Inl err \<Rightarrow> (Inl err, t)
      | Inr _ \<Rightarrow>
          native_ensure es
            (if table_get t (ne_name e) \<noteq> None then t else table_insert (ne_name e) (ne_impl e) t))"

definition native_get :: "(string, 'b) table \<Rightarrow> string \<Rightarrow> 'b option" where
  "native_get t name = table_get t name"

definition native_len :: "(string, 'b) table \<Rightarrow> nat" where
  "native_len t = length t"

definition native_is_empty :: "(string, 'b) table \<Rightarrow> bool" where
  "native_is_empty t \<longleftrightarrow> t = []"

section \<open>The intrinsic table\<close>

record 'i intrinsic_step_impl_entry =
  xe_name :: string
  xe_impl :: 'i

definition intrinsic_from_entries ::
  "'i intrinsic_step_impl_entry list \<Rightarrow> native_impl_collision + (string, 'i) table" where
  "intrinsic_from_entries entries =
     rfold (\<lambda>e t.
         if table_get t (xe_name e) \<noteq> None then Inl (DuplicateImpl (xe_name e))
         else Inr (table_insert (xe_name e) (xe_impl e) t))
       entries []"

section \<open>Properties\<close>

lemma check_reservation_Inr [simp]:
  "check_reservation name owned = Inr u \<longleftrightarrow> (starts_with kernel_impl_ref_prefix name \<longrightarrow> owned)"
  by (auto simp: check_reservation_def)

text \<open>A name no entry before it took resolves to the first entry with that name.\<close>

definition first_body :: "'b native_step_impl_entry list \<Rightarrow> string \<Rightarrow> 'b option" where
  "first_body entries name = map_of (map (\<lambda>e. (ne_name e, ne_impl e)) entries) name"

lemma native_ensure_get:
  "native_ensure es t = (Inr u, t') \<Longrightarrow>
    table_get t' name = (case table_get t name of Some b \<Rightarrow> Some b | None \<Rightarrow> first_body es name)"
proof (induction es arbitrary: t)
  case Nil
  then show ?case by (auto simp: first_body_def split: option.split)
next
  case (Cons e es)
  let ?t = "if table_get t (ne_name e) \<noteq> None then t else table_insert (ne_name e) (ne_impl e) t"
  have "native_ensure es ?t = (Inr u, t')"
    using Cons.prems by (auto split: sum.splits)
  from Cons.IH [OF this] show ?case
    by (auto simp: first_body_def table_get_def table_insert_def update_conv' split: option.splits)
qed

lemma native_ensure_reserved:
  "native_ensure es t = (Inr u, t') \<Longrightarrow> e \<in> set es \<Longrightarrow> starts_with kernel_impl_ref_prefix (ne_name e) \<Longrightarrow>
    ne_kernel_owned e"
  by (induction es arbitrary: t) (auto split: sum.splits)

text \<open>An entry the engine may submit, or one that claims none of its names.\<close>

definition entry_allowed :: "'b native_step_impl_entry \<Rightarrow> bool" where
  "entry_allowed e \<longleftrightarrow> (if starts_with kernel_impl_ref_prefix (ne_name e) then ne_kernel_owned e else True)"

lemma table_insert_append: "table_get t k = None \<Longrightarrow> table_insert k v t = t @ [(k, v)]"
  by (induction t) (auto simp: table_get_def table_insert_def split: if_splits)

lemma take_entry_Inr:
  "take_entry e t = Inr t' \<longleftrightarrow>
     entry_allowed e \<and> table_get t (ne_name e) = None \<and> t' = t @ [(ne_name e, ne_impl e)]"
  by (auto simp: take_entry_def entry_allowed_def rbind_Inr_iff table_insert_append split: if_splits)

lemma native_from_entries_gen:
  "rfold take_entry es t = Inr t' \<longleftrightarrow>
     list_all entry_allowed es \<and> distinct (map ne_name es)
     \<and> list_all (\<lambda>e. table_get t (ne_name e) = None) es \<and> t' = t @ map (\<lambda>e. (ne_name e, ne_impl e)) es"
proof (induction es arbitrary: t)
  case Nil
  then show ?case by auto
next
  case (Cons e es)
  have get: "table_get (t @ [(n, v)]) k = None \<longleftrightarrow> table_get t k = None \<and> k \<noteq> n" for n v k
    by (auto simp: table_get_def map_add_def split: option.split)
  show ?case
    by (auto simp: Cons.IH rbind_Inr_iff take_entry_Inr get list_all_iff) (metis imageI)
qed

text \<open>
  A table built from the inventory is the entries themselves: every one of them allowed its name, no
  two with one name. Any entry under the reserved prefix that the engine did not submit, or any repeated
  name, refuses the whole table.
\<close>

theorem native_table_exact:
  "native_from_entries es = Inr t \<longleftrightarrow>
     list_all entry_allowed es \<and> distinct (map ne_name es) \<and> t = map (\<lambda>e. (ne_name e, ne_impl e)) es"
  by (auto simp: native_from_entries_def native_from_entries_gen table_get_def list_all_iff)

text \<open>
  The top-up at boot keeps what the embedder placed and takes the first submission of every other name:
  two crates with one name are no error on this path.
\<close>

lemma ensure_keeps_first:
  "native_ensure [\<lparr>ne_name = ''acme.pay.charge'', ne_impl = (1 :: nat), ne_kernel_owned = False\<rparr>,
      \<lparr>ne_name = ''acme.pay.charge'', ne_impl = 2, ne_kernel_owned = False\<rparr>] []
   = (Inr (), [(''acme.pay.charge'', 1)])"
  by code_simp

text \<open>A refused insert has replaced the body it collided with.\<close>

lemma refused_insert_replaces:
  "native_insert ''acme.pay.charge'' (2 :: nat) [(''acme.pay.charge'', 1)]
   = (Inl (DuplicateImpl ''acme.pay.charge''), [(''acme.pay.charge'', 2)])"
  by code_simp

end
