(* ===== verification/Lifecycle.thy ===== *)
theory Lifecycle
  imports Registration NativeImpls
begin

text \<open>
  The manifest lifecycle of \<open>src/kernel/mod.rs\<close>: boot, load, unload and reload, and the bookkeeping of
  handles. Reading text as JSON, the two meta-schemas and serde's readers of the two documents are the
  fields of \<open>readers\<close>; the rest is the code's. A set of handles is a list without repetitions.
\<close>

section \<open>Classification\<close>

record readers =
  rd_json :: "string \<Rightarrow> string + json"
  rd_plugin_schema :: "json \<Rightarrow> string + unit"
  rd_spi_schema :: "json \<Rightarrow> string + unit"
  rd_manifest :: "json \<Rightarrow> string + plugin_manifest"
  rd_spi :: "string \<Rightarrow> string + spi_definition"

datatype manifest_kind = SpiDefKind | PluginKind

datatype classified_manifest = SpiDef string | Plugin plugin_manifest

datatype lifecycle_error =
    NotJson string
  | SchemaRefused string
  | ParseRefused string
  | UnrecognisedShape
  | SpiWithoutName
  | BadLoadNamespace name_error
  | BadRoleName name_error
  | RoleNameMismatch string string
  | SpiRefused spi_error
  | PluginRefused registration_error
  | ImmutableHandle "64 word"
  | NotLoaded "64 word"
  | StillClaimed string "string list"
  | SpiDrift string
  | PluginDrift string
  | RollbackFailed lifecycle_error lifecycle_error

definition classified_kind :: "classified_manifest \<Rightarrow> manifest_kind" where
  "classified_kind cm = (case cm of SpiDef _ \<Rightarrow> SpiDefKind | Plugin _ \<Rightarrow> PluginKind)"

definition read_plugin :: "readers \<Rightarrow> json \<Rightarrow> lifecycle_error + classified_manifest" where
  "read_plugin rd doc =
     rbind (map_err SchemaRefused (rd_plugin_schema rd doc)) (\<lambda>_.
     rbind (map_err ParseRefused (rd_manifest rd doc)) (\<lambda>m. Inr (Plugin m)))"

definition classify_manifest :: "readers \<Rightarrow> string \<Rightarrow> lifecycle_error + classified_manifest" where
  "classify_manifest rd json =
     rbind (map_err NotJson (rd_json rd json)) (\<lambda>doc.
       case Option.bind (json_get doc ''actions'') as_object of
         None \<Rightarrow>
           if list_ex (\<lambda>k. json_get doc k \<noteq> None) [''stepTypeDefs'', ''wasmModules'', ''stepTypeImpls'']
           then read_plugin rd doc else Inl UnrecognisedShape
       | Some actions \<Rightarrow>
           if list_ex (\<lambda>(_, v). json_get v ''steps'' \<noteq> None) actions then read_plugin rd doc
           else
             rbind (map_err SchemaRefused (rd_spi_schema rd doc)) (\<lambda>_.
               case Option.bind (json_get doc ''name'') as_str of
                 None \<Rightarrow> Inl SpiWithoutName
               | Some role \<Rightarrow> Inr (SpiDef role)))"

definition manifest_kind_of :: "readers \<Rightarrow> string \<Rightarrow> lifecycle_error + manifest_kind" where
  "manifest_kind_of rd json = rbind (classify_manifest rd json) (\<lambda>cm. Inr (classified_kind cm))"

section \<open>Bookkeeping\<close>

definition set_spi :: "spi_registry \<Rightarrow> ('m, 'b, 'i) catalogue \<Rightarrow> ('m, 'b, 'i) catalogue" where
  "set_spi spi c = c\<lparr>ct_spi := spi\<rparr>"

definition add_user :: "64 word \<Rightarrow> string \<Rightarrow> (string, 64 word list) table \<Rightarrow> (string, 64 word list) table" where
  "add_user handle key users =
     (let users_of = table_bucket users key
      in table_insert key (if handle \<in> set users_of then users_of else users_of @ [handle]) users)"

definition track_manifest ::
  "64 word \<Rightarrow> manifest_record \<Rightarrow> ('m, 'b, 'i) catalogue \<Rightarrow> ('m, 'b, 'i) catalogue" where
  "track_manifest handle rec c =
     (let users =
        (case mr_payload rec of
           PluginPayload m \<Rightarrow>
             fold (add_user handle) (role_keys_for c (mr_namespace rec) (pm_roles m)) (ct_role_users c)
         | SpiPayload _ \<Rightarrow> ct_role_users c)
      in c\<lparr>ct_role_users := users, ct_manifests := table_insert handle rec (ct_manifests c)\<rparr>)"

definition untrack_manifest :: "64 word \<Rightarrow> ('m, 'b, 'i) catalogue \<Rightarrow> ('m, 'b, 'i) catalogue" where
  "untrack_manifest handle c =
     c\<lparr>ct_role_users := buckets_retain (\<lambda>h. h \<noteq> handle) (ct_role_users c)\<rparr>"

definition take_record :: "64 word \<Rightarrow> ('m, 'b, 'i) catalogue \<Rightarrow> ('m, 'b, 'i) catalogue" where
  "take_record handle c = c\<lparr>ct_manifests := table_remove handle (ct_manifests c)\<rparr>"

definition put_record ::
  "64 word \<Rightarrow> manifest_record \<Rightarrow> ('m, 'b, 'i) catalogue \<Rightarrow> ('m, 'b, 'i) catalogue" where
  "put_record handle rec c = c\<lparr>ct_manifests := table_insert handle rec (ct_manifests c)\<rparr>"

definition handle_immutable :: "('m, 'b, 'i) catalogue \<Rightarrow> 64 word \<Rightarrow> bool" where
  "handle_immutable c handle =
     (case table_get (ct_manifests c) handle of Some rec \<Rightarrow> mr_immutable rec | None \<Rightarrow> False)"

section \<open>Loading\<close>

definition register_spi_from_json ::
  "readers \<Rightarrow> string \<Rightarrow> string \<Rightarrow> ('m, 'b, 'i) catalogue \<Rightarrow>
    (lifecycle_error + unit) \<times> ('m, 'b, 'i) catalogue" where
  "register_spi_from_json rd role json c =
     (case
        rbind (map_err BadRoleName (validate_name KRole role)) (\<lambda>_.
        rbind (map_err NotJson (rd_json rd json)) (\<lambda>doc.
        rbind (map_err SchemaRefused (rd_spi_schema rd doc)) (\<lambda>_.
          let declared = (case Option.bind (json_get doc ''name'') as_str of Some n \<Rightarrow> n | None \<Rightarrow> role)
          in if declared \<noteq> role then Inl (RoleNameMismatch declared role) else Inr ()))) of
        Inl e \<Rightarrow> (Inl e, c)
      | Inr _ \<Rightarrow>
          (case spi_register (rd_spi rd) role json (ct_spi c) of
             (r, spi) \<Rightarrow> (map_err SpiRefused r, set_spi spi c)))"

definition register_plugin_from_json ::
  "readers \<Rightarrow> 'm toolchain \<Rightarrow> string \<Rightarrow> ('m, 'b, 'i) catalogue \<Rightarrow>
    (lifecycle_error + unit) \<times> ('m, 'b, 'i) catalogue" where
  "register_plugin_from_json rd tc json c =
     (case rbind (map_err NotJson (rd_json rd json)) (\<lambda>doc.
           rbind (map_err SchemaRefused (rd_plugin_schema rd doc)) (\<lambda>_.
             map_err ParseRefused (rd_manifest rd doc))) of
        Inl e \<Rightarrow> (Inl e, c)
      | Inr m \<Rightarrow> (case register_plugin tc m c of (r, c') \<Rightarrow> (map_err PluginRefused r, c')))"

definition register_classified_manifest ::
  "readers \<Rightarrow> 'm toolchain \<Rightarrow> string \<Rightarrow> string \<Rightarrow> bool \<Rightarrow> ('m, 'b, 'i) catalogue \<Rightarrow>
    (lifecycle_error + manifest_record) \<times> ('m, 'b, 'i) catalogue" where
  "register_classified_manifest rd tc json namespace kernel_owned c =
     (case classify_manifest rd json of
        Inl e \<Rightarrow> (Inl e, c)
      | Inr (SpiDef role) \<Rightarrow>
          (case validate_namespace namespace of
             Inl e \<Rightarrow> (Inl (BadLoadNamespace e), c)
           | Inr _ \<Rightarrow>
               (case spi_register (rd_spi rd) (qualify namespace role) json (ct_spi c) of
                  (Inl e, spi) \<Rightarrow> (Inl (SpiRefused e), set_spi spi c)
                | (Inr _, spi) \<Rightarrow>
                    (Inr \<lparr>mr_identifier = qualify namespace role, mr_namespace = namespace,
                          mr_payload = SpiPayload json, mr_immutable = False\<rparr>, set_spi spi c)))
      | Inr (Plugin m) \<Rightarrow>
          (case register_plugin_in_as tc namespace m kernel_owned c of
             (Inl e, c') \<Rightarrow> (Inl (PluginRefused e), c')
           | (Inr _, c') \<Rightarrow>
               (Inr \<lparr>mr_identifier = qualify namespace (pm_name m), mr_namespace = namespace,
                     mr_payload = PluginPayload m, mr_immutable = False\<rparr>, c')))"

text \<open>The identifier counter saturates.\<close>

definition next_id :: "64 word \<Rightarrow> 64 word" where
  "next_id n = (if n = - 1 then n else n + 1)"

definition load_manifest_internal ::
  "readers \<Rightarrow> 'm toolchain \<Rightarrow> string \<Rightarrow> string \<Rightarrow> bool \<Rightarrow> ('m, 'b, 'i) catalogue \<Rightarrow>
    (lifecycle_error + 64 word) \<times> ('m, 'b, 'i) catalogue" where
  "load_manifest_internal rd tc json namespace immutable c =
     (case register_classified_manifest rd tc json namespace immutable c of
        (Inl e, c') \<Rightarrow> (Inl e, c')
      | (Inr rec, c') \<Rightarrow>
          let handle = ct_next_id c'
          in (Inr handle,
              track_manifest handle (rec\<lparr>mr_immutable := immutable\<rparr>) (c'\<lparr>ct_next_id := next_id handle\<rparr>)))"

definition load_manifest ::
  "readers \<Rightarrow> 'm toolchain \<Rightarrow> string \<Rightarrow> string \<Rightarrow> ('m, 'b, 'i) catalogue \<Rightarrow>
    (lifecycle_error + 64 word) \<times> ('m, 'b, 'i) catalogue" where
  "load_manifest rd tc json namespace = load_manifest_internal rd tc json namespace False"

section \<open>Unloading\<close>

text \<open>The identifiers of the loaded manifests that use a role.\<close>

definition dependents :: "('m, 'b, 'i) catalogue \<Rightarrow> 64 word list \<Rightarrow> string list" where
  "dependents c users = List.map_filter (\<lambda>h. map_option mr_identifier (table_get (ct_manifests c) h)) users"

definition unload_manifest ::
  "64 word \<Rightarrow> ('m, 'b, 'i) catalogue \<Rightarrow> (lifecycle_error + unit) \<times> ('m, 'b, 'i) catalogue" where
  "unload_manifest handle c =
     (if handle_immutable c handle then (Inl (ImmutableHandle handle), c)
      else case table_get (ct_manifests c) handle of
        None \<Rightarrow> (Inl (NotLoaded handle), c)
      | Some rec \<Rightarrow>
          let c = take_record handle c
          in case mr_payload rec of
               SpiPayload _ \<Rightarrow>
                 let users = table_bucket (ct_role_users c) (mr_identifier rec)
                 in if users \<noteq> []
                    then (Inl (StillClaimed (mr_identifier rec) (dependents c users)), put_record handle rec c)
                    else case spi_unregister (mr_identifier rec) (ct_spi c) of
                           (False, spi) \<Rightarrow> (Inl (SpiDrift (mr_identifier rec)), set_spi spi c)
                         | (True, spi) \<Rightarrow> (Inr (), untrack_manifest handle (set_spi spi c))
             | PluginPayload m \<Rightarrow>
                 case unregister_plugin (mr_identifier rec) (ct_registry c) of
                   (False, _) \<Rightarrow> (Inl (PluginDrift (mr_identifier rec)), c)
                 | (True, r) \<Rightarrow>
                     (Inr (), untrack_manifest handle
                        (release_step_imports (mr_identifier rec) m (c\<lparr>ct_registry := r\<rparr>))))"

section \<open>Reloading\<close>

text \<open>Step 2 of a reload: the old manifest leaves its registry.\<close>

definition retire ::
  "64 word \<Rightarrow> manifest_record \<Rightarrow> ('m, 'b, 'i) catalogue \<Rightarrow> (lifecycle_error + unit) \<times> ('m, 'b, 'i) catalogue" where
  "retire handle rec c =
     (case mr_payload rec of
        SpiPayload _ \<Rightarrow>
          (case spi_unregister (mr_identifier rec) (ct_spi c) of
             (False, spi) \<Rightarrow> (Inl (SpiDrift (mr_identifier rec)), put_record handle rec (set_spi spi c))
           | (True, spi) \<Rightarrow> (Inr (), untrack_manifest handle (set_spi spi c)))
      | PluginPayload m \<Rightarrow>
          (case unregister_plugin (mr_identifier rec) (ct_registry c) of
             (False, _) \<Rightarrow> (Inl (PluginDrift (mr_identifier rec)), put_record handle rec c)
           | (True, r) \<Rightarrow>
               (Inr (), untrack_manifest handle
                  (release_step_imports (mr_identifier rec) m (c\<lparr>ct_registry := r\<rparr>)))))"

text \<open>Step 4: the retained payload is registered again.\<close>

definition roll_back ::
  "readers \<Rightarrow> 'm toolchain \<Rightarrow> manifest_record \<Rightarrow> ('m, 'b, 'i) catalogue \<Rightarrow>
    (lifecycle_error + unit) \<times> ('m, 'b, 'i) catalogue" where
  "roll_back rd tc rec c =
     (case mr_payload rec of
        SpiPayload json \<Rightarrow>
          (case spi_register (rd_spi rd) (mr_identifier rec) json (ct_spi c) of
             (r, spi) \<Rightarrow> (map_err SpiRefused r, set_spi spi c))
      | PluginPayload m \<Rightarrow>
          (case register_plugin_in tc (mr_namespace rec) m c of
             (r, c') \<Rightarrow> (map_err PluginRefused r, c')))"

definition reload_manifest ::
  "readers \<Rightarrow> 'm toolchain \<Rightarrow> 64 word \<Rightarrow> string \<Rightarrow> ('m, 'b, 'i) catalogue \<Rightarrow>
    (lifecycle_error + unit) \<times> ('m, 'b, 'i) catalogue" where
  "reload_manifest rd tc handle new_json c =
     (if handle_immutable c handle then (Inl (ImmutableHandle handle), c)
      else case table_get (ct_manifests c) handle of
        None \<Rightarrow> (Inl (NotLoaded handle), c)
      | Some old \<Rightarrow>
          (case retire handle old (take_record handle c) of
             (Inl e, c') \<Rightarrow> (Inl e, c')
           | (Inr _, c1) \<Rightarrow>
               (case register_classified_manifest rd tc new_json (mr_namespace old) False c1 of
                  (Inr new, c2) \<Rightarrow> (Inr (), track_manifest handle new c2)
                | (Inl register_err, c2) \<Rightarrow>
                    (case roll_back rd tc old c2 of
                       (Inr _, c3) \<Rightarrow> (Inl register_err, track_manifest handle old c3)
                     | (Inl rollback_err, c3) \<Rightarrow> (Inl (RollbackFailed register_err rollback_err), c3)))))"

section \<open>Boot\<close>

record ('b, 'o, 's) kernel_config =
  kc_native_step_impls :: "(string, 'b) table"
  kc_settings :: "json option"
  kc_limits :: runtime_limits
  kc_dispatch_orchestrator :: "'o option"
  kc_secret_resolver :: "'s option"
  kc_trusted_step_type_providers :: "string list"
  kc_native_impl_bindings :: "native_impl_binding list"
  kc_app_permission_categories :: "app_permission_category list"

definition kernel_config_default :: "('b, 'o, 's) kernel_config" where
  "kernel_config_default =
     \<lparr>kc_native_step_impls = [], kc_settings = None, kc_limits = runtime_limits_default,
      kc_dispatch_orchestrator = None, kc_secret_resolver = None, kc_trusted_step_type_providers = [],
      kc_native_impl_bindings = [], kc_app_permission_categories = []\<rparr>"

definition with_native_step_impls :: "(string, 'b) table \<Rightarrow> ('b, 'o, 's) kernel_config \<Rightarrow> ('b, 'o, 's) kernel_config" where
  "with_native_step_impls t k = k\<lparr>kc_native_step_impls := t\<rparr>"

definition with_settings :: "json \<Rightarrow> ('b, 'o, 's) kernel_config \<Rightarrow> ('b, 'o, 's) kernel_config" where
  "with_settings settings k = k\<lparr>kc_settings := Some settings\<rparr>"

definition with_limits :: "runtime_limits \<Rightarrow> ('b, 'o, 's) kernel_config \<Rightarrow> ('b, 'o, 's) kernel_config" where
  "with_limits limits k = k\<lparr>kc_limits := limits\<rparr>"

definition with_dispatch_orchestrator :: "'o \<Rightarrow> ('b, 'o, 's) kernel_config \<Rightarrow> ('b, 'o, 's) kernel_config" where
  "with_dispatch_orchestrator orchestrator k = k\<lparr>kc_dispatch_orchestrator := Some orchestrator\<rparr>"

definition with_secret_resolver :: "'s \<Rightarrow> ('b, 'o, 's) kernel_config \<Rightarrow> ('b, 'o, 's) kernel_config" where
  "with_secret_resolver resolver k = k\<lparr>kc_secret_resolver := Some resolver\<rparr>"

definition with_trusted_step_type_providers ::
  "string list \<Rightarrow> ('b, 'o, 's) kernel_config \<Rightarrow> ('b, 'o, 's) kernel_config" where
  "with_trusted_step_type_providers plugins k = k\<lparr>kc_trusted_step_type_providers := plugins\<rparr>"

definition trusting_step_type_provider ::
  "string \<Rightarrow> ('b, 'o, 's) kernel_config \<Rightarrow> ('b, 'o, 's) kernel_config" where
  "trusting_step_type_provider plugin k =
     k\<lparr>kc_trusted_step_type_providers := kc_trusted_step_type_providers k @ [plugin]\<rparr>"

definition trusting_step_type_provider_in ::
  "string \<Rightarrow> string \<Rightarrow> ('b, 'o, 's) kernel_config \<Rightarrow> ('b, 'o, 's) kernel_config" where
  "trusting_step_type_provider_in namespace plugin k =
     k\<lparr>kc_trusted_step_type_providers := kc_trusted_step_type_providers k @ [qualify namespace plugin]\<rparr>"

definition allowing_native_impl_binding ::
  "string \<Rightarrow> string \<Rightarrow> ('b, 'o, 's) kernel_config \<Rightarrow> ('b, 'o, 's) kernel_config" where
  "allowing_native_impl_binding binder impl_ref k =
     k\<lparr>kc_native_impl_bindings :=
         kc_native_impl_bindings k @ [\<lparr>nb_binder = binder, nb_impl_ref = impl_ref\<rparr>]\<rparr>"

definition defining_app_permission_category_as ::
  "app_permission_category \<Rightarrow> ('b, 'o, 's) kernel_config \<Rightarrow> ('b, 'o, 's) kernel_config" where
  "defining_app_permission_category_as category k =
     k\<lparr>kc_app_permission_categories :=
         filter (\<lambda>existing. ac_name existing \<noteq> ac_name category) (kc_app_permission_categories k)
         @ [category]\<rparr>"

definition defining_app_permission_category ::
  "string \<Rightarrow> ('b, 'o, 's) kernel_config \<Rightarrow> ('b, 'o, 's) kernel_config" where
  "defining_app_permission_category name =
     defining_app_permission_category_as (app_permission_category_new name)"

text \<open>A setting of zero or of another type is ignored.\<close>

definition boot_limits :: "json option \<Rightarrow> runtime_limits \<Rightarrow> runtime_limits" where
  "boot_limits settings limits =
     (case Option.bind settings (\<lambda>s. json_get s ''defaultWallclockTimeoutMs'') of
        Some (JNumber (PosInt ms)) \<Rightarrow>
          if ms = 0 then limits else limits\<lparr>rl_default_wallclock_ms := unat ms\<rparr>
      | _ \<Rightarrow> limits)"

definition intrinsic_native_bindings :: "native_impl_binding list" where
  "intrinsic_native_bindings =
     [\<lparr>nb_binder = ''gwead_intrinsics'', nb_impl_ref = ''gwead.intrinsics.throw_error''\<rparr>,
      \<lparr>nb_binder = ''gwead_intrinsics'', nb_impl_ref = ''gwead.intrinsics.let''\<rparr>]"

datatype boot_error =
    BootNative native_impl_collision
  | BootIntrinsic native_impl_collision
  | BootCategory app_category_error
  | BootManifest lifecycle_error

record ('m, 'b, 'i, 'o, 's) kernel_parts =
  kp_catalogue :: "('m, 'b, 'i) catalogue"
  kp_limits :: runtime_limits
  kp_orchestrator :: 'o
  kp_secret_resolver :: "'s option"

definition boot_catalogue ::
  "('b, 'o, 's) kernel_config \<Rightarrow> (string, 'b) table \<Rightarrow> (string, 'i) table \<Rightarrow> ('m, 'b, 'i) catalogue" where
  "boot_catalogue k native_table intrinsic_table =
     \<lparr>ct_registry = registry_new, ct_spi = [], ct_native = native_table, ct_intrinsic = intrinsic_table,
      ct_trusted = kc_trusted_step_type_providers k,
      ct_bindings = intrinsic_native_bindings @ kc_native_impl_bindings k,
      ct_categories = kc_app_permission_categories k, ct_next_id = 1, ct_manifests = [],
      ct_role_users = [], ct_import_owners = [], ct_imports = []\<rparr>"

text \<open>
  The two inventories, the default orchestrator and the intrinsics document, which the build includes as
  text, are arguments.
\<close>

definition boot ::
  "readers \<Rightarrow> 'm toolchain \<Rightarrow> 'b native_step_impl_entry list \<Rightarrow> 'i intrinsic_step_impl_entry list \<Rightarrow> 'o \<Rightarrow>
    string \<Rightarrow> ('b, 'o, 's) kernel_config \<Rightarrow> boot_error + ('m, 'b, 'i, 'o, 's) kernel_parts" where
  "boot rd tc native_inventory intrinsic_inventory default_orch intrinsics_json k =
     (case native_ensure native_inventory (kc_native_step_impls k) of
        (Inl e, _) \<Rightarrow> Inl (BootNative e)
      | (Inr _, native_table) \<Rightarrow>
          rbind (map_err BootIntrinsic (intrinsic_from_entries intrinsic_inventory)) (\<lambda>intrinsic_table.
          rbind (rfold (\<lambda>category _. map_err BootCategory (validate_app_category_name (ac_name category)))
                   (kc_app_permission_categories k) ()) (\<lambda>_.
            case load_manifest_internal rd tc intrinsics_json [] True
                   (boot_catalogue k native_table intrinsic_table) of
              (Inl e, _) \<Rightarrow> Inl (BootManifest e)
            | (Inr _, c) \<Rightarrow>
                Inr \<lparr>kp_catalogue = c, kp_limits = boot_limits (kc_settings k) (kc_limits k),
                     kp_orchestrator =
                       (case kc_dispatch_orchestrator k of Some f \<Rightarrow> f | None \<Rightarrow> default_orch),
                     kp_secret_resolver = kc_secret_resolver k\<rparr>)))"

end
