(* ===== verification/RegistrationSpec.thy ===== *)
theory RegistrationSpec
  imports Registration NativeImpls RegistrySpec InvokeSpec
begin

text \<open>
  What a registration commits, and the invariant of the catalogue it keeps. The commit is a sequence of
  the registry's operations, each on a slot the checks found free, with one import for every linked
  name; so \<open>RegistrySpec\<close>'s account of owners carries over to whole plugins.
\<close>

section \<open>The graph\<close>

lemma collected_edges_from:
  assumes "collect_edges pl an a al = Inr es" "e \<in> set es"
  shows "ie_from e = (pl, an)"
  using collect_from_exact(2) [where sts = "act_steps a" and out = "[]", OF step_exact
      assms(1) [unfolded collect_edges_def]] assms(2)
  by (auto simp: edges_to_def)

lemma declared_edges_from:
  assumes "collect_declared_references pl an a defs pe ae = Inr es" "e \<in> set es"
  shows "ie_from e = (pl, an)"
  using declared_collected [OF assms(1)] assms(2) by (auto simp: edges_to_def)

lemma check_acyclic_accepts:
  assumes order: "set (key_order (adjacency_of (existing @ new_edges))) = ie_from ` set (existing @ new_edges)"
    and "check_acyclic key_order existing new_edges = Some (Inr ())"
  shows "acyclic (invoke_rel (existing @ new_edges))"
proof -
  let ?adj = "adjacency_of (existing @ new_edges)"
  have none: "finished ?adj (\<lambda>_. None)" by (simp add: finished_def black_ok_def)
  have "check_starts ?adj (key_order ?adj) (\<lambda>_. None) = NoCycle"
    using assms(2) by (auto simp: check_acyclic_def Let_def split: dfs_result.splits)
  with check_starts_ok [OF none, of "key_order ?adj"] order
  obtain color where "finished ?adj color" "fst ` set ?adj \<subseteq> dom color" by (auto simp: adjacency_keys)
  then show ?thesis using finished_acyclic adjacency_rel by metis
qed

text \<open>The edges a new plugin adds all leave it.\<close>

lemma rfold_all:
  assumes "rfold (\<lambda>x out. rbind (f x) (\<lambda>new. Inr (out @ new))) xs out = Inr out'"
    and "\<And>x new y. x \<in> set xs \<Longrightarrow> f x = Inr new \<Longrightarrow> y \<in> set new \<Longrightarrow> P y"
    and "\<And>y. y \<in> set out \<Longrightarrow> P y" and "y \<in> set out'"
  shows "P y"
  using assms
proof (induction xs arbitrary: out)
  case (Cons x xs)
  from Cons.prems(1) obtain new where new: "f x = Inr new"
    "rfold (\<lambda>x out. rbind (f x) (\<lambda>new. Inr (out @ new))) xs (out @ new) = Inr out'"
    by (auto simp: rbind_Inr_iff)
  show ?case
  proof (rule Cons.IH [OF new(2)])
    show "P z" if "w \<in> set xs" "f w = Inr ns" "z \<in> set ns" for w ns z
      using Cons.prems(2) [of w ns z] that by simp
    show "P z" if "z \<in> set (out @ new)" for z
      using that Cons.prems(2) [OF _ new(1), of z] Cons.prems(3) [of z] by auto
    show "y \<in> set out'" by (rule Cons.prems(4))
  qed
qed simp

lemma manifest_edges_from:
  assumes "manifest_edges c m planned = Inr es" "e \<in> set es"
  shows "fst (ie_from e) = pm_name m"
proof -
  let ?calls = "\<lambda>(action_name, a, _). map_err (BadInvoke (pm_name m))
      (collect_edges (pm_name m) action_name a (manifest_aliases c m))"
  let ?refs = "\<lambda>(action_name, a, _). map_err (BadReference (pm_name m))
      (collect_declared_references (pm_name m) action_name a (manifest_defs c m)
         (\<lambda>name. name = pm_name m \<or> has_plugin (ct_registry c) name) (manifest_action_exists c m))"
  have split: "(\<lambda>(action_name, a, u) out. rbind (f action_name a) (\<lambda>new. Inr (out @ new)))
      = (\<lambda>x out. rbind ((\<lambda>(action_name, a, u). f action_name a) x) (\<lambda>new. Inr (out @ new)))" for f
    by (auto simp: fun_eq_iff)
  from assms(1) obtain es' where calls:
    "rfold (\<lambda>x out. rbind (?calls x) (\<lambda>new. Inr (out @ new))) planned [] = Inr es'"
    and refs: "rfold (\<lambda>x out. rbind (?refs x) (\<lambda>new. Inr (out @ new))) planned es' = Inr es"
    unfolding manifest_edges_def split by (auto simp: rbind_Inr_iff)
  have called: "fst (ie_from e) = pm_name m" if "e \<in> set es'" for e
  proof (rule rfold_all [OF calls, where P = "\<lambda>e. fst (ie_from e) = pm_name m"])
    show "fst (ie_from y) = pm_name m" if "?calls x = Inr new" "y \<in> set new" for x new y
      using that collected_edges_from [of "pm_name m" "fst x" "fst (snd x)" "manifest_aliases c m" new y]
      by (cases x) simp
  qed (use that in simp_all)
  show ?thesis
  proof (rule rfold_all [OF refs, where P = "\<lambda>e. fst (ie_from e) = pm_name m"])
    show "fst (ie_from y) = pm_name m" if "?refs x = Inr new" "y \<in> set new" for x new y
      using that declared_edges_from [OF _ that(2), of "pm_name m" "fst x" "fst (snd x)"]
      by (cases x) simp
    show "fst (ie_from y) = pm_name m" if "y \<in> set es'" for y
      by (rule called [OF that])
    show "e \<in> set es" by (rule assms(2))
  qed
qed

section \<open>The commit as operations\<close>

definition impl_ops :: "string \<Rightarrow> ('b, 'i) prepared_impl \<Rightarrow> 'm registry_op list" where
  "impl_ops plugin q = (case q of PreparedWasm t sel w \<Rightarrow> [CommitImpl plugin t sel w] | _ \<Rightarrow> [])"

definition impl_claims :: "('b, 'i) prepared_impl \<Rightarrow> (string \<times> ('b, 'i) linker_import) list" where
  "impl_claims q =
     (case q of
        PreparedWasm _ _ _ \<Rightarrow> []
      | PreparedNative t b \<Rightarrow> [(t, NativeImport b)]
      | PreparedIntrinsic t b \<Rightarrow> [(t, IntrinsicImport b)])"

definition registration_ops :: "string list \<Rightarrow> ('m, 'b, 'i) prepared_plugin \<Rightarrow> 'm registry_op list" where
  "registration_ops keys p =
     (let m = pp_manifest p; plugin = pm_name m
      in map (\<lambda>(n, a, plan). AddAction plugin n a plan) (pp_planned p)
         @ map (\<lambda>(n, w). AddWasm plugin n w) (pp_modules p)
         @ map (CommitDef plugin) (pp_defs p)
         @ concat (map (impl_ops plugin) (pp_impls p))
         @ [AddEdges (pp_edges p), AddManifest m]
         @ map (\<lambda>key. AddRole key plugin) keys
         @ [SetPermissions plugin (pp_permissions p)]
         @ map (\<lambda>(al, target). CommitAlias al plugin target) (pm_step_types m)
         @ concat (map (\<lambda>(n, a). map (\<lambda>e. Subscribe e plugin n) (act_subscribes_to a)) (pm_actions m)))"

definition registration_claims :: "('m, 'b, 'i) prepared_plugin \<Rightarrow> (string \<times> ('b, 'i) linker_import) list" where
  "registration_claims p =
     concat (map impl_claims (pp_impls p)) @ map (\<lambda>(al, _). (al, AliasDispatcher)) (pm_step_types (pp_manifest p))"

definition with_claims ::
  "string \<Rightarrow> (string \<times> ('b, 'i) linker_import) list \<Rightarrow> ('m, 'b, 'i) catalogue \<Rightarrow> ('m, 'b, 'i) catalogue" where
  "with_claims plugin claims = fold (\<lambda>(n, b). claim_import plugin n b) claims"

abbreviation on_ops :: "'m registry_op list \<Rightarrow> ('m, 'b, 'i) catalogue \<Rightarrow> ('m, 'b, 'i) catalogue" where
  "on_ops ops \<equiv> on_registry (fold apply_op ops)"

lemma on_registry_twice: "on_registry f (on_registry g c) = on_registry (f \<circ> g) c"
  by (simp add: on_registry_def)

lemma on_ops_append: "on_ops qs (on_ops ops c) = on_ops (ops @ qs) c"
  by (simp add: on_registry_def)

lemma claim_on_registry: "on_registry f (claim_import plugin n b c) = claim_import plugin n b (on_registry f c)"
  by (simp add: on_registry_def claim_import_def Let_def)

lemma claims_on_registry: "on_registry f (with_claims plugin cs c) = with_claims plugin cs (on_registry f c)"
  unfolding with_claims_def
  by (induction cs arbitrary: c) (auto simp: claim_on_registry)

lemma with_claims_append: "with_claims plugin ds (with_claims plugin cs c) = with_claims plugin (cs @ ds) c"
  by (simp add: with_claims_def)

lemma role_keys_on_ops [simp]:
  "role_keys_for (on_registry f c) namespace roles = role_keys_for c namespace roles"
  by (simp add: role_keys_for_def on_registry_def)

lemma with_claims_fields [simp]:
  "ct_spi (with_claims plugin cs c) = ct_spi c"
  "ct_registry (with_claims plugin cs c) = ct_registry c"
  "ct_native (with_claims plugin cs c) = ct_native c"
  "ct_trusted (with_claims plugin cs c) = ct_trusted c"
  "ct_bindings (with_claims plugin cs c) = ct_bindings c"
  "ct_categories (with_claims plugin cs c) = ct_categories c"
  "ct_next_id (with_claims plugin cs c) = ct_next_id c"
  "ct_manifests (with_claims plugin cs c) = ct_manifests c"
  "ct_role_users (with_claims plugin cs c) = ct_role_users c"
  unfolding with_claims_def
  by (induction cs arbitrary: c) (auto simp: claim_import_def Let_def)

lemma role_keys_claims [simp]:
  "role_keys_for (with_claims plugin cs c) namespace roles = role_keys_for c namespace roles"
  by (simp add: role_keys_for_def)

lemma commit_impls:
  "fold (commit_impl plugin) qs c
   = with_claims plugin (concat (map impl_claims qs)) (on_ops (concat (map (impl_ops plugin) qs)) c)"
proof (induction qs arbitrary: c)
  case (Cons q qs)
  have "commit_impl plugin q c = with_claims plugin (impl_claims q) (on_ops (impl_ops plugin q) c)"
    by (cases q) (simp_all add: commit_impl_def impl_ops_def impl_claims_def with_claims_def on_registry_def)
  with Cons show ?case
    by (simp add: claims_on_registry with_claims_append on_ops_append del: fold_append)
qed (simp add: with_claims_def on_registry_def)

lemma commit_aliases:
  "fold (commit_alias plugin) als c
   = with_claims plugin (map (\<lambda>(al, _). (al, AliasDispatcher)) als)
       (on_ops (map (\<lambda>(al, target). CommitAlias al plugin target) als) c)"
proof (induction als arbitrary: c)
  case (Cons entry als)
  obtain al target where entry: "entry = (al, target)" by (cases entry)
  have "commit_alias plugin entry c
      = with_claims plugin [(al, AliasDispatcher)] (on_ops [CommitAlias al plugin target] c)"
    by (simp add: commit_alias_def with_claims_def on_registry_def entry)
  with Cons show ?case
    by (simp add: claims_on_registry with_claims_append on_registry_twice comp_def entry)
qed (simp add: with_claims_def on_registry_def)

lemma fold_as_ops:
  assumes "\<And>x r. apply_op (g x) r = f x r"
  shows "fold f xs = fold apply_op (map g xs)"
proof -
  have "(\<lambda>x. apply_op (g x)) = f" using assms by (simp add: fun_eq_iff)
  then show ?thesis by (simp add: fold_map comp_def)
qed

lemma subscriptions_as_ops:
  "register_subscriptions plugin actions
   = fold apply_op (concat (map (\<lambda>(n, a). map (\<lambda>e. Subscribe e plugin n) (act_subscribes_to a)) actions))"
proof
  fix r
  have subscribe: "(\<lambda>e. apply_op (Subscribe e plugin n)) = (\<lambda>e. register_subscription e plugin n)" for n
    by (simp add: fun_eq_iff)
  show "register_subscriptions plugin actions r
      = fold apply_op (concat (map (\<lambda>(n, a). map (\<lambda>e. Subscribe e plugin n) (act_subscribes_to a)) actions)) r"
    unfolding register_subscriptions_def
    by (induction actions arbitrary: r) (auto simp: fold_map comp_def subscribe)
qed

lemma commit_registration_eq:
  "commit_registration namespace p c =
     with_claims (pm_name (pp_manifest p)) (registration_claims p)
       (on_ops (registration_ops (role_keys_for c namespace (pm_roles (pp_manifest p))) p) c)"
proof -
  let ?n = "pm_name (pp_manifest p)"
  have ops: "fold (\<lambda>(action_name, a, plan). register_action ?n action_name a plan) xs
        = fold apply_op (map (\<lambda>(n, a, plan). AddAction ?n n a plan) xs)"
      "fold (\<lambda>(module_name, w). register_plugin_wasm_module ?n module_name w) ys
        = fold apply_op (map (\<lambda>(n, w). AddWasm ?n n w) ys)"
      "fold (commit_step_type_def ?n) ds = fold apply_op (map (CommitDef ?n) ds)"
      "extend_invoke_edges es = fold apply_op [AddEdges es]"
      "register_manifest m = fold apply_op [AddManifest m]"
      "fold (\<lambda>key. register_role key ?n) ks = fold apply_op (map (\<lambda>key. AddRole key ?n) ks)"
      "set_permissions ?n ps = fold apply_op [SetPermissions ?n ps]"
    for xs ys ds es m ks ps
    by (rule fold_as_ops, simp add: case_prod_unfold | simp add: fun_eq_iff)+
  show ?thesis
    unfolding commit_registration_def Let_def ops commit_impls commit_aliases subscriptions_as_ops
      claims_on_registry with_claims_append on_ops_append role_keys_on_ops role_keys_claims
      registration_ops_def registration_claims_def
    by simp
qed

section \<open>What the checks establish\<close>

abbreviation identified :: "string \<Rightarrow> plugin_manifest \<Rightarrow> plugin_manifest" where
  "identified namespace m \<equiv> m\<lparr>pm_name := qualify namespace (pm_name m)\<rparr>"

lemma prepared_checks:
  assumes "prepare_registration tc c namespace lm kernel_owned = Inr p"
  shows "pp_manifest p = identified namespace lm"
    and "validate_namespace namespace = Inr ()"
    and "validate_manifest_names lm kernel_owned = Inr ()"
    and "\<not> has_plugin (ct_registry c) (pm_name (pp_manifest p))"
    and "check_contract c namespace (pp_manifest p) = Inr (pp_permissions p)"
    and "check_claims c (pp_manifest p) (pm_name lm) kernel_owned = Inr ()"
    and "plan_actions (pp_manifest p) = Inr (pp_planned p)"
    and "manifest_edges c (pp_manifest p) (pp_planned p) = Inr (pp_edges p)"
    and "check_graph tc c (pp_manifest p) (pp_edges p) = Inr ()"
    and "prepare_step_types c (pp_manifest p) (pp_permissions p) = Inr (pp_defs p, pp_impls p)"
  using assms
  by (auto simp: prepare_registration_def Let_def rbind_Inr_iff check_names_def get_manifest_def has_plugin_def
      split: prod.splits if_splits)

lemma rfold_each:
  "rfold f xs s = Inr t \<Longrightarrow> x \<in> set xs \<Longrightarrow> \<exists>u v. f x u = Inr v"
  by (induction xs arbitrary: s) (auto simp: rbind_Inr_iff)

lemma plan_actions_Inr:
  "plan_actions m = Inr planned \<longleftrightarrow>
     map (\<lambda>(n, a, _). (n, a)) planned = pm_actions m
     \<and> list_all (\<lambda>(n, a, plan). build_plan a = Inr plan) planned"
proof -
  have "traverse (\<lambda>(n, a). rbind (map_err (BadPlan q n) (build_plan a)) (\<lambda>plan. Inr (n, a, plan))) xs = Inr planned
    \<longleftrightarrow> map (\<lambda>(n, a, _). (n, a)) planned = xs \<and> list_all (\<lambda>(n, a, plan). build_plan a = Inr plan) planned"
    for q xs
  proof (induction xs arbitrary: planned)
    case (Cons x xs)
    then show ?case
      by (cases planned; cases x) (auto simp: rbind_Inr_iff)
  qed auto
  then show ?thesis by (simp add: plan_actions_def)
qed

lemma prepare_defs_Inr:
  "rfold (prepare_def c plugin) ds seen = Inr names \<Longrightarrow>
    names = rev (map sd_name ds) @ seen
    \<and> list_all (\<lambda>d. get_step_type_def (ct_registry c) (step_type_key plugin (sd_name d)) = None) ds"
  by (induction ds arbitrary: seen)
    (auto simp: rbind_Inr_iff prepare_def_def split: if_splits option.splits)

text \<open>The claim a declaration makes, and what it was resolved to.\<close>

definition slot_claimed ::
  "('m, 'b, 'i) catalogue \<Rightarrow> string \<Rightarrow> string list \<Rightarrow> permission list \<Rightarrow> string \<Rightarrow> string option \<Rightarrow> bool" where
  "slot_claimed c plugin local_defs permissions step_type selector \<longleftrightarrow>
     step_type \<in> set local_defs
     \<or> ProvideStepType step_type selector \<in> set permissions \<and> plugin \<in> set (ct_trusted c)"

definition prepared_from ::
  "('m, 'b, 'i) catalogue \<Rightarrow> plugin_manifest \<Rightarrow> permission list \<Rightarrow> string list \<Rightarrow> step_type_impl \<Rightarrow>
    ('b, 'i) prepared_impl \<Rightarrow> bool" where
  "prepared_from c m permissions local_defs decl q \<longleftrightarrow>
     slot_claimed c (pm_name m) local_defs permissions (si_step_type decl) (si_matches decl)
     \<and> (case si_kind decl of
          WasmImpl \<Rightarrow> prepare_wasm c m decl = Inr q
        | NativeImpl \<Rightarrow> prepare_native c m permissions decl = Inr q
        | IntrinsicImpl \<Rightarrow> prepare_intrinsic c m decl = Inr q)"

lemma check_claim_Inr:
  "check_step_type_impl_claim c plugin t sel dl permissions = Inr u \<longleftrightarrow>
     dl \<or> ProvideStepType t sel \<in> set permissions \<and> plugin \<in> set (ct_trusted c)"
  by (auto simp: check_step_type_impl_claim_def Let_def list_ex_iff)

lemma prepare_impl_Inr:
  "prepare_impl c m permissions local_defs decl acc = Inr acc' \<Longrightarrow>
    \<exists>q. snd acc' = snd acc @ [q] \<and> prepared_from c m permissions local_defs decl q"
  by (auto simp: prepare_impl_def Let_def rbind_Inr_iff check_claim_Inr prepared_from_def slot_claimed_def
      split: if_splits step_type_impl_kind.splits)

lemma prepare_impls_Inr:
  "rfold (prepare_impl c m permissions local_defs) decls acc = Inr acc' \<Longrightarrow>
    \<exists>qs. snd acc' = snd acc @ qs \<and> list_all2 (prepared_from c m permissions local_defs) decls qs"
proof (induction decls arbitrary: acc)
  case (Cons decl decls)
  then obtain u where "prepare_impl c m permissions local_defs decl acc = Inr u"
    "rfold (prepare_impl c m permissions local_defs) decls u = Inr acc'" by (auto simp: rbind_Inr_iff)
  with Cons.IH [of u] prepare_impl_Inr [of c m permissions local_defs decl acc u] show ?case by force
qed simp

lemma prepare_step_types_Inr:
  assumes "prepare_step_types c m permissions = Inr (defs, impls)"
  shows "defs = pm_step_type_defs m"
    and "list_all (\<lambda>d. get_step_type_def (ct_registry c) (step_type_key (pm_name m) (sd_name d)) = None) defs"
    and "list_all2 (prepared_from c m permissions (rev (map sd_name (pm_step_type_defs m))))
           (pm_step_type_impls m) impls"
  using assms prepare_defs_Inr [of c "pm_name m" "pm_step_type_defs m" "[]"]
    prepare_impls_Inr [of c m permissions _ "pm_step_type_impls m" "([], [])"]
  by (force simp: prepare_step_types_def rbind_Inr_iff)+

lemma resolved_claims:
  assumes "list_all2 (prepared_from c m permissions local_defs) decls qs"
  shows "map fst (concat (map impl_claims qs)) = map si_step_type (filter (\<lambda>d. si_kind d \<noteq> WasmImpl) decls)"
  using assms
proof (induction rule: list_all2_induct)
  case (Cons decl decls q qs)
  then show ?case
    by (auto simp: prepared_from_def prepare_wasm_def prepare_native_def prepare_intrinsic_def Let_def
        impl_claims_def rbind_Inr_iff split: step_type_impl_kind.splits option.splits if_splits)
qed simp

lemma claimed_names:
  assumes "prepare_step_types c (pp_manifest p) permissions = Inr (defs, pp_impls p)"
  shows "map fst (registration_claims p) = linked_names (pp_manifest p)"
  using resolved_claims [OF prepare_step_types_Inr(3) [OF assms]]
  by (simp add: registration_claims_def linked_names_def case_prod_unfold)

text \<open>Every linker import the manifest needs is free, or already the plugin's own, and needed once.\<close>

lemma check_imports_gen:
  "rfold (\<lambda>name pending.
       let key = step_type_key plugin name
       in case table_get owners key of
            Some owner \<Rightarrow>
              if owner \<noteq> plugin then Inl (ImportTaken plugin name owner)
              else if key \<in> set pending then Inl (ImportTwice plugin name)
              else Inr (key # pending)
          | None \<Rightarrow> if key \<in> set pending then Inl (ImportTwice plugin name) else Inr (key # pending))
     names pending = Inr out \<Longrightarrow>
   distinct (map (step_type_key plugin) names) \<and> set (map (step_type_key plugin) names) \<inter> set pending = {}
   \<and> list_all (\<lambda>n. table_get owners (step_type_key plugin n) \<in> {None, Some plugin}) names"
proof (induction names arbitrary: pending)
  case (Cons n names)
  from Cons.prems have "rfold (\<lambda>name pending.
       let key = step_type_key plugin name
       in case table_get owners key of
            Some owner \<Rightarrow>
              if owner \<noteq> plugin then Inl (ImportTaken plugin name owner)
              else if key \<in> set pending then Inl (ImportTwice plugin name)
              else Inr (key # pending)
          | None \<Rightarrow> if key \<in> set pending then Inl (ImportTwice plugin name) else Inr (key # pending))
     names (step_type_key plugin n # pending) = Inr out"
    "step_type_key plugin n \<notin> set pending" "table_get owners (step_type_key plugin n) \<in> {None, Some plugin}"
    by (auto simp: rbind_Inr_iff Let_def split: option.splits if_splits)
  with Cons.IH [OF this(1)] show ?case by auto
qed simp

lemma claims_checked:
  assumes "check_claims c m local_name kernel_owned = Inr u"
  shows "distinct (map (step_type_key (pm_name m)) (linked_names m))"
    and "list_all (\<lambda>n. table_get (ct_import_owners c) (step_type_key (pm_name m) n) \<in> {None, Some (pm_name m)})
           (linked_names m)"
    and "list_all (\<lambda>(al, target). step_type_alias_candidates (ct_registry c) (step_type_key (pm_name m) al) = [])
           (pm_step_types m)"
proof -
  from assms obtain keys where
    aliases: "rfold (\<lambda>entry _. check_alias c m local_name kernel_owned entry) (pm_step_types m) () = Inr ()"
    and linked: "check_imports c m = Inr keys"
    by (auto simp: check_claims_def rbind_Inr_iff)
  from check_imports_gen [OF linked [unfolded check_imports_def]]
  show "distinct (map (step_type_key (pm_name m)) (linked_names m))"
    "list_all (\<lambda>n. table_get (ct_import_owners c) (step_type_key (pm_name m) n) \<in> {None, Some (pm_name m)})
       (linked_names m)"
    by simp_all
  have "step_type_alias_candidates (ct_registry c) (step_type_key (pm_name m) al) = []"
    if "(al, target) \<in> set (pm_step_types m)" for al target
    using rfold_each [OF aliases that]
    by (auto simp: check_alias_def rbind_Inr_iff split: if_splits list.splits)
  then show "list_all (\<lambda>(al, target). step_type_alias_candidates (ct_registry c) (step_type_key (pm_name m) al) = [])
      (pm_step_types m)"
    by (auto simp: list_all_iff)
qed

section \<open>A registration loads one plugin\<close>

lemma slot_free_op:
  assumes "op_by p op" "op_by p op'" "slot_free op r"
  shows "slot_free op (apply_op op' r)"
proof -
  have get: "table_get (rg_step_type_impls (apply_op op' r)) k = Some e \<Longrightarrow>
      table_get (rg_step_type_impls r) k = Some e \<or> ie_plugin e = p"
    "table_get (rg_step_type_defs (apply_op op' r)) j = Some d \<Longrightarrow>
      table_get (rg_step_type_defs r) j = Some d \<or> fst d = p"
    "table_get (rg_step_type_aliases (apply_op op' r)) j = Some a \<Longrightarrow>
      table_get (rg_step_type_aliases r) j = Some a \<or> fst a = p" for k e j d a
    using assms(2) by (cases op'; auto simp: registry_op_defs Let_def split: if_splits)+
  show ?thesis
  proof (cases op)
    case (CommitImpl q t m w)
    with assms get(1) [of "(step_type_key q t, m)"] show ?thesis
      by (force simp: step_type_impl_owner_def split: option.splits)
  next
    case (CommitDef q d)
    with assms get(2) [of "step_type_key q (sd_name d)"] show ?thesis
      by (force simp: get_step_type_def_def split: option.splits)
  next
    case (CommitAlias al q a)
    with assms get(3) [of "step_type_key q al"] show ?thesis
      by (force simp: step_type_alias_candidates_def split: option.splits)
  qed auto
qed

lemma loads_all:
  "list_all (\<lambda>op. op_by p op \<and> slot_free op r) ops \<Longrightarrow> loads p ops r"
proof (induction ops arbitrary: r)
  case (Cons op ops)
  then have "list_all (\<lambda>op'. op_by p op' \<and> slot_free op' (apply_op op r)) ops"
    by (auto simp: list_all_iff slot_free_op)
  with Cons show ?case by simp
qed simp

lemma prepared_impl_free:
  assumes "list_all2 (prepared_from c m permissions local_defs) decls qs" "q \<in> set qs"
    "op \<in> set (impl_ops (pm_name m) q)"
  shows "op_by (pm_name m) op \<and> slot_free op (ct_registry c)"
proof -
  from assms(1,2) obtain decl where "prepared_from c m permissions local_defs decl q"
    by (metis in_set_conv_nth list_all2_conv_all_nth)
  with assms(3) show ?thesis
    by (auto simp: prepared_from_def impl_ops_def prepare_wasm_def prepare_native_def prepare_intrinsic_def
        Let_def rbind_Inr_iff
        split: step_type_impl_kind.splits option.splits if_splits prepared_impl.splits)
qed

lemma registration_loads:
  assumes "prepare_registration tc c namespace lm kernel_owned = Inr p"
  shows "loads (pm_name (pp_manifest p)) (registration_ops keys p) (ct_registry c)"
proof (rule loads_all)
  let ?m = "pp_manifest p"
  note p = prepared_checks [OF assms]
  note t = prepare_step_types_Inr [OF p(10)]
  have defs: "slot_free (CommitDef (pm_name ?m) d) (ct_registry c)" if "d \<in> set (pp_defs p)" for d
    using t(2) that by (auto simp: list_all_iff)
  have aliases: "slot_free (CommitAlias al (pm_name ?m) target) (ct_registry c)"
    if "(al, target) \<in> set (pm_step_types ?m)" for al target
    using claims_checked(3) [OF p(6)] that by (auto simp: list_all_iff)
  have edges: "op_by (pm_name ?m) (AddEdges (pp_edges p))"
    using manifest_edges_from [OF p(8)] by (auto simp: list_all_iff)
  show "list_all (\<lambda>op. op_by (pm_name ?m) op \<and> slot_free op (ct_registry c)) (registration_ops keys p)"
    using prepared_impl_free [OF t(3)] defs aliases edges
    by (auto simp: registration_ops_def Let_def list_all_iff)
qed

section \<open>The imports of a plugin\<close>

lemma import_name_inject [simp]: "import_name k = import_name j \<longleftrightarrow> k = j"
  by (simp add: import_name_def)

text \<open>Owners and imports are the same list of step types, under their two names.\<close>

definition imports_aligned :: "('m, 'b, 'i) catalogue \<Rightarrow> bool" where
  "imports_aligned c \<longleftrightarrow>
     keys_distinct (ct_import_owners c)
     \<and> map fst (ct_imports c) = map (\<lambda>(k, _). import_name k) (ct_import_owners c)"

lemma table_get_None: "table_get t k = None \<longleftrightarrow> k \<notin> fst ` set t"
  by (simp add: table_get_def map_of_eq_None_iff)

lemma aligned_names:
  assumes "imports_aligned c"
  shows "fst ` set (ct_imports c) = import_name ` fst ` set (ct_import_owners c)"
proof -
  from assms have "set (map fst (ct_imports c)) = set (map (\<lambda>(k, _). import_name k) (ct_import_owners c))"
    by (simp add: imports_aligned_def)
  then show ?thesis by (simp add: case_prod_unfold image_image)
qed

lemma aligned_get:
  assumes "imports_aligned c"
  shows "table_get (ct_imports c) (import_name k) = None \<longleftrightarrow> table_get (ct_import_owners c) k = None"
proof -
  have "inj import_name" by (simp add: inj_def)
  then show ?thesis by (simp add: table_get_None aligned_names [OF assms] inj_image_mem_iff)
qed

lemma with_claims_fresh:
  assumes "imports_aligned c" "distinct (map (\<lambda>(n, _). step_type_key p n) cs)"
    and "list_all (\<lambda>(n, _). table_get (ct_import_owners c) (step_type_key p n) = None) cs"
  shows "ct_import_owners (with_claims p cs c) = ct_import_owners c @ map (\<lambda>(n, _). (step_type_key p n, p)) cs"
    and "ct_imports (with_claims p cs c) = ct_imports c @ map (\<lambda>(n, b). (import_name (step_type_key p n), b)) cs"
    and "imports_aligned (with_claims p cs c)"
proof -
  have "ct_import_owners (with_claims p cs c) = ct_import_owners c @ map (\<lambda>(n, _). (step_type_key p n, p)) cs
      \<and> ct_imports (with_claims p cs c) = ct_imports c @ map (\<lambda>(n, b). (import_name (step_type_key p n), b)) cs
      \<and> imports_aligned (with_claims p cs c)"
    using assms
  proof (induction cs arbitrary: c)
    case (Cons entry cs)
    obtain n b where entry: "entry = (n, b)" by (cases entry)
    let ?c = "claim_import p n b c"
    have c': "ct_import_owners ?c = ct_import_owners c @ [(step_type_key p n, p)]"
      "ct_imports ?c = ct_imports c @ [(import_name (step_type_key p n), b)]"
      using Cons.prems aligned_get [OF Cons.prems(1), of "step_type_key p n"]
      by (simp_all add: claim_import_def Let_def upsert_import_def table_insert_append entry)
    then have "imports_aligned ?c"
      using Cons.prems by (auto simp: imports_aligned_def keys_distinct_def entry table_get_None)
    moreover have "list_all (\<lambda>(n, _). table_get (ct_import_owners ?c) (step_type_key p n) = None) cs"
      using Cons.prems(2,3) by (force simp: c' list_all_iff table_get_None entry)
    ultimately show ?case
      using Cons.IH [of ?c] Cons.prems(2) c' by (simp add: with_claims_def entry)
  qed (simp add: with_claims_def)
  then show "ct_import_owners (with_claims p cs c) = ct_import_owners c @ map (\<lambda>(n, _). (step_type_key p n, p)) cs"
    "ct_imports (with_claims p cs c) = ct_imports c @ map (\<lambda>(n, b). (import_name (step_type_key p n), b)) cs"
    "imports_aligned (with_claims p cs c)" by simp_all
qed

text \<open>Releasing the names a plugin links takes exactly its own entries.\<close>

definition drop_keys :: "string set \<Rightarrow> ('m, 'b, 'i) catalogue \<Rightarrow> ('m, 'b, 'i) catalogue" where
  "drop_keys D c =
     c\<lparr>ct_import_owners := filter (\<lambda>x. fst x \<notin> D) (ct_import_owners c),
       ct_imports := filter (\<lambda>x. fst x \<notin> import_name ` D) (ct_imports c)\<rparr>"

lemma drop_nothing [simp]: "drop_keys {} c = c"
  by (simp add: drop_keys_def)

lemma drop_keys_twice: "drop_keys D (drop_keys E c) = drop_keys (D \<union> E) c"
  by (simp add: drop_keys_def conj_commute image_Un)

lemma table_remove_filter: "table_remove k t = filter (\<lambda>x. fst x \<noteq> k) t"
  by (auto simp: table_remove_def AList.delete_eq intro!: filter_cong)

lemma filter_aligned:
  "map fst xs = map (\<lambda>(k, _). import_name k) ys \<Longrightarrow>
    map fst (filter (\<lambda>x. fst x \<notin> import_name ` D) xs) = map (\<lambda>(k, _). import_name k) (filter (\<lambda>x. fst x \<notin> D) ys)"
proof (induction xs arbitrary: ys)
  case (Cons x xs)
  then show ?case by (cases ys) (auto simp: case_prod_unfold)
qed simp

lemma drop_keys_aligned: "imports_aligned c \<Longrightarrow> imports_aligned (drop_keys D c)"
  by (simp add: imports_aligned_def drop_keys_def keys_distinct_def filter_aligned distinct_map_filter)

lemma get_filter: "table_get (filter (\<lambda>x. fst x \<notin> D) t) k = (if k \<in> D then None else table_get t k)"
  unfolding table_get_def by (induction t) auto

lemma release_eq:
  "release_step_imports p m c
   = drop_keys {k \<in> step_type_key p ` set (linked_names m). table_get (ct_import_owners c) k = Some p} c"
proof -
  let ?step = "\<lambda>name c. let key = step_type_key p name
      in if table_get (ct_import_owners c) key = Some p
         then c\<lparr>ct_import_owners := table_remove key (ct_import_owners c),
                ct_imports := remove_step_type key (ct_imports c)\<rparr>
         else c"
  have "fold ?step names c
      = drop_keys {k \<in> step_type_key p ` set names. table_get (ct_import_owners c) k = Some p} c" for names
  proof (induction names arbitrary: c)
    case (Cons n names)
    let ?k = "step_type_key p n"
    let ?D = "if table_get (ct_import_owners c) ?k = Some p then {?k} else {}"
    have "?step n c = drop_keys ?D c"
      by (simp add: drop_keys_def table_remove_filter remove_step_type_def Let_def)
    moreover have "{k \<in> step_type_key p ` set names. table_get (ct_import_owners (drop_keys ?D c)) k = Some p} \<union> ?D
        = {k \<in> step_type_key p ` set (n # names). table_get (ct_import_owners c) k = Some p}"
      by (auto simp: drop_keys_def get_filter)
    ultimately show ?case
      using Cons.IH [of "drop_keys ?D c"] by (simp only: fold_Cons comp_def drop_keys_twice)
  qed simp
  then show ?thesis by (simp add: release_step_imports_def)
qed

section \<open>The invariant\<close>

definition binding_allowed :: "('m, 'b, 'i) catalogue \<Rightarrow> string \<Rightarrow> string \<Rightarrow> bool" where
  "binding_allowed c p impl_ref \<longleftrightarrow>
     namespace_of p = [] \<and> impl_ref_owner impl_ref = Some (local_name_of p)
     \<or> BindNativeImpl impl_ref \<in> set (permissions_for (ct_registry c) p)
       \<and> list_ex (\<lambda>b. nb_binder b = p \<and> nb_impl_ref b = impl_ref) (ct_bindings c)"

text \<open>The registration of an action: the action of the manifest and its plan.\<close>

definition planned_action :: "plugin_manifest \<Rightarrow> string \<Rightarrow> action_registration option" where
  "planned_action m n =
     (case map_of (pm_actions m) n of
        None \<Rightarrow> None
      | Some a \<Rightarrow>
          (case build_plan a of Inr plan \<Rightarrow> Some \<lparr>ar_action = a, ar_plan = plan\<rparr> | Inl _ \<Rightarrow> None))"

definition plugin_links :: "string \<Rightarrow> plugin_manifest \<Rightarrow> string set" where
  "plugin_links p m = step_type_key p ` set (linked_names m)"

text \<open>What holds of a registered plugin: its actions, its permissions, its slots and its imports.\<close>

definition actions_sound :: "('m, 'b, 'i) catalogue \<Rightarrow> string \<Rightarrow> plugin_manifest \<Rightarrow> bool" where
  "actions_sound c p m \<longleftrightarrow>
     (\<forall>n. get_action (ct_registry c) p n = planned_action m n)
     \<and> list_all (\<lambda>(n, a). \<exists>plan. build_plan a = Inr plan) (pm_actions m)"

definition permissions_sound :: "('m, 'b, 'i) catalogue \<Rightarrow> string \<Rightarrow> plugin_manifest \<Rightarrow> bool" where
  "permissions_sound c p m \<longleftrightarrow>
     parse_manifest_permissions (pm_permissions m) (ct_categories c) = Inr (permissions_for (ct_registry c) p)"

definition slots_sound :: "('m, 'b, 'i) catalogue \<Rightarrow> string \<Rightarrow> plugin_manifest \<Rightarrow> bool" where
  "slots_sound c p m \<longleftrightarrow>
     (\<forall>t sel e. table_get (rg_step_type_impls (ct_registry c)) (t, sel) = Some e \<and> ie_plugin e = p \<longrightarrow>
        (\<exists>s. t = step_type_key p s
           \<and> slot_claimed c p (map sd_name (pm_step_type_defs m)) (permissions_for (ct_registry c) p) s sel))"

definition imports_sound :: "('m, 'b, 'i) catalogue \<Rightarrow> string \<Rightarrow> plugin_manifest \<Rightarrow> bool" where
  "imports_sound c p m \<longleftrightarrow>
     (\<forall>k. table_get (ct_import_owners c) k = Some p \<longleftrightarrow> k \<in> plugin_links p m)
     \<and> (\<forall>k body. table_get (ct_import_owners c) k = Some p
          \<and> table_get (ct_imports c) (import_name k) = Some (NativeImport body) \<longrightarrow>
          (\<exists>t impl_ref. k = step_type_key p t \<and> table_get (ct_native c) impl_ref = Some body
             \<and> binding_allowed c p impl_ref))"

definition plugin_sound :: "('m, 'b, 'i) catalogue \<Rightarrow> string \<Rightarrow> plugin_manifest \<Rightarrow> bool" where
  "plugin_sound c p m \<longleftrightarrow>
     actions_sound c p m \<and> permissions_sound c p m \<and> slots_sound c p m \<and> imports_sound c p m"

lemmas plugin_sound_defs =
  plugin_sound_def actions_sound_def permissions_sound_def slots_sound_def imports_sound_def

definition owners_registered :: "('m, 'b, 'i) catalogue \<Rightarrow> bool" where
  "owners_registered c \<longleftrightarrow>
     (\<forall>(p, t) \<in> traces (ct_registry c). has_plugin (ct_registry c) p)
     \<and> (\<forall>(k, p) \<in> set (ct_import_owners c). has_plugin (ct_registry c) p)"

definition catalogue_ok :: "('m, 'b, 'i) catalogue \<Rightarrow> bool" where
  "catalogue_ok c \<longleftrightarrow>
     registry_ok (ct_registry c) \<and> owners_registered c \<and> imports_aligned c
     \<and> acyclic (invoke_rel (rg_invoke_edges (ct_registry c)))
     \<and> (\<forall>p m. get_manifest (ct_registry c) p = Some m \<longrightarrow> plugin_sound c p m)"

text \<open>Two catalogues that agree on a plugin: what it has in the registry and what it links.\<close>

definition same_settings :: "('m, 'b, 'i) catalogue \<Rightarrow> ('m, 'b, 'i) catalogue \<Rightarrow> bool" where
  "same_settings c c' \<longleftrightarrow>
     ct_native c' = ct_native c \<and> ct_trusted c' = ct_trusted c \<and> ct_bindings c' = ct_bindings c
     \<and> ct_categories c' = ct_categories c"

definition agree_on :: "string \<Rightarrow> ('m, 'b, 'i) catalogue \<Rightarrow> ('m, 'b, 'i) catalogue \<Rightarrow> bool" where
  "agree_on p c c' \<longleftrightarrow>
     traces_of (ct_registry c') p = traces_of (ct_registry c) p
     \<and> (\<forall>k. table_get (ct_import_owners c') k = Some p \<longleftrightarrow> table_get (ct_import_owners c) k = Some p)
     \<and> (\<forall>k. table_get (ct_import_owners c) k = Some p \<longrightarrow>
          table_get (ct_imports c') (import_name k) = table_get (ct_imports c) (import_name k))"

lemma option_eqI: "(\<And>v. x = Some v \<longleftrightarrow> y = Some v) \<Longrightarrow> x = y"
  by (metis option.exhaust)

lemma lookups_as_traces:
  assumes "registry_ok r"
  shows "table_get (rg_modules r) (p, n) = Some x \<longleftrightarrow> TAction ((p, n), x) \<in> traces_of r p"
    and "table_get (rg_manifests r) p = Some m \<longleftrightarrow> TManifest m \<in> traces_of r p"
    and "table_get (rg_permissions r) p = Some ps \<longleftrightarrow> TPermissions ps \<in> traces_of r p"
    and "table_get (rg_step_type_impls r) k = Some e \<and> ie_plugin e = p \<longleftrightarrow> TImpl (k, e) \<in> traces_of r p"
  using assms
  by (auto simp: registry_ok_def registry_keys_def traces_of_iff rows_iff_get rows_impl_get table_get_set)

lemma same_lookups:
  assumes "registry_ok r" "registry_ok r'" "traces_of r' p = traces_of r p"
  shows "get_action r' p n = get_action r p n" "get_manifest r' p = get_manifest r p"
    "permissions_for r' p = permissions_for r p"
    "table_get (rg_step_type_impls r') k = Some e \<and> ie_plugin e = p \<longleftrightarrow>
     table_get (rg_step_type_impls r) k = Some e \<and> ie_plugin e = p"
proof -
  have "table_get (rg_permissions r') p = table_get (rg_permissions r) p"
    by (rule option_eqI) (simp add: lookups_as_traces(3) [OF assms(1)] lookups_as_traces(3) [OF assms(2)] assms(3))
  then show "permissions_for r' p = permissions_for r p"
    by (simp add: permissions_for_def table_bucket_def)
  show "get_action r' p n = get_action r p n"
    unfolding get_action_def
    by (rule option_eqI) (simp add: lookups_as_traces(1) [OF assms(1)] lookups_as_traces(1) [OF assms(2)] assms(3))
  show "get_manifest r' p = get_manifest r p"
    unfolding get_manifest_def
    by (rule option_eqI) (simp add: lookups_as_traces(2) [OF assms(1)] lookups_as_traces(2) [OF assms(2)] assms(3))
  show "table_get (rg_step_type_impls r') k = Some e \<and> ie_plugin e = p \<longleftrightarrow>
     table_get (rg_step_type_impls r) k = Some e \<and> ie_plugin e = p"
    by (simp only: lookups_as_traces(4) [OF assms(1)] lookups_as_traces(4) [OF assms(2)] assms(3))
qed

lemma plugin_sound_agrees:
  assumes "registry_ok (ct_registry c)" "registry_ok (ct_registry c')" "same_settings c c'" "agree_on p c c'"
    and "plugin_sound c p m"
  shows "plugin_sound c' p m"
proof -
  from assms(4) have t: "traces_of (ct_registry c') p = traces_of (ct_registry c) p" by (simp add: agree_on_def)
  note same = same_lookups [OF assms(1,2) t]
  have settings: "ct_native c' = ct_native c" "ct_trusted c' = ct_trusted c" "ct_bindings c' = ct_bindings c"
    "ct_categories c' = ct_categories c"
    using assms(3) by (simp_all add: same_settings_def)
  have "slots_sound c' p m"
    using assms(5) unfolding plugin_sound_def slots_sound_def same(3) same(4) slot_claimed_def settings by blast
  moreover have "imports_sound c' p m"
    unfolding imports_sound_def
  proof (intro conjI allI impI)
    from assms(5) have sound: "imports_sound c p m" by (simp add: plugin_sound_def)
    have owned: "table_get (ct_import_owners c') k = Some p \<longleftrightarrow> table_get (ct_import_owners c) k = Some p" for k
      using assms(4) by (simp add: agree_on_def)
    show "table_get (ct_import_owners c') k = Some p \<longleftrightarrow> k \<in> plugin_links p m" for k
      using sound unfolding owned imports_sound_def by blast
    fix k body
    assume linked: "table_get (ct_import_owners c') k = Some p
      \<and> table_get (ct_imports c') (import_name k) = Some (NativeImport body)"
    then have "table_get (ct_import_owners c) k = Some p
      \<and> table_get (ct_imports c) (import_name k) = Some (NativeImport body)"
      using assms(4) unfolding owned by (auto simp: agree_on_def)
    with sound show "\<exists>t impl_ref. k = step_type_key p t \<and> table_get (ct_native c') impl_ref = Some body
        \<and> binding_allowed c' p impl_ref"
      unfolding imports_sound_def binding_allowed_def same(3) settings by blast
  qed
  moreover have "actions_sound c' p m" "permissions_sound c' p m"
    using assms(5) unfolding plugin_sound_def actions_sound_def permissions_sound_def same(1) same(3) settings
    by simp_all
  ultimately show ?thesis by (simp add: plugin_sound_def)
qed

section \<open>Removing a plugin keeps the invariant\<close>

definition remove_plugin :: "string \<Rightarrow> plugin_manifest \<Rightarrow> ('m, 'b, 'i) catalogue \<Rightarrow> ('m, 'b, 'i) catalogue" where
  "remove_plugin p m c = release_step_imports p m (on_registry (\<lambda>r. snd (unregister_plugin p r)) c)"

lemma has_plugin_trace: "has_plugin r p \<longleftrightarrow> (\<exists>m. TManifest m \<in> traces_of r p)"
  by (force simp: has_plugin_def traces_of_iff table_get_def map_of_found [symmetric] simp flip: map_of_eq_None_iff)

lemma traces_of_others:
  assumes "others p (traces r') = others p (traces r)" "q \<noteq> p"
  shows "traces_of r' q = traces_of r q"
  using assms by (auto simp: others_def traces_of_def set_eq_iff)

lemma remove_plugin_eq:
  assumes "imports_sound c p m"
  shows "remove_plugin p m c
    = drop_keys (plugin_links p m) (on_registry (\<lambda>r. snd (unregister_plugin p r)) c)"
proof -
  have "{k \<in> step_type_key p ` set (linked_names m). table_get (ct_import_owners c) k = Some p} = plugin_links p m"
    using assms by (auto simp: imports_sound_def plugin_links_def)
  then show ?thesis by (simp add: remove_plugin_def release_eq on_registry_def)
qed

lemma remove_traces:
  assumes "has_plugin (ct_registry c) p"
  shows "traces (ct_registry (remove_plugin p m c)) = others p (traces (ct_registry c))"
  using traces_unregister [OF assms]
  by (simp add: remove_plugin_def release_eq drop_keys_def on_registry_def others_def)

lemma remove_fields [simp]:
  "ct_spi (remove_plugin p m c) = ct_spi c" "ct_manifests (remove_plugin p m c) = ct_manifests c"
  "ct_role_users (remove_plugin p m c) = ct_role_users c" "ct_next_id (remove_plugin p m c) = ct_next_id c"
  "ct_registry (remove_plugin p m c) = snd (unregister_plugin p (ct_registry c))"
  by (simp_all add: remove_plugin_def release_eq drop_keys_def on_registry_def)

lemma remove_settings: "same_settings c (remove_plugin p m c)"
  by (simp add: same_settings_def remove_plugin_def release_eq drop_keys_def on_registry_def)

lemma remove_agrees:
  assumes "has_plugin (ct_registry c) p" "imports_sound c p m" "imports_aligned c" "q \<noteq> p"
  shows "agree_on q c (remove_plugin p m c)"
proof -
  have "traces_of (ct_registry (remove_plugin p m c)) q = traces_of (ct_registry c) q"
    using remove_traces [OF assms(1), of m] assms(4)
    by (intro traces_of_others [where p = p]) (auto simp: others_def)
  moreover have "k \<notin> plugin_links p m" if "table_get (ct_import_owners c) k = Some q" for k
    using assms(2,4) that unfolding imports_sound_def by force
  ultimately show ?thesis
    unfolding agree_on_def remove_plugin_eq [OF assms(2)]
    by (auto simp: drop_keys_def get_filter on_registry_def)
qed

lemma remove_keeps_ok:
  assumes ok: "catalogue_ok c" and p: "has_plugin (ct_registry c) p" and sound: "imports_sound c p m"
  shows "catalogue_ok (remove_plugin p m c)" (is "catalogue_ok ?c")
    and "has_plugin (ct_registry (remove_plugin p m c)) q \<longleftrightarrow> q \<noteq> p \<and> has_plugin (ct_registry c) q"
proof -
  let ?r = "ct_registry c" and ?r' = "ct_registry ?c"
  have r': "?r' = apply_op (Unregister p) ?r" by simp
  have reg: "registry_ok ?r" using ok by (simp add: catalogue_ok_def)
  then have reg': "registry_ok ?r'" unfolding r' by (rule registry_ok_op)
  have tr: "traces_of ?r' q = (if q = p then {} else traces_of ?r q)" for q
    using remove_traces [OF p, of m] by (auto simp: traces_of_def others_def)
  have has: "has_plugin ?r' q \<longleftrightarrow> q \<noteq> p \<and> has_plugin ?r q" for q
    unfolding has_plugin_trace tr by simp
  show "has_plugin ?r' q \<longleftrightarrow> q \<noteq> p \<and> has_plugin ?r q" by (rule has)
  have aligned: "imports_aligned c" using ok by (simp add: catalogue_ok_def)
  have "imports_aligned (on_registry f c)" for f
    using aligned by (simp add: imports_aligned_def on_registry_def)
  then have aligned': "imports_aligned ?c" by (simp add: remove_plugin_eq [OF sound] drop_keys_aligned)
  have owners: "(k, q) \<in> set (ct_import_owners ?c) \<Longrightarrow> (k, q) \<in> set (ct_import_owners c) \<and> q \<noteq> p" for k q
  proof -
    assume kq: "(k, q) \<in> set (ct_import_owners ?c)"
    then have "(k, q) \<in> set (ct_import_owners c)" "k \<notin> plugin_links p m"
      by (auto simp: remove_plugin_eq [OF sound] drop_keys_def on_registry_def)
    moreover have "table_get (ct_import_owners c) k = Some q"
      using calculation(1) aligned by (simp add: imports_aligned_def table_get_set)
    ultimately show ?thesis using sound by (auto simp: imports_sound_def)
  qed
  have "owners_registered ?c"
    unfolding owners_registered_def
  proof (intro conjI ballI, clarify)
    fix q t
    assume "(q, t) \<in> traces ?r'"
    then have "t \<in> traces_of ?r' q" by (simp add: traces_of_def)
    then have "q \<noteq> p" "(q, t) \<in> traces ?r" unfolding tr by (auto simp: traces_of_def split: if_splits)
    with ok show "has_plugin ?r' q" unfolding has by (auto simp: catalogue_ok_def owners_registered_def)
  next
    fix x
    assume "x \<in> set (ct_import_owners ?c)"
    with owners [of "fst x" "snd x"] ok show "case x of (k, q) \<Rightarrow> has_plugin ?r' q"
      unfolding has by (auto simp: catalogue_ok_def owners_registered_def)
  qed
  moreover have "acyclic (invoke_rel (rg_invoke_edges ?r'))"
  proof (rule acyclic_subset)
    show "acyclic (invoke_rel (rg_invoke_edges ?r))" using ok by (simp add: catalogue_ok_def)
    show "invoke_rel (rg_invoke_edges ?r') \<subseteq> invoke_rel (rg_invoke_edges ?r)"
      by (auto simp: invoke_rel_def unregister_plugin_def)
  qed
  moreover have "plugin_sound ?c q m'" if "get_manifest ?r' q = Some m'" for q m'
  proof -
    have q: "q \<noteq> p" using that has [of q] by (simp add: get_manifest_def has_plugin_def)
    then have "get_manifest ?r q = Some m'"
      using same_lookups(2) [OF reg reg', of q] tr [of q] that by simp
    with ok have "plugin_sound c q m'" by (simp add: catalogue_ok_def)
    then show ?thesis
      by (rule plugin_sound_agrees [OF reg reg' remove_settings remove_agrees [OF p sound aligned q]])
  qed
  ultimately show "catalogue_ok ?c"
    using reg' aligned' unfolding catalogue_ok_def by blast
qed

section \<open>A registration keeps the invariant\<close>

lemma kept_map:
  assumes "\<And>x r. f (apply_op (g x) r) = f r"
  shows "f (fold apply_op (map g xs) r) = f r"
  by (induction xs arbitrary: r) (simp_all add: assms)

lemma kept_concat:
  assumes "\<And>x r. f (fold apply_op (h x) r) = f r"
  shows "f (fold apply_op (concat (map h xs)) r) = f r"
  by (induction xs arbitrary: r) (simp_all add: assms)

lemmas segment_simps = registration_ops_def Let_def case_prod_unfold registry_op_defs

lemma impl_ops_keep:
  "rg_invoke_edges (fold apply_op (impl_ops plugin q) r) = rg_invoke_edges r"
  "rg_modules (fold apply_op (impl_ops plugin q) r) = rg_modules r"
  "rg_manifests (fold apply_op (impl_ops plugin q) r) = rg_manifests r"
  "rg_permissions (fold apply_op (impl_ops plugin q) r) = rg_permissions r"
  by (cases q; simp add: impl_ops_def registry_op_defs)+

lemma subscription_ops_keep:
  "rg_invoke_edges (fold apply_op (map (\<lambda>e. Subscribe e plugin n) es) r) = rg_invoke_edges r"
  "rg_modules (fold apply_op (map (\<lambda>e. Subscribe e plugin n) es) r) = rg_modules r"
  "rg_manifests (fold apply_op (map (\<lambda>e. Subscribe e plugin n) es) r) = rg_manifests r"
  "rg_permissions (fold apply_op (map (\<lambda>e. Subscribe e plugin n) es) r) = rg_permissions r"
  "rg_step_type_impls (fold apply_op (map (\<lambda>e. Subscribe e plugin n) es) r) = rg_step_type_impls r"
  by (rule kept_map; simp add: registry_op_defs Let_def)+

lemma registered_edges:
  "rg_invoke_edges (fold apply_op (registration_ops keys p) r) = rg_invoke_edges r @ pp_edges p"
  by (simp add: segment_simps kept_map [where f = rg_invoke_edges] kept_concat [where f = rg_invoke_edges]
      impl_ops_keep subscription_ops_keep)

lemma registered_manifest:
  "rg_manifests (fold apply_op (registration_ops keys p) r)
   = table_insert (pm_name (pp_manifest p)) (pp_manifest p) (rg_manifests r)"
  by (simp add: segment_simps kept_map [where f = rg_manifests] kept_concat [where f = rg_manifests]
      impl_ops_keep subscription_ops_keep)

lemma registered_permissions:
  "rg_permissions (fold apply_op (registration_ops keys p) r)
   = table_insert (pm_name (pp_manifest p)) (pp_permissions p) (rg_permissions r)"
  by (simp add: segment_simps kept_map [where f = rg_permissions] kept_concat [where f = rg_permissions]
      impl_ops_keep subscription_ops_keep)

lemma registered_actions:
  "rg_modules (fold apply_op (registration_ops keys p) r)
   = fold (\<lambda>(n, a, plan). table_insert (pm_name (pp_manifest p), n) \<lparr>ar_action = a, ar_plan = plan\<rparr>)
       (pp_planned p) (rg_modules r)"
proof -
  have "rg_modules (fold apply_op (map (\<lambda>(n, a, plan). AddAction q n a plan) xs) r)
      = fold (\<lambda>(n, a, plan). table_insert (q, n) \<lparr>ar_action = a, ar_plan = plan\<rparr>) xs (rg_modules r)" for q xs r
    by (induction xs arbitrary: r) (auto simp: registry_op_defs)
  then show ?thesis
    by (simp add: registration_ops_def Let_def kept_map [where f = rg_modules] kept_concat [where f = rg_modules]
        impl_ops_keep subscription_ops_keep case_prod_unfold registry_op_defs)
qed

lemma registry_ok_fold: "registry_ok r \<Longrightarrow> registry_ok (fold apply_op ops r)"
  by (induction ops arbitrary: r) (simp_all add: registry_ok_op)

lemma aligned_distinct: "imports_aligned c \<Longrightarrow> keys_distinct (ct_imports c)"
proof -
  assume "imports_aligned c"
  then have "map fst (ct_imports c) = map import_name (map fst (ct_import_owners c))"
    "distinct (map fst (ct_import_owners c))"
    by (simp_all add: imports_aligned_def keys_distinct_def case_prod_unfold comp_def)
  moreover have "inj_on import_name S" for S by (simp add: inj_on_def)
  ultimately show ?thesis by (simp only: keys_distinct_def distinct_map)
qed

lemma planned_lookup:
  assumes "distinct (map fst planned)" "list_all (\<lambda>(n, a, plan). build_plan a = Inr plan) planned"
    and "map (\<lambda>(n, a, _). (n, a)) planned = pm_actions m"
  shows "table_get (fold (\<lambda>(n, a, plan). table_insert (q, n) \<lparr>ar_action = a, ar_plan = plan\<rparr>) planned t) (q, n)
    = (case planned_action m n of Some x \<Rightarrow> Some x | None \<Rightarrow> table_get t (q, n))"
proof -
  have keep: "n \<notin> fst ` set xs \<Longrightarrow>
      table_get (fold (\<lambda>(n, a, plan). table_insert (q, n) \<lparr>ar_action = a, ar_plan = plan\<rparr>) xs t) (q, n) = table_get t (q, n)"
    for xs t by (induction xs arbitrary: t) auto
  have absent: "n \<notin> fst ` set xs \<Longrightarrow> map_of (map (\<lambda>(n, a, _). (n, a)) xs) n = None"
    for xs :: "(string \<times> action \<times> dag_plan) list" by (force simp: map_of_eq_None_iff)
  have "distinct (map fst xs) \<Longrightarrow> list_all (\<lambda>(n, a, plan). build_plan a = Inr plan) xs \<Longrightarrow>
      table_get (fold (\<lambda>(n, a, plan). table_insert (q, n) \<lparr>ar_action = a, ar_plan = plan\<rparr>) xs t) (q, n)
      = (case map_of (map (\<lambda>(n, a, _). (n, a)) xs) n of
           None \<Rightarrow> table_get t (q, n)
         | Some a \<Rightarrow> (case build_plan a of
              Inr plan \<Rightarrow> Some \<lparr>ar_action = a, ar_plan = plan\<rparr> | Inl _ \<Rightarrow> table_get t (q, n)))" for xs
    by (induction xs arbitrary: t) (auto simp: keep absent split: if_splits option.split sum.split)
  from this [OF assms(1,2)] show ?thesis
    by (simp add: assms(3) planned_action_def split: option.split sum.split)
qed

lemma unregistered_traces:
  assumes "owners_registered c" "\<not> has_plugin (ct_registry c) p"
  shows "traces_of (ct_registry c) p = {}" "table_get (ct_import_owners c) k \<noteq> Some p"
proof -
  show "traces_of (ct_registry c) p = {}"
    using assms by (auto simp: owners_registered_def traces_of_def)
  show "table_get (ct_import_owners c) k \<noteq> Some p"
    using assms by (auto simp: owners_registered_def table_get_def dest!: map_of_SomeD)
qed

lemma committed_slot:
  assumes "table_get (rg_step_type_impls (fold apply_op ops r)) k = Some e" "list_all (op_by p) ops"
  shows "table_get (rg_step_type_impls r) k = Some e
    \<or> (\<exists>t sel w. CommitImpl p t sel w \<in> set ops \<and> k = (step_type_key p t, sel))"
  using assms
proof (induction ops arbitrary: r)
  case (Cons op ops)
  from Cons.prems have "table_get (rg_step_type_impls (fold apply_op ops (apply_op op r))) k = Some e" "op_by p op"
    "list_all (op_by p) ops" by simp_all
  with Cons.IH [of "apply_op op r"] show ?case
    by (cases op) (auto simp: registry_op_defs Let_def split: if_splits)
qed simp

lemma loads_by: "loads p ops r \<Longrightarrow> list_all (op_by p) ops"
  by (induction ops arbitrary: r) auto

lemma prepared_decl:
  assumes "list_all2 (prepared_from c m permissions local_defs) decls qs" "q \<in> set qs"
  obtains decl where "decl \<in> set decls" "prepared_from c m permissions local_defs decl q"
  using assms by (metis in_set_conv_nth list_all2_conv_all_nth nth_mem)

lemma prepared_wasm_claim:
  assumes "prepared_from c m permissions local_defs decl (PreparedWasm t sel w)"
  shows "slot_claimed c (pm_name m) local_defs permissions t sel"
  using assms
  by (auto simp: prepared_from_def prepare_wasm_def prepare_native_def prepare_intrinsic_def Let_def rbind_Inr_iff
      split: step_type_impl_kind.splits option.splits if_splits)

lemma prepared_native_binding:
  assumes "prepared_from c m permissions local_defs decl (PreparedNative t body)"
  shows "\<exists>impl_ref. table_get (ct_native c) impl_ref = Some body
    \<and> (namespace_of (pm_name m) = [] \<and> impl_ref_owner impl_ref = Some (local_name_of (pm_name m))
       \<or> BindNativeImpl impl_ref \<in> set permissions
         \<and> list_ex (\<lambda>b. nb_binder b = pm_name m \<and> nb_impl_ref b = impl_ref) (ct_bindings c))"
  using assms
  by (auto simp: prepared_from_def prepare_wasm_def prepare_native_def prepare_intrinsic_def
      check_native_impl_binding_def Let_def rbind_Inr_iff list_ex_iff
      split: step_type_impl_kind.splits option.splits if_splits)

text \<open>The keys of a hash map, in whatever order it yields them.\<close>

definition yields_keys :: "'m toolchain \<Rightarrow> bool" where
  "yields_keys tc \<longleftrightarrow> (\<forall>adj. set (tc_key_order tc adj) = fst ` set adj)"

lemma graph_accepted:
  assumes "yields_keys tc" "check_graph tc c m new = Inr ()"
  shows "acyclic (invoke_rel (rg_invoke_edges (ct_registry c) @ new))"
proof (rule check_acyclic_accepts)
  show "set (tc_key_order tc (adjacency_of (rg_invoke_edges (ct_registry c) @ new)))
      = ie_from ` set (rg_invoke_edges (ct_registry c) @ new)"
    using assms(1) by (simp add: yields_keys_def adjacency_keys)
  show "check_acyclic (tc_key_order tc) (rg_invoke_edges (ct_registry c)) new = Some (Inr ())"
    using assms(2) by (auto simp: check_graph_def split: option.splits)
qed

text \<open>What the commit leaves of the imports, once the checks have passed.\<close>

lemma commit_imports:
  assumes ok: "catalogue_ok c" and prep: "prepare_registration tc c namespace lm kernel_owned = Inr p"
  defines "q \<equiv> pm_name (pp_manifest p)" and "c' \<equiv> commit_registration namespace p c"
  shows "ct_import_owners c' = ct_import_owners c @ map (\<lambda>(n, _). (step_type_key q n, q)) (registration_claims p)"
    and "ct_imports c'
        = ct_imports c @ map (\<lambda>(n, b). (import_name (step_type_key q n), b)) (registration_claims p)"
    and "imports_aligned c'"
    and "ct_registry c'
        = fold apply_op (registration_ops (role_keys_for c namespace (pm_roles (pp_manifest p))) p) (ct_registry c)"
    and "same_settings c c'"
    and "map fst (registration_claims p) = linked_names (pp_manifest p)"
proof -
  note p = prepared_checks [OF prep]
  let ?c = "on_ops (registration_ops (role_keys_for c namespace (pm_roles (pp_manifest p))) p) c"
  have c': "c' = with_claims q (registration_claims p) ?c"
    by (simp add: c'_def q_def commit_registration_eq)
  have names: "map fst (registration_claims p) = linked_names (pp_manifest p)" by (rule claimed_names [OF p(10)])
  have reg: "owners_registered c" and aligned: "imports_aligned ?c"
    using ok by (simp_all add: catalogue_ok_def imports_aligned_def on_registry_def)
  have "table_get (ct_import_owners c) (step_type_key q n) = None" if "n \<in> set (linked_names (pp_manifest p))" for n
    using claims_checked(2) [OF p(6)] that unregistered_traces(2) [OF reg p(4)] unfolding q_def list_all_iff by blast
  then have free: "list_all (\<lambda>(n, _). table_get (ct_import_owners ?c) (step_type_key q n) = None) (registration_claims p)"
    by (force simp: list_all_iff on_registry_def simp flip: names)
  have "map (\<lambda>(n, _). step_type_key q n) (registration_claims p) = map (step_type_key q) (linked_names (pp_manifest p))"
    by (simp add: case_prod_unfold flip: names)
  then have once: "distinct (map (\<lambda>(n, _). step_type_key q n) (registration_claims p))"
    using claims_checked(1) [OF p(6)] by (simp add: q_def)
  from with_claims_fresh [OF aligned once free]
  show "ct_import_owners c' = ct_import_owners c @ map (\<lambda>(n, _). (step_type_key q n, q)) (registration_claims p)"
    "ct_imports c' = ct_imports c @ map (\<lambda>(n, b). (import_name (step_type_key q n), b)) (registration_claims p)"
    "imports_aligned c'"
    by (simp_all add: c' on_registry_def)
  show "ct_registry c'
      = fold apply_op (registration_ops (role_keys_for c namespace (pm_roles (pp_manifest p))) p) (ct_registry c)"
    by (simp add: c' on_registry_def)
  show "same_settings c c'" by (simp add: same_settings_def c' on_registry_def)
  show "map fst (registration_claims p) = linked_names (pp_manifest p)" by (rule names)
qed

lemma native_claim: "(n, NativeImport body) \<in> set (impl_claims q) \<Longrightarrow> q = PreparedNative n body"
  by (cases q) (auto simp: impl_claims_def)

lemma commit_new_plugin:
  assumes ok: "catalogue_ok c" and prep: "prepare_registration tc c namespace lm kernel_owned = Inr p"
    and names: "distinct (map fst (pm_actions lm))"
  shows "plugin_sound (commit_registration namespace p c) (pm_name (pp_manifest p)) (pp_manifest p)"
proof -
  let ?m = "pp_manifest p" and ?c = "commit_registration namespace p c"
  let ?q = "pm_name ?m"
  note p = prepared_checks [OF prep]
  note steps = prepare_step_types_Inr [OF p(10)]
  note new = commit_imports [OF ok prep]
  have reg: "owners_registered c" "registry_ok (ct_registry c)" using ok by (simp_all add: catalogue_ok_def)
  note none = unregistered_traces [OF reg(1) p(4)]
  have perms: "permissions_for (ct_registry ?c) ?q = pp_permissions p"
    by (simp add: new(4) permissions_for_def table_bucket_def registered_permissions)
  have "actions_sound ?c ?q ?m"
  proof -
    note planned = p(7) [unfolded plan_actions_Inr]
    have "map fst (pp_planned p) = map fst (map (\<lambda>(n, a, _). (n, a)) (pp_planned p))"
      by (simp add: case_prod_unfold)
    also have "\<dots> = map fst (pm_actions ?m)" using planned by simp
    finally have "distinct (map fst (pp_planned p))" using names by (simp add: p(1))
    from planned_lookup [OF this, of ?m ?q "rg_modules (ct_registry c)"] planned
    have "get_action (ct_registry ?c) ?q n
        = (case planned_action ?m n of Some x \<Rightarrow> Some x | None \<Rightarrow> table_get (rg_modules (ct_registry c)) (?q, n))" for n
      by (simp add: get_action_def new(4) registered_actions)
    moreover have "table_get (rg_modules (ct_registry c)) (?q, n) = None" for n
      using lookups_as_traces(1) [OF reg(2), of ?q n] none(1) by (cases "table_get (rg_modules (ct_registry c)) (?q, n)") auto
    moreover have "list_all (\<lambda>(n, a). \<exists>plan. build_plan a = Inr plan) (map (\<lambda>(n, a, _). (n, a)) (pp_planned p))"
      using conjunct2 [OF planned] by (auto simp: list.pred_map comp_def elim!: list.pred_mono_strong)
    ultimately show ?thesis using planned by (simp add: actions_sound_def split: option.split)
  qed
  moreover have "permissions_sound ?c ?q ?m"
    using p(5) new(5) by (simp add: permissions_sound_def perms check_contract_def Let_def same_settings_def split: if_splits)
  moreover have "slots_sound ?c ?q ?m"
    unfolding slots_sound_def
  proof (intro allI impI)
    fix t sel e
    let ?ops = "registration_ops (role_keys_for c namespace (pm_roles ?m)) p"
    assume e: "table_get (rg_step_type_impls (ct_registry ?c)) (t, sel) = Some e \<and> ie_plugin e = ?q"
    then have "table_get (rg_step_type_impls (ct_registry c)) (t, sel) \<noteq> Some e"
      using lookups_as_traces(4) [OF reg(2), of "(t, sel)" e ?q] none(1) by auto
    with committed_slot [of ?ops "ct_registry c" "(t, sel)" e ?q] e loads_by [OF registration_loads [OF prep]]
    obtain s w where "CommitImpl ?q s sel w \<in> set ?ops" and t: "t = step_type_key ?q s"
      by (auto simp: new(4))
    then have "PreparedWasm s sel w \<in> set (pp_impls p)"
      by (auto simp: registration_ops_def Let_def impl_ops_def split: prepared_impl.splits)
    from prepared_decl [OF steps(3) this] prepared_wasm_claim
    have "slot_claimed c ?q (rev (map sd_name (pm_step_type_defs ?m))) (pp_permissions p) s sel" by metis
    then show "\<exists>s. t = step_type_key ?q s \<and> slot_claimed ?c ?q (map sd_name (pm_step_type_defs ?m))
        (permissions_for (ct_registry ?c) ?q) s sel"
      using t new(5) by (auto simp: perms slot_claimed_def same_settings_def)
  qed
  moreover have "imports_sound ?c ?q ?m"
  proof -
    have links: "(\<lambda>(n, _). step_type_key ?q n) ` set (registration_claims p) = plugin_links ?q ?m"
      by (simp add: plugin_links_def case_prod_unfold image_image flip: new(6))
    have distinct: "keys_distinct (ct_import_owners ?c)" "keys_distinct (ct_imports ?c)"
      using new(3) aligned_distinct [OF new(3)] by (simp_all add: imports_aligned_def)
    have aligned: "imports_aligned c" using ok by (simp add: catalogue_ok_def)
    then have old: "(k, ?q) \<notin> set (ct_import_owners c)" for k
      using none(2) by (simp add: imports_aligned_def table_get_set)
    then have owned: "table_get (ct_import_owners ?c) k = Some ?q \<longleftrightarrow> k \<in> plugin_links ?q ?m" for k
      unfolding table_get_set [OF distinct(1)] unfolding new(1) by (auto simp flip: links)
    moreover have "\<exists>t impl_ref. k = step_type_key ?q t \<and> table_get (ct_native ?c) impl_ref = Some body
        \<and> binding_allowed ?c ?q impl_ref"
      if "table_get (ct_import_owners ?c) k = Some ?q" "table_get (ct_imports ?c) (import_name k) = Some (NativeImport body)"
      for k body
    proof -
      have "fst ` set (ct_import_owners c) \<inter> plugin_links ?q ?m = {}"
        unfolding links [symmetric]
        using distinct(1) by (simp add: new(1) keys_distinct_def image_image case_prod_unfold comp_def)
      with that(1) owned have "k \<notin> fst ` set (ct_import_owners c)" by blast
      then have "import_name k \<notin> fst ` set (ct_imports c)"
        using aligned_get [OF aligned, of k] by (simp only: table_get_None simp_thms)
      with that(2) obtain n where n: "(n, NativeImport body) \<in> set (registration_claims p)" "k = step_type_key ?q n"
        unfolding table_get_set [OF distinct(2)] unfolding new(2) by force
      then have "PreparedNative n body \<in> set (pp_impls p)"
        by (auto simp: registration_claims_def dest!: native_claim)
      from prepared_decl [OF steps(3) this] obtain decl where
        "prepared_from c ?m (pp_permissions p) (rev (map sd_name (pm_step_type_defs ?m))) decl (PreparedNative n body)" .
      from prepared_native_binding [OF this] n(2) new(5) show ?thesis
        by (auto simp: binding_allowed_def perms same_settings_def)
    qed
    ultimately show ?thesis unfolding imports_sound_def by blast
  qed
  ultimately show ?thesis by (simp add: plugin_sound_def)
qed

lemma commit_keeps_ok:
  assumes ok: "catalogue_ok c" and prep: "prepare_registration tc c namespace lm kernel_owned = Inr p"
    and names: "distinct (map fst (pm_actions lm))" and keys: "yields_keys tc"
  shows "catalogue_ok (commit_registration namespace p c)" (is "catalogue_ok ?c")
    and "has_plugin (ct_registry (commit_registration namespace p c)) q \<longleftrightarrow>
           q = pm_name (pp_manifest p) \<or> has_plugin (ct_registry c) q"
    and "others (pm_name (pp_manifest p)) (traces (ct_registry (commit_registration namespace p c)))
           = others (pm_name (pp_manifest p)) (traces (ct_registry c))"
proof -
  let ?m = "pp_manifest p" and ?r = "ct_registry c"
  let ?q = "pm_name ?m" and ?r' = "ct_registry ?c"
  let ?ops = "registration_ops (role_keys_for c namespace (pm_roles ?m)) p"
  note p = prepared_checks [OF prep]
  note new = commit_imports [OF ok prep]
  have reg: "registry_ok ?r" and owners: "owners_registered c" and aligned: "imports_aligned c"
    using ok by (simp_all add: catalogue_ok_def)
  have reg': "registry_ok ?r'" unfolding new(4) by (rule registry_ok_fold [OF reg])
  have oth: "others ?q (traces ?r') = others ?q (traces ?r)"
    unfolding new(4) using loads_others [OF _ registration_loads [OF prep]] reg by (simp add: registry_ok_def)
  then show "others ?q (traces ?r') = others ?q (traces ?r)" .
  have has: "has_plugin ?r' q \<longleftrightarrow> q = ?q \<or> has_plugin ?r q" for q
    by (simp add: has_plugin_def new(4) registered_manifest)
  then show "has_plugin ?r' q \<longleftrightarrow> q = ?q \<or> has_plugin ?r q" .
  have tr: "traces_of ?r' q = traces_of ?r q" if "q \<noteq> ?q" for q
    by (rule traces_of_others [OF oth that])
  have "owners_registered ?c"
    unfolding owners_registered_def
  proof (intro conjI ballI, clarify)
    fix q t
    assume "(q, t) \<in> traces ?r'"
    then have "q = ?q \<or> (q, t) \<in> traces ?r" using tr [of q] by (auto simp: traces_of_def)
    with owners show "has_plugin ?r' q" unfolding has by (auto simp: owners_registered_def)
  next
    fix x
    assume "x \<in> set (ct_import_owners ?c)"
    with owners show "case x of (k, q) \<Rightarrow> has_plugin ?r' q"
      unfolding has new(1) by (auto simp: owners_registered_def)
  qed
  moreover have "acyclic (invoke_rel (rg_invoke_edges ?r'))"
    using graph_accepted [OF keys p(9)] by (simp add: new(4) registered_edges)
  moreover have "plugin_sound ?c q m" if m: "get_manifest ?r' q = Some m" for q m
  proof (cases "q = ?q")
    case True
    with m have "m = ?m" by (simp add: get_manifest_def new(4) registered_manifest)
    with True commit_new_plugin [OF ok prep names] show ?thesis by simp
  next
    case False
    with m tr have "get_manifest ?r q = Some m"
      using same_lookups(2) [OF reg reg' tr [OF False]] by simp
    with ok have "plugin_sound c q m" by (simp add: catalogue_ok_def)
    moreover have "agree_on q c ?c"
      unfolding agree_on_def
    proof (intro conjI allI impI)
      show "traces_of ?r' q = traces_of ?r q" by (rule tr [OF False])
      have distinct: "keys_distinct (ct_import_owners ?c)" "keys_distinct (ct_imports ?c)"
        "keys_distinct (ct_import_owners c)" "keys_distinct (ct_imports c)"
        using new(3) aligned aligned_distinct [OF new(3)] aligned_distinct [OF aligned]
        by (simp_all add: imports_aligned_def)
      show "table_get (ct_import_owners ?c) k = Some q \<longleftrightarrow> table_get (ct_import_owners c) k = Some q" for k
        unfolding table_get_set [OF distinct(1)] table_get_set [OF distinct(3)]
        unfolding new(1) using False by auto
      show "table_get (ct_imports ?c) (import_name k) = table_get (ct_imports c) (import_name k)"
        if "table_get (ct_import_owners c) k = Some q" for k
      proof -
        from that aligned_get [OF aligned, of k] obtain v where
          v: "table_get (ct_imports c) (import_name k) = Some v" by fastforce
        then have "(import_name k, v) \<in> set (ct_imports ?c)"
          by (simp add: table_get_set [OF distinct(4)] new(2))
        with v show ?thesis by (simp add: table_get_set [OF distinct(2)])
      qed
    qed
    ultimately show ?thesis by (intro plugin_sound_agrees [OF reg reg' new(5)])
  qed
  ultimately show "catalogue_ok ?c"
    using reg' new(3) unfolding catalogue_ok_def by blast
qed

end
