(* ===== verification/LifecycleSpec.thy ===== *)
theory LifecycleSpec
  imports Lifecycle RegistrationSpec
begin

text \<open>
  The catalogues a kernel can reach by loading, unloading and reloading, and what holds of all of them:
  the graph of calls stays acyclic, every plugin is what its manifest says and was authorised for the
  bodies it links, a refused load changes nothing, and an unload undoes its load.
\<close>

section \<open>Reachable catalogues\<close>

text \<open>
  Maps of a manifest have each key once: they are maps in the code. The counter of handles saturates, so a
  load counts only below its last value.
\<close>

definition readers_ok :: "readers \<Rightarrow> bool" where
  "readers_ok rd \<longleftrightarrow> (\<forall>doc m. rd_manifest rd doc = Inr m \<longrightarrow> distinct (map fst (pm_actions m)))"

inductive reachable_catalogue :: "readers \<Rightarrow> 'm toolchain \<Rightarrow> ('m, 'b, 'i) catalogue \<Rightarrow> bool" for rd tc where
  boots: "reachable_catalogue rd tc (boot_catalogue (k :: ('b, unit, unit) kernel_config) native_table intrinsic_table)"
| loads: "reachable_catalogue rd tc c \<Longrightarrow> ct_next_id c \<noteq> - 1 \<Longrightarrow>
    reachable_catalogue rd tc (snd (load_manifest_internal rd tc json namespace immutable c))"
| unloads: "reachable_catalogue rd tc c \<Longrightarrow> reachable_catalogue rd tc (snd (unload_manifest handle c))"
| reloads: "reachable_catalogue rd tc c \<Longrightarrow> reachable_catalogue rd tc (snd (reload_manifest rd tc handle json c))"
| registers: "reachable_catalogue rd tc c \<Longrightarrow> distinct (map fst (pm_actions m)) \<Longrightarrow>
    reachable_catalogue rd tc (snd (register_plugin tc m c))"
| defines_role: "reachable_catalogue rd tc c \<Longrightarrow>
    reachable_catalogue rd tc (snd (register_spi_from_json rd role json c))"

section \<open>The records of the loaded manifests\<close>

definition plugin_record :: "manifest_record \<Rightarrow> plugin_manifest option" where
  "plugin_record rec = (case mr_payload rec of PluginPayload m \<Rightarrow> Some m | SpiPayload _ \<Rightarrow> None)"

text \<open>A record of a plugin and the plugin it names: the retained manifest under its identity.\<close>

definition record_ok :: "('m, 'b, 'i) catalogue \<Rightarrow> manifest_record \<Rightarrow> bool" where
  "record_ok c rec \<longleftrightarrow>
     (case plugin_record rec of
        None \<Rightarrow> True
      | Some m \<Rightarrow>
          mr_identifier rec = qualify (mr_namespace rec) (pm_name m) \<and> distinct (map fst (pm_actions m))
          \<and> get_manifest (ct_registry c) (mr_identifier rec) = Some (m\<lparr>pm_name := mr_identifier rec\<rparr>))"

lemma record_ok_iff:
  "record_ok c rec \<longleftrightarrow>
     (\<forall>m. plugin_record rec = Some m \<longrightarrow>
        mr_identifier rec = qualify (mr_namespace rec) (pm_name m) \<and> distinct (map fst (pm_actions m))
        \<and> get_manifest (ct_registry c) (mr_identifier rec) = Some (m\<lparr>pm_name := mr_identifier rec\<rparr>))"
  by (simp add: record_ok_def split: option.split)

lemma record_ok_updates [simp]:
  "record_ok (c\<lparr>ct_next_id := n\<rparr>) (rec\<lparr>mr_immutable := b\<rparr>) = record_ok c rec"
  by (simp add: record_ok_def plugin_record_def cong: option.case_cong)

text \<open>No bucket is empty, and all users are known.\<close>

definition buckets_ok :: "('h \<Rightarrow> bool) \<Rightarrow> (string, 'h list) table \<Rightarrow> bool" where
  "buckets_ok known t \<longleftrightarrow> list_all (\<lambda>(key, users). users \<noteq> [] \<and> list_all known users) t"

definition is_plugin_handle :: "(64 word \<Rightarrow> manifest_record option) \<Rightarrow> 64 word \<Rightarrow> bool" where
  "is_plugin_handle t h \<longleftrightarrow> (case t h of Some rec \<Rightarrow> plugin_record rec \<noteq> None | None \<Rightarrow> False)"

definition one_handle :: "(64 word \<Rightarrow> manifest_record option) \<Rightarrow> bool" where
  "one_handle t \<longleftrightarrow>
     (\<forall>h rec h' rec'. t h = Some rec \<and> t h' = Some rec'
        \<and> plugin_record rec \<noteq> None \<and> plugin_record rec' \<noteq> None \<and> mr_identifier rec = mr_identifier rec' \<longrightarrow> h = h')"

definition records_ok :: "('m, 'b, 'i) catalogue \<Rightarrow> bool" where
  "records_ok c \<longleftrightarrow>
     (\<forall>h rec. table_get (ct_manifests c) h = Some rec \<longrightarrow> record_ok c rec \<and> h < ct_next_id c)
     \<and> one_handle (table_get (ct_manifests c))
     \<and> buckets_ok (is_plugin_handle (table_get (ct_manifests c))) (ct_role_users c)"

definition lifecycle_ok :: "('m, 'b, 'i) catalogue \<Rightarrow> bool" where
  "lifecycle_ok c \<longleftrightarrow> catalogue_ok c \<and> records_ok c"

lemma record_ok_cong:
  "get_manifest (ct_registry c') = get_manifest (ct_registry c) \<Longrightarrow> record_ok c' = record_ok c"
  by (rule ext) (simp add: record_ok_def split: option.split)

lemma one_handle_insert:
  assumes "one_handle t"
    and "\<And>h' rec'. plugin_record rec \<noteq> None \<Longrightarrow> t h' = Some rec' \<Longrightarrow> plugin_record rec' \<noteq> None \<Longrightarrow>
      mr_identifier rec' \<noteq> mr_identifier rec"
  shows "one_handle (t(h \<mapsto> rec))"
  unfolding one_handle_def
proof (intro allI impI, elim conjE)
  fix a ra b rb
  assume *: "(t(h \<mapsto> rec)) a = Some ra" "(t(h \<mapsto> rec)) b = Some rb" "plugin_record ra \<noteq> None"
    "plugin_record rb \<noteq> None" "mr_identifier ra = mr_identifier rb"
  show "a = b"
  proof (rule ccontr)
    assume "a \<noteq> b"
    then consider "a = h" "b \<noteq> h" | "a \<noteq> h" "b = h" | "a \<noteq> h" "b \<noteq> h" by blast
    then show False
    proof cases
      case 1
      with * assms(2) [of b rb] show False by simp
    next
      case 2
      with * assms(2) [of a ra] show False by simp
    next
      case 3
      with * have "t a = Some ra" "t b = Some rb" by simp_all
      with *(3-5) assms(1) \<open>a \<noteq> b\<close> show False unfolding one_handle_def by blast
    qed
  qed
qed

lemma one_handle_remove: "one_handle t \<Longrightarrow> one_handle (t(h := None))"
  unfolding one_handle_def by (metis fun_upd_apply option.distinct(1))

lemma get_insert_upd: "table_get (table_insert h rec t) = (table_get t)(h \<mapsto> rec)"
  "table_get (table_remove h t) = (table_get t)(h := None)"
  by (rule ext; simp)+

text \<open>What a catalogue with other contracts, handles or users keeps.\<close>

lemma catalogue_ok_cong:
  assumes "catalogue_ok c" "ct_registry c' = ct_registry c" "ct_import_owners c' = ct_import_owners c"
    "ct_imports c' = ct_imports c" "same_settings c c'"
  shows "catalogue_ok c'"
proof -
  have "plugin_sound c' p m" if "plugin_sound c p m" for p m
    by (rule plugin_sound_agrees [of c c' p m])
      (use that assms in \<open>simp_all add: catalogue_ok_def agree_on_def\<close>)
  moreover have "owners_registered c' = owners_registered c" "imports_aligned c' = imports_aligned c"
    by (simp_all add: owners_registered_def imports_aligned_def assms(2-4))
  ultimately show ?thesis using assms(1) unfolding catalogue_ok_def assms(2) by blast
qed

lemma records_ok_cong:
  assumes "records_ok c" "get_manifest (ct_registry c') = get_manifest (ct_registry c)"
    "table_get (ct_manifests c') = table_get (ct_manifests c)" "ct_role_users c' = ct_role_users c"
    "ct_next_id c' = ct_next_id c"
  shows "records_ok c'"
proof -
  have "record_ok c' = record_ok c" by (rule record_ok_cong) (rule assms(2))
  then show ?thesis using assms(1) unfolding records_ok_def assms(3-5) by simp
qed

lemma set_spi_ok:
  assumes "lifecycle_ok c"
  shows "lifecycle_ok (set_spi spi c)"
proof -
  have "catalogue_ok (set_spi spi c)"
    by (rule catalogue_ok_cong [of c]) (use assms in \<open>simp_all add: lifecycle_ok_def set_spi_def same_settings_def\<close>)
  moreover have "records_ok (set_spi spi c)"
    by (rule records_ok_cong [of c]) (use assms in \<open>simp_all add: lifecycle_ok_def set_spi_def\<close>)
  ultimately show ?thesis by (simp add: lifecycle_ok_def)
qed

lemma set_same_spi [simp]: "set_spi (ct_spi c) c = c"
  by (simp add: set_spi_def)

section \<open>Registering and removing\<close>

lemma registered:
  assumes ok: "lifecycle_ok c" and keys: "yields_keys tc" and names: "distinct (map fst (pm_actions m))"
    and reg: "register_plugin_in_as tc namespace m kernel_owned c = (Inr u, c')"
  shows "lifecycle_ok c'"
    and "\<not> has_plugin (ct_registry c) (qualify namespace (pm_name m))"
    and "get_manifest (ct_registry c') q
         = (if q = qualify namespace (pm_name m) then Some (m\<lparr>pm_name := q\<rparr>) else get_manifest (ct_registry c) q)"
    and "ct_spi c' = ct_spi c" "ct_manifests c' = ct_manifests c" "ct_role_users c' = ct_role_users c"
    "ct_next_id c' = ct_next_id c"
    and "others (qualify namespace (pm_name m)) (traces (ct_registry c'))
         = others (qualify namespace (pm_name m)) (traces (ct_registry c))"
proof -
  from reg obtain p where p: "prepare_registration tc c namespace m kernel_owned = Inr p"
    and c': "c' = commit_registration namespace p c"
    by (auto simp: register_plugin_in_as_def split: sum.splits)
  note checks = prepared_checks [OF p]
  from ok have cok: "catalogue_ok c" and rok: "records_ok c" by (simp_all add: lifecycle_ok_def)
  note kept = commit_keeps_ok [OF cok p names keys, folded c']
  note new = commit_imports [OF cok p, folded c']
  have name: "pm_name (pp_manifest p) = qualify namespace (pm_name m)" by (simp add: checks(1))
  show fresh_plugin: "\<not> has_plugin (ct_registry c) (qualify namespace (pm_name m))"
    using checks(4) by (simp add: name)
  show get: "get_manifest (ct_registry c') q
      = (if q = qualify namespace (pm_name m) then Some (m\<lparr>pm_name := q\<rparr>) else get_manifest (ct_registry c) q)" for q
    by (simp add: get_manifest_def new(4) registered_manifest checks(1))
  show fields: "ct_spi c' = ct_spi c" "ct_manifests c' = ct_manifests c" "ct_role_users c' = ct_role_users c"
    "ct_next_id c' = ct_next_id c"
    by (simp_all add: c' commit_registration_eq on_registry_def)
  show "others (qualify namespace (pm_name m)) (traces (ct_registry c'))
      = others (qualify namespace (pm_name m)) (traces (ct_registry c))"
    using kept(3) by (simp add: name)
  have "get_manifest (ct_registry c) (qualify namespace (pm_name m)) = None"
    using fresh_plugin by (simp add: get_manifest_def has_plugin_def)
  then have "record_ok c' rec" if "record_ok c rec" for rec
    using that by (auto simp: record_ok_def get split: option.splits)
  then have "records_ok c'" using rok unfolding records_ok_def fields by blast
  with kept(1) show "lifecycle_ok c'" by (simp add: lifecycle_ok_def)
qed

lemma refused_registration:
  "register_plugin_in_as tc namespace m kernel_owned c = (Inl e, c') \<Longrightarrow> c' = c"
  by (auto simp: register_plugin_in_as_def split: sum.splits)

lemma spi_register_cases:
  "spi_register read_spi role json r = (Inl e, r') \<Longrightarrow> r' = r"
  by (auto simp: spi_register_def split: sum.splits option.splits if_splits)

text \<open>A load that is refused leaves the kernel as it was.\<close>

lemma refused_classified:
  "register_classified_manifest rd tc json namespace kernel_owned c = (Inl e, c') \<Longrightarrow> c' = c"
  by (auto simp: register_classified_manifest_def dest: refused_registration spi_register_cases
      split: sum.splits classified_manifest.splits prod.splits)

text \<open>The result of a load, before its record is tracked.\<close>

lemma classified:
  assumes ok: "lifecycle_ok c" and keys: "yields_keys tc" and rd: "readers_ok rd"
    and reg: "register_classified_manifest rd tc json namespace kernel_owned c = (Inr rec, c')"
  shows "lifecycle_ok c'" "record_ok c' rec" "mr_namespace rec = namespace"
    "ct_manifests c' = ct_manifests c" "ct_role_users c' = ct_role_users c" "ct_next_id c' = ct_next_id c"
    "plugin_record rec \<noteq> None \<Longrightarrow> \<not> has_plugin (ct_registry c) (mr_identifier rec)"
proof -
  have "lifecycle_ok c' \<and> record_ok c' rec \<and> mr_namespace rec = namespace \<and> ct_manifests c' = ct_manifests c
      \<and> ct_role_users c' = ct_role_users c \<and> ct_next_id c' = ct_next_id c
      \<and> (plugin_record rec \<noteq> None \<longrightarrow> \<not> has_plugin (ct_registry c) (mr_identifier rec))"
  proof (cases "classify_manifest rd json")
    case (Inl e)
    with reg show ?thesis by (simp add: register_classified_manifest_def)
  next
    case (Inr cm)
    show ?thesis
    proof (cases cm)
      case (SpiDef role)
      with Inr reg obtain spi where
        "c' = set_spi spi c" "mr_payload rec = SpiPayload json" "mr_namespace rec = namespace"
        by (auto simp: register_classified_manifest_def split: sum.splits prod.splits)
      then show ?thesis using set_spi_ok [OF ok, of spi] by (simp add: record_ok_def plugin_record_def set_spi_def)
    next
      case (Plugin m)
      with Inr reg have r: "register_plugin_in_as tc namespace m kernel_owned c = (Inr (), c')"
        and rec: "rec = \<lparr>mr_identifier = qualify namespace (pm_name m), mr_namespace = namespace,
          mr_payload = PluginPayload m, mr_immutable = False\<rparr>"
        by (auto simp: register_classified_manifest_def split: sum.splits prod.splits)
      have names: "distinct (map fst (pm_actions m))"
      proof -
        from Inr Plugin obtain doc where "rd_manifest rd doc = Inr m"
          by (auto simp: classify_manifest_def read_plugin_def rbind_Inr_iff split: option.splits if_splits)
        with rd show ?thesis by (auto simp: readers_ok_def)
      qed
      from registered [OF ok keys this r] names show ?thesis
        by (simp add: record_ok_def plugin_record_def rec)
    qed
  qed
  then show "lifecycle_ok c'" "record_ok c' rec" "mr_namespace rec = namespace"
    "ct_manifests c' = ct_manifests c" "ct_role_users c' = ct_role_users c" "ct_next_id c' = ct_next_id c"
    "plugin_record rec \<noteq> None \<Longrightarrow> \<not> has_plugin (ct_registry c) (mr_identifier rec)" by blast+
qed

section \<open>Users of roles\<close>

lemma buckets_insert:
  "filter keep b = filter keep (table_bucket t k) \<Longrightarrow>
    buckets_retain keep (table_insert k b t) = buckets_retain keep t"
proof (induction t)
  case Nil
  then show ?case by (simp add: buckets_retain_def table_insert_def table_retain_def table_bucket_def table_get_def)
next
  case (Cons x t)
  then show ?case
    by (cases x) (auto simp: buckets_retain_def table_insert_def table_retain_def table_bucket_def table_get_def)
qed

lemma retain_add_user: "buckets_retain (\<lambda>u. u \<noteq> h) (add_user h key t) = buckets_retain (\<lambda>u. u \<noteq> h) t"
  unfolding add_user_def Let_def by (rule buckets_insert) simp

lemma retain_add_users: "buckets_retain (\<lambda>u. u \<noteq> h) (fold (add_user h) ks t) = buckets_retain (\<lambda>u. u \<noteq> h) t"
  by (induction ks arbitrary: t) (simp_all add: retain_add_user)

lemma retain_none:
  assumes "list_all (\<lambda>(key, users). users \<noteq> [] \<and> h \<notin> set users) t"
  shows "buckets_retain (\<lambda>u. u \<noteq> h) t = t"
proof -
  have "filter (\<lambda>u. u \<noteq> h) users = users" if "h \<notin> set users" for users
    using that by (intro filter_True) auto
  with assms show ?thesis
    unfolding buckets_retain_def table_retain_def by (induction t) auto
qed

lemma table_insert_all:
  "list_all P t \<Longrightarrow> P (k, v) \<Longrightarrow> list_all P (table_insert k v t)"
  unfolding table_insert_def by (induction t) auto

lemma bucket_known: "buckets_ok known t \<Longrightarrow> list_all known (table_bucket t k)"
  unfolding buckets_ok_def table_bucket_def table_get_def by (induction t) auto

lemma add_user_ok: "buckets_ok known t \<Longrightarrow> known h \<Longrightarrow> buckets_ok known (add_user h key t)"
  using bucket_known [of known t key]
  unfolding buckets_ok_def add_user_def Let_def by (intro table_insert_all) auto

lemma add_users_ok: "buckets_ok known t \<Longrightarrow> known h \<Longrightarrow> buckets_ok known (fold (add_user h) ks t)"
  by (induction ks arbitrary: t) (simp_all add: add_user_ok)

lemma retain_ok:
  "buckets_ok known t \<Longrightarrow> buckets_ok (\<lambda>u. known u \<and> u \<noteq> h) (buckets_retain (\<lambda>u. u \<noteq> h) t)"
  unfolding buckets_ok_def list_all_iff
proof (rule ballI)
  fix x
  assume ok: "\<forall>x\<in>set t. case x of (key, users) \<Rightarrow> users \<noteq> [] \<and> (\<forall>u\<in>set users. known u)"
    and "x \<in> set (buckets_retain (\<lambda>u. u \<noteq> h) t)"
  then obtain key users where "x = (key, filter (\<lambda>u. u \<noteq> h) users)" "filter (\<lambda>u. u \<noteq> h) users \<noteq> []" "(key, users) \<in> set t"
    by (cases x) (auto simp: set_buckets_retain)
  with ok show "case x of (key, users) \<Rightarrow> users \<noteq> [] \<and> (\<forall>u\<in>set users. known u \<and> u \<noteq> h)" by auto
qed

section \<open>Handles\<close>

lemma buckets_mono: "buckets_ok known t \<Longrightarrow> (\<And>h. known h \<Longrightarrow> known' h) \<Longrightarrow> buckets_ok known' t"
  unfolding buckets_ok_def by (induction t) (auto elim!: list.pred_mono_strong)

lemma bump_ok:
  assumes "lifecycle_ok c" "ct_next_id c \<le> n"
  shows "lifecycle_ok (c\<lparr>ct_next_id := n\<rparr>)"
proof -
  have "catalogue_ok (c\<lparr>ct_next_id := n\<rparr>)"
    by (rule catalogue_ok_cong [of c]) (use assms in \<open>simp_all add: lifecycle_ok_def same_settings_def\<close>)
  moreover have "record_ok (c\<lparr>ct_next_id := n\<rparr>) = record_ok c"
    by (rule record_ok_cong) simp
  then have "records_ok (c\<lparr>ct_next_id := n\<rparr>)"
    using assms by (auto simp: lifecycle_ok_def records_ok_def intro: less_le_trans)
  ultimately show ?thesis by (simp add: lifecycle_ok_def)
qed

text \<open>Tracking a record whose plugin has no other handle.\<close>

lemma track_fields [simp]:
  "ct_registry (track_manifest h rec c) = ct_registry c"
  "ct_import_owners (track_manifest h rec c) = ct_import_owners c"
  "ct_imports (track_manifest h rec c) = ct_imports c"
  "ct_spi (track_manifest h rec c) = ct_spi c"
  "ct_next_id (track_manifest h rec c) = ct_next_id c"
  "ct_manifests (track_manifest h rec c) = table_insert h rec (ct_manifests c)"
  by (simp_all add: track_manifest_def)

lemma track_ok:
  assumes ok: "lifecycle_ok c" and rec: "record_ok c rec" "h < ct_next_id c" "table_get (ct_manifests c) h = None"
    and only: "\<And>h' rec'. plugin_record rec \<noteq> None \<Longrightarrow> table_get (ct_manifests c) h' = Some rec' \<Longrightarrow>
      plugin_record rec' \<noteq> None \<Longrightarrow> mr_identifier rec' \<noteq> mr_identifier rec"
  shows "lifecycle_ok (track_manifest h rec c)" (is "lifecycle_ok ?c")
proof -
  have "catalogue_ok ?c"
    by (rule catalogue_ok_cong [of c])
      (use ok in \<open>simp_all add: lifecycle_ok_def same_settings_def track_manifest_def\<close>)
  moreover have "records_ok ?c"
    unfolding records_ok_def
  proof (intro conjI allI impI)
    from ok have r: "records_ok c" by (simp add: lifecycle_ok_def)
    have same: "record_ok ?c = record_ok c" by (rule record_ok_cong) simp
    show "record_ok ?c rec'" "h' < ct_next_id ?c" if "table_get (ct_manifests ?c) h' = Some rec'" for h' rec'
      using that r rec unfolding same by (auto simp: records_ok_def split: if_splits)+
    show "one_handle (table_get (ct_manifests ?c))"
      unfolding track_fields get_insert_upd
      by (rule one_handle_insert) (use r in \<open>simp add: records_ok_def\<close>, rule only)
    let ?known = "is_plugin_handle (table_get (ct_manifests ?c))"
    have "buckets_ok (is_plugin_handle (table_get (ct_manifests c))) (ct_role_users c)"
      using r by (simp add: records_ok_def)
    then have users: "buckets_ok ?known (ct_role_users c)"
      by (rule buckets_mono) (use rec(3) in \<open>auto simp: is_plugin_handle_def split: option.splits\<close>)
    show "buckets_ok ?known (ct_role_users ?c)"
    proof (cases "mr_payload rec")
      case (SpiPayload json)
      with users show ?thesis by (simp add: track_manifest_def)
    next
      case (PluginPayload m)
      then have "?known h" by (simp add: is_plugin_handle_def plugin_record_def)
      with users PluginPayload show ?thesis by (simp add: track_manifest_def add_users_ok)
    qed
  qed
  ultimately show ?thesis by (simp add: lifecycle_ok_def)
qed

text \<open>Forgetting a handle: its record and its uses.\<close>

definition forget_handle :: "64 word \<Rightarrow> ('m, 'b, 'i) catalogue \<Rightarrow> ('m, 'b, 'i) catalogue" where
  "forget_handle h c = untrack_manifest h (take_record h c)"

lemma forget_fields [simp]:
  "ct_registry (forget_handle h c) = ct_registry c"
  "ct_import_owners (forget_handle h c) = ct_import_owners c"
  "ct_imports (forget_handle h c) = ct_imports c"
  "ct_spi (forget_handle h c) = ct_spi c"
  "ct_next_id (forget_handle h c) = ct_next_id c"
  "ct_manifests (forget_handle h c) = table_remove h (ct_manifests c)"
  "ct_role_users (forget_handle h c) = buckets_retain (\<lambda>u. u \<noteq> h) (ct_role_users c)"
  by (simp_all add: forget_handle_def untrack_manifest_def take_record_def)

lemma forget_ok:
  assumes cat: "catalogue_ok c"
    and others_ok: "\<And>h' rec. h' \<noteq> h \<Longrightarrow> table_get (ct_manifests c) h' = Some rec \<Longrightarrow> record_ok c rec \<and> h' < ct_next_id c"
    and one: "one_handle (table_get (ct_manifests c))"
    and users: "buckets_ok (is_plugin_handle (table_get (ct_manifests c))) (ct_role_users c)"
  shows "lifecycle_ok (forget_handle h c)" (is "lifecycle_ok ?c")
proof -
  have "catalogue_ok ?c"
    by (rule catalogue_ok_cong [of c])
      (use cat in \<open>simp_all add: same_settings_def forget_handle_def untrack_manifest_def take_record_def\<close>)
  moreover have "records_ok ?c"
    unfolding records_ok_def
  proof (intro conjI allI impI)
    have same: "record_ok ?c = record_ok c" by (rule record_ok_cong) simp
    show "record_ok ?c rec" "h' < ct_next_id ?c" if "table_get (ct_manifests ?c) h' = Some rec" for h' rec
      using that others_ok [of h' rec] unfolding same by (simp_all split: if_splits)
    show "one_handle (table_get (ct_manifests ?c))"
      using one by (simp add: get_insert_upd one_handle_remove)
    show "buckets_ok (is_plugin_handle (table_get (ct_manifests ?c))) (ct_role_users ?c)"
      using retain_ok [OF users, of h]
      by (simp) (erule buckets_mono, simp add: is_plugin_handle_def)
  qed
  ultimately show ?thesis by (simp add: lifecycle_ok_def)
qed

section \<open>Every operation keeps the invariant\<close>

lemma known_identifier:
  assumes "lifecycle_ok c" "table_get (ct_manifests c) h = Some rec" "plugin_record rec \<noteq> None"
  shows "has_plugin (ct_registry c) (mr_identifier rec)"
  using assms by (fastforce simp: lifecycle_ok_def records_ok_def record_ok_def has_plugin_def get_manifest_def)

lemma next_id_above:
  assumes "n \<noteq> - 1"
  shows "n < next_id n"
proof -
  have "unat n \<noteq> unat (- 1 :: 64 word)" using assms by (simp only: word_unat_eq_iff [symmetric] not_False_eq_True)
  moreover have "unat n < 2 ^ 64" by (rule order_less_le_trans [OF unsigned_less]) simp
  ultimately have "unat n + 1 < 2 ^ 64" by (simp add: unsigned_minus_1_eq_mask mask_eq_exp_minus_1)
  then have "unat (n + 1) = unat n + 1" by (simp add: unat_word_ariths)
  with assms show ?thesis by (simp add: next_id_def word_less_nat_alt)
qed

lemma load_ok:
  assumes ok: "lifecycle_ok c" and keys: "yields_keys tc" and rd: "readers_ok rd" and room: "ct_next_id c \<noteq> - 1"
  shows "lifecycle_ok (snd (load_manifest_internal rd tc json namespace immutable c))"
proof (cases "register_classified_manifest rd tc json namespace immutable c")
  case (Pair r c1)
  show ?thesis
  proof (cases r)
    case (Inl e)
    with Pair refused_classified [of rd tc json namespace immutable c e c1] ok show ?thesis
      by (simp add: load_manifest_internal_def)
  next
    case (Inr rec)
    with Pair have reg: "register_classified_manifest rd tc json namespace immutable c = (Inr rec, c1)" by simp
    note done1 = classified [OF ok keys rd reg]
    let ?h = "ct_next_id c" and ?rec = "rec\<lparr>mr_immutable := immutable\<rparr>"
    let ?c = "c1\<lparr>ct_next_id := next_id ?h\<rparr>"
    have above: "?h < next_id ?h" by (rule next_id_above [OF room])
    have plain: "plugin_record ?rec = plugin_record rec" "mr_identifier ?rec = mr_identifier rec"
      by (simp_all add: plugin_record_def)
    have "lifecycle_ok (track_manifest ?h ?rec ?c)"
    proof (rule track_ok)
      show "lifecycle_ok ?c" by (rule bump_ok [OF done1(1)]) (use above done1(6) in simp)
      show "record_ok ?c ?rec" using done1(2) by simp
      show "?h < ct_next_id ?c" using above by simp
      have "h < ?h" if "table_get (ct_manifests c) h = Some rec'" for h rec'
        using ok that by (auto simp: lifecycle_ok_def records_ok_def)
      then show "table_get (ct_manifests ?c) ?h = None"
        by (cases "table_get (ct_manifests c) ?h") (auto simp: done1(4))
      show "mr_identifier rec' \<noteq> mr_identifier ?rec"
        if "plugin_record ?rec \<noteq> None" "table_get (ct_manifests ?c) h' = Some rec'" "plugin_record rec' \<noteq> None" for h' rec'
        using known_identifier [OF ok _ that(3), of h'] done1(4,7) that plain by auto
    qed
    with reg done1(6) show ?thesis by (simp add: load_manifest_internal_def Let_def)
  qed
qed

text \<open>An unload of a plugin removes it and forgets its handle.\<close>

lemma unload_plugin_eq:
  assumes "table_get (ct_manifests c) h = Some rec" "mr_payload rec = PluginPayload m" "\<not> mr_immutable rec"
    and "has_plugin (ct_registry c) (mr_identifier rec)"
  shows "unload_manifest h c = (Inr (), forget_handle h (remove_plugin (mr_identifier rec) m c))"
proof -
  have "unregister_plugin (mr_identifier rec) (ct_registry c)
      = (True, snd (unregister_plugin (mr_identifier rec) (ct_registry c)))"
    using assms(4) by (simp add: unregister_plugin_def)
  then obtain r where r: "unregister_plugin (mr_identifier rec) (ct_registry c) = (True, r)" by metis
  have "untrack_manifest h (release_step_imports (mr_identifier rec) m ((take_record h c)\<lparr>ct_registry := r\<rparr>))
      = forget_handle h (remove_plugin (mr_identifier rec) m c)"
    by (simp add: forget_handle_def untrack_manifest_def take_record_def remove_plugin_def release_eq
        drop_keys_def on_registry_def r)
  with assms r show ?thesis
    by (simp add: unload_manifest_def handle_immutable_def Let_def take_record_def)
qed

lemma retire_plugin_eq:
  assumes "mr_payload rec = PluginPayload m" "has_plugin (ct_registry c) (mr_identifier rec)"
  shows "retire h rec (take_record h c) = (Inr (), forget_handle h (remove_plugin (mr_identifier rec) m c))"
proof -
  have "unregister_plugin (mr_identifier rec) (ct_registry c)
      = (True, snd (unregister_plugin (mr_identifier rec) (ct_registry c)))"
    using assms(2) by (simp add: unregister_plugin_def)
  then obtain r where r: "unregister_plugin (mr_identifier rec) (ct_registry c) = (True, r)" by metis
  then show ?thesis
    using assms(1)
    by (simp add: retire_def take_record_def forget_handle_def untrack_manifest_def remove_plugin_def release_eq
        drop_keys_def on_registry_def)
qed

text \<open>The manifest of a record links what the registered one does.\<close>

lemma record_imports:
  assumes "lifecycle_ok c" "table_get (ct_manifests c) h = Some rec" "mr_payload rec = PluginPayload m"
  shows "imports_sound c (mr_identifier rec) m" "has_plugin (ct_registry c) (mr_identifier rec)"
proof -
  have "plugin_record rec = Some m" using assms(3) by (simp add: plugin_record_def)
  with assms have get: "get_manifest (ct_registry c) (mr_identifier rec) = Some (m\<lparr>pm_name := mr_identifier rec\<rparr>)"
    by (fastforce simp: lifecycle_ok_def records_ok_def record_ok_def)
  with assms(1) have "imports_sound c (mr_identifier rec) (m\<lparr>pm_name := mr_identifier rec\<rparr>)"
    by (simp add: lifecycle_ok_def catalogue_ok_def plugin_sound_def)
  then show "imports_sound c (mr_identifier rec) m"
    by (simp add: imports_sound_def plugin_links_def linked_names_def)
  from get show "has_plugin (ct_registry c) (mr_identifier rec)" by (simp add: get_manifest_def has_plugin_def)
qed

lemma forget_plugin_ok:
  assumes ok: "lifecycle_ok c" and rec: "table_get (ct_manifests c) h = Some rec" "mr_payload rec = PluginPayload m"
  shows "lifecycle_ok (forget_handle h (remove_plugin (mr_identifier rec) m c))"
proof (rule forget_ok)
  let ?c = "remove_plugin (mr_identifier rec) m c"
  note sound = record_imports [OF ok rec]
  from ok have cok: "catalogue_ok c" and rok: "records_ok c" by (simp_all add: lifecycle_ok_def)
  note removed = remove_keeps_ok [OF cok sound(2,1)]
  show "catalogue_ok ?c" by (rule removed(1))
  show "one_handle (table_get (ct_manifests ?c))"
    "buckets_ok (is_plugin_handle (table_get (ct_manifests ?c))) (ct_role_users ?c)"
    using rok by (simp_all add: records_ok_def)
  fix h' rec'
  assume other: "h' \<noteq> h" "table_get (ct_manifests ?c) h' = Some rec'"
  then have get: "table_get (ct_manifests c) h' = Some rec'" by simp
  with rok have old: "record_ok c rec'" "h' < ct_next_id c" by (auto simp: records_ok_def)
  have "record_ok ?c rec'"
  proof (cases "plugin_record rec'")
    case None
    then show ?thesis by (simp add: record_ok_def)
  next
    case (Some m')
    have "plugin_record rec \<noteq> None" using rec(2) by (simp add: plugin_record_def)
    with rok rec(1) get other(1) Some have "mr_identifier rec' \<noteq> mr_identifier rec"
      unfolding records_ok_def one_handle_def by (metis option.distinct(1))
    then have "table_get (rg_manifests (ct_registry ?c)) (mr_identifier rec')
        = table_get (rg_manifests (ct_registry c)) (mr_identifier rec')"
      by (simp add: unregister_plugin_def)
    with old(1) Some show ?thesis unfolding record_ok_iff get_manifest_def by auto
  qed
  with old(2) show "record_ok ?c rec' \<and> h' < ct_next_id ?c" by simp
qed

lemma retained:
  assumes "lifecycle_ok c" "table_get (ct_manifests c) h = Some rec" "mr_payload rec = SpiPayload json"
  shows "lifecycle_ok (forget_handle h (set_spi spi c))" "lifecycle_ok (set_spi spi (take_record h c))"
proof -
  from set_spi_ok [OF assms(1)] have ok: "lifecycle_ok (set_spi spi c)" .
  then show forgotten: "lifecycle_ok (forget_handle h (set_spi spi c))"
    by (intro forget_ok) (auto simp: lifecycle_ok_def records_ok_def)
  have "buckets_ok (is_plugin_handle (table_get (ct_manifests c))) (ct_role_users c)"
    using assms(1) by (simp add: lifecycle_ok_def records_ok_def)
  then have "list_all (\<lambda>(key, users). users \<noteq> [] \<and> h \<notin> set users) (ct_role_users c)"
    unfolding buckets_ok_def
    by (rule list.pred_mono_strong) (use assms(2,3) in \<open>auto simp: list_all_iff is_plugin_handle_def plugin_record_def\<close>)
  then have "forget_handle h (set_spi spi c) = set_spi spi (take_record h c)"
    by (simp add: forget_handle_def untrack_manifest_def take_record_def set_spi_def retain_none)
  with forgotten show "lifecycle_ok (set_spi spi (take_record h c))" by simp
qed

lemma put_back_ok:
  assumes "lifecycle_ok c" "table_get (ct_manifests c) h = Some rec"
  shows "lifecycle_ok (put_record h rec (take_record h c))" (is "lifecycle_ok ?c")
proof -
  have "table_get (ct_manifests ?c) = table_get (ct_manifests c)"
    by (rule ext) (simp add: put_record_def take_record_def assms(2))
  then have "records_ok ?c"
    by (intro records_ok_cong [of c ?c]) (use assms(1) in \<open>simp_all add: lifecycle_ok_def put_record_def take_record_def\<close>)
  moreover have "catalogue_ok ?c"
    by (rule catalogue_ok_cong [of c])
      (use assms(1) in \<open>simp_all add: lifecycle_ok_def same_settings_def put_record_def take_record_def\<close>)
  ultimately show ?thesis by (simp add: lifecycle_ok_def)
qed

lemma unload_ok:
  assumes ok: "lifecycle_ok c"
  shows "lifecycle_ok (snd (unload_manifest h c))"
proof (cases "table_get (ct_manifests c) h")
  case None
  with ok show ?thesis by (simp add: unload_manifest_def handle_immutable_def)
next
  case (Some rec)
  show ?thesis
  proof (cases "mr_immutable rec")
    case True
    with ok Some show ?thesis by (simp add: unload_manifest_def handle_immutable_def)
  next
    case False
    show ?thesis
    proof (cases "mr_payload rec")
      case (PluginPayload m)
      note sound = record_imports [OF ok Some PluginPayload]
      show ?thesis
        using forget_plugin_ok [OF ok Some PluginPayload]
        by (simp add: unload_plugin_eq [OF Some PluginPayload False sound(2)])
    next
      case (SpiPayload json)
      let ?key = "mr_identifier rec"
      have "snd (unload_manifest h c) \<in> {put_record h rec (take_record h c),
          set_spi (snd (spi_unregister ?key (ct_spi c))) (take_record h c),
          forget_handle h (set_spi (snd (spi_unregister ?key (ct_spi c))) c)}"
        using Some False SpiPayload
        by (simp add: unload_manifest_def handle_immutable_def Let_def spi_unregister_def take_record_def
            forget_handle_def untrack_manifest_def set_spi_def split: bool.split)
      with retained [OF ok Some SpiPayload] put_back_ok [OF ok Some] show ?thesis by auto
    qed
  qed
qed

lemma retire_ok:
  assumes ok: "lifecycle_ok c" and rec: "table_get (ct_manifests c) h = Some rec"
    and ret: "retire h rec (take_record h c) = (r, c')"
  shows "lifecycle_ok c'"
    and "r = Inr () \<Longrightarrow> table_get (ct_manifests c') h = None \<and> ct_next_id c' = ct_next_id c"
proof -
  have "lifecycle_ok c' \<and> (r = Inr () \<longrightarrow> table_get (ct_manifests c') h = None \<and> ct_next_id c' = ct_next_id c)"
  proof (cases "mr_payload rec")
    case (PluginPayload m)
    note sound = record_imports [OF ok rec PluginPayload]
    have "c' = forget_handle h (remove_plugin (mr_identifier rec) m c)"
      using ret retire_plugin_eq [OF PluginPayload sound(2)] by simp
    then show ?thesis using forget_plugin_ok [OF ok rec PluginPayload] by simp
  next
    case (SpiPayload json)
    let ?spi = "snd (spi_unregister (mr_identifier rec) (ct_spi c))"
    from ret SpiPayload consider
      "c' = put_record h rec (take_record h (set_spi ?spi c))" "r \<noteq> Inr ()"
    | "c' = forget_handle h (set_spi ?spi c)"
      by (auto simp: retire_def spi_unregister_def take_record_def put_record_def forget_handle_def
          untrack_manifest_def set_spi_def split: bool.splits if_splits prod.splits)
    then show ?thesis
    proof cases
      case 1
      with put_back_ok [OF set_spi_ok [OF ok], where h = h and rec = rec and spi1 = ?spi] rec show ?thesis by (simp add: set_spi_def)
    next
      case 2
      with retained(1) [OF ok rec SpiPayload, where spi = ?spi] show ?thesis by (simp add: set_spi_def)
    qed
  qed
  then show "lifecycle_ok c'"
    "r = Inr () \<Longrightarrow> table_get (ct_manifests c') h = None \<and> ct_next_id c' = ct_next_id c" by blast+
qed

lemma track_again:
  assumes "lifecycle_ok c1" "table_get (ct_manifests c1) h = None" "h < ct_next_id c1"
    and "lifecycle_ok c2" "record_ok c2 rec" "ct_manifests c2 = ct_manifests c1" "ct_next_id c2 = ct_next_id c1"
    and "plugin_record rec \<noteq> None \<Longrightarrow> \<not> has_plugin (ct_registry c1) (mr_identifier rec)"
  shows "lifecycle_ok (track_manifest h rec c2)"
proof (rule track_ok)
  show "mr_identifier rec' \<noteq> mr_identifier rec"
    if "plugin_record rec \<noteq> None" "table_get (ct_manifests c2) h' = Some rec'" "plugin_record rec' \<noteq> None" for h' rec'
    using known_identifier [OF assms(1) _ that(3), of h'] assms(6,8) that by auto
qed (use assms in simp_all)

lemma roll_back_ok:
  assumes ok: "lifecycle_ok c" and keys: "yields_keys tc"
    and names: "\<And>m. plugin_record rec = Some m \<Longrightarrow>
      mr_identifier rec = qualify (mr_namespace rec) (pm_name m) \<and> distinct (map fst (pm_actions m))"
    and rollback: "roll_back rd tc rec c = (r, c')"
  shows "lifecycle_ok c'"
    and "r = Inr () \<Longrightarrow> record_ok c' rec \<and> ct_manifests c' = ct_manifests c \<and> ct_next_id c' = ct_next_id c
      \<and> (plugin_record rec \<noteq> None \<longrightarrow> \<not> has_plugin (ct_registry c) (mr_identifier rec))"
proof -
  have "lifecycle_ok c' \<and> (r = Inr () \<longrightarrow> record_ok c' rec \<and> ct_manifests c' = ct_manifests c
      \<and> ct_next_id c' = ct_next_id c
      \<and> (plugin_record rec \<noteq> None \<longrightarrow> \<not> has_plugin (ct_registry c) (mr_identifier rec)))"
  proof (cases "mr_payload rec")
    case (SpiPayload json)
    with rollback obtain spi where "c' = set_spi spi c" by (auto simp: roll_back_def split: prod.splits)
    with SpiPayload set_spi_ok [OF ok, of spi] show ?thesis
      by (simp add: record_ok_def plugin_record_def set_spi_def)
  next
    case (PluginPayload m)
    then have m: "plugin_record rec = Some m" by (simp add: plugin_record_def)
    from rollback PluginPayload obtain r' where
      reg: "register_plugin_in_as tc (mr_namespace rec) m False c = (r', c')" "r = map_err PluginRefused r'"
      by (auto simp: roll_back_def register_plugin_in_def split: prod.splits)
    show ?thesis
    proof (cases r')
      case (Inl e)
      with reg refused_registration [of tc "mr_namespace rec" m False c e c'] ok show ?thesis by simp
    next
      case (Inr u)
      with reg have "register_plugin_in_as tc (mr_namespace rec) m False c = (Inr u, c')" by simp
      from registered [OF ok keys conjunct2 [OF names [OF m]] this] names [OF m] m show ?thesis
        by (simp add: record_ok_def)
    qed
  qed
  then show "lifecycle_ok c'"
    "r = Inr () \<Longrightarrow> record_ok c' rec \<and> ct_manifests c' = ct_manifests c \<and> ct_next_id c' = ct_next_id c
      \<and> (plugin_record rec \<noteq> None \<longrightarrow> \<not> has_plugin (ct_registry c) (mr_identifier rec))" by blast+
qed

lemma reload_ok:
  assumes ok: "lifecycle_ok c" and keys: "yields_keys tc" and rd: "readers_ok rd"
  shows "lifecycle_ok (snd (reload_manifest rd tc h json c))"
proof (cases "table_get (ct_manifests c) h")
  case None
  with ok show ?thesis by (simp add: reload_manifest_def handle_immutable_def)
next
  case (Some old)
  show ?thesis
  proof (cases "mr_immutable old")
    case True
    with ok Some show ?thesis by (simp add: reload_manifest_def handle_immutable_def)
  next
    case False
    obtain r c1 where ret: "retire h old (take_record h c) = (r, c1)" by force
    note retired = retire_ok [OF ok Some ret]
    have old_ok: "record_ok c old" "h < ct_next_id c"
      using ok Some by (auto simp: lifecycle_ok_def records_ok_def)
    obtain r2 c2 where reg: "register_classified_manifest rd tc json (mr_namespace old) False c1 = (r2, c2)" by force
    obtain r3 c3 where rollback: "roll_back rd tc old c2 = (r3, c3)" by force
    have names: "mr_identifier old = qualify (mr_namespace old) (pm_name m) \<and> distinct (map fst (pm_actions m))"
      if "plugin_record old = Some m" for m
      using old_ok(1) that by (simp add: record_ok_iff)
    have unit: "v = ()" for v :: unit by simp
    show ?thesis
    proof (cases r)
      case (Inl e)
      with retired(1) Some False ret show ?thesis by (simp add: reload_manifest_def handle_immutable_def)
    next
      case (Inr u)
      with retired(2) have free: "table_get (ct_manifests c1) h = None" "ct_next_id c1 = ct_next_id c" by simp_all
      show ?thesis
      proof (cases r2)
        case new: (Inr rec)
        note done2 = classified [OF retired(1) keys rd reg [unfolded new]]
        have "lifecycle_ok (track_manifest h rec c2)"
          by (rule track_again [OF retired(1) free(1)]) (use done2 free old_ok in simp_all)
        with Some False ret Inr reg new show ?thesis by (simp add: reload_manifest_def handle_immutable_def)
      next
        case refused: (Inl e)
        with reg have c2: "c2 = c1" using refused_classified by metis
        note rolled = roll_back_ok [OF retired(1) keys names rollback [unfolded c2]]
        show ?thesis
        proof (cases r3)
          case (Inl e')
          with Some False ret Inr reg refused rollback rolled(1) show ?thesis
            by (simp add: reload_manifest_def handle_immutable_def)
        next
          case restored: (Inr u')
          then have "r3 = Inr ()" by simp
          from rolled(2) [OF _ this] have "lifecycle_ok (track_manifest h old c3)"
            by (intro track_again [OF retired(1) free(1)]) (use rolled(1) free old_ok in simp_all)
          with Some False ret Inr reg refused rollback restored show ?thesis
            by (simp add: reload_manifest_def handle_immutable_def)
        qed
      qed
    qed
  qed
qed

lemma new_empty: "traces registry_new = {}" "rg_manifests registry_new = []" "rg_invoke_edges registry_new = []"
  by (simp_all add: registry_new_def traces_def tag_def by_key.rows_def by_value.rows_def
      impls.rows_def roles.rows_def subscriptions.rows_def)

lemma lifecycle_ok_boot: "lifecycle_ok (boot_catalogue k native_table intrinsic_table)"
proof -
  let ?c = "boot_catalogue k native_table intrinsic_table"
  have parts: "ct_registry ?c = registry_new" "ct_import_owners ?c = []" "ct_imports ?c = []"
    by (simp_all add: boot_catalogue_def)
  have "catalogue_ok ?c"
    unfolding catalogue_ok_def owners_registered_def imports_aligned_def parts
    by (simp add: registry_ok_new keys_distinct_def get_manifest_def table_get_def invoke_rel_def acyclic_def new_empty)
  moreover have "records_ok ?c"
    by (simp add: records_ok_def one_handle_def buckets_ok_def boot_catalogue_def table_get_def)
  ultimately show ?thesis by (simp add: lifecycle_ok_def)
qed

lemma reachable_lifecycle_ok:
  assumes "reachable_catalogue rd tc c" "yields_keys tc" "readers_ok rd"
  shows "lifecycle_ok c"
  using assms(1)
proof induction
  case (boots k native_table intrinsic_table)
  show ?case by (rule lifecycle_ok_boot)
next
  case (loads c json namespace immutable)
  show ?case by (rule load_ok [OF loads.IH assms(2,3) loads.hyps(2)])
next
  case (unloads c handle)
  show ?case by (rule unload_ok [OF unloads.IH])
next
  case (reloads c handle json)
  show ?case by (rule reload_ok [OF reloads.IH assms(2,3)])
next
  case (registers c m)
  show ?case
  proof (cases "register_plugin_in_as tc [] m False c")
    case (Pair r c')
    show ?thesis
    proof (cases r)
      case (Inl e)
      with Pair refused_registration have "c' = c" by metis
      with Pair registers.IH show ?thesis by (simp add: register_plugin_def register_plugin_in_def)
    next
      case (Inr u)
      with registered(1) [OF registers.IH assms(2) registers.hyps(2) Pair [unfolded Inr]] Pair
      show ?thesis by (simp add: register_plugin_def register_plugin_in_def)
    qed
  qed
next
  case (defines_role c role json)
  then show ?case
    using set_spi_ok by (auto simp: register_spi_from_json_def split: sum.split prod.split)
qed

section \<open>Samples\<close>

text \<open>
  A document is its own name: the text of a plugin is the name of the manifest read from it, in lower
  case; any other text is the name of a role. \<open>vault\<close> and \<open>safe\<close> link native bodies of their own, \<open>probe\<close> asks
  for that of \<open>vault\<close> without a grant, \<open>vault2\<close> is \<open>vault\<close> without its action, and \<open>loop\<close> calls itself.
\<close>

definition sample_action :: "string \<Rightarrow> action" where
  "sample_action name =
     \<lparr>act_steps =
        [if name = ''loop''
         then step_def_new ''again'' ''invoke''
           (JObject [(''action'', JString ''run''), (''plugin'', JString ''loop'')])
         else step_def_new ''sign'' ''vault.sign'' empty_object],
      act_description = None,
      act_results_path = None, act_result_mapping = [], act_input_schema = None, act_output_schema = None,
      act_subscribes_to = [''created''], act_continuous = False, act_interval_ms = 0, act_parallel_waves = False,
      act_dataflow = False, act_wallclock_timeout_ms = None, act_tool = None\<rparr>"

definition sample_manifest :: "string \<Rightarrow> plugin_manifest" where
  "sample_manifest name =
     (plugin_manifest_new name)
       \<lparr>pm_roles := [''STORE''], pm_actions := [(''run'', sample_action name)],
        pm_step_type_defs := [step_type_def_new (name @ ''.sign''), step_type_def_new (name @ ''.hash'')],
        pm_wasm_modules := [(''hasher'', InlineModule [])],
        pm_step_type_impls := if name = ''loop'' then [] else
          [\<lparr>si_step_type = name @ ''.sign'', si_matches = None, si_kind = NativeImpl, si_wasm_module = None,
            si_impl_ref = Some (''acme.'' @ (if name = ''safe'' then name else ''vault'') @ ''.sign'')\<rparr>,
           \<lparr>si_step_type = name @ ''.hash'', si_matches = None, si_kind = WasmImpl,
            si_wasm_module = Some ''hasher'', si_impl_ref = None\<rparr>]\<rparr>"

definition sample_readers :: readers where
  "sample_readers =
     \<lparr>rd_json = (\<lambda>s. Inr (JObject
          [(''actions'', JObject (if s \<in> {''vault'', ''safe'', ''probe'', ''vault2'', ''loop''}
              then [(''run'', JObject [(''steps'', JArray [])])] else [])),
           (''name'', JString s)])),
      rd_plugin_schema = (\<lambda>_. Inr ()), rd_spi_schema = (\<lambda>_. Inr ()),
      rd_manifest = (\<lambda>doc. case json_get doc ''name'' of
          Some (JString n) \<Rightarrow>
            Inr (if n = ''vault2'' then (sample_manifest ''vault'')\<lparr>pm_actions := []\<rparr> else sample_manifest n)
        | _ \<Rightarrow> Inl []),
      rd_spi = (\<lambda>s. Inr
          \<lparr>sp_format_version = None, sp_name = s, sp_display_name = None, sp_version = None, sp_description = None,
           sp_actions = [(if s = ''STORE'' then ''run'' else ''put'',
             \<lparr>sa_description = None, sa_input = JNull, sa_output = JNull, sa_optional = False\<rparr>)],
           sp_definitions = [], sp_stream_event_shape = None\<rparr>)\<rparr>"

definition sample_toolchain :: "unit toolchain" where
  "sample_toolchain = \<lparr>tc_key_order = map fst, tc_base64 = (\<lambda>_. Inr []), tc_compile = (\<lambda>_. Inr ())\<rparr>"

definition sample_boot :: "(unit, nat, nat) catalogue" where
  "sample_boot =
     \<lparr>ct_registry = registry_new, ct_spi = [], ct_native = [(''acme.vault.sign'', 7), (''acme.safe.sign'', 8)], ct_intrinsic = [],
      ct_trusted = [], ct_bindings = intrinsic_native_bindings, ct_categories = [], ct_next_id = 1,
      ct_manifests = [], ct_role_users = [], ct_import_owners = [], ct_imports = []\<rparr>"

lemma sample_boots:
  "sample_boot = boot_catalogue (kernel_config_default :: (nat, unit, unit) kernel_config) 
     [(''acme.vault.sign'', 7), (''acme.safe.sign'', 8)] []"
  by (simp add: sample_boot_def boot_catalogue_def kernel_config_default_def)

definition sample_load :: "string \<Rightarrow> string \<Rightarrow> (unit, nat, nat) catalogue \<Rightarrow> (unit, nat, nat) catalogue" where
  "sample_load namespace json c = snd (load_manifest sample_readers sample_toolchain json namespace c)"

lemma sample_readers_ok: "readers_ok sample_readers"
  by (auto simp: readers_ok_def sample_readers_def sample_manifest_def split: option.splits json.splits)

lemma sample_toolchain_keys: "yields_keys sample_toolchain"
  by (simp add: yields_keys_def sample_toolchain_def)

lemma sample_vault:
  "fst (load_manifest sample_readers sample_toolchain ''vault'' [] sample_boot) = Inr 1"
  by code_simp

lemma sample_probe:
  "fst (load_manifest sample_readers sample_toolchain ''probe'' [] sample_boot)
   = Inl (PluginRefused (BindUndeclared ''probe'' ''probe.sign'' ''acme.vault.sign'' (Some ''vault'')))"
  by code_simp

lemma sample_loads:
  "reachable_catalogue sample_readers sample_toolchain c \<Longrightarrow> ct_next_id c \<noteq> - 1 \<Longrightarrow>
    reachable_catalogue sample_readers sample_toolchain (sample_load namespace json c)"
  unfolding sample_load_def load_manifest_def by (rule reachable_catalogue.loads)

lemma sample_boot_reachable: "reachable_catalogue sample_readers sample_toolchain sample_boot"
  unfolding sample_boots by (rule reachable_catalogue.boots)

lemma sample_vault_reachable:
  "reachable_catalogue sample_readers sample_toolchain (sample_load [] ''vault'' sample_boot)"
  by (rule sample_loads [OF sample_boot_reachable]) (simp add: sample_boot_def)

section \<open>Properties\<close>

lemma reachable_plugin_sound:
  assumes "reachable_catalogue rd tc c" "yields_keys tc" "readers_ok rd"
    and "get_manifest (ct_registry c) p = Some m"
  shows "actions_sound c p m" "permissions_sound c p m" "slots_sound c p m" "imports_sound c p m"
  using reachable_lifecycle_ok [OF assms(1-3)] assms(4)
  by (auto simp: lifecycle_ok_def catalogue_ok_def plugin_sound_def)

text \<open>
  C10. Whatever is loaded, unloaded and reloaded, in any order and with any refusals, the graph of the
  recorded calls, from the calling action to the target as it is written, has no cycle.
\<close>

theorem graph_always_acyclic:
  assumes "reachable_catalogue rd tc c" "yields_keys tc" "readers_ok rd"
  shows "acyclic (invoke_rel (rg_invoke_edges (ct_registry c)))"
  using reachable_lifecycle_ok [OF assms] by (simp add: lifecycle_ok_def catalogue_ok_def)

theorem graph_always_acyclic_witness:
  "acyclic (invoke_rel (rg_invoke_edges (ct_registry (sample_load [] ''vault'' sample_boot))))"
  by (rule graph_always_acyclic [OF sample_vault_reachable sample_toolchain_keys sample_readers_ok])

text \<open>
  C6. Every native body in the linker's table was resolved from the kernel's own table for the plugin that
  owns the import, under a step type of that plugin's namespace; and that plugin either is a root plugin
  named like the middle segment of the reference, or holds the grant for exactly this reference and was
  paired with it by the embedder. The grants held are those its manifest declares.
\<close>

theorem native_bodies_authorised:
  assumes "reachable_catalogue rd tc c" "yields_keys tc" "readers_ok rd"
    and "table_get (ct_imports c) name = Some (NativeImport body)"
  shows "\<exists>p m t impl_ref. name = import_name (step_type_key p t)
    \<and> table_get (ct_import_owners c) (step_type_key p t) = Some p
    \<and> get_manifest (ct_registry c) p = Some m
    \<and> parse_manifest_permissions (pm_permissions m) (ct_categories c) = Inr (permissions_for (ct_registry c) p)
    \<and> table_get (ct_native c) impl_ref = Some body \<and> binding_allowed c p impl_ref"
proof -
  from reachable_lifecycle_ok [OF assms(1-3)] have ok: "catalogue_ok c" by (simp add: lifecycle_ok_def)
  then have aligned: "imports_aligned c" by (simp add: catalogue_ok_def)
  from assms(4) have "table_get (ct_imports c) name \<noteq> None" by simp
  then have "name \<in> import_name ` fst ` set (ct_import_owners c)"
    using aligned_names [OF aligned] by (simp add: table_get_None)
  then obtain k p where k: "(k, p) \<in> set (ct_import_owners c)" "name = import_name k" by auto
  then have own: "table_get (ct_import_owners c) k = Some p"
    using aligned by (simp add: imports_aligned_def table_get_set)
  have "has_plugin (ct_registry c) p"
    using ok k(1) by (auto simp: catalogue_ok_def owners_registered_def)
  then obtain m where m: "get_manifest (ct_registry c) p = Some m"
    by (auto simp: has_plugin_def get_manifest_def)
  note sound = reachable_plugin_sound [OF assms(1-3) m]
  from sound(4) own k(2) assms(4) obtain t impl_ref where
    "k = step_type_key p t" "table_get (ct_native c) impl_ref = Some body" "binding_allowed c p impl_ref"
    unfolding imports_sound_def by blast
  with own k(2) m sound(2) show ?thesis unfolding permissions_sound_def by blast
qed

theorem native_bodies_authorised_witness:
  "\<exists>p m t impl_ref. ''step_vault.sign'' = import_name (step_type_key p t)
    \<and> table_get (ct_import_owners (sample_load [] ''vault'' sample_boot)) (step_type_key p t) = Some p
    \<and> get_manifest (ct_registry (sample_load [] ''vault'' sample_boot)) p = Some m
    \<and> parse_manifest_permissions (pm_permissions m) (ct_categories (sample_load [] ''vault'' sample_boot))
        = Inr (permissions_for (ct_registry (sample_load [] ''vault'' sample_boot)) p)
    \<and> table_get (ct_native (sample_load [] ''vault'' sample_boot)) impl_ref = Some 7
    \<and> binding_allowed (sample_load [] ''vault'' sample_boot) p impl_ref"
proof (rule native_bodies_authorised [OF sample_vault_reachable sample_toolchain_keys sample_readers_ok])
  show "table_get (ct_imports (sample_load [] ''vault'' sample_boot)) ''step_vault.sign'' = Some (NativeImport 7)"
    by code_simp
qed

text \<open>
  C7. Every wasm module behind a step type belongs to a registered plugin that either defines the step type
  itself, or declares that it provides exactly this one and is on the embedder's list of trusted
  providers; and the slot is keyed in the namespace of that plugin.
\<close>

theorem slots_authorised:
  assumes "reachable_catalogue rd tc c" "yields_keys tc" "readers_ok rd"
    and "step_type_impl_owner (ct_registry c) key selector = Some (p, wasm_module)"
  shows "\<exists>m t. get_manifest (ct_registry c) p = Some m \<and> key = step_type_key p t
    \<and> (t \<in> sd_name ` set (pm_step_type_defs m)
       \<or> ProvideStepType t selector \<in> set (permissions_for (ct_registry c) p) \<and> p \<in> set (ct_trusted c))"
proof -
  from reachable_lifecycle_ok [OF assms(1-3)] have ok: "catalogue_ok c" by (simp add: lifecycle_ok_def)
  then have reg: "registry_ok (ct_registry c)" by (simp add: catalogue_ok_def)
  from assms(4) obtain e where e: "table_get (rg_step_type_impls (ct_registry c)) (key, selector) = Some e" "ie_plugin e = p"
    by (auto simp: step_type_impl_owner_def)
  with lookups_as_traces(4) [OF reg] have "TImpl ((key, selector), e) \<in> traces_of (ct_registry c) p" by blast
  with ok have "has_plugin (ct_registry c) p" by (auto simp: catalogue_ok_def owners_registered_def traces_of_def)
  then obtain m where m: "get_manifest (ct_registry c) p = Some m"
    by (auto simp: has_plugin_def get_manifest_def)
  from reachable_plugin_sound(3) [OF assms(1-3) m] e m show ?thesis
    unfolding slots_sound_def slot_claimed_def by fastforce
qed

theorem slots_authorised_witness:
  "\<exists>m t. get_manifest (ct_registry (sample_load [] ''vault'' sample_boot)) ''vault'' = Some m
    \<and> ''vault.hash'' = step_type_key ''vault'' t
    \<and> (t \<in> sd_name ` set (pm_step_type_defs m)
       \<or> ProvideStepType t None \<in> set (permissions_for (ct_registry (sample_load [] ''vault'' sample_boot)) ''vault'')
         \<and> ''vault'' \<in> set (ct_trusted (sample_load [] ''vault'' sample_boot)))"
proof (rule slots_authorised [OF sample_vault_reachable sample_toolchain_keys sample_readers_ok])
  show "step_type_impl_owner (ct_registry (sample_load [] ''vault'' sample_boot)) ''vault.hash'' None
      = Some (''vault'', ''hasher'')"
    by code_simp
qed

lemma catalogue_actions:
  assumes ok: "catalogue_ok c"
  shows "get_action (ct_registry c) p n
    = (case get_manifest (ct_registry c) p of Some m \<Rightarrow> planned_action m n | None \<Rightarrow> None)"
proof (cases "get_manifest (ct_registry c) p")
  case (Some m)
  with ok have "actions_sound c p m" by (simp add: catalogue_ok_def plugin_sound_def)
  with Some show ?thesis by (simp add: actions_sound_def)
next
  case None
  then have "\<not> has_plugin (ct_registry c) p" by (simp add: has_plugin_def get_manifest_def)
  with ok have "traces_of (ct_registry c) p = {}"
    by (intro unregistered_traces(1)) (simp_all add: catalogue_ok_def)
  with ok lookups_as_traces(1) [of "ct_registry c" p n] None show ?thesis
    by (cases "table_get (rg_modules (ct_registry c)) (p, n)") (auto simp: catalogue_ok_def get_action_def)
qed

lemma catalogue_imports:
  assumes ok: "catalogue_ok c"
  shows "fst ` set (ct_imports c)
    = {import_name (step_type_key p n) | p m n.
        get_manifest (ct_registry c) p = Some m \<and> n \<in> set (linked_names m)}"
proof -
  from ok have aligned: "imports_aligned c" by (simp add: catalogue_ok_def)
  have owned: "k \<in> fst ` set (ct_import_owners c) \<longleftrightarrow> (\<exists>p. table_get (ct_import_owners c) k = Some p)" for k
    using table_get_None [of "ct_import_owners c" k] by auto
  have "(\<exists>p. table_get (ct_import_owners c) k = Some p)
      \<longleftrightarrow> (\<exists>p m. get_manifest (ct_registry c) p = Some m \<and> k \<in> plugin_links p m)" for k
  proof
    assume "\<exists>p. table_get (ct_import_owners c) k = Some p"
    then obtain p where p: "table_get (ct_import_owners c) k = Some p" ..
    then have "(k, p) \<in> set (ct_import_owners c)" using aligned by (simp add: imports_aligned_def table_get_set)
    with ok have "has_plugin (ct_registry c) p" by (auto simp: catalogue_ok_def owners_registered_def)
    then obtain m where m: "get_manifest (ct_registry c) p = Some m"
      by (auto simp: has_plugin_def get_manifest_def)
    with ok p have "k \<in> plugin_links p m" by (simp add: catalogue_ok_def plugin_sound_def imports_sound_def)
    with m show "\<exists>p m. get_manifest (ct_registry c) p = Some m \<and> k \<in> plugin_links p m" by blast
  next
    assume "\<exists>p m. get_manifest (ct_registry c) p = Some m \<and> k \<in> plugin_links p m"
    then obtain p m where m: "get_manifest (ct_registry c) p = Some m" "k \<in> plugin_links p m" by blast
    with ok show "\<exists>p. table_get (ct_import_owners c) k = Some p"
      by (auto simp: catalogue_ok_def plugin_sound_def imports_sound_def)
  qed
  then have "fst ` set (ct_import_owners c)
      = {step_type_key p n | p m n. get_manifest (ct_registry c) p = Some m \<and> n \<in> set (linked_names m)}"
    unfolding set_eq_iff owned by (auto simp: plugin_links_def)
  then show ?thesis unfolding aligned_names [OF aligned] by auto
qed

text \<open>
  C17. The actions that can be looked up are those of the registered manifests, each with the plan
  \<open>build_plan\<close> computes for it; an action of a plugin that is not registered is never found.
\<close>

theorem registered_actions_exact:
  assumes "reachable_catalogue rd tc c" "yields_keys tc" "readers_ok rd"
  shows "get_action (ct_registry c) p n
    = (case get_manifest (ct_registry c) p of Some m \<Rightarrow> planned_action m n | None \<Rightarrow> None)"
  using reachable_lifecycle_ok [OF assms] by (intro catalogue_actions) (simp add: lifecycle_ok_def)

theorem registered_actions_exact_witness:
  "get_action (ct_registry (sample_load [] ''vault'' sample_boot)) ''vault'' ''run''
   = (case get_manifest (ct_registry (sample_load [] ''vault'' sample_boot)) ''vault'' of
        Some m \<Rightarrow> planned_action m ''run'' | None \<Rightarrow> None)"
  by (rule registered_actions_exact [OF sample_vault_reachable sample_toolchain_keys sample_readers_ok])

text \<open>
  C11. The linker's table holds an import exactly for the step types the registered plugins link: their
  native and intrinsic implementations and their aliases, each under the key in the plugin's own
  namespace. So no import outlives its plugin, and none is missing.
\<close>

theorem imports_exactly_linked:
  assumes "reachable_catalogue rd tc c" "yields_keys tc" "readers_ok rd"
  shows "fst ` set (ct_imports c)
    = {import_name (step_type_key p n) | p m n.
        get_manifest (ct_registry c) p = Some m \<and> n \<in> set (linked_names m)}"
  using reachable_lifecycle_ok [OF assms] by (intro catalogue_imports) (simp add: lifecycle_ok_def)

theorem imports_exactly_linked_witness:
  "fst ` set (ct_imports (sample_load [] ''vault'' sample_boot))
    = {import_name (step_type_key p n) | p m n.
        get_manifest (ct_registry (sample_load [] ''vault'' sample_boot)) p = Some m \<and> n \<in> set (linked_names m)}"
  by (rule imports_exactly_linked [OF sample_vault_reachable sample_toolchain_keys sample_readers_ok])

text \<open>
  C18. A load or a registration that is refused leaves no trace: the kernel after it is the kernel before
  it, whatever check refused it and at whatever stage.
\<close>

theorem refused_load_changes_nothing:
  "case load_manifest_internal rd tc json namespace immutable c of
     (Inl e, c') \<Rightarrow> c' = c
   | (Inr h, c') \<Rightarrow> h = ct_next_id c \<and> table_get (ct_manifests c') h \<noteq> None"
proof (cases "register_classified_manifest rd tc json namespace immutable c")
  case (Pair r c1)
  show ?thesis
  proof (cases r)
    case (Inl e)
    with Pair refused_classified have "c1 = c" by metis
    with Pair Inl show ?thesis by (simp add: load_manifest_internal_def)
  next
    case (Inr rec)
    have "ct_next_id c1 = ct_next_id c"
      using Pair Inr
      by (auto simp: register_classified_manifest_def register_plugin_in_as_def commit_registration_eq on_registry_def
          set_spi_def split: sum.splits classified_manifest.splits prod.splits)
    with Pair Inr show ?thesis by (simp add: load_manifest_internal_def Let_def)
  qed
qed

lemma remove_inserted: "table_get t k = None \<Longrightarrow> table_remove k (table_insert k v t) = t"
  by (auto simp: table_insert_append table_remove_filter table_get_None intro!: filter_True)

lemma drop_committed:
  assumes ok: "catalogue_ok c" and prep: "prepare_registration tc c namespace lm kernel_owned = Inr p"
  defines "q \<equiv> pm_name (pp_manifest p)" and "c' \<equiv> commit_registration namespace p c"
  shows "ct_import_owners (drop_keys (plugin_links q (pp_manifest p)) c') = ct_import_owners c"
    and "ct_imports (drop_keys (plugin_links q (pp_manifest p)) c') = ct_imports c"
proof -
  note new = commit_imports [OF ok prep, folded q_def c'_def]
  let ?D = "plugin_links q (pp_manifest p)"
  have links: "(\<lambda>(n, _). step_type_key q n) ` set (registration_claims p) = ?D"
    by (simp add: plugin_links_def case_prod_unfold image_image flip: new(6))
  have "keys_distinct (ct_import_owners c')" using new(3) by (simp add: imports_aligned_def)
  then have apart: "fst ` set (ct_import_owners c) \<inter> ?D = {}"
    unfolding links [symmetric] by (simp add: new(1) keys_distinct_def image_image case_prod_unfold comp_def)
  have aligned: "imports_aligned c" using ok by (simp add: catalogue_ok_def)
  have "fst ` set (ct_imports c) \<inter> import_name ` ?D = {}"
    using apart unfolding aligned_names [OF aligned] by auto
  then have old: "filter (\<lambda>x. fst x \<notin> ?D) (ct_import_owners c) = ct_import_owners c"
    "filter (\<lambda>x. fst x \<notin> import_name ` ?D) (ct_imports c) = ct_imports c"
    using apart by (auto intro!: filter_True)
  have "filter (\<lambda>x. fst x \<notin> ?D) (map (\<lambda>(n, _). (step_type_key q n, q)) (registration_claims p)) = []"
    "filter (\<lambda>x. fst x \<notin> import_name ` ?D)
       (map (\<lambda>(n, b). (import_name (step_type_key q n), b)) (registration_claims p)) = []"
    unfolding filter_empty_conv by (auto simp flip: links)
  then show "ct_import_owners (drop_keys ?D c') = ct_import_owners c" "ct_imports (drop_keys ?D c') = ct_imports c"
    by (simp_all add: drop_keys_def new(1,2) old)
qed

text \<open>
  C8. An unload undoes its load. Loading a plugin and unloading the handle the load returned succeeds, and
  leaves the registry with exactly what it held before, the same imports and owners, the same loaded
  manifests and users of roles, and the same contracts.
\<close>

theorem load_then_unload:
  assumes "reachable_catalogue rd tc c" "yields_keys tc" "readers_ok rd" "ct_next_id c \<noteq> - 1"
    and "classify_manifest rd json = Inr (Plugin m)"
    and "load_manifest rd tc json namespace c = (Inr h, c')"
  shows "\<exists>c''. unload_manifest h c' = (Inr (), c'') \<and> traces (ct_registry c'') = traces (ct_registry c)
    \<and> ct_import_owners c'' = ct_import_owners c \<and> ct_imports c'' = ct_imports c
    \<and> ct_manifests c'' = ct_manifests c \<and> ct_role_users c'' = ct_role_users c \<and> ct_spi c'' = ct_spi c"
proof -
  let ?q = "qualify namespace (pm_name m)"
  let ?rec = "\<lparr>mr_identifier = ?q, mr_namespace = namespace, mr_payload = PluginPayload m, mr_immutable = False\<rparr>"
  have ok: "lifecycle_ok c" by (rule reachable_lifecycle_ok [OF assms(1-3)])
  then have cok: "catalogue_ok c" and rok: "records_ok c" by (simp_all add: lifecycle_ok_def)
  from assms(5,6) obtain c1 where reg: "register_plugin_in_as tc namespace m False c = (Inr (), c1)"
    and h: "h = ct_next_id c1" and c': "c' = track_manifest h ?rec (c1\<lparr>ct_next_id := next_id h\<rparr>)"
    by (auto simp: load_manifest_def load_manifest_internal_def register_classified_manifest_def Let_def
        split: sum.splits prod.splits)
  then obtain p where prep: "prepare_registration tc c namespace m False = Inr p"
    and c1: "c1 = commit_registration namespace p c"
    by (auto simp: register_plugin_in_as_def split: sum.splits)
  note man = prepared_checks(1) [OF prep]
  obtain doc where "rd_manifest rd doc = Inr m"
    using assms(5) by (auto simp: classify_manifest_def read_plugin_def rbind_Inr_iff split: option.splits if_splits)
  then have "distinct (map fst (pm_actions m))" using assms(3) by (auto simp: readers_ok_def)
  note done1 = registered [OF ok assms(2) this reg]
  have ok': "lifecycle_ok c'"
    using load_ok [OF ok assms(2-4), of json namespace False] assms(6) by (simp add: load_manifest_def)
  have free: "table_get (ct_manifests c) h = None"
    using rok done1(7) h by (cases "table_get (ct_manifests c) h") (auto simp: records_ok_def)
  have rec: "table_get (ct_manifests c') h = Some ?rec" by (simp add: c')
  note sound = record_imports [OF ok' rec, of m, simplified]
  let ?c = "forget_handle h (remove_plugin ?q m c')"
  have "unload_manifest h c' = (Inr (), ?c)"
    using unload_plugin_eq [OF rec, of m] sound(2) by simp
  moreover have "traces (ct_registry ?c) = traces (ct_registry c)"
  proof -
    have "traces (ct_registry ?c) = others ?q (traces (ct_registry c))"
      using remove_traces [OF sound(2), of m] done1(8) by (simp add: c')
    also have "\<dots> = traces (ct_registry c)"
      using unregistered_traces(1) [OF _ done1(2)] cok
      by (auto simp: others_def traces_of_def catalogue_ok_def)
    finally show ?thesis .
  qed
  moreover have "ct_import_owners ?c = ct_import_owners c" "ct_imports ?c = ct_imports c"
  proof -
    have "plugin_links ?q m = plugin_links (pm_name (pp_manifest p)) (pp_manifest p)"
      by (simp add: plugin_links_def linked_names_def man)
    with drop_committed [OF cok prep]
    show "ct_import_owners ?c = ct_import_owners c" "ct_imports ?c = ct_imports c"
      unfolding remove_plugin_eq [OF sound(1)]
      by (simp_all add: c' c1 drop_keys_def on_registry_def)
  qed
  moreover have "ct_manifests ?c = ct_manifests c"
    by (simp add: c' done1(5) remove_inserted [OF free])
  moreover have "ct_role_users ?c = ct_role_users c"
  proof -
    have "buckets_ok (is_plugin_handle (table_get (ct_manifests c))) (ct_role_users c)"
      using rok by (simp add: records_ok_def)
    then have "list_all (\<lambda>(key, users). users \<noteq> [] \<and> h \<notin> set users) (ct_role_users c)"
      unfolding buckets_ok_def
      by (rule list.pred_mono_strong) (use free in \<open>auto simp: list_all_iff is_plugin_handle_def\<close>)
    then show ?thesis
      by (simp add: c' track_manifest_def retain_add_users done1(6) retain_none)
  qed
  moreover have "ct_spi ?c = ct_spi c" by (simp add: c' done1(4))
  ultimately show ?thesis by blast
qed

theorem load_then_unload_witness:
  "\<exists>c''. unload_manifest 1 (sample_load [] ''vault'' sample_boot) = (Inr (), c'')
    \<and> traces (ct_registry c'') = traces (ct_registry sample_boot)
    \<and> ct_import_owners c'' = ct_import_owners sample_boot \<and> ct_imports c'' = ct_imports sample_boot
    \<and> ct_manifests c'' = ct_manifests sample_boot \<and> ct_role_users c'' = ct_role_users sample_boot
    \<and> ct_spi c'' = ct_spi sample_boot"
proof (rule load_then_unload [OF sample_boot_reachable sample_toolchain_keys sample_readers_ok])
  show "ct_next_id sample_boot \<noteq> - 1" by (simp add: sample_boot_def)
  show "classify_manifest sample_readers ''vault'' = Inr (Plugin (sample_manifest ''vault''))"
    by code_simp
  show "load_manifest sample_readers sample_toolchain ''vault'' [] sample_boot
      = (Inr 1, sample_load [] ''vault'' sample_boot)"
    using sample_vault by (simp add: sample_load_def prod_eq_iff)
qed

text \<open>Catalogues with the same manifests answer the same.\<close>

lemma no_permissions:
  assumes "catalogue_ok c" "get_manifest (ct_registry c) p = None"
  shows "permissions_for (ct_registry c) p = []"
proof -
  have "traces_of (ct_registry c) p = {}"
    using assms by (intro unregistered_traces(1)) (simp_all add: catalogue_ok_def has_plugin_def get_manifest_def)
  with lookups_as_traces(3) [of "ct_registry c" p] assms(1) show ?thesis
    by (cases "table_get (rg_permissions (ct_registry c)) p")
      (auto simp: catalogue_ok_def permissions_for_def table_bucket_def)
qed

lemma same_manifests:
  assumes ok: "catalogue_ok c" "catalogue_ok c'"
    and same: "get_manifest (ct_registry c') = get_manifest (ct_registry c)" "ct_categories c' = ct_categories c"
  shows "get_action (ct_registry c') p n = get_action (ct_registry c) p n"
    and "permissions_for (ct_registry c') p = permissions_for (ct_registry c) p"
    and "fst ` set (ct_imports c') = fst ` set (ct_imports c)"
proof -
  show "get_action (ct_registry c') p n = get_action (ct_registry c) p n"
    unfolding catalogue_actions [OF ok(1)] catalogue_actions [OF ok(2)] same(1) by simp
  show "fst ` set (ct_imports c') = fst ` set (ct_imports c)"
    unfolding catalogue_imports [OF ok(1)] catalogue_imports [OF ok(2)] same(1) by simp
  show "permissions_for (ct_registry c') p = permissions_for (ct_registry c) p"
  proof (cases "get_manifest (ct_registry c) p")
    case (Some m)
    with ok same have "Inr (permissions_for (ct_registry c') p) = (Inr (permissions_for (ct_registry c) p) :: permission_parse_error + _)"
      by (metis catalogue_ok_def permissions_sound_def plugin_sound_def)
    then show ?thesis by simp
  next
    case None
    with same(1) show ?thesis by (simp add: no_permissions [OF ok(1)] no_permissions [OF ok(2)])
  qed
qed

lemma manifest_after_removal:
  "has_plugin (ct_registry c) p \<Longrightarrow> get_manifest (ct_registry (remove_plugin p m c))
    = (get_manifest (ct_registry c))(p := None)"
  by (rule ext) (simp add: get_manifest_def unregister_plugin_def)

lemma retire_keeps:
  assumes ok: "lifecycle_ok c" and rec: "table_get (ct_manifests c) h = Some rec"
    and ret: "retire h rec (take_record h c) = (r, c')"
  shows "ct_categories c' = ct_categories c"
    and "case r of Inl e \<Rightarrow> get_manifest (ct_registry c') = get_manifest (ct_registry c)
           \<and> table_get (ct_manifests c') = table_get (ct_manifests c)
         | Inr _ \<Rightarrow> ct_manifests c' = table_remove h (ct_manifests c)
           \<and> get_manifest (ct_registry c')
             = (case plugin_record rec of
                  Some _ \<Rightarrow> (get_manifest (ct_registry c))(mr_identifier rec := None)
                | None \<Rightarrow> get_manifest (ct_registry c))"
proof -
  have "ct_categories c' = ct_categories c \<and>
      (case r of Inl e \<Rightarrow> get_manifest (ct_registry c') = get_manifest (ct_registry c)
           \<and> table_get (ct_manifests c') = table_get (ct_manifests c)
         | Inr _ \<Rightarrow> ct_manifests c' = table_remove h (ct_manifests c)
           \<and> get_manifest (ct_registry c')
             = (case plugin_record rec of
                  Some _ \<Rightarrow> (get_manifest (ct_registry c))(mr_identifier rec := None)
                | None \<Rightarrow> get_manifest (ct_registry c)))"
  proof (cases "mr_payload rec")
    case (PluginPayload m)
    note sound = record_imports [OF ok rec PluginPayload]
    have settings: "ct_categories (forget_handle h d) = ct_categories d" for d :: "('a, 'b, 'c) catalogue"
      by (simp add: forget_handle_def untrack_manifest_def take_record_def)
    have "c' = forget_handle h (remove_plugin (mr_identifier rec) m c)" "r = Inr ()"
      using ret retire_plugin_eq [OF PluginPayload sound(2)] by simp_all
    with PluginPayload show ?thesis
      using remove_settings [of c "mr_identifier rec" m] manifest_after_removal [OF sound(2), of m]
      by (simp add: plugin_record_def settings same_settings_def)
  next
    case (SpiPayload json)
    have lookup: "table_get (table_insert h rec (table_remove h (ct_manifests c))) = table_get (ct_manifests c)"
      by (rule ext) (simp add: rec)
    from ret SpiPayload show ?thesis
      by (auto simp: retire_def spi_unregister_def take_record_def put_record_def untrack_manifest_def set_spi_def
          plugin_record_def lookup split: bool.splits if_splits prod.splits)
  qed
  then show "ct_categories c' = ct_categories c"
    "case r of Inl e \<Rightarrow> get_manifest (ct_registry c') = get_manifest (ct_registry c)
           \<and> table_get (ct_manifests c') = table_get (ct_manifests c)
         | Inr _ \<Rightarrow> ct_manifests c' = table_remove h (ct_manifests c)
           \<and> get_manifest (ct_registry c')
             = (case plugin_record rec of
                  Some _ \<Rightarrow> (get_manifest (ct_registry c))(mr_identifier rec := None)
                | None \<Rightarrow> get_manifest (ct_registry c))" by blast+
qed

lemma restored_by_rollback:
  assumes ok: "lifecycle_ok c" and keys: "yields_keys tc"
    and names: "\<And>m. plugin_record rec = Some m \<Longrightarrow>
      mr_identifier rec = qualify (mr_namespace rec) (pm_name m) \<and> distinct (map fst (pm_actions m))"
    and rollback: "roll_back rd tc rec c = (Inr u, c')"
  shows "ct_categories c' = ct_categories c \<and> ct_manifests c' = ct_manifests c
    \<and> get_manifest (ct_registry c')
        = (case plugin_record rec of
             Some m \<Rightarrow> (get_manifest (ct_registry c))(mr_identifier rec \<mapsto> m\<lparr>pm_name := mr_identifier rec\<rparr>)
           | None \<Rightarrow> get_manifest (ct_registry c))"
proof (cases "mr_payload rec")
  case (SpiPayload json)
  with rollback obtain spi where "c' = set_spi spi c" by (auto simp: roll_back_def split: prod.splits)
  with SpiPayload show ?thesis by (simp add: plugin_record_def set_spi_def)
next
  case (PluginPayload m)
  then have m: "plugin_record rec = Some m" by (simp add: plugin_record_def)
  from rollback PluginPayload have reg: "register_plugin_in_as tc (mr_namespace rec) m False c = (Inr (), c')"
    by (auto simp: roll_back_def register_plugin_in_def split: prod.splits sum.splits)
  have "ct_categories c' = ct_categories c"
    using reg by (auto simp: register_plugin_in_as_def commit_registration_eq on_registry_def split: sum.splits)
  moreover note registered [OF ok keys conjunct2 [OF names [OF m]] reg]
  ultimately show ?thesis using names [OF m] m by (auto simp: fun_eq_iff)
qed


lemma sample_reload_refused:
  "fst (reload_manifest sample_readers sample_toolchain 1 ''probe''
     (sample_load [] ''safe'' (sample_load [] ''vault'' sample_boot)))
   = Inl (PluginRefused (BindUndeclared ''probe'' ''probe.sign'' ''acme.vault.sign'' (Some ''vault'')))
   \<and> plugins_for_role (ct_registry (sample_load [] ''safe'' (sample_load [] ''vault'' sample_boot))) ''STORE''
     = [''vault'', ''safe'']
   \<and> plugins_for_role (ct_registry (snd (reload_manifest sample_readers sample_toolchain 1 ''probe''
       (sample_load [] ''safe'' (sample_load [] ''vault'' sample_boot))))) ''STORE'' = [''safe'', ''vault'']"
  by code_simp

lemma sample_safe_reachable:
  "reachable_catalogue sample_readers sample_toolchain
     (sample_load [] ''safe'' (sample_load [] ''vault'' sample_boot))"
proof (rule sample_loads [OF sample_vault_reachable])
  show "ct_next_id (sample_load [] ''vault'' sample_boot) \<noteq> - 1" by code_simp
qed


text \<open>
  The rollback can fail and lose the plugin: a contract loaded after the plugin binds the registration
  that would restore it.
\<close>

lemma rollback_loses_plugin:
  "fst (reload_manifest sample_readers sample_toolchain 1 ''probe''
     (sample_load [] ''STORE'' (sample_load [] ''vault2'' sample_boot)))
   = Inl (RollbackFailed (PluginRefused (BindUndeclared ''probe'' ''probe.sign'' ''acme.vault.sign'' (Some ''vault'')))
       (PluginRefused (ContractBroken ''vault'' [MissingAction ''STORE'' ''run''])))
   \<and> has_plugin (ct_registry (sample_load [] ''STORE'' (sample_load [] ''vault2'' sample_boot))) ''vault''
   \<and> \<not> has_plugin (ct_registry (snd (reload_manifest sample_readers sample_toolchain 1 ''probe''
       (sample_load [] ''STORE'' (sample_load [] ''vault2'' sample_boot))))) ''vault''"
  by code_simp

text \<open>
  A contract loaded twice has two handles and one entry: unloading one handle takes the contract from
  under the other, whose own unload then reports drift.
\<close>

lemma contract_loaded_twice:
  "let c = sample_load [] ''STORE'' (sample_load [] ''STORE'' sample_boot);
       c1 = snd (unload_manifest 1 c)
   in fst (unload_manifest 1 c) = Inr () \<and> table_get (ct_manifests c1) 2 \<noteq> None \<and> ct_spi c1 = []
      \<and> fst (unload_manifest 2 c1) = Inl (SpiDrift ''STORE'')"
  by code_simp

text \<open>
  The graph of calls is over names as written: a plugin that calls itself by its own name is refused in
  the root namespace and accepted in any other, where the name leads back to it all the same.
\<close>

lemma self_call_missed_in_namespace:
  "fst (load_manifest sample_readers sample_toolchain ''loop'' [] sample_boot)
     = Inl (PluginRefused (BadInvoke ''loop'' (InvokeCycle [(''loop'', ''run''), (''loop'', ''run'')])))
   \<and> fst (load_manifest sample_readers sample_toolchain ''loop'' ''acme'' sample_boot) = Inr 1
   \<and> rg_invoke_edges (ct_registry (sample_load ''acme'' ''loop'' sample_boot))
     = [\<lparr>ie_from = (''acme/loop'', ''run''), ie_to = (''loop'', ''run'')\<rparr>]"
  by code_simp

end
