(* ===== verification/Streams.thy ===== *)
theory Streams
  imports Bodies
begin

text \<open>
  The stream tables of \<open>src/kernel/streams.rs\<close>. A \<open>hub\<close> is the heap the tables of several executions
  share: streams by address (an \<open>Arc\<close>), channels, the reads and writes in flight, and the tasks a
  fan-out spawns. Each segment of the code between two suspension points is one operation, so a list of
  operations is one interleaving. A value is alive as long as something reachable holds it, which is
  when Rust drops it: that is how a channel sees its last sender or its receiver go.
\<close>

section \<open>Sources, channels and streams\<close>

type_synonym bytes = "8 word list"

text \<open>
  What a poll of a source answers. A source is the answers it still has ready or will give in turn, then its
  tail: \<open>futures::stream::empty\<close>, which ends for ever; a stream that must not be polled past its end
  (an \<open>Unfold\<close> panics); or the receiver of a channel, fused.
\<close>

datatype answer = Waits | Yields bytes | Fails string | Ends

datatype source_tail = Empty | Exhausted | Receiver nat

record source =
  so_answers :: "answer list"
  so_tail :: source_tail

definition empty_source :: source where
  "empty_source = \<lparr>so_answers = [], so_tail = Empty\<rparr>"

type_synonym stream_item = "string + bytes"

definition answer_of :: "stream_item \<Rightarrow> answer" where
  "answer_of i = (case i of Inl e \<Rightarrow> Fails e | Inr b \<Rightarrow> Yields b)"

record channel =
  cn_queue :: "stream_item list"
  cn_capacity :: nat

datatype direction = Readable source "bytes option" | Writable nat

record stream_state =
  ss_id :: "32 word"
  ss_content_type :: string
  ss_direction :: direction
  ss_closed :: bool
  ss_last_error :: "string option"

definition stream_state_new :: "32 word \<Rightarrow> string \<Rightarrow> direction \<Rightarrow> stream_state" where
  "stream_state_new handle content_type d =
     \<lparr>ss_id = handle, ss_content_type = content_type, ss_direction = d, ss_closed = False, ss_last_error = None\<rparr>"

definition is_readable :: "stream_state \<Rightarrow> bool" where
  "is_readable s = (case ss_direction s of Readable _ _ \<Rightarrow> True | Writable _ \<Rightarrow> False)"

definition is_writable :: "stream_state \<Rightarrow> bool" where
  "is_writable s = (case ss_direction s of Readable _ _ \<Rightarrow> False | Writable _ \<Rightarrow> True)"

record stream_registry =
  sr_streams :: "(32 word, nat) table"
  sr_next_id :: "32 word"

definition stream_registry_new :: stream_registry where
  "stream_registry_new = \<lparr>sr_streams = [], sr_next_id = 1\<rparr>"

section \<open>Codes and texts\<close>

definition stream_fanout_capacity :: nat where "stream_fanout_capacity = 16"
definition max_stream_handle :: "32 word" where "max_stream_handle = 2147483647"

definition stream_eof :: int where "stream_eof = - 1"
definition stream_invalid_handle :: int where "stream_invalid_handle = - 2"
definition stream_direction_mismatch :: int where "stream_direction_mismatch = - 3"
definition stream_closed :: int where "stream_closed = - 4"
definition stream_io_error :: int where "stream_io_error = - 5"
definition stream_cancelled :: int where "stream_cancelled = - 7"

definition max_last_error_bytes :: nat where "max_last_error_bytes = 4096"

definition empty_error_text :: string where
  "empty_error_text = ''source failed without a message''"

definition read_cancelled_text :: string where
  "read_cancelled_text =
     ''read released by the step's cancellation token; the source was left as it was''"

definition write_cancelled_text :: string where
  "write_cancelled_text =
     ''write released by the step's cancellation token; nothing was committed''"

text \<open>A Rust string is its UTF-8 bytes; the cut moves down to the start of a character.\<close>

definition is_char_boundary :: "string \<Rightarrow> nat \<Rightarrow> bool" where
  "is_char_boundary s i \<longleftrightarrow> i = 0 \<or> i = length s \<or> (i < length s \<and> \<not> utf8_cont (s ! i))"

fun cut_down :: "string \<Rightarrow> nat \<Rightarrow> nat" where
  "cut_down s 0 = 0"
| "cut_down s (Suc n) = (if is_char_boundary s (Suc n) then Suc n else cut_down s n)"

definition truncation_suffix :: "string \<Rightarrow> string" where
  "truncation_suffix s = [CHR 0xE2, CHR 0x80, CHR 0xA6] @ '' ('' @ decimal (length s) @ '' bytes total)''"

definition truncate_text :: "string \<Rightarrow> nat \<Rightarrow> string" where
  "truncate_text s limit =
     (if length s \<le> limit then s
      else take (cut_down s (min (limit - length (truncation_suffix s)) (length s))) s @ truncation_suffix s)"

definition kept_error :: "string \<Rightarrow> string" where
  "kept_error raw = (if raw = [] then empty_error_text else truncate_text raw max_last_error_bytes)"

section \<open>The hub\<close>

record pending_read =
  pr_source :: source
  pr_leftover :: "bytes option"
  pr_length :: nat

text \<open>
  A forwarder holds its source and one sender per branch; while it waits for the branches, the item and
  what each send has come to.
\<close>

record forwarder =
  fw_source :: source
  fw_senders :: "nat list"
  fw_sending :: "(stream_item \<times> (nat \<times> bool option) list) option"

text \<open>The eager fan-out drains its source before it makes the branches.\<close>

record drainer =
  dr_execution :: nat
  dr_content_type :: string
  dr_branches :: nat
  dr_source :: source
  dr_chunks :: "bytes list"

record hub =
  hp_states :: "(nat, stream_state) table"
  hp_channels :: "(nat, channel) table"
  hp_registries :: "(nat, stream_registry) table"
  hp_reads :: "(nat, pending_read) table"
  hp_waiting :: "(nat \<times> nat) list"
  hp_writes :: "(nat, nat \<times> nat \<times> bytes) table"
  hp_forwarders :: "(nat, forwarder) table"
  hp_drainers :: "(nat, drainer) table"
  hp_receivers :: "nat list"
  hp_senders :: "nat list"
  hp_next :: nat

definition hub_new :: hub where
  "hub_new = \<lparr>hp_states = [], hp_channels = [], hp_registries = [], hp_reads = [], hp_waiting = [],
     hp_writes = [], hp_forwarders = [], hp_drainers = [], hp_receivers = [], hp_senders = [], hp_next = 0\<rparr>"

datatype hub_panic = HandleOverflow | ZeroCapacity | PolledPastEnd

definition registry_of :: "hub \<Rightarrow> nat \<Rightarrow> stream_registry" where
  "registry_of h e = (case table_get (hp_registries h) e of Some r \<Rightarrow> r | None \<Rightarrow> stream_registry_new)"

definition set_registry :: "nat \<Rightarrow> stream_registry \<Rightarrow> hub \<Rightarrow> hub" where
  "set_registry e r h = h\<lparr>hp_registries := table_insert e r (hp_registries h)\<rparr>"

definition set_state :: "nat \<Rightarrow> stream_state \<Rightarrow> hub \<Rightarrow> hub" where
  "set_state a s h = h\<lparr>hp_states := table_insert a s (hp_states h)\<rparr>"

section \<open>What is alive\<close>

text \<open>An address some table or some operation in flight holds.\<close>

definition reachable_state :: "hub \<Rightarrow> nat \<Rightarrow> bool" where
  "reachable_state h a \<longleftrightarrow>
     list_ex (\<lambda>(_, r). list_ex (\<lambda>(_, b). b = a) (sr_streams r)) (hp_registries h)
     \<or> table_get (hp_reads h) a \<noteq> None \<or> list_ex (\<lambda>(b, _). b = a) (hp_waiting h)
     \<or> list_ex (\<lambda>(_, b, _, _). b = a) (hp_writes h)"

definition sender_alive :: "hub \<Rightarrow> nat \<Rightarrow> bool" where
  "sender_alive h c \<longleftrightarrow>
     c \<in> set (hp_senders h) \<or> list_ex (\<lambda>(_, _, b, _). b = c) (hp_writes h)
     \<or> list_ex (\<lambda>(_, f). c \<in> set (fw_senders f)) (hp_forwarders h)
     \<or> list_ex (\<lambda>(a, s). ss_direction s = Writable c \<and> reachable_state h a) (hp_states h)"

definition reads_from :: "nat \<Rightarrow> direction \<Rightarrow> bool" where
  "reads_from c d = (case d of Readable src _ \<Rightarrow> so_tail src = Receiver c | Writable _ \<Rightarrow> False)"

definition receiver_alive :: "hub \<Rightarrow> nat \<Rightarrow> bool" where
  "receiver_alive h c \<longleftrightarrow>
     c \<in> set (hp_receivers h)
     \<or> list_ex (\<lambda>(_, p). so_tail (pr_source p) = Receiver c) (hp_reads h)
     \<or> list_ex (\<lambda>(_, f). so_tail (fw_source f) = Receiver c) (hp_forwarders h)
     \<or> list_ex (\<lambda>(_, d). so_tail (dr_source d) = Receiver c) (hp_drainers h)
     \<or> list_ex (\<lambda>(a, s). reads_from c (ss_direction s) \<and> reachable_state h a) (hp_states h)"

section \<open>Channels\<close>

definition channel_of :: "hub \<Rightarrow> nat \<Rightarrow> channel" where
  "channel_of h c =
     (case table_get (hp_channels h) c of Some ch \<Rightarrow> ch | None \<Rightarrow> \<lparr>cn_queue = [], cn_capacity = 0\<rparr>)"

definition set_queue :: "nat \<Rightarrow> stream_item list \<Rightarrow> hub \<Rightarrow> hub" where
  "set_queue c q h = h\<lparr>hp_channels := table_insert c (channel_of h c\<lparr>cn_queue := q\<rparr>) (hp_channels h)\<rparr>"

definition has_room :: "hub \<Rightarrow> nat \<Rightarrow> bool" where
  "has_room h c \<longleftrightarrow> length (cn_queue (channel_of h c)) < cn_capacity (channel_of h c)"

definition push_item :: "nat \<Rightarrow> stream_item \<Rightarrow> hub \<Rightarrow> hub" where
  "push_item c i h = set_queue c (cn_queue (channel_of h c) @ [i]) h"

definition channel_new :: "nat \<Rightarrow> hub \<Rightarrow> hub_panic + (nat \<times> hub)" where
  "channel_new capacity h =
     (if capacity = 0 then Inl ZeroCapacity
      else Inr (hp_next h, h\<lparr>hp_channels := table_insert (hp_next h) \<lparr>cn_queue = [], cn_capacity = capacity\<rparr> (hp_channels h),
                             hp_next := Suc (hp_next h)\<rparr>))"

text \<open>One poll: the answer, the source after it, and the hub after it.\<close>

definition poll_source :: "source \<Rightarrow> hub \<Rightarrow> hub_panic + (answer \<times> source \<times> hub)" where
  "poll_source src h =
     (case so_answers src of
        a # as \<Rightarrow> Inr (a, src\<lparr>so_answers := as\<rparr>, h)
      | [] \<Rightarrow>
          (case so_tail src of
             Empty \<Rightarrow> Inr (Ends, src, h)
           | Exhausted \<Rightarrow> Inl PolledPastEnd
           | Receiver c \<Rightarrow>
               (case cn_queue (channel_of h c) of
                  i # q \<Rightarrow> Inr (answer_of i, src, set_queue c q h)
                | [] \<Rightarrow> Inr (if sender_alive h c then Waits else Ends, src, h))))"

section \<open>The registry\<close>

definition next_handle :: "stream_registry \<Rightarrow> hub_panic + (32 word \<times> stream_registry)" where
  "next_handle r =
     (if sr_next_id r \<le> max_stream_handle then Inr (sr_next_id r, r\<lparr>sr_next_id := sr_next_id r + 1\<rparr>)
      else Inl HandleOverflow)"

text \<open>Put a stream that exists into a table under a new handle.\<close>

definition adopt :: "nat \<Rightarrow> nat \<Rightarrow> hub \<Rightarrow> hub_panic + (32 word \<times> hub)" where
  "adopt e a h =
     rbind (next_handle (registry_of h e)) (\<lambda>(handle, r).
       Inr (handle, set_registry e (r\<lparr>sr_streams := table_insert handle a (sr_streams r)\<rparr>) h))"

text \<open>A new stream: its handle, its address.\<close>

definition add_stream :: "nat \<Rightarrow> string \<Rightarrow> direction \<Rightarrow> hub \<Rightarrow> hub_panic + (32 word \<times> nat \<times> hub)" where
  "add_stream e content_type d h =
     (let a = hp_next h in
      rbind (adopt e a (h\<lparr>hp_next := Suc a\<rparr>)) (\<lambda>(handle, h').
        Inr (handle, a, set_state a (stream_state_new handle content_type d) h')))"

definition register_readable :: "nat \<Rightarrow> string \<Rightarrow> source \<Rightarrow> hub \<Rightarrow> hub_panic + (32 word \<times> nat \<times> hub)" where
  "register_readable e content_type src = add_stream e content_type (Readable src None)"

definition register_writable :: "nat \<Rightarrow> string \<Rightarrow> nat \<Rightarrow> hub \<Rightarrow> hub_panic + (32 word \<times> nat \<times> nat \<times> hub)" where
  "register_writable e content_type capacity h =
     rbind (channel_new capacity h) (\<lambda>(c, h1).
     rbind (add_stream e content_type (Writable c) h1) (\<lambda>(handle, a, h2).
       Inr (handle, a, c, h2\<lparr>hp_receivers := c # hp_receivers h2\<rparr>)))"

definition get_stream :: "hub \<Rightarrow> nat \<Rightarrow> 32 word \<Rightarrow> (nat \<times> stream_state) option" where
  "get_stream h e handle =
     (case table_get (sr_streams (registry_of h e)) handle of
        None \<Rightarrow> None
      | Some a \<Rightarrow> map_option (\<lambda>s. (a, s)) (table_get (hp_states h) a))"

definition writable_sender :: "hub \<Rightarrow> nat \<Rightarrow> 32 word \<Rightarrow> nat option" where
  "writable_sender h e handle =
     (case get_stream h e handle of
        Some (_, s) \<Rightarrow>
          if ss_closed s then None
          else (case ss_direction s of Writable c \<Rightarrow> Some c | Readable _ _ \<Rightarrow> None)
      | None \<Rightarrow> None)"

definition close_stream :: "nat \<Rightarrow> 32 word \<Rightarrow> hub \<Rightarrow> hub" where
  "close_stream e handle h =
     (case get_stream h e handle of
        Some (a, s) \<Rightarrow> set_state a (s\<lparr>ss_closed := True, ss_direction := Readable empty_source None\<rparr>) h
      | None \<Rightarrow> h)"

definition close_handle :: "nat \<Rightarrow> 32 word \<Rightarrow> hub \<Rightarrow> int \<times> hub" where
  "close_handle e handle h =
     (if get_stream h e handle = None then (stream_invalid_handle, h) else (0, close_stream e handle h))"

definition drain_registry :: "nat \<Rightarrow> hub \<Rightarrow> hub" where
  "drain_registry e h = set_registry e stream_registry_new h"

definition take_stream :: "nat \<Rightarrow> 32 word \<Rightarrow> hub \<Rightarrow> nat option \<times> hub" where
  "take_stream e handle h =
     (let r = registry_of h e in
      (table_get (sr_streams r) handle, set_registry e (r\<lparr>sr_streams := table_remove handle (sr_streams r)\<rparr>) h))"

definition stream_count :: "hub \<Rightarrow> nat \<Rightarrow> nat" where
  "stream_count h e = length (sr_streams (registry_of h e))"

text \<open>What is left of a chunk goes before the source.\<close>

definition chained :: "bytes option \<Rightarrow> source \<Rightarrow> source" where
  "chained prefix src =
     (case prefix of Some b \<Rightarrow> src\<lparr>so_answers := Yields b # so_answers src\<rparr> | None \<Rightarrow> src)"

definition take_readable :: "nat \<Rightarrow> 32 word \<Rightarrow> hub \<Rightarrow> (string \<times> source) option \<times> hub" where
  "take_readable e handle h =
     (case get_stream h e handle of
        None \<Rightarrow> (None, h)
      | Some (a, s) \<Rightarrow>
          if ss_closed s then (None, h)
          else (case ss_direction s of
                  Writable _ \<Rightarrow> (None, h)
                | Readable src leftover \<Rightarrow>
                    (Some (ss_content_type s, chained leftover src),
                     set_state a (s\<lparr>ss_direction := Readable empty_source None, ss_closed := True\<rparr>) h)))"

section \<open>Reading\<close>

datatype read_result =
    Copied bytes
  | SourceFailed string
  | SourceEnded
  | ReadReleased
  | ReadRefused int

definition read_code :: "read_result \<Rightarrow> int" where
  "read_code r =
     (case r of
        Copied b \<Rightarrow> int (length b)
      | SourceFailed _ \<Rightarrow> stream_io_error
      | SourceEnded \<Rightarrow> stream_eof
      | ReadReleased \<Rightarrow> stream_cancelled
      | ReadRefused code \<Rightarrow> code)"

text \<open>Behind the gate: the source and the leftover are swapped out.\<close>

definition begin_read :: "nat \<Rightarrow> nat \<Rightarrow> hub \<Rightarrow> read_result option \<times> hub" where
  "begin_read a len h =
     (case table_get (hp_states h) a of
        None \<Rightarrow> (Some (ReadRefused stream_invalid_handle), h)
      | Some s \<Rightarrow>
          if ss_closed s then (Some (ReadRefused stream_closed), h)
          else (case ss_direction s of
                  Writable _ \<Rightarrow> (Some (ReadRefused stream_direction_mismatch), h)
                | Readable src leftover \<Rightarrow>
                    (None, set_state a (s\<lparr>ss_direction := Readable empty_source None\<rparr>)
                       (h\<lparr>hp_reads := table_insert a
                            \<lparr>pr_source = src, pr_leftover = leftover, pr_length = len\<rparr> (hp_reads h)\<rparr>))))"

definition start_read :: "nat \<Rightarrow> 32 word \<Rightarrow> nat \<Rightarrow> hub \<Rightarrow> (nat \<times> read_result) option \<times> hub" where
  "start_read e handle len h =
     (case get_stream h e handle of
        None \<Rightarrow> (None, h)
      | Some (a, _) \<Rightarrow>
          if table_get (hp_reads h) a \<noteq> None then (None, h\<lparr>hp_waiting := hp_waiting h @ [(a, len)]\<rparr>)
          else (case begin_read a len h of (r, h') \<Rightarrow> (map_option (Pair a) r, h')))"

text \<open>A reader the gate held goes on when it opens.\<close>

definition resume_read :: "nat \<Rightarrow> hub \<Rightarrow> read_result option \<times> hub" where
  "resume_read a h =
     (case List.find (\<lambda>(b, _). b = a) (hp_waiting h) of
        None \<Rightarrow> (None, h)
      | Some (_, len) \<Rightarrow>
          if table_get (hp_reads h) a \<noteq> None then (None, h)
          else begin_read a len (h\<lparr>hp_waiting := remove1 (a, len) (hp_waiting h)\<rparr>))"

text \<open>Step 4 of a read, after which the gate is open.\<close>

definition note_failure :: "read_result \<Rightarrow> stream_state \<Rightarrow> stream_state" where
  "note_failure r s =
     (case r of
        SourceFailed e \<Rightarrow> s\<lparr>ss_last_error := Some (kept_error e)\<rparr>
      | ReadReleased \<Rightarrow> s\<lparr>ss_last_error := Some read_cancelled_text\<rparr>
      | _ \<Rightarrow> s)"

definition restore_source :: "read_result \<Rightarrow> source \<Rightarrow> bytes option \<Rightarrow> stream_state \<Rightarrow> stream_state" where
  "restore_source r src leftover s =
     (if ss_closed s then s
      else (case ss_direction s of
              Readable _ _ \<Rightarrow>
                s\<lparr>ss_direction := Readable (if r = SourceEnded then empty_source else src) leftover\<rparr>
            | Writable _ \<Rightarrow> s))"

definition put_back :: "nat \<Rightarrow> read_result \<Rightarrow> source \<Rightarrow> bytes option \<Rightarrow> hub \<Rightarrow> hub" where
  "put_back a r src leftover h =
     (let h' = h\<lparr>hp_reads := table_remove a (hp_reads h)\<rparr> in
      case table_get (hp_states h) a of
        None \<Rightarrow> h'
      | Some s \<Rightarrow> set_state a (restore_source r src leftover (note_failure r s)) h')"

definition copy_out :: "nat \<Rightarrow> nat \<Rightarrow> bytes \<Rightarrow> source \<Rightarrow> hub \<Rightarrow> read_result option \<times> hub" where
  "copy_out a len chunk src h =
     (let r = Copied (take len chunk)
      in (Some r, put_back a r src (if len < length chunk then Some (drop len chunk) else None) h))"

text \<open>One turn of the loop around \<open>select!\<close>: the source first, the token only when it has to wait.\<close>

definition poll_read :: "bool \<Rightarrow> nat \<Rightarrow> hub \<Rightarrow> hub_panic + (read_result option \<times> hub)" where
  "poll_read fired a h =
     (case table_get (hp_reads h) a of
        None \<Rightarrow> Inr (None, h)
      | Some p \<Rightarrow>
          (case pr_leftover p of
             Some chunk \<Rightarrow> Inr (copy_out a (pr_length p) chunk (pr_source p) h)
           | None \<Rightarrow>
               rbind (poll_source (pr_source p) h) (\<lambda>(ans, src, h1).
                 let again = h1\<lparr>hp_reads := table_insert a (p\<lparr>pr_source := src\<rparr>) (hp_reads h1)\<rparr> in
                 Inr (case ans of
                        Waits \<Rightarrow>
                          if fired then (Some ReadReleased, put_back a ReadReleased src None h1) else (None, again)
                      | Yields b \<Rightarrow> if b = [] then (None, again) else copy_out a (pr_length p) b src h1
                      | Fails msg \<Rightarrow> (Some (SourceFailed msg), put_back a (SourceFailed msg) src None h1)
                      | Ends \<Rightarrow> (Some SourceEnded, put_back a SourceEnded src None h1)))))"

section \<open>Writing\<close>

text \<open>The sender is cloned under the lock; the send is then polled on its own.\<close>

definition start_write :: "nat \<Rightarrow> 32 word \<Rightarrow> bytes \<Rightarrow> hub \<Rightarrow> int option \<times> hub" where
  "start_write e handle data h =
     (case get_stream h e handle of
        None \<Rightarrow> (Some stream_invalid_handle, h)
      | Some (a, s) \<Rightarrow>
          if ss_closed s then (Some stream_closed, h)
          else (case ss_direction s of
                  Readable _ _ \<Rightarrow> (Some stream_direction_mismatch, h)
                | Writable c \<Rightarrow>
                    (None, h\<lparr>hp_writes := table_insert (hp_next h) (a, c, data) (hp_writes h),
                             hp_next := Suc (hp_next h)\<rparr>)))"

definition poll_write :: "bool \<Rightarrow> nat \<Rightarrow> hub \<Rightarrow> int option \<times> hub" where
  "poll_write fired w h =
     (case table_get (hp_writes h) w of
        None \<Rightarrow> (None, h)
      | Some (a, c, data) \<Rightarrow>
          let finished = h\<lparr>hp_writes := table_remove w (hp_writes h)\<rparr> in
          if \<not> receiver_alive h c then (Some stream_closed, finished)
          else if has_room h c then (Some (int (length data)), push_item c (Inr data) finished)
          else if fired then
            (Some stream_cancelled,
             (case table_get (hp_states h) a of
                Some s \<Rightarrow> set_state a (s\<lparr>ss_last_error := Some write_cancelled_text\<rparr>) finished
              | None \<Rightarrow> finished))
          else (None, h))"

section \<open>Fan-out\<close>

text \<open>A branch is its handle and its address.\<close>

datatype fan_out_error = NoBranchesAsked | NoCapacityAsked | NotOpenReadable

fun make_branches ::
  "nat \<Rightarrow> nat \<Rightarrow> string \<Rightarrow> nat \<Rightarrow> hub \<Rightarrow> hub_panic + (nat list \<times> (32 word \<times> nat) list \<times> hub)" where
  "make_branches 0 e content_type capacity h = Inr ([], [], h)"
| "make_branches (Suc n) e content_type capacity h =
     rbind (channel_new capacity h) (\<lambda>(c, h1).
     rbind (add_stream e content_type (Readable \<lparr>so_answers = [], so_tail = Receiver c\<rparr> None) h1) (\<lambda>(handle, a, h2).
     rbind (make_branches n e content_type capacity h2) (\<lambda>(senders, branches, h3).
       Inr (c # senders, (handle, a) # branches, h3))))"

definition fan_out_readable_streaming ::
  "nat \<Rightarrow> 32 word \<Rightarrow> nat \<Rightarrow> nat \<Rightarrow> hub \<Rightarrow> hub_panic + ((fan_out_error + (32 word \<times> nat) list) \<times> hub)" where
  "fan_out_readable_streaming e producer n capacity h =
     (if n = 0 then Inr (Inl NoBranchesAsked, h)
      else if capacity = 0 then Inr (Inl NoCapacityAsked, h)
      else case take_readable e producer h of
        (None, h1) \<Rightarrow> Inr (Inl NotOpenReadable, h1)
      | (Some (content_type, src), h1) \<Rightarrow>
          rbind (make_branches n e content_type capacity h1) (\<lambda>(senders, branches, h2).
            Inr (Inr branches,
                 h2\<lparr>hp_forwarders := table_insert (hp_next h2)
                      \<lparr>fw_source = src, fw_senders = senders, fw_sending = None\<rparr> (hp_forwarders h2),
                    hp_next := Suc (hp_next h2)\<rparr>)))"

definition end_forwarder :: "nat \<Rightarrow> hub \<Rightarrow> hub" where
  "end_forwarder f h = h\<lparr>hp_forwarders := table_remove f (hp_forwarders h)\<rparr>"

definition set_forwarder :: "nat \<Rightarrow> forwarder \<Rightarrow> hub \<Rightarrow> hub" where
  "set_forwarder f fw h = h\<lparr>hp_forwarders := table_insert f fw (hp_forwarders h)\<rparr>"

definition forward_poll :: "nat \<Rightarrow> hub \<Rightarrow> hub_panic + hub" where
  "forward_poll f h =
     (case table_get (hp_forwarders h) f of
        None \<Rightarrow> Inr h
      | Some fw \<Rightarrow>
          if fw_sending fw \<noteq> None then Inr h
          else
            rbind (poll_source (fw_source fw) h) (\<lambda>(ans, src, h1).
              let sending = (\<lambda>i. fw\<lparr>fw_source := src, fw_sending := Some (i, map (\<lambda>c. (c, None)) (fw_senders fw))\<rparr>)
              in Inr (case ans of
                   Waits \<Rightarrow> set_forwarder f (fw\<lparr>fw_source := src\<rparr>) h1
                 | Yields b \<Rightarrow> set_forwarder f (sending (Inr b)) h1
                 | Fails msg \<Rightarrow> set_forwarder f (sending (Inl msg)) h1
                 | Ends \<Rightarrow> end_forwarder f h1)))"

text \<open>One poll of the send to the branch at position \<open>k\<close> of a \<open>join_all\<close>.\<close>

definition forward_send :: "nat \<Rightarrow> nat \<Rightarrow> hub \<Rightarrow> hub" where
  "forward_send f k h =
     (case table_get (hp_forwarders h) f of
        None \<Rightarrow> h
      | Some fw \<Rightarrow>
          (case fw_sending fw of
             None \<Rightarrow> h
           | Some (i, sends) \<Rightarrow>
               if length sends \<le> k \<or> snd (sends ! k) \<noteq> None then h
               else
                 (let c = fst (sends ! k);
                      settle = (\<lambda>sent. set_forwarder f (fw\<lparr>fw_sending := Some (i, sends[k := (c, Some sent)])\<rparr>))
                  in if \<not> receiver_alive h c then settle False h
                     else if has_room h c then settle True (push_item c i h)
                     else h)))"

definition forward_join :: "nat \<Rightarrow> hub \<Rightarrow> hub" where
  "forward_join f h =
     (case table_get (hp_forwarders h) f of
        None \<Rightarrow> h
      | Some fw \<Rightarrow>
          (case fw_sending fw of
             None \<Rightarrow> h
           | Some (i, sends) \<Rightarrow>
               if list_ex (\<lambda>(_, sent). sent = None) sends then h
               else (case i of
                       Inl _ \<Rightarrow> end_forwarder f h
                     | Inr _ \<Rightarrow>
                         if list_all (\<lambda>(_, sent). sent = Some False) sends then end_forwarder f h
                         else set_forwarder f (fw\<lparr>fw_sending := None\<rparr>) h)))"

text \<open>The eager variant: take, drain with no lock held, then install.\<close>

definition fan_out_readable_shared ::
  "nat \<Rightarrow> 32 word \<Rightarrow> nat \<Rightarrow> hub \<Rightarrow> fan_out_error option \<times> hub" where
  "fan_out_readable_shared e producer n h =
     (if n = 0 then (Some NoBranchesAsked, h)
      else case take_readable e producer h of
        (None, h1) \<Rightarrow> (Some NotOpenReadable, h1)
      | (Some (content_type, src), h1) \<Rightarrow>
          (None, h1\<lparr>hp_drainers := table_insert (hp_next h1)
                      \<lparr>dr_execution = e, dr_content_type = content_type, dr_branches = n, dr_source = src, dr_chunks = []\<rparr>
                      (hp_drainers h1),
                    hp_next := Suc (hp_next h1)\<rparr>))"

definition branch_source :: "bytes list \<Rightarrow> string option \<Rightarrow> source" where
  "branch_source chunks err =
     \<lparr>so_answers = map Yields chunks @ (case err of Some msg \<Rightarrow> [Fails msg] | None \<Rightarrow> []), so_tail = Empty\<rparr>"

fun install_branches ::
  "nat \<Rightarrow> nat \<Rightarrow> string \<Rightarrow> source \<Rightarrow> hub \<Rightarrow> hub_panic + ((32 word \<times> nat) list \<times> hub)" where
  "install_branches 0 e content_type src h = Inr ([], h)"
| "install_branches (Suc n) e content_type src h =
     rbind (add_stream e content_type (Readable src None) h) (\<lambda>(handle, a, h1).
     rbind (install_branches n e content_type src h1) (\<lambda>(branches, h2). Inr ((handle, a) # branches, h2)))"

definition drain_poll :: "nat \<Rightarrow> hub \<Rightarrow> hub_panic + ((32 word \<times> nat) list option \<times> hub)" where
  "drain_poll d h =
     (case table_get (hp_drainers h) d of
        None \<Rightarrow> Inr (None, h)
      | Some dr \<Rightarrow>
          rbind (poll_source (dr_source dr) h) (\<lambda>(ans, src, h1).
            let go_on = (\<lambda>chunks. (None, h1\<lparr>hp_drainers :=
                           table_insert d (dr\<lparr>dr_source := src, dr_chunks := chunks\<rparr>) (hp_drainers h1)\<rparr>));
                install = (\<lambda>err.
                  rbind (install_branches (dr_branches dr) (dr_execution dr) (dr_content_type dr)
                           (branch_source (dr_chunks dr) err) (h1\<lparr>hp_drainers := table_remove d (hp_drainers h1)\<rparr>))
                    (\<lambda>(branches, h2). Inr (Some branches, h2)))
            in case ans of
                 Waits \<Rightarrow> Inr (go_on (dr_chunks dr))
               | Yields b \<Rightarrow> Inr (go_on (dr_chunks dr @ [b]))
               | Fails msg \<Rightarrow> install (Some msg)
               | Ends \<Rightarrow> install None))"

end
