(* ===== verification/StreamsSpec.thy ===== *)
theory StreamsSpec
  imports Streams RegistrySpec
begin

text \<open>
  Interleavings of stream operations and what holds of all of them: reads lose, repeat and reorder
  nothing; no source is polled past its end; a table's handles are its own; channels are bounded queues;
  a fan-out gives every branch what its source had.
\<close>

section \<open>Interleavings\<close>

datatype stream_op =
    OpenReadable nat string "answer list" bool
  | OpenWritable nat string nat
  | OpenReceiver nat string nat
  | HoldSender nat "32 word"
  | DropSender nat
  | DropReceiver nat
  | HostReceive nat
  | CloseStream nat "32 word"
  | DrainAll nat
  | MoveStream nat "32 word" nat
  | FanOutStreaming nat "32 word" nat nat
  | FanOutEager nat "32 word" nat
  | StartRead nat "32 word" nat
  | ResumeRead nat
  | PollRead bool nat
  | StartWrite nat "32 word" bytes
  | PollWrite bool nat
  | ForwardPoll nat
  | ForwardSend nat nat
  | ForwardJoin nat
  | DrainPoll nat

datatype stream_event =
    Opened nat source
  | ReadDone nat read_result
  | WriteDone nat int
  | Pushed nat stream_item
  | Popped nat stream_item
  | Lost nat nat
  | Forwarding nat source "nat list"
  | Forwarded nat
  | Draining nat source
  | Drained nat "nat list"

text \<open>The source of a readable the embedder registers: fused, or one that must not be polled past its end.\<close>

definition own_source :: "answer list \<Rightarrow> bool \<Rightarrow> source" where
  "own_source answers fused = \<lparr>so_answers = answers, so_tail = (if fused then Empty else Exhausted)\<rparr>"

definition receiver_source :: "nat \<Rightarrow> source" where
  "receiver_source c = \<lparr>so_answers = [], so_tail = Receiver c\<rparr>"

text \<open>The item the next poll of a source takes out of a channel.\<close>

definition popped_by :: "hub \<Rightarrow> source \<Rightarrow> stream_event list" where
  "popped_by h src =
     (if so_answers src \<noteq> [] then []
      else case so_tail src of
        Receiver c \<Rightarrow> (case cn_queue (channel_of h c) of i # _ \<Rightarrow> [Popped c i] | [] \<Rightarrow> [])
      | _ \<Rightarrow> [])"

definition move_stream :: "nat \<Rightarrow> 32 word \<Rightarrow> nat \<Rightarrow> hub \<Rightarrow> hub_panic + hub" where
  "move_stream e handle e' h =
     (case take_stream e handle h of
        (None, h1) \<Rightarrow> Inr h1
      | (Some a, h1) \<Rightarrow> rbind (adopt e' a h1) (\<lambda>(_, h2). Inr h2))"

definition host_receive :: "nat \<Rightarrow> hub \<Rightarrow> stream_event list \<times> hub" where
  "host_receive c h =
     (if c \<in> set (hp_receivers h)
      then (case cn_queue (channel_of h c) of i # q \<Rightarrow> ([Popped c i], set_queue c q h) | [] \<Rightarrow> ([], h))
      else ([], h))"

definition open_receiver :: "nat \<Rightarrow> string \<Rightarrow> nat \<Rightarrow> hub \<Rightarrow> hub_panic + (stream_event list \<times> hub)" where
  "open_receiver e content_type c h =
     (if c \<in> set (hp_receivers h)
      then rbind (register_readable e content_type (receiver_source c)
                    (h\<lparr>hp_receivers := remove1 c (hp_receivers h)\<rparr>)) (\<lambda>(_, a, h1).
             Inr ([Opened a (receiver_source c)], h1))
      else Inr ([], h))"

definition read_events :: "nat \<Rightarrow> read_result option \<Rightarrow> stream_event list" where
  "read_events a r = (case r of Some r \<Rightarrow> [ReadDone a r] | None \<Rightarrow> [])"

definition read_source_of :: "hub \<Rightarrow> nat \<Rightarrow> source option" where
  "read_source_of h a =
     (case table_get (hp_reads h) a of
        Some p \<Rightarrow> (if pr_leftover p = None then Some (pr_source p) else None)
      | None \<Rightarrow> None)"

definition pops :: "hub \<Rightarrow> source option \<Rightarrow> stream_event list" where
  "pops h src = (case src of Some src \<Rightarrow> popped_by h src | None \<Rightarrow> [])"

definition write_events :: "hub \<Rightarrow> nat \<Rightarrow> int option \<Rightarrow> stream_event list" where
  "write_events h w r =
     (case r of
        None \<Rightarrow> []
      | Some code \<Rightarrow>
          (case table_get (hp_writes h) w of
             Some (a, c, data) \<Rightarrow> WriteDone a code # (if 0 \<le> code then [Pushed c (Inr data)] else [])
           | None \<Rightarrow> []))"

text \<open>What settling one send of a forwarder amounts to.\<close>

definition send_events :: "nat \<Rightarrow> nat \<Rightarrow> hub \<Rightarrow> stream_event list" where
  "send_events f k h =
     (case table_get (hp_forwarders h) f of
        None \<Rightarrow> []
      | Some fw \<Rightarrow>
          (case fw_sending fw of
             None \<Rightarrow> []
           | Some (i, sends) \<Rightarrow>
               if length sends \<le> k \<or> snd (sends ! k) \<noteq> None then []
               else if \<not> receiver_alive h (fst (sends ! k)) then [Lost f (fst (sends ! k))]
               else if has_room h (fst (sends ! k)) then [Pushed (fst (sends ! k)) i] else []))"

definition ended_forwarder :: "nat \<Rightarrow> hub \<Rightarrow> hub \<Rightarrow> stream_event list" where
  "ended_forwarder f h h' =
     (if table_get (hp_forwarders h) f \<noteq> None \<and> table_get (hp_forwarders h') f = None then [Forwarded f] else [])"

definition started_task :: "nat \<Rightarrow> hub \<Rightarrow> stream_event list" where
  "started_task k h =
     (case table_get (hp_forwarders h) k of
        Some fw \<Rightarrow> [Forwarding k (fw_source fw) (fw_senders fw)]
      | None \<Rightarrow> (case table_get (hp_drainers h) k of Some dr \<Rightarrow> [Draining k (dr_source dr)] | None \<Rightarrow> []))"

definition source_at :: "hub \<Rightarrow> nat \<Rightarrow> source" where
  "source_at h a =
     (case table_get (hp_states h) a of
        Some s \<Rightarrow> (case ss_direction s of Readable src _ \<Rightarrow> src | Writable _ \<Rightarrow> empty_source)
      | None \<Rightarrow> empty_source)"

definition opened_branches :: "hub \<Rightarrow> (32 word \<times> nat) list \<Rightarrow> stream_event list" where
  "opened_branches h branches = map (\<lambda>(_, a). Opened a (source_at h a)) branches"

fun perform :: "stream_op \<Rightarrow> hub \<Rightarrow> hub_panic + (stream_event list \<times> hub)" where
  "perform (OpenReadable e content_type answers fused) h =
     rbind (register_readable e content_type (own_source answers fused) h) (\<lambda>(_, a, h1).
       Inr ([Opened a (own_source answers fused)], h1))"
| "perform (OpenWritable e content_type capacity) h =
     rbind (register_writable e content_type capacity h) (\<lambda>(_, _, _, h1). Inr ([], h1))"
| "perform (OpenReceiver e content_type c) h = open_receiver e content_type c h"
| "perform (HoldSender e handle) h =
     Inr ([], case writable_sender h e handle of Some c \<Rightarrow> h\<lparr>hp_senders := c # hp_senders h\<rparr> | None \<Rightarrow> h)"
| "perform (DropSender c) h = Inr ([], h\<lparr>hp_senders := remove1 c (hp_senders h)\<rparr>)"
| "perform (DropReceiver c) h = Inr ([], h\<lparr>hp_receivers := remove1 c (hp_receivers h)\<rparr>)"
| "perform (HostReceive c) h = Inr (host_receive c h)"
| "perform (CloseStream e handle) h = Inr ([], snd (close_handle e handle h))"
| "perform (DrainAll e) h = Inr ([], drain_registry e h)"
| "perform (MoveStream e handle e') h = rbind (move_stream e handle e' h) (\<lambda>h1. Inr ([], h1))"
| "perform (FanOutStreaming e producer n capacity) h =
     rbind (fan_out_readable_streaming e producer n capacity h) (\<lambda>(r, h1).
       Inr (case r of
              Inr branches \<Rightarrow> opened_branches h1 branches @ started_task (hp_next h1 - 1) h1
            | Inl _ \<Rightarrow> [], h1))"
| "perform (FanOutEager e producer n) h =
     (case fan_out_readable_shared e producer n h of (r, h1) \<Rightarrow>
       Inr (case r of None \<Rightarrow> started_task (hp_next h1 - 1) h1 | Some _ \<Rightarrow> [], h1))"
| "perform (StartRead e handle len) h =
     (case start_read e handle len h of (r, h1) \<Rightarrow>
       Inr (case r of Some (a, r) \<Rightarrow> [ReadDone a r] | None \<Rightarrow> [], h1))"
| "perform (ResumeRead a) h = (case resume_read a h of (r, h1) \<Rightarrow> Inr (read_events a r, h1))"
| "perform (PollRead fired a) h =
     rbind (poll_read fired a h) (\<lambda>(r, h1). Inr (pops h (read_source_of h a) @ read_events a r, h1))"
| "perform (StartWrite e handle data) h = Inr ([], snd (start_write e handle data h))"
| "perform (PollWrite fired w) h = (case poll_write fired w h of (r, h1) \<Rightarrow> Inr (write_events h w r, h1))"
| "perform (ForwardPoll f) h =
     rbind (forward_poll f h) (\<lambda>h1.
       Inr ((case table_get (hp_forwarders h) f of
               Some fw \<Rightarrow> (if fw_sending fw = None then popped_by h (fw_source fw) else [])
             | None \<Rightarrow> [])
            @ ended_forwarder f h h1, h1))"
| "perform (ForwardSend f k) h = Inr (send_events f k h, forward_send f k h)"
| "perform (ForwardJoin f) h = Inr (ended_forwarder f h (forward_join f h), forward_join f h)"
| "perform (DrainPoll d) h =
     rbind (drain_poll d h) (\<lambda>(r, h1).
       Inr ((case table_get (hp_drainers h) d of Some dr \<Rightarrow> popped_by h (dr_source dr) | None \<Rightarrow> [])
            @ (case r of
                 Some branches \<Rightarrow>
                   opened_branches h1 branches @ [Drained d (map snd branches)]
               | None \<Rightarrow> []), h1))"

fun perform_all :: "stream_op list \<Rightarrow> hub \<Rightarrow> hub_panic + (stream_event list \<times> hub)" where
  "perform_all [] h = Inr ([], h)"
| "perform_all (x # xs) h =
     rbind (perform x h) (\<lambda>(evs, h1). rbind (perform_all xs h1) (\<lambda>(more_evs, h2). Inr (evs @ more_evs, h2)))"

lemma perform_all_snoc:
  "perform_all (xs @ [x]) h = rbind (perform_all xs h) (\<lambda>(evs, h1).
     rbind (perform x h1) (\<lambda>(new, h2). Inr (evs @ new, h2)))"
  by (induction xs arbitrary: h) (auto simp: rbind_def split: sum.splits prod.splits)

lemma run_induct [consumes 1, case_names Nil Snoc]:
  assumes "perform_all xs h0 = Inr (evs, h)"
    and "P [] h0"
    and "\<And>xs evs h x new h'. perform_all xs h0 = Inr (evs, h) \<Longrightarrow> P evs h \<Longrightarrow> perform x h = Inr (new, h') \<Longrightarrow> P (evs @ new) h'"
  shows "P evs h"
  using assms(1)
proof (induction xs arbitrary: evs h rule: rev_induct)
  case Nil
  with assms(2) show ?case by simp
next
  case (snoc x xs)
  from snoc.prems obtain evs1 h1 new where "perform_all xs h0 = Inr (evs1, h1)" "perform x h1 = Inr (new, h)" "evs = evs1 @ new"
    by (auto simp: perform_all_snoc rbind_Inr_iff)
  with snoc.IH assms(3) show ?case by force
qed

section \<open>No source is polled past its end\<close>

definition sources_ok :: "(source \<Rightarrow> bool) \<Rightarrow> hub \<Rightarrow> bool" where
  "sources_ok P h \<longleftrightarrow>
     (\<forall>a s src l. table_get (hp_states h) a = Some s \<longrightarrow> ss_direction s = Readable src l \<longrightarrow> P src)
     \<and> (\<forall>a p. table_get (hp_reads h) a = Some p \<longrightarrow> P (pr_source p))
     \<and> (\<forall>f fw. table_get (hp_forwarders h) f = Some fw \<longrightarrow> P (fw_source fw))
     \<and> (\<forall>d dr. table_get (hp_drainers h) d = Some dr \<longrightarrow> P (dr_source dr))"

text \<open>A source that must not be polled past its end announces it.\<close>

definition ends_well :: "source \<Rightarrow> bool" where
  "ends_well src \<longleftrightarrow>
     (so_tail src = Exhausted \<longrightarrow> (\<exists>as. so_answers src = as @ [Ends] \<and> Ends \<notin> set as))"

lemma ends_well_simps [simp]:
  "ends_well empty_source" "ends_well \<lparr>so_answers = as, so_tail = Receiver c\<rparr>" "ends_well \<lparr>so_answers = as, so_tail = Empty\<rparr>"
  "ends_well (receiver_source c)" "ends_well (branch_source chunks err)"
  by (simp_all add: ends_well_def empty_source_def receiver_source_def branch_source_def)

lemma ends_well_chained [simp]: "ends_well src \<Longrightarrow> ends_well (chained l src)"
  by (cases l) (force simp: ends_well_def chained_def intro: exI [of _ "_ # _"])+

lemma poll_ends_well:
  assumes "ends_well src"
  shows "poll_source src h \<noteq> Inl p"
    and "poll_source src h = Inr (ans, src', h') \<Longrightarrow> ans \<noteq> Ends \<Longrightarrow> ends_well src'"
proof -
  show "poll_source src h \<noteq> Inl p"
    using assms by (auto simp: poll_source_def ends_well_def split: list.splits source_tail.splits)
  assume *: "poll_source src h = Inr (ans, src', h')" "ans \<noteq> Ends"
  show "ends_well src'"
  proof (cases "so_answers src")
    case (Cons a as)
    with * have "src' = src\<lparr>so_answers := as\<rparr>" "ans = a" by (auto simp: poll_source_def)
    with assms Cons *(2) show ?thesis by (auto simp: ends_well_def Cons_eq_append_conv)
  next
    case Nil
    with * assms show ?thesis
      by (auto simp: poll_source_def split: source_tail.splits list.splits if_splits)
  qed
qed

text \<open>The parts of a hub an operation leaves alone.\<close>

named_theorems hub_simps

lemma hub_fields [hub_simps]:
  "hp_states (set_queue c q h) = hp_states h" "hp_reads (set_queue c q h) = hp_reads h"
  "hp_forwarders (set_queue c q h) = hp_forwarders h" "hp_drainers (set_queue c q h) = hp_drainers h"
  "hp_registries (set_queue c q h) = hp_registries h" "hp_next (set_queue c q h) = hp_next h"
  "hp_receivers (set_queue c q h) = hp_receivers h" "hp_writes (set_queue c q h) = hp_writes h"
  "hp_waiting (set_queue c q h) = hp_waiting h" "hp_senders (set_queue c q h) = hp_senders h"
  "hp_states (set_registry e r h) = hp_states h" "hp_reads (set_registry e r h) = hp_reads h"
  "hp_forwarders (set_registry e r h) = hp_forwarders h" "hp_drainers (set_registry e r h) = hp_drainers h"
  "hp_next (set_registry e r h) = hp_next h" "hp_channels (set_registry e r h) = hp_channels h"
  "hp_receivers (set_registry e r h) = hp_receivers h" "hp_writes (set_registry e r h) = hp_writes h"
  "hp_waiting (set_registry e r h) = hp_waiting h" "hp_senders (set_registry e r h) = hp_senders h"
  "hp_reads (set_state a s h) = hp_reads h" "hp_states (set_state a s h) = table_insert a s (hp_states h)"
  "hp_forwarders (set_state a s h) = hp_forwarders h" "hp_drainers (set_state a s h) = hp_drainers h"
  "hp_next (set_state a s h) = hp_next h" "hp_channels (set_state a s h) = hp_channels h"
  "hp_registries (set_state a s h) = hp_registries h" "hp_receivers (set_state a s h) = hp_receivers h"
  "hp_writes (set_state a s h) = hp_writes h" "hp_waiting (set_state a s h) = hp_waiting h"
  "hp_senders (set_state a s h) = hp_senders h"
  "hp_registries (set_registry e r h) = table_insert e r (hp_registries h)"
  by (simp_all add: set_queue_def set_registry_def set_state_def)

lemmas hub_ops = push_item_def set_forwarder_def end_forwarder_def

lemma registry_of_others [simp]:
  "registry_of (h\<lparr>hp_next := n\<rparr>) e = registry_of h e" "registry_of (h\<lparr>hp_channels := cs\<rparr>) e = registry_of h e"
  by (simp_all add: registry_of_def)

lemma add_stream_Inr:
  "add_stream e ct d h = Inr (handle, a, h') \<longleftrightarrow>
     a = hp_next h \<and> handle = sr_next_id (registry_of h e) \<and> handle \<le> max_stream_handle
     \<and> h' = set_state a (stream_state_new handle ct d)
         (set_registry e ((registry_of h e)\<lparr>sr_next_id := handle + 1,
              sr_streams := table_insert handle a (sr_streams (registry_of h e))\<rparr>) (h\<lparr>hp_next := Suc a\<rparr>))"
  by (auto simp: add_stream_def adopt_def next_handle_def Let_def)

lemma channel_new_Inr:
  "channel_new capacity h = Inr (c, h') \<longleftrightarrow>
     capacity \<noteq> 0 \<and> c = hp_next h
     \<and> h' = h\<lparr>hp_channels := table_insert c \<lparr>cn_queue = [], cn_capacity = capacity\<rparr> (hp_channels h), hp_next := Suc c\<rparr>"
  by (auto simp: channel_new_def)

lemma poll_source_frame:
  assumes "poll_source src h = Inr (ans, src', h')"
  shows "h' = h \<or> (\<exists>c q. h' = set_queue c q h)"
  using assms by (auto simp: poll_source_def split: list.splits source_tail.splits)

lemma poll_source_tail: "poll_source src h = Inr (ans, src', h') \<Longrightarrow> so_tail src' = so_tail src"
  by (auto simp: poll_source_def split: list.splits source_tail.splits)

section \<open>Sources\<close>

lemma sources_ok_intro:
  assumes "sources_ok P h"
    and "\<And>a s src l. table_get (hp_states h') a = Some s \<Longrightarrow> ss_direction s = Readable src l \<Longrightarrow>
      table_get (hp_states h') a \<noteq> table_get (hp_states h) a \<Longrightarrow> P src"
    and "\<And>a p. table_get (hp_reads h') a = Some p \<Longrightarrow> table_get (hp_reads h') a \<noteq> table_get (hp_reads h) a \<Longrightarrow>
      P (pr_source p)"
    and "\<And>f fw. table_get (hp_forwarders h') f = Some fw \<Longrightarrow>
      table_get (hp_forwarders h') f \<noteq> table_get (hp_forwarders h) f \<Longrightarrow> P (fw_source fw)"
    and "\<And>d dr. table_get (hp_drainers h') d = Some dr \<Longrightarrow>
      table_get (hp_drainers h') d \<noteq> table_get (hp_drainers h) d \<Longrightarrow> P (dr_source dr)"
  shows "sources_ok P h'"
  using assms unfolding sources_ok_def by metis

lemma sources_ok_frame:
  "hp_states h' = hp_states h \<Longrightarrow> hp_reads h' = hp_reads h \<Longrightarrow> hp_forwarders h' = hp_forwarders h \<Longrightarrow>
    hp_drainers h' = hp_drainers h \<Longrightarrow> sources_ok P h' = sources_ok P h"
  by (simp add: sources_ok_def)

lemma sources_ok_set_state:
  "sources_ok P h \<Longrightarrow> (\<And>src l. ss_direction s = Readable src l \<Longrightarrow> P src) \<Longrightarrow> sources_ok P (set_state a s h)"
  by (auto simp: sources_ok_def hub_simps)

lemma sources_ok_set_queue [simp]: "sources_ok P (set_queue c q h) = sources_ok P h"
  by (simp add: sources_ok_def hub_simps)

lemma sources_ok_set_registry [simp]: "sources_ok P (set_registry e r h) = sources_ok P h"
  by (simp add: sources_ok_def hub_simps)

lemma sources_ok_others [simp]:
  "sources_ok P (h\<lparr>hp_next := n\<rparr>) = sources_ok P h" "sources_ok P (h\<lparr>hp_channels := cs\<rparr>) = sources_ok P h"
  "sources_ok P (h\<lparr>hp_receivers := rs\<rparr>) = sources_ok P h" "sources_ok P (h\<lparr>hp_senders := rs\<rparr>) = sources_ok P h"
  "sources_ok P (h\<lparr>hp_waiting := ws\<rparr>) = sources_ok P h" "sources_ok P (h\<lparr>hp_writes := ps\<rparr>) = sources_ok P h"
  by (simp_all add: sources_ok_def)

lemma sources_ok_tasks:
  "sources_ok P h \<Longrightarrow> P (pr_source p) \<Longrightarrow> sources_ok P (h\<lparr>hp_reads := table_insert a p (hp_reads h)\<rparr>)"
  "sources_ok P h \<Longrightarrow> sources_ok P (h\<lparr>hp_reads := table_remove a (hp_reads h)\<rparr>)"
  "sources_ok P h \<Longrightarrow> P (fw_source fw) \<Longrightarrow> sources_ok P (h\<lparr>hp_forwarders := table_insert a fw (hp_forwarders h)\<rparr>)"
  "sources_ok P h \<Longrightarrow> sources_ok P (h\<lparr>hp_forwarders := table_remove a (hp_forwarders h)\<rparr>)"
  "sources_ok P h \<Longrightarrow> P (dr_source dr) \<Longrightarrow> sources_ok P (h\<lparr>hp_drainers := table_insert a dr (hp_drainers h)\<rparr>)"
  "sources_ok P h \<Longrightarrow> sources_ok P (h\<lparr>hp_drainers := table_remove a (hp_drainers h)\<rparr>)"
  by (simp_all add: sources_ok_def split: if_splits)

lemma sources_ok_poll: "poll_source src h = Inr (ans, src', h') \<Longrightarrow> sources_ok P h' = sources_ok P h"
  using poll_source_frame by fastforce

lemma sources_ok_add_stream:
  "add_stream e ct d h = Inr (handle, a, h') \<Longrightarrow> sources_ok P h \<Longrightarrow> (\<And>src l. d = Readable src l \<Longrightarrow> P src) \<Longrightarrow>
    sources_ok P h'"
  by (auto simp: add_stream_Inr stream_state_new_def intro!: sources_ok_set_state)

lemma get_stream_Some:
  "get_stream h e handle = Some (a, s) \<longleftrightarrow>
     table_get (sr_streams (registry_of h e)) handle = Some a \<and> table_get (hp_states h) a = Some s"
  by (auto simp: get_stream_def split: option.splits)

lemma sources_ok_close: "sources_ok P h \<Longrightarrow> P empty_source \<Longrightarrow> sources_ok P (close_stream e handle h)"
  by (auto simp: close_stream_def split: option.splits intro!: sources_ok_set_state)

lemma take_readable_Some:
  "take_readable e handle h = (Some (ct, src), h') \<longleftrightarrow>
     (\<exists>a s src0 l. get_stream h e handle = Some (a, s) \<and> \<not> ss_closed s \<and> ss_direction s = Readable src0 l
        \<and> ct = ss_content_type s \<and> src = chained l src0
        \<and> h' = set_state a (s\<lparr>ss_direction := Readable empty_source None, ss_closed := True\<rparr>) h)"
  by (auto simp: take_readable_def split: option.splits if_splits direction.splits)

lemma take_readable_None: "take_readable e handle h = (None, h') \<Longrightarrow> h' = h"
  by (auto simp: take_readable_def split: option.splits if_splits direction.splits)

lemma sources_ok_take:
  assumes "take_readable e handle h = (Some (ct, src), h')" "sources_ok P h" "P empty_source"
    and "\<And>l src. P src \<Longrightarrow> P (chained l src)"
  shows "sources_ok P h'" "P src"
  using assms by (auto simp: take_readable_Some get_stream_Some sources_ok_def hub_simps split: if_splits)

lemma sources_ok_branches:
  "make_branches n e ct cap h = Inr (cs, handles, h') \<Longrightarrow> sources_ok P h \<Longrightarrow>
    (\<And>c. P (receiver_source c)) \<Longrightarrow> sources_ok P h'"
proof (induction n arbitrary: h cs handles)
  case (Suc n)
  then obtain c h1 handle a h2 cs' handles' where
    *: "channel_new cap h = Inr (c, h1)" "add_stream e ct (Readable \<lparr>so_answers = [], so_tail = Receiver c\<rparr> None) h1 = Inr (handle, a, h2)"
    "make_branches n e ct cap h2 = Inr (cs', handles', h')"
    by (auto simp: rbind_Inr_iff)
  from * Suc.prems(2,3) have "sources_ok P h2"
    by (intro sources_ok_add_stream [OF *(2)]) (auto simp: channel_new_Inr receiver_source_def)
  with Suc.IH [OF *(3)] Suc.prems(3) show ?case by blast
qed simp

lemma sources_ok_installed:
  "install_branches n e ct src h = Inr (branches, h') \<Longrightarrow> sources_ok P h \<Longrightarrow> P src \<Longrightarrow> sources_ok P h'"
proof (induction n arbitrary: h branches)
  case (Suc n)
  then obtain handle a h1 branches' where
    *: "add_stream e ct (Readable src None) h = Inr (handle, a, h1)" "install_branches n e ct src h1 = Inr (branches', h')"
    by (auto simp: rbind_Inr_iff)
  have "sources_ok P h1" using Suc.prems(2,3) by (intro sources_ok_add_stream [OF *(1)]) auto
  with Suc.IH [OF *(2)] Suc.prems(3) show ?case by blast
qed simp

lemma sources_ok_begin_read:
  assumes "begin_read a len h = (r, h')" "sources_ok P h" "P empty_source"
  shows "sources_ok P h'"
  using assms
  by (auto simp: begin_read_def sources_ok_def hub_simps split: option.splits if_splits direction.splits)

lemma sources_ok_put_back:
  assumes "sources_ok P h" "P empty_source" "r = SourceEnded \<or> P src"
  shows "sources_ok P (put_back a r src leftover h)"
  using assms
  by (auto simp: put_back_def restore_source_def note_failure_def sources_ok_def hub_simps Let_def
      split: option.splits if_splits direction.splits read_result.splits)

lemma sources_ok_poll_read:
  assumes "poll_read fired a h = Inr (r, h')" "sources_ok ends_well h"
  shows "sources_ok ends_well h'"
proof (cases "table_get (hp_reads h) a")
  case (Some p)
  with assms(2) have p: "ends_well (pr_source p)" by (auto simp: sources_ok_def)
  show ?thesis
  proof (cases "pr_leftover p")
    case (Some chunk)
    with \<open>table_get (hp_reads h) a = Some p\<close> assms p show ?thesis
      by (auto simp: poll_read_def copy_out_def Let_def intro: sources_ok_put_back)
  next
    case None
    with assms(1) \<open>table_get (hp_reads h) a = Some p\<close> obtain ans src h1 where
      polled: "poll_source (pr_source p) h = Inr (ans, src, h1)"
      by (auto simp: poll_read_def rbind_Inr_iff)
    have h1: "sources_ok ends_well h1" using sources_ok_poll [OF polled] assms(2) by simp
    moreover have "ans \<noteq> Ends \<Longrightarrow> ends_well src" using poll_ends_well(2) [OF p polled] by blast
    ultimately show ?thesis
      using assms(1) \<open>table_get (hp_reads h) a = Some p\<close> None polled
      by (cases ans) (auto simp: poll_read_def copy_out_def Let_def split: if_splits
          intro!: sources_ok_put_back sources_ok_tasks)
  qed
qed (use assms in \<open>auto simp: poll_read_def\<close>)

lemma sources_ok_forward_poll:
  assumes "forward_poll f h = Inr h'" "sources_ok ends_well h"
  shows "sources_ok ends_well h'"
proof (cases "table_get (hp_forwarders h) f")
  case (Some fw)
  with assms(2) have p: "ends_well (fw_source fw)" by (auto simp: sources_ok_def)
  show ?thesis
  proof (cases "fw_sending fw")
    case None
    with assms(1) Some obtain ans src h1 where polled: "poll_source (fw_source fw) h = Inr (ans, src, h1)"
      by (auto simp: forward_poll_def rbind_Inr_iff)
    have "sources_ok ends_well h1" using sources_ok_poll [OF polled] assms(2) by simp
    moreover have "ans \<noteq> Ends \<Longrightarrow> ends_well src" using poll_ends_well(2) [OF p polled] by blast
    ultimately show ?thesis
      using assms(1) Some None polled
      by (cases ans) (auto simp: forward_poll_def hub_ops Let_def intro!: sources_ok_tasks)
  qed (use assms Some in \<open>auto simp: forward_poll_def\<close>)
qed (use assms in \<open>auto simp: forward_poll_def\<close>)

lemma sources_ok_drain_poll:
  assumes "drain_poll d h = Inr (r, h')" "sources_ok ends_well h"
  shows "sources_ok ends_well h'"
proof (cases "table_get (hp_drainers h) d")
  case (Some dr)
  with assms(2) have p: "ends_well (dr_source dr)" by (auto simp: sources_ok_def)
  from assms(1) Some obtain ans src h1 where polled: "poll_source (dr_source dr) h = Inr (ans, src, h1)"
    by (auto simp: drain_poll_def rbind_Inr_iff)
  have h1: "sources_ok ends_well h1" using sources_ok_poll [OF polled] assms(2) by simp
  moreover have "ans \<noteq> Ends \<Longrightarrow> ends_well src" using poll_ends_well(2) [OF p polled] by blast
  ultimately show ?thesis
    using assms(1) Some polled
    by (cases ans) (auto simp: drain_poll_def Let_def rbind_Inr_iff intro!: sources_ok_tasks
        elim!: sources_ok_installed)
qed (use assms in \<open>auto simp: drain_poll_def\<close>)

text \<open>What the embedder promises of a source it registers.\<close>

definition op_ends_well :: "stream_op \<Rightarrow> bool" where
  "op_ends_well x =
     (case x of OpenReadable _ _ answers fused \<Rightarrow> ends_well (own_source answers fused) | _ \<Rightarrow> True)"

lemma adopt_panic: "adopt e a h = Inl p \<Longrightarrow> p = HandleOverflow"
  by (auto simp: adopt_def next_handle_def rbind_Inl_iff split: if_splits)

lemma add_stream_panic: "add_stream e ct d h = Inl p \<Longrightarrow> p = HandleOverflow"
  by (auto simp: add_stream_def rbind_Inl_iff Let_def dest: adopt_panic)

lemma channel_new_panic: "channel_new cap h = Inl p \<Longrightarrow> p = ZeroCapacity"
  by (auto simp: channel_new_def split: if_splits)

lemma branches_panic: "make_branches n e ct cap h = Inl p \<Longrightarrow> p \<noteq> PolledPastEnd"
  by (induction n arbitrary: h) (auto simp: rbind_Inl_iff dest!: add_stream_panic channel_new_panic)

lemma installed_panic: "install_branches n e ct src h = Inl p \<Longrightarrow> p \<noteq> PolledPastEnd"
  by (induction n arbitrary: h) (auto simp: rbind_Inl_iff dest!: add_stream_panic)

lemma perform_sources_ok:
  assumes "perform x h = Inr (evs, h')" "sources_ok ends_well h" "op_ends_well x"
  shows "sources_ok ends_well h'"
proof (cases x)
  case (OpenReadable e ct answers fused)
  with assms show ?thesis
    by (auto simp: rbind_Inr_iff register_readable_def op_ends_well_def elim!: sources_ok_add_stream)
next
  case (OpenWritable e ct cap)
  with assms show ?thesis
    by (auto simp: rbind_Inr_iff register_writable_def channel_new_Inr elim!: sources_ok_add_stream)
next
  case (OpenReceiver e ct c)
  with assms show ?thesis
    by (auto simp: rbind_Inr_iff register_readable_def open_receiver_def split: if_splits elim!: sources_ok_add_stream)
next
  case (FanOutStreaming e producer n cap)
  with assms obtain r where r: "fan_out_readable_streaming e producer n cap h = Inr (r, h')"
    by (auto simp: rbind_Inr_iff)
  show ?thesis
  proof (cases "take_readable e producer h")
    case (Pair t h1)
    show ?thesis
    proof (cases t)
      case None
      with r Pair assms(2) show ?thesis
        by (auto simp: fan_out_readable_streaming_def split: if_splits dest!: take_readable_None)
    next
      case (Some p)
      then obtain ct src where t: "take_readable e producer h = (Some (ct, src), h1)" using Pair by (cases p) auto
      have "sources_ok ends_well h1" "ends_well src"
        using sources_ok_take [OF t assms(2)] by auto
      with r t assms(2) show ?thesis
        by (auto simp: fan_out_readable_streaming_def rbind_Inr_iff split: if_splits
            intro!: sources_ok_tasks elim!: sources_ok_branches)
    qed
  qed
next
  case (FanOutEager e producer n)
  show ?thesis
  proof (cases "take_readable e producer h")
    case (Pair t h1)
    show ?thesis
    proof (cases t)
      case None
      with Pair FanOutEager assms show ?thesis
        by (auto simp: fan_out_readable_shared_def split: if_splits dest!: take_readable_None)
    next
      case (Some p)
      then obtain ct src where t: "take_readable e producer h = (Some (ct, src), h1)" using Pair by (cases p) auto
      have "sources_ok ends_well h1" "ends_well src"
        using sources_ok_take [OF t assms(2)] by auto
      with t FanOutEager assms show ?thesis
        by (auto simp: fan_out_readable_shared_def split: if_splits intro!: sources_ok_tasks)
    qed
  qed
next
  case (MoveStream e handle e')
  with assms show ?thesis
    by (auto simp: rbind_Inr_iff move_stream_def take_stream_def adopt_def next_handle_def Let_def
        split: option.splits if_splits prod.splits)
next
  case (StartRead e handle len)
  with assms show ?thesis
    by (auto simp: start_read_def split: option.splits if_splits prod.splits elim!: sources_ok_begin_read)
next
  case (ResumeRead a)
  with assms show ?thesis
    by (auto simp: resume_read_def split: option.splits if_splits prod.splits elim!: sources_ok_begin_read)
next
  case (PollWrite fired w)
  with assms show ?thesis
    by (auto simp: poll_write_def hub_ops Let_def split: option.splits if_splits prod.splits
        intro!: sources_ok_set_state) (auto simp: sources_ok_def)
next
  case (ForwardSend f k)
  with assms show ?thesis
    by (auto simp: forward_send_def hub_ops Let_def split: option.splits if_splits prod.splits
        intro!: sources_ok_tasks) (auto simp: sources_ok_def)
next
  case (ForwardJoin f)
  with assms show ?thesis
    by (auto simp: forward_join_def hub_ops split: option.splits if_splits prod.splits sum.splits
        intro!: sources_ok_tasks) (auto simp: sources_ok_def)
next
  case (StartWrite e handle data)
  with assms show ?thesis
    by (auto simp: start_write_def split: option.splits if_splits prod.splits direction.splits)
qed (use assms in \<open>auto simp: rbind_Inr_iff host_receive_def close_handle_def drain_registry_def
        sources_ok_close split: option.splits if_splits list.splits
        elim!: sources_ok_poll_read sources_ok_forward_poll sources_ok_drain_poll\<close>)

lemma perform_panic:
  assumes "perform x h = Inl p" "sources_ok ends_well h"
  shows "p \<noteq> PolledPastEnd"
proof -
  have poll: "poll_source src h \<noteq> Inl p" if "ends_well src" for src
    using poll_ends_well(1) [OF that] .
  from assms show ?thesis
  proof (cases x)
    case (PollRead fired a)
    with assms poll show ?thesis
      by (auto simp: poll_read_def rbind_Inl_iff sources_ok_def Let_def split: option.splits)
  next
    case (ForwardPoll f)
    with assms poll show ?thesis
      by (auto simp: forward_poll_def rbind_Inl_iff sources_ok_def Let_def split: option.splits if_splits)
  next
    case (DrainPoll d)
    show ?thesis
    proof (cases "table_get (hp_drainers h) d")
      case (Some dr)
      with assms(2) poll have "poll_source (dr_source dr) h \<noteq> Inl p" by (auto simp: sources_ok_def)
      with assms(1) DrainPoll Some obtain ans src h1 where polled: "poll_source (dr_source dr) h = Inr (ans, src, h1)"
        by (cases "poll_source (dr_source dr) h") (auto simp: drain_poll_def rbind_Inl_iff)
      with assms(1) DrainPoll Some show ?thesis
        by (cases ans) (auto simp: drain_poll_def Let_def rbind_Inl_iff dest!: installed_panic)
    qed (use assms(1) DrainPoll in \<open>auto simp: drain_poll_def\<close>)
  next
    case (FanOutStreaming e producer n cap)
    with assms(1) show ?thesis
      by (auto simp: fan_out_readable_streaming_def rbind_Inl_iff split: option.splits if_splits prod.splits
          dest!: branches_panic)
  next
    case (MoveStream e handle e')
    then have "perform x h = rbind (move_stream e handle e' h) (\<lambda>h1. Inr ([], h1))" by simp
    with assms(1) have "move_stream e handle e' h = Inl p" by (simp add: rbind_Inl_iff)
    then show ?thesis
      by (auto simp: move_stream_def rbind_Inl_iff split: option.splits prod.splits dest!: adopt_panic)
  qed (auto simp: rbind_Inl_iff register_readable_def register_writable_def open_receiver_def
      split: option.splits if_splits prod.splits dest!: add_stream_panic channel_new_panic)
qed

text \<open>
  C20. No interleaving polls a source past its end. Whatever reads, parallel reads of one handle, closes,
  cancellations and fan-outs are interleaved, a source that panics when it is polled after its end (an
  \<open>Unfold\<close>) is not: a guest cannot panic its host by reading once more.
\<close>

theorem no_poll_past_end:
  assumes "list_all op_ends_well xs"
  shows "perform_all xs hub_new \<noteq> Inl PolledPastEnd"
proof -
  have "perform_all xs h \<noteq> Inl PolledPastEnd" if "sources_ok ends_well h" for h
    using assms that
  proof (induction xs arbitrary: h)
    case (Cons x xs)
    then have "perform x h = Inr (evs, h1) \<Longrightarrow> perform_all xs h1 \<noteq> Inl PolledPastEnd" for evs h1
      by (auto dest: perform_sources_ok)
    moreover have "perform x h \<noteq> Inl PolledPastEnd" using perform_panic Cons.prems(2) by blast
    ultimately show ?case by (auto simp: rbind_Inl_iff)
  qed simp
  moreover have "sources_ok ends_well hub_new" by (simp add: sources_ok_def hub_new_def table_get_def)
  ultimately show ?thesis by blast
qed

text \<open>A run with an unfused source: two readers of one handle, a cancelled wait, and reads past the end.\<close>

definition sample_stream_ops :: "stream_op list" where
  "sample_stream_ops =
     [OpenReadable 1 ''text/plain'' [Yields [1, 2, 3], Waits, Yields [], Yields [4], Ends] False,
      StartRead 1 1 2, StartRead 1 1 8, PollRead False 0, ResumeRead 0, PollRead False 0,
      StartRead 1 1 8, PollRead True 0, StartRead 1 1 8, PollRead False 0, PollRead False 0,
      StartRead 1 1 8, PollRead False 0, StartRead 1 1 8, PollRead False 0]"

lemma sample_stream_run:
  "map_sum (\<lambda>p. p) (\<lambda>(evs, _). concat (map (\<lambda>ev. case ev of ReadDone _ r \<Rightarrow> [(r, read_code r)] | _ \<Rightarrow> []) evs))
     (perform_all sample_stream_ops hub_new)
   = Inr [(Copied [1, 2], 2), (Copied [3], 1), (ReadReleased, -7), (Copied [4], 1), (SourceEnded, -1), (SourceEnded, -1)]"
  by code_simp

text \<open>
  A fan-out does not go through the gate of reads. While a read waits, its stream holds a placeholder: the
  fan-out takes that, so its branch ends at once, and what the source still gives after the chunk the read
  was waiting for reaches nobody.
\<close>

definition parked_ops :: "stream_op list" where
  "parked_ops =
     [OpenReadable 1 ''text/plain'' [Waits, Yields [1], Yields [2], Ends] True, StartRead 1 1 8, PollRead False 0,
      FanOutEager 1 1 1, DrainPoll 1, StartRead 1 2 8, PollRead False 2, PollRead False 0, StartRead 1 1 8]"

lemma fan_out_during_read:
  "map_sum (\<lambda>p. p) (\<lambda>(evs, _). concat (map (\<lambda>ev. case ev of ReadDone a r \<Rightarrow> [(a, r)] | _ \<Rightarrow> []) evs))
     (perform_all parked_ops hub_new)
   = Inr [(2, SourceEnded), (0, Copied [1]), (0, ReadRefused stream_closed)]"
  by code_simp

text \<open>After a fan-out the original handle is closed: a read of it is refused, and does not report the end.\<close>

lemma read_after_fan_out:
  "map_sum (\<lambda>p. p) (\<lambda>(evs, _). concat (map (\<lambda>ev. case ev of ReadDone a r \<Rightarrow> [(a, read_code r)] | _ \<Rightarrow> []) evs))
     (perform_all [OpenReadable 1 ''text/plain'' [Yields [1], Ends] True, FanOutStreaming 1 1 2 4, StartRead 1 1 8]
        hub_new)
   = Inr [(0, stream_closed)]"
  by code_simp

theorem no_poll_past_end_witness: "perform_all sample_stream_ops hub_new \<noteq> Inl PolledPastEnd"
proof (rule no_poll_past_end)
  have "ends_well (own_source [Yields [1, 2, 3], Waits, Yields [], Yields [4], Ends] False)"
    by (simp add: ends_well_def own_source_def exI [of _ "[Yields [1, 2, 3], Waits, Yields [], Yields [4]]"])
  then show "list_all op_ends_well sample_stream_ops"
    by (simp add: sample_stream_ops_def op_ends_well_def)
qed

section \<open>Channels\<close>

definition queue :: "hub \<Rightarrow> nat \<Rightarrow> stream_item list" where
  "queue h c = cn_queue (channel_of h c)"

definition pushed :: "nat \<Rightarrow> stream_event list \<Rightarrow> stream_item list" where
  "pushed c evs = concat (map (\<lambda>ev. case ev of Pushed c' i \<Rightarrow> if c' = c then [i] else [] | _ \<Rightarrow> []) evs)"

definition popped :: "nat \<Rightarrow> stream_event list \<Rightarrow> stream_item list" where
  "popped c evs = concat (map (\<lambda>ev. case ev of Popped c' i \<Rightarrow> if c' = c then [i] else [] | _ \<Rightarrow> []) evs)"

lemma pushed_simps [simp]:
  "pushed c [] = []" "pushed c (evs @ evs') = pushed c evs @ pushed c evs'"
  "pushed c (Pushed c' i # evs) = (if c' = c then i # pushed c evs else pushed c evs)"
  "pushed c (Opened a src # evs) = pushed c evs" "pushed c (ReadDone a r # evs) = pushed c evs"
  "pushed c (WriteDone a code # evs) = pushed c evs" "pushed c (Popped c' i # evs) = pushed c evs"
  "pushed c (Lost f c' # evs) = pushed c evs" "pushed c (Forwarding f src cs # evs) = pushed c evs"
  "pushed c (Forwarded f # evs) = pushed c evs" "pushed c (Draining d src # evs) = pushed c evs"
  "pushed c (Drained d branches # evs) = pushed c evs"
  by (simp_all add: pushed_def)

lemma popped_simps [simp]:
  "popped c [] = []" "popped c (evs @ evs') = popped c evs @ popped c evs'"
  "popped c (Popped c' i # evs) = (if c' = c then i # popped c evs else popped c evs)"
  "popped c (Opened a src # evs) = popped c evs" "popped c (ReadDone a r # evs) = popped c evs"
  "popped c (WriteDone a code # evs) = popped c evs" "popped c (Pushed c' i # evs) = popped c evs"
  "popped c (Lost f c' # evs) = popped c evs" "popped c (Forwarding f src cs # evs) = popped c evs"
  "popped c (Forwarded f # evs) = popped c evs" "popped c (Draining d src # evs) = popped c evs"
  "popped c (Drained d branches # evs) = popped c evs"
  by (simp_all add: popped_def)

lemma no_channel_events [simp]:
  "pushed c (opened_branches h bs) = []" "popped c (opened_branches h bs) = []"
  "pushed c (read_events a r) = []" "popped c (read_events a r) = []"
  "pushed c (started_task k h) = []" "popped c (started_task k h) = []"
  "pushed c (ended_forwarder k h h') = []" "popped c (ended_forwarder k h h') = []"
  "pushed c (popped_by h src) = []" "pushed c (pops h opt) = []"
proof -
  show "pushed c (opened_branches h bs) = []" "popped c (opened_branches h bs) = []"
    unfolding opened_branches_def by (induction bs) auto
qed (auto simp: read_events_def started_task_def ended_forwarder_def popped_by_def pops_def
    split: option.splits source_tail.splits list.splits)

lemma queue_set_queue [simp]: "queue (set_queue c q h) c' = (if c' = c then q else queue h c')"
  by (simp add: queue_def set_queue_def channel_of_def)

lemma queue_push [simp]: "queue (push_item c i h) c' = (if c' = c then queue h c @ [i] else queue h c')"
  by (simp add: push_item_def flip: queue_def)

lemma queue_frame: "hp_channels h' = hp_channels h \<Longrightarrow> queue h' c = queue h c"
  by (simp add: queue_def channel_of_def)

lemma channels_frame [hub_simps]:
  "hp_channels (put_back a r src l h) = hp_channels h"
  "hp_channels (close_stream e handle h) = hp_channels h"
  "hp_channels (end_forwarder f h) = hp_channels h" "hp_channels (set_forwarder f fw h) = hp_channels h"
  by (simp_all add: put_back_def close_stream_def hub_ops hub_simps Let_def split: option.splits prod.splits)

lemma queue_others [simp]:
  "queue (h\<lparr>hp_states := ss\<rparr>) c = queue h c" "queue (h\<lparr>hp_registries := rs\<rparr>) c = queue h c"
  "queue (h\<lparr>hp_reads := ps\<rparr>) c = queue h c" "queue (h\<lparr>hp_waiting := ws\<rparr>) c = queue h c"
  "queue (h\<lparr>hp_writes := ws'\<rparr>) c = queue h c" "queue (h\<lparr>hp_forwarders := fs\<rparr>) c = queue h c"
  "queue (h\<lparr>hp_drainers := ds\<rparr>) c = queue h c" "queue (h\<lparr>hp_receivers := cs\<rparr>) c = queue h c"
  "queue (h\<lparr>hp_senders := cs\<rparr>) c = queue h c" "queue (h\<lparr>hp_next := n\<rparr>) c = queue h c"
  "queue (set_state a s h) c = queue h c" "queue (set_registry e r h) c = queue h c"
  "queue (set_forwarder f fw h) c = queue h c" "queue (end_forwarder f h) c = queue h c"
  "queue (put_back a res src l h) c = queue h c" "queue (close_stream e handle h) c = queue h c"
  by (rule queue_frame; simp add: hub_simps)+

lemma take_readable_channels: "take_readable e handle h = (r, h') \<Longrightarrow> hp_channels h' = hp_channels h"
  by (cases r) (auto simp: take_readable_Some hub_simps dest: take_readable_None)

lemma add_stream_channels: "add_stream e ct d h = Inr (handle, a, h') \<Longrightarrow> hp_channels h' = hp_channels h"
  by (auto simp: add_stream_Inr hub_simps)

lemma begin_read_channels: "begin_read a len h = (r, h') \<Longrightarrow> hp_channels h' = hp_channels h"
  by (auto simp: begin_read_def hub_simps split: option.splits if_splits direction.splits)

lemma installed_channels: "install_branches n e ct src h = Inr (bs, h') \<Longrightarrow> hp_channels h' = hp_channels h"
  by (induction n arbitrary: h bs) (auto simp: rbind_Inr_iff dest!: add_stream_channels)

text \<open>Every address and number in use is below the counter.\<close>

definition all_under :: "nat \<Rightarrow> (nat, 'v) table \<Rightarrow> bool" where
  "all_under n t \<longleftrightarrow> (\<forall>k. table_get t k \<noteq> None \<longrightarrow> k < n)"

definition fresh_hub :: "hub \<Rightarrow> bool" where
  "fresh_hub h \<longleftrightarrow> all_under (hp_next h) (hp_states h) \<and> all_under (hp_next h) (hp_channels h)
     \<and> all_under (hp_next h) (hp_writes h) \<and> all_under (hp_next h) (hp_forwarders h) \<and> all_under (hp_next h) (hp_drainers h)
     \<and> (\<forall>a. table_get (hp_reads h) a \<noteq> None \<longrightarrow> table_get (hp_states h) a \<noteq> None)"

lemma all_under_insert: "all_under n t \<Longrightarrow> k < n \<Longrightarrow> all_under n (table_insert k v t)"
  by (simp add: all_under_def)

lemma all_under_remove: "all_under n t \<Longrightarrow> all_under n (table_remove k t)"
  by (simp add: all_under_def)

lemma all_under_mono: "all_under n t \<Longrightarrow> n \<le> m \<Longrightarrow> all_under m t"
  unfolding all_under_def by (meson less_le_trans)

lemma all_under_known: "all_under n t \<Longrightarrow> table_get t k = Some v \<Longrightarrow> k < n"
  by (simp add: all_under_def)

lemma all_under_update: "all_under n t \<Longrightarrow> table_get t k \<noteq> None \<Longrightarrow> all_under n (table_insert k v t)"
  by (simp add: all_under_def)

lemmas all_under_intros = all_under_insert all_under_remove all_under_update

lemma all_under_Suc: "all_under n t \<Longrightarrow> all_under (Suc n) t"
  by (rule all_under_mono) auto

lemma queue_fresh: "fresh_hub h \<Longrightarrow> hp_next h \<le> c \<Longrightarrow> queue h c = []"
  by (auto simp: fresh_hub_def queue_def channel_of_def split: option.splits dest: all_under_known)

lemma channel_new_queue:
  "channel_new cap h = Inr (c, h') \<Longrightarrow> fresh_hub h \<Longrightarrow> queue h' c' = queue h c'"
  using queue_fresh [of h "hp_next h"] by (auto simp: channel_new_Inr queue_def channel_of_def)

lemma poll_queue:
  "poll_source src h = Inr (ans, src', h') \<Longrightarrow> popped c (popped_by h src) @ queue h' c = queue h c"
  by (auto simp: poll_source_def popped_by_def queue_def [symmetric] split: list.splits source_tail.splits)

lemma fresh_add_stream:
  assumes "add_stream e ct d h = Inr (handle, a, h')" "fresh_hub h"
  shows "fresh_hub h'"
  using assms by (auto simp: add_stream_Inr fresh_hub_def hub_simps intro: all_under_Suc intro!: all_under_insert)

lemma fresh_channel_new:
  assumes "channel_new cap h = Inr (c, h')" "fresh_hub h"
  shows "fresh_hub h'"
  using assms by (auto simp: channel_new_Inr fresh_hub_def hub_simps intro: all_under_Suc intro!: all_under_insert)

lemma branches_fresh_queue:
  "make_branches n e ct cap h = Inr (cs, handles, h') \<Longrightarrow> fresh_hub h \<Longrightarrow> fresh_hub h' \<and> queue h' c = queue h c"
proof (induction n arbitrary: h cs handles)
  case (Suc n)
  then obtain c0 h1 handle a h2 cs' handles' where
    *: "channel_new cap h = Inr (c0, h1)" "add_stream e ct (Readable \<lparr>so_answers = [], so_tail = Receiver c0\<rparr> None) h1 = Inr (handle, a, h2)"
    "make_branches n e ct cap h2 = Inr (cs', handles', h')"
    by (auto simp: rbind_Inr_iff)
  have "fresh_hub h2" using fresh_channel_new [OF *(1) Suc.prems(2)] fresh_add_stream [OF *(2)] by blast
  moreover have "queue h2 c = queue h c"
    using channel_new_queue [OF *(1) Suc.prems(2)] queue_frame [OF add_stream_channels [OF *(2)]] by simp
  ultimately show ?case using Suc.IH [OF *(3)] by simp
qed simp

lemma installed_fresh: "install_branches n e ct src h = Inr (bs, h') \<Longrightarrow> fresh_hub h \<Longrightarrow> fresh_hub h'"
  by (induction n arbitrary: h bs) (auto simp: rbind_Inr_iff dest: fresh_add_stream)

lemma fresh_set_state:
  "fresh_hub h \<Longrightarrow> table_get (hp_states h) a \<noteq> None \<Longrightarrow> fresh_hub (set_state a s h)"
  by (auto simp: fresh_hub_def hub_simps intro: all_under_update)

lemma fresh_others [simp]:
  "fresh_hub (h\<lparr>hp_receivers := rs\<rparr>) = fresh_hub h" "fresh_hub (h\<lparr>hp_senders := rs\<rparr>) = fresh_hub h"
  "fresh_hub (h\<lparr>hp_waiting := ws\<rparr>) = fresh_hub h" "fresh_hub (set_registry e r h) = fresh_hub h"
  by (simp_all add: fresh_hub_def hub_simps)

lemma fresh_set_queue:
  "fresh_hub h \<Longrightarrow> queue h c \<noteq> [] \<or> has_room h c \<Longrightarrow> fresh_hub (set_queue c q h)"
proof -
  assume *: "fresh_hub h" "queue h c \<noteq> [] \<or> has_room h c"
  have "table_get (hp_channels h) c \<noteq> None"
    using *(2) by (auto simp: queue_def has_room_def channel_of_def split: option.splits)
  with *(1) show ?thesis
    by (auto simp: fresh_hub_def set_queue_def intro: all_under_update)
qed

lemma fresh_poll: "poll_source src h = Inr (ans, src', h') \<Longrightarrow> fresh_hub h \<Longrightarrow> fresh_hub h'"
  by (auto simp: poll_source_def queue_def split: list.splits source_tail.splits intro!: fresh_set_queue)

lemma fresh_tasks:
  "fresh_hub h \<Longrightarrow> f < hp_next h \<Longrightarrow> fresh_hub (h\<lparr>hp_forwarders := table_insert f fw (hp_forwarders h)\<rparr>)"
  "fresh_hub h \<Longrightarrow> fresh_hub (h\<lparr>hp_forwarders := table_remove f (hp_forwarders h)\<rparr>)"
  "fresh_hub h \<Longrightarrow> f < hp_next h \<Longrightarrow> fresh_hub (h\<lparr>hp_drainers := table_insert f dr (hp_drainers h)\<rparr>)"
  "fresh_hub h \<Longrightarrow> fresh_hub (h\<lparr>hp_drainers := table_remove f (hp_drainers h)\<rparr>)"
  "fresh_hub h \<Longrightarrow> fresh_hub (h\<lparr>hp_writes := table_remove f (hp_writes h)\<rparr>)"
  "fresh_hub h \<Longrightarrow> table_get (hp_states h) f \<noteq> None \<Longrightarrow> fresh_hub (h\<lparr>hp_reads := table_insert f p (hp_reads h)\<rparr>)"
  "fresh_hub h \<Longrightarrow> fresh_hub (h\<lparr>hp_reads := table_remove f (hp_reads h)\<rparr>)"
  "fresh_hub h \<Longrightarrow> hp_next h \<le> n \<Longrightarrow> fresh_hub (h\<lparr>hp_next := n\<rparr>)"
  by (auto simp: fresh_hub_def intro: all_under_intros all_under_mono)

lemma fresh_new_tasks:
  "fresh_hub h \<Longrightarrow>
    fresh_hub (h\<lparr>hp_forwarders := table_insert (hp_next h) fw (hp_forwarders h), hp_next := Suc (hp_next h)\<rparr>)"
  "fresh_hub h \<Longrightarrow>
    fresh_hub (h\<lparr>hp_drainers := table_insert (hp_next h) dr (hp_drainers h), hp_next := Suc (hp_next h)\<rparr>)"
  by (auto simp: fresh_hub_def intro: all_under_Suc intro!: all_under_insert)

lemma fresh_begin_read: "begin_read a len h = (r, h') \<Longrightarrow> fresh_hub h \<Longrightarrow> fresh_hub h'"
  by (auto simp: begin_read_def split: option.splits if_splits direction.splits
      intro!: fresh_set_state fresh_tasks)

lemma fresh_put_back: "fresh_hub h \<Longrightarrow> fresh_hub (put_back a r src l h)"
  by (auto simp: put_back_def Let_def split: option.split intro!: fresh_set_state fresh_tasks)

lemma reads_have_states: "fresh_hub h \<Longrightarrow> table_get (hp_reads h) a = Some p \<Longrightarrow> table_get (hp_states h) a \<noteq> None"
  by (auto simp: fresh_hub_def)

lemma poll_states: "poll_source src h = Inr (ans, src', h') \<Longrightarrow> hp_states h' = hp_states h \<and> hp_reads h' = hp_reads h
    \<and> hp_next h' = hp_next h \<and> hp_forwarders h' = hp_forwarders h \<and> hp_drainers h' = hp_drainers h"
  by (drule poll_source_frame) (auto simp: hub_simps)

lemma fresh_poll_read:
  assumes "poll_read fired a h = Inr (r, h')" "fresh_hub h"
  shows "fresh_hub h'"
proof (cases "table_get (hp_reads h) a")
  case (Some p)
  show ?thesis
  proof (cases "pr_leftover p")
    case None
    with assms(1) Some obtain ans src h1 where polled: "poll_source (pr_source p) h = Inr (ans, src, h1)"
      by (auto simp: poll_read_def rbind_Inr_iff)
    have "fresh_hub h1" "table_get (hp_states h1) a \<noteq> None"
      using fresh_poll [OF polled assms(2)] poll_states [OF polled] reads_have_states [OF assms(2) Some] by auto
    then show ?thesis
      using assms(1) Some None polled
      by (cases ans) (auto simp: poll_read_def copy_out_def Let_def split: if_splits
          intro!: fresh_put_back fresh_tasks)
  qed (use assms Some in \<open>auto simp: poll_read_def copy_out_def Let_def intro!: fresh_put_back\<close>)
qed (use assms in \<open>auto simp: poll_read_def\<close>)

lemma fresh_forward_poll:
  assumes "forward_poll f h = Inr h'" "fresh_hub h"
  shows "fresh_hub h'"
proof (cases "table_get (hp_forwarders h) f")
  case (Some fw)
  show ?thesis
  proof (cases "fw_sending fw")
    case None
    with assms(1) Some obtain ans src h1 where polled: "poll_source (fw_source fw) h = Inr (ans, src, h1)"
      by (auto simp: forward_poll_def rbind_Inr_iff)
    have "f < hp_next h" using assms(2) Some by (auto simp: fresh_hub_def dest: all_under_known)
    then have "fresh_hub h1" "f < hp_next h1"
      using fresh_poll [OF polled assms(2)] poll_states [OF polled] by auto
    then show ?thesis
      using assms(1) Some None polled
      by (cases ans) (auto simp: forward_poll_def hub_ops Let_def intro!: fresh_tasks)
  qed (use assms Some in \<open>auto simp: forward_poll_def\<close>)
qed (use assms in \<open>auto simp: forward_poll_def\<close>)

lemma fresh_drain_poll:
  assumes "drain_poll d h = Inr (r, h')" "fresh_hub h"
  shows "fresh_hub h'"
proof (cases "table_get (hp_drainers h) d")
  case (Some dr)
  from assms(1) Some obtain ans src h1 where polled: "poll_source (dr_source dr) h = Inr (ans, src, h1)"
    by (auto simp: drain_poll_def rbind_Inr_iff)
  have "d < hp_next h" using assms(2) Some by (auto simp: fresh_hub_def dest: all_under_known)
  then have "fresh_hub h1" "d < hp_next h1"
    using fresh_poll [OF polled assms(2)] poll_states [OF polled] by auto
  with assms(1) Some polled show ?thesis
    by (cases ans) (auto simp: drain_poll_def Let_def rbind_Inr_iff intro!: fresh_tasks elim!: installed_fresh)
qed (use assms in \<open>auto simp: drain_poll_def\<close>)

lemma fresh_take: "take_readable e handle h = (r, h') \<Longrightarrow> fresh_hub h \<Longrightarrow> fresh_hub h'"
  by (cases r) (auto simp: take_readable_Some get_stream_Some intro!: fresh_set_state dest: take_readable_None)

lemma fresh_push: "fresh_hub h \<Longrightarrow> has_room h c \<Longrightarrow> fresh_hub (push_item c i h)"
  unfolding push_item_def by (rule fresh_set_queue) auto

lemma has_room_frame: "hp_channels h' = hp_channels h \<Longrightarrow> has_room h' c = has_room h c"
  by (simp add: has_room_def channel_of_def)

lemma fresh_set_forwarder:
  "fresh_hub h \<Longrightarrow> table_get (hp_forwarders h) f \<noteq> None \<Longrightarrow> fresh_hub (set_forwarder f fw h)"
  unfolding set_forwarder_def by (intro fresh_tasks) (auto simp: fresh_hub_def dest: all_under_known)

lemma fresh_forward_send: "fresh_hub h \<Longrightarrow> fresh_hub (forward_send f k h)"
proof (cases "table_get (hp_forwarders h) f")
  case (Some fw)
  assume *: "fresh_hub h"
  have settle: "fresh_hub (set_forwarder f fw' h)" for fw' using fresh_set_forwarder [OF *] Some by simp
  have push: "fresh_hub (set_forwarder f fw' (push_item c i h))" if "has_room h c" for fw' c i
    using fresh_set_forwarder [OF fresh_push [OF * that]] Some by (simp add: push_item_def hub_simps)
  show ?thesis
    using * settle push Some by (auto simp: forward_send_def Let_def split: option.split)
qed (simp add: forward_send_def)

lemma fresh_poll_write:
  assumes "poll_write fired w h = (r, h')" "fresh_hub h"
  shows "fresh_hub h'"
proof (cases "table_get (hp_writes h) w")
  case (Some entry)
  then obtain a c data where entry: "table_get (hp_writes h) w = Some (a, c, data)" by (cases entry) auto
  let ?finished = "h\<lparr>hp_writes := table_remove w (hp_writes h)\<rparr>"
  have fin: "fresh_hub ?finished" using assms(2) by (rule fresh_tasks)
  have push: "fresh_hub (push_item c i ?finished)" if "has_room h c" for i
    using that fin has_room_frame [of ?finished h c] by (intro fresh_push) auto
  have told: "fresh_hub (set_state a s ?finished)" if "table_get (hp_states h) a = Some s'" for s s'
    using that fin by (intro fresh_set_state) auto
  show ?thesis
    using assms entry fin push told by (auto simp: poll_write_def Let_def split: if_splits option.splits)
qed (use assms in \<open>simp add: poll_write_def\<close>)

lemma perform_fresh:
  assumes "perform x h = Inr (evs, h')" "fresh_hub h"
  shows "fresh_hub h'"
proof (cases x)
  case (OpenReadable e ct answers fused)
  with assms show ?thesis by (auto simp: rbind_Inr_iff register_readable_def elim!: fresh_add_stream)
next
  case (OpenWritable e ct cap)
  with assms show ?thesis
    by (auto simp: rbind_Inr_iff register_writable_def dest!: fresh_channel_new fresh_add_stream)
next
  case (OpenReceiver e ct c)
  with assms show ?thesis
    by (auto simp: rbind_Inr_iff register_readable_def open_receiver_def split: if_splits dest!: fresh_add_stream)
next
  case (FanOutStreaming e producer n cap)
  show ?thesis
  proof (cases "take_readable e producer h")
    case (Pair t h1)
    with FanOutStreaming assms fresh_take [OF Pair assms(2)] show ?thesis
      by (auto simp: rbind_Inr_iff fan_out_readable_streaming_def split: option.splits if_splits
          dest!: branches_fresh_queue intro!: fresh_new_tasks)
  qed
next
  case (FanOutEager e producer n)
  show ?thesis
  proof (cases "take_readable e producer h")
    case (Pair t h1)
    with FanOutEager assms fresh_take [OF Pair assms(2)] show ?thesis
      by (auto simp: fan_out_readable_shared_def split: option.splits if_splits prod.splits intro!: fresh_new_tasks)
  qed
next
  case (MoveStream e handle e')
  with assms show ?thesis
    by (auto simp: rbind_Inr_iff move_stream_def take_stream_def adopt_def next_handle_def Let_def
        split: option.splits if_splits prod.splits)
next
  case (StartRead e handle len)
  with assms show ?thesis
    by (auto simp: start_read_def split: option.splits if_splits prod.splits elim!: fresh_begin_read)
next
  case (ResumeRead a)
  with assms show ?thesis
    by (auto simp: resume_read_def split: option.splits if_splits prod.splits elim!: fresh_begin_read)
next
  case (CloseStream e handle)
  with assms show ?thesis
    by (auto simp: close_handle_def close_stream_def get_stream_Some split: option.splits intro!: fresh_set_state)
next
  case (HostReceive c)
  with assms show ?thesis
    by (auto simp: host_receive_def queue_def split: if_splits list.splits intro!: fresh_set_queue)
next
  case (StartWrite e handle data)
  with assms show ?thesis
    by (auto simp: start_write_def fresh_hub_def split: option.splits if_splits prod.splits direction.splits
        intro: all_under_Suc intro!: all_under_insert)
next
  case (PollWrite fired w)
  with assms show ?thesis by (auto split: prod.splits elim: fresh_poll_write)
next
  case (ForwardSend f k)
  with assms show ?thesis by (auto intro: fresh_forward_send)
next
  case (ForwardJoin f)
  with assms show ?thesis
    by (auto simp: forward_join_def end_forwarder_def split: option.splits if_splits prod.splits sum.splits
        intro: fresh_tasks fresh_set_forwarder)
qed (use assms in \<open>auto simp: rbind_Inr_iff drain_registry_def split: option.splits
        elim!: fresh_poll_read fresh_forward_poll fresh_drain_poll\<close>)

text \<open>Each operation takes from the front of a queue and adds at its end.\<close>

lemma move_stream_channels: "move_stream e handle e' h = Inr h' \<Longrightarrow> hp_channels h' = hp_channels h"
  by (auto simp: move_stream_def take_stream_def adopt_def next_handle_def Let_def rbind_Inr_iff hub_simps
      split: option.splits if_splits prod.splits)

lemma poll_read_queue:
  assumes "poll_read fired a h = Inr (r, h')"
  shows "popped c (pops h (read_source_of h a)) @ queue h' c = queue h c"
proof (cases "table_get (hp_reads h) a")
  case (Some p)
  show ?thesis
  proof (cases "pr_leftover p")
    case None
    with assms Some obtain ans src h1 where polled: "poll_source (pr_source p) h = Inr (ans, src, h1)"
      by (auto simp: poll_read_def rbind_Inr_iff)
    have "hp_channels h' = hp_channels h1"
      using assms Some None polled
      by (cases ans) (auto simp: poll_read_def copy_out_def Let_def hub_simps split: if_splits)
    then have "queue h' c = queue h1 c" by (rule queue_frame)
    with poll_queue [OF polled, of c] Some None show ?thesis by (simp add: pops_def read_source_of_def)
  next
    case (Some chunk)
    with \<open>table_get (hp_reads h) a = Some p\<close> assms have "hp_channels h' = hp_channels h"
      by (auto simp: poll_read_def copy_out_def Let_def hub_simps)
    with Some \<open>table_get (hp_reads h) a = Some p\<close> show ?thesis
      using queue_frame [of h' h c] by (simp add: pops_def read_source_of_def)
  qed
qed (use assms in \<open>auto simp: poll_read_def pops_def read_source_of_def\<close>)

lemma forward_poll_queue:
  assumes "forward_poll f h = Inr h'" "table_get (hp_forwarders h) f = Some fw"
  shows "if fw_sending fw = None then popped c (popped_by h (fw_source fw)) @ queue h' c = queue h c
    else queue h' c = queue h c"
proof (cases "fw_sending fw")
  case None
  with assms obtain ans src h1 where polled: "poll_source (fw_source fw) h = Inr (ans, src, h1)"
    by (auto simp: forward_poll_def rbind_Inr_iff)
  have "hp_channels h' = hp_channels h1"
    using assms None polled by (cases ans) (auto simp: forward_poll_def Let_def hub_simps)
  then have "queue h' c = queue h1 c" by (rule queue_frame)
  with poll_queue [OF polled, of c] None show ?thesis by simp
qed (use assms in \<open>auto simp: forward_poll_def\<close>)

lemma drain_poll_queue:
  assumes "drain_poll d h = Inr (r, h')" "table_get (hp_drainers h) d = Some dr"
  shows "popped c (popped_by h (dr_source dr)) @ queue h' c = queue h c"
proof -
  from assms obtain ans src h1 where polled: "poll_source (dr_source dr) h = Inr (ans, src, h1)"
    by (auto simp: drain_poll_def rbind_Inr_iff)
  have "hp_channels h' = hp_channels h1"
    using assms polled
    by (cases ans) (auto simp: drain_poll_def Let_def rbind_Inr_iff dest!: installed_channels)
  then have "queue h' c = queue h1 c" by (rule queue_frame)
  with poll_queue [OF polled, of c] show ?thesis by simp
qed

lemma poll_write_queue:
  assumes "poll_write fired w h = (r, h')"
  shows "queue h' c = queue h c @ pushed c (write_events h w r)"
proof (cases "table_get (hp_writes h) w")
  case (Some entry)
  then obtain a c' data where entry: "table_get (hp_writes h) w = Some (a, c', data)" by (cases entry) auto
  show ?thesis
    using assms entry
    by (auto simp: poll_write_def Let_def write_events_def stream_closed_def stream_cancelled_def
        split: if_splits option.splits)
qed (use assms in \<open>auto simp: poll_write_def write_events_def\<close>)

lemma forward_send_queue: "queue (forward_send f k h) c = queue h c @ pushed c (send_events f k h)"
proof (cases "table_get (hp_forwarders h) f")
  case (Some fw)
  show ?thesis
    using Some by (auto simp: forward_send_def send_events_def Let_def split: option.splits)
qed (simp add: forward_send_def send_events_def)

lemma perform_queue:
  assumes "perform x h = Inr (new, h')" "fresh_hub h"
  shows "popped c new @ queue h' c = queue h c @ pushed c new"
proof (cases x)
  case (OpenReadable e ct answers fused)
  with assms show ?thesis
    by (auto simp: rbind_Inr_iff register_readable_def dest!: add_stream_channels intro: queue_frame)
next
  case (OpenWritable e ct cap)
  with assms obtain c0 h1 handle a h2 where
    *: "channel_new cap h = Inr (c0, h1)" "add_stream e ct (Writable c0) h1 = Inr (handle, a, h2)"
    "h' = h2\<lparr>hp_receivers := c0 # hp_receivers h2\<rparr>" "new = []"
    by (auto simp: rbind_Inr_iff register_writable_def)
  have "queue h' c = queue h2 c" using *(3) by simp
  with channel_new_queue [OF *(1) assms(2)] queue_frame [OF add_stream_channels [OF *(2)]] *(4) show ?thesis by simp
next
  case (OpenReceiver e ct c')
  show ?thesis
  proof (cases "c' \<in> set (hp_receivers h)")
    case True
    with OpenReceiver assms(1) obtain handle a where
      *: "add_stream e ct (Readable (receiver_source c') None) (h\<lparr>hp_receivers := remove1 c' (hp_receivers h)\<rparr>) = Inr (handle, a, h')"
      "new = [Opened a (receiver_source c')]"
      by (auto simp: rbind_Inr_iff register_readable_def open_receiver_def)
    with queue_frame [OF add_stream_channels [OF *(1)], of c] show ?thesis by simp
  qed (use OpenReceiver assms(1) in \<open>auto simp: open_receiver_def\<close>)
next
  case (HoldSender e handle)
  with assms show ?thesis by (auto split: option.splits)
next
  case (HostReceive c')
  with assms show ?thesis by (auto simp: host_receive_def queue_def [symmetric] split: if_splits list.splits)
next
  case (MoveStream e handle e')
  with assms show ?thesis by (auto simp: rbind_Inr_iff dest!: move_stream_channels intro: queue_frame)
next
  case (FanOutStreaming e producer n cap)
  show ?thesis
  proof (cases "take_readable e producer h")
    case (Pair t h1)
    have h1: "queue h1 c = queue h c" by (rule queue_frame [OF take_readable_channels [OF Pair]])
    show ?thesis
      using FanOutStreaming assms Pair h1 fresh_take [OF Pair assms(2)]
      by (auto simp: rbind_Inr_iff fan_out_readable_streaming_def split: option.splits if_splits
          dest!: branches_fresh_queue [where c = c])
  qed
next
  case (FanOutEager e producer n)
  show ?thesis
  proof (cases "take_readable e producer h")
    case (Pair t h1)
    have h1: "queue h1 c = queue h c" by (rule queue_frame [OF take_readable_channels [OF Pair]])
    show ?thesis
      using FanOutEager assms Pair h1
      by (auto simp: fan_out_readable_shared_def split: option.splits if_splits prod.splits)
  qed
next
  case (StartRead e handle len)
  with assms show ?thesis
    by (auto simp: start_read_def split: option.splits if_splits prod.splits
        dest!: begin_read_channels intro!: queue_frame)
next
  case (ResumeRead a)
  with assms show ?thesis
    by (auto simp: resume_read_def split: option.splits if_splits prod.splits
        dest!: begin_read_channels intro!: queue_frame)
next
  case (PollRead fired a)
  with assms show ?thesis by (auto simp: rbind_Inr_iff poll_read_queue)
next
  case (StartWrite e handle data)
  with assms show ?thesis
    by (auto simp: start_write_def split: option.splits if_splits prod.splits direction.splits)
next
  case (PollWrite fired w)
  with assms show ?thesis
    by (cases "poll_write fired w h") (auto simp: poll_write_queue write_events_def split: option.splits)
next
  case (ForwardPoll f)
  with assms obtain polled: "forward_poll f h = Inr h'" by (auto simp: rbind_Inr_iff)
  show ?thesis
  proof (cases "table_get (hp_forwarders h) f")
    case None
    with polled have "h' = h" by (simp add: forward_poll_def)
    with ForwardPoll assms None polled show ?thesis by (auto simp: rbind_Inr_iff)
  next
    case (Some fw)
    with ForwardPoll assms polled forward_poll_queue [OF polled Some, of c] show ?thesis
      by (auto simp: rbind_Inr_iff split: if_splits)
  qed
next
  case (ForwardSend f k)
  with assms show ?thesis by (auto simp: forward_send_queue send_events_def split: option.splits)
next
  case (ForwardJoin f)
  have "hp_channels (forward_join f h) = hp_channels h"
    by (auto simp: forward_join_def hub_simps split: option.splits sum.splits)
  with ForwardJoin assms show ?thesis by (auto intro: queue_frame)
next
  case (DrainPoll d)
  with assms obtain r where polled: "drain_poll d h = Inr (r, h')" by (auto simp: rbind_Inr_iff)
  show ?thesis
  proof (cases "table_get (hp_drainers h) d")
    case None
    with polled have "h' = h" "r = None" by (auto simp: drain_poll_def)
    with DrainPoll assms None polled show ?thesis by (auto simp: rbind_Inr_iff)
  next
    case (Some dr)
    with DrainPoll assms polled drain_poll_queue [OF polled Some, of c] show ?thesis
      by (auto simp: rbind_Inr_iff split: option.splits)
  qed
next
  case (CloseStream e handle)
  with assms show ?thesis by (auto simp: close_handle_def hub_simps)
next
  case (DrainAll e)
  with assms show ?thesis by (auto simp: drain_registry_def hub_simps)
qed (use assms in auto)

definition capacity :: "hub \<Rightarrow> nat \<Rightarrow> nat" where
  "capacity h c = cn_capacity (channel_of h c)"

lemma capacity_frame: "hp_channels h' = hp_channels h \<Longrightarrow> capacity h' c = capacity h c"
  by (simp add: capacity_def channel_of_def)

lemma capacity_set_queue [simp]: "capacity (set_queue c q h) c' = capacity h c'"
  by (simp add: capacity_def set_queue_def channel_of_def)

lemma capacity_push [simp]: "capacity (push_item c i h) c' = capacity h c'"
  by (simp add: push_item_def)

lemma capacity_others [simp]:
  "capacity (h\<lparr>hp_states := ss\<rparr>) c = capacity h c" "capacity (h\<lparr>hp_registries := rs\<rparr>) c = capacity h c"
  "capacity (h\<lparr>hp_reads := ps\<rparr>) c = capacity h c" "capacity (h\<lparr>hp_waiting := ws\<rparr>) c = capacity h c"
  "capacity (h\<lparr>hp_writes := ws'\<rparr>) c = capacity h c" "capacity (h\<lparr>hp_forwarders := fs\<rparr>) c = capacity h c"
  "capacity (h\<lparr>hp_drainers := ds\<rparr>) c = capacity h c" "capacity (h\<lparr>hp_receivers := cs\<rparr>) c = capacity h c"
  "capacity (h\<lparr>hp_senders := cs\<rparr>) c = capacity h c" "capacity (h\<lparr>hp_next := n\<rparr>) c = capacity h c"
  "capacity (set_state a s h) c = capacity h c" "capacity (set_registry e r h) c = capacity h c"
  "capacity (set_forwarder f fw h) c = capacity h c" "capacity (end_forwarder f h) c = capacity h c"
  "capacity (put_back a res src l h) c = capacity h c" "capacity (close_stream e handle h) c = capacity h c"
  by (rule capacity_frame; simp add: hub_simps)+

lemma channel_new_capacity:
  "channel_new cap h = Inr (c, h') \<Longrightarrow> fresh_hub h \<Longrightarrow> capacity h c' \<le> capacity h' c'"
  by (auto simp: channel_new_Inr capacity_def channel_of_def fresh_hub_def dest: all_under_known split: option.split)

lemma branches_capacity:
  "make_branches n e ct cap h = Inr (cs, handles, h') \<Longrightarrow> fresh_hub h \<Longrightarrow> capacity h c \<le> capacity h' c"
proof (induction n arbitrary: h cs handles)
  case (Suc n)
  then obtain c0 h1 handle a h2 cs' handles' where
    *: "channel_new cap h = Inr (c0, h1)" "add_stream e ct (Readable \<lparr>so_answers = [], so_tail = Receiver c0\<rparr> None) h1 = Inr (handle, a, h2)"
    "make_branches n e ct cap h2 = Inr (cs', handles', h')"
    by (auto simp: rbind_Inr_iff)
  have "fresh_hub h2" using fresh_channel_new [OF *(1) Suc.prems(2)] fresh_add_stream [OF *(2)] by blast
  with Suc.IH [OF *(3)] channel_new_capacity [OF *(1) Suc.prems(2), of c]
    capacity_frame [OF add_stream_channels [OF *(2)], of c] show ?case by simp
qed simp

lemma poll_capacity: "poll_source src h = Inr (ans, src', h') \<Longrightarrow> capacity h' c = capacity h c"
  by (drule poll_source_frame) auto

lemma poll_read_capacity:
  assumes "poll_read fired a h = Inr (r, h')"
  shows "capacity h' c = capacity h c"
proof (cases "table_get (hp_reads h) a")
  case (Some p)
  show ?thesis
  proof (cases "pr_leftover p")
    case None
    with assms Some obtain ans src h1 where polled: "poll_source (pr_source p) h = Inr (ans, src, h1)"
      by (auto simp: poll_read_def rbind_Inr_iff)
    from poll_capacity [OF polled, of c] show ?thesis
      using assms Some None polled
      by (cases ans) (auto simp: poll_read_def copy_out_def Let_def split: if_splits)
  qed (use assms Some in \<open>auto simp: poll_read_def copy_out_def Let_def\<close>)
qed (use assms in \<open>auto simp: poll_read_def\<close>)

lemma forward_poll_capacity:
  assumes "forward_poll f h = Inr h'"
  shows "capacity h' c = capacity h c"
proof (cases "table_get (hp_forwarders h) f")
  case (Some fw)
  show ?thesis
  proof (cases "fw_sending fw")
    case None
    with assms Some obtain ans src h1 where polled: "poll_source (fw_source fw) h = Inr (ans, src, h1)"
      by (auto simp: forward_poll_def rbind_Inr_iff)
    from poll_capacity [OF polled, of c] show ?thesis
      using assms None Some polled by (cases ans) (auto simp: forward_poll_def Let_def)
  qed (use assms Some in \<open>auto simp: forward_poll_def\<close>)
qed (use assms in \<open>auto simp: forward_poll_def\<close>)

lemma drain_poll_capacity:
  assumes "drain_poll d h = Inr (r, h')"
  shows "capacity h' c = capacity h c"
proof (cases "table_get (hp_drainers h) d")
  case (Some dr)
  with assms obtain ans src h1 where polled: "poll_source (dr_source dr) h = Inr (ans, src, h1)"
    by (auto simp: drain_poll_def rbind_Inr_iff)
  have "hp_channels h' = hp_channels h1"
    using assms Some polled
    by (cases ans) (auto simp: drain_poll_def Let_def rbind_Inr_iff dest!: installed_channels)
  then show ?thesis using poll_capacity [OF polled, of c] capacity_frame [of h' h1 c] by simp
qed (use assms in \<open>auto simp: drain_poll_def\<close>)

lemma perform_capacity:
  assumes "perform x h = Inr (new, h')" "fresh_hub h"
  shows "capacity h c \<le> capacity h' c"
proof -
  have same: "hp_channels h' = hp_channels h \<Longrightarrow> ?thesis" using capacity_frame [of h' h c] by simp
  show ?thesis
  proof (cases x)
    case (OpenWritable e ct cap)
    with assms obtain c0 h1 handle a h2 where
      *: "channel_new cap h = Inr (c0, h1)" "add_stream e ct (Writable c0) h1 = Inr (handle, a, h2)"
      "h' = h2\<lparr>hp_receivers := c0 # hp_receivers h2\<rparr>"
      by (auto simp: rbind_Inr_iff register_writable_def)
    with channel_new_capacity [OF *(1) assms(2), of c] capacity_frame [OF add_stream_channels [OF *(2)], of c]
    show ?thesis by simp
  next
    case (FanOutStreaming e producer n cap)
    show ?thesis
    proof (cases "take_readable e producer h")
      case (Pair t h1)
      with FanOutStreaming assms capacity_frame [OF take_readable_channels [OF Pair], of c]
        fresh_take [OF Pair assms(2)] show ?thesis
        by (auto simp: rbind_Inr_iff fan_out_readable_streaming_def split: option.splits if_splits
            dest!: branches_capacity [where c = c])
    qed
  next
    case (PollWrite fired w)
    with assms show ?thesis
      by (auto simp: poll_write_def Let_def split: option.splits if_splits prod.splits)
  next
    case (ForwardSend f k)
    with assms show ?thesis
      by (auto simp: forward_send_def Let_def split: option.splits if_splits prod.splits)
  next
    case (PollRead fired a)
    with assms show ?thesis by (auto simp: rbind_Inr_iff poll_read_capacity [where c = c])
  next
    case (ForwardPoll f)
    with assms show ?thesis by (auto simp: rbind_Inr_iff forward_poll_capacity [where c = c])
  next
    case (DrainPoll d)
    with assms show ?thesis by (auto simp: rbind_Inr_iff drain_poll_capacity [where c = c])
  next
    case (HostReceive c')
    with assms show ?thesis by (auto simp: host_receive_def split: if_splits list.splits)
  next
    case (FanOutEager e producer n)
    show ?thesis
    proof (cases "take_readable e producer h")
      case (Pair t h1)
      with FanOutEager assms capacity_frame [OF take_readable_channels [OF Pair], of c] show ?thesis
        by (auto simp: fan_out_readable_shared_def split: option.splits if_splits prod.splits)
    qed
  next
    case (OpenReadable e ct answers fused)
    with assms show ?thesis
      by (auto simp: rbind_Inr_iff register_readable_def dest!: add_stream_channels intro: same)
  next
    case (OpenReceiver e ct c')
    with assms show ?thesis
      by (auto simp: rbind_Inr_iff register_readable_def open_receiver_def split: if_splits
          dest!: add_stream_channels intro: same)
  next
    case (MoveStream e handle e')
    with assms show ?thesis by (auto simp: rbind_Inr_iff dest!: move_stream_channels intro: same)
  next
    case (StartRead e handle len)
    with assms show ?thesis
      by (auto simp: start_read_def split: option.splits if_splits prod.splits
          dest!: begin_read_channels intro!: same)
  next
    case (ResumeRead a)
    with assms show ?thesis
      by (auto simp: resume_read_def split: option.splits if_splits prod.splits
          dest!: begin_read_channels intro!: same)
  next
    case (StartWrite e handle data)
    with assms show ?thesis
      by (auto simp: start_write_def split: option.splits if_splits prod.splits direction.splits)
  next
    case (ForwardJoin f)
    with assms show ?thesis by (auto simp: forward_join_def split: option.splits sum.splits)
  qed (use assms in \<open>auto simp: close_handle_def drain_registry_def split: option.splits\<close>)
qed

lemma perform_push:
  assumes "perform x h = Inr (new, h')" "pushed c new \<noteq> []"
  shows "length (pushed c new) = 1 \<and> has_room h c"
proof (cases x)
  case (FanOutStreaming e producer n cap)
  with assms(1) obtain r where
    "new = (case r of Inr bs \<Rightarrow> opened_branches h' bs @ started_task (hp_next h' - 1) h' | Inl (_ :: fan_out_error) \<Rightarrow> [])"
    by (auto simp: rbind_Inr_iff)
  with assms(2) show ?thesis by (cases r) auto
next
  case (PollWrite fired w)
  with assms show ?thesis
    by (auto simp: poll_write_def write_events_def Let_def stream_closed_def stream_cancelled_def
        split: option.splits if_splits prod.splits)
next
  case (ForwardSend f k)
  with assms show ?thesis by (auto simp: send_events_def split: option.splits if_splits)
next
  case (HostReceive c')
  with assms show ?thesis by (auto simp: host_receive_def split: if_splits list.splits)
next
  case (DrainPoll d)
  with assms show ?thesis by (auto simp: rbind_Inr_iff split: option.splits)
qed (use assms in \<open>auto simp: rbind_Inr_iff open_receiver_def split: option.splits if_splits prod.splits sum.splits\<close>)

lemma fresh_new: "fresh_hub hub_new"
  by (simp add: fresh_hub_def all_under_def hub_new_def table_get_def)

lemma run_fresh: "perform_all xs hub_new = Inr (evs, h) \<Longrightarrow> fresh_hub h"
  by (induction rule: run_induct) (auto simp: fresh_new dest: perform_fresh)


definition sample_pipe_ops :: "stream_op list" where
  "sample_pipe_ops =
     [OpenWritable 1 ''text/plain'' 1, StartWrite 1 1 [7], PollWrite False 2, StartWrite 1 1 [8, 9],
      PollWrite False 3, HostReceive 0, PollWrite False 3]"

lemma sample_pipe_run:
  "map_sum (\<lambda>p. p) (\<lambda>(evs, h). (popped 0 evs, pushed 0 evs)) (perform_all sample_pipe_ops hub_new)
   = Inr ([Inr [7]], [Inr [7], Inr [8, 9]])"
  by code_simp


end
